(* ===== verification/Prelude.thy ===== *)
theory Prelude
  imports Main "HOL-Library.Sublist" "HOL-Library.Multiset"
begin

text \<open>
  Shared vocabulary of the development: names of the model's basic types, the collections of
  rewrite rules the component theories extend, and generic lemmas on association lists, filtered
  sums and extended integers. Nothing here models code; every theory imports it.

  Conventions. Python's unbounded integers are \<open>int\<close>; instants and durations are \<open>int\<close>s
  counting microseconds (the resolution of \<open>datetime\<close>); a Python dictionary whose iteration
  order matters is an association list in insertion order with distinct keys; an exception is the
  \<open>Inl\<close> side of a sum.
\<close>

type_synonym time = int
type_synonym duration = int
type_synonym id_str = string

abbreviation usec_per_sec :: int where
  "usec_per_sec \<equiv> 1000000"

named_theorems store_simps \<open>lookups after updates of the stores of the model\<close>
named_theorems frame_simps \<open>fields an operation leaves alone\<close>

subsection \<open>Python dictionaries as association lists\<close>

text \<open>
  \<open>dict_get\<close> is \<open>d.get(k)\<close>; \<open>dict_set\<close> is \<open>d[k] = v\<close>, which keeps the position of an
  existing key and appends a new one; \<open>dict_del\<close> is \<open>del d[k]\<close>.
\<close>

abbreviation dict_get :: "('k \<times> 'v) list \<Rightarrow> 'k \<Rightarrow> 'v option" where
  "dict_get \<equiv> map_of"

fun dict_set :: "'k \<Rightarrow> 'v \<Rightarrow> ('k \<times> 'v) list \<Rightarrow> ('k \<times> 'v) list" where
  "dict_set k v [] = [(k, v)]"
| "dict_set k v ((k', v') # d) = (if k = k' then (k, v) # d else (k', v') # dict_set k v d)"

definition dict_del :: "'k \<Rightarrow> ('k \<times> 'v) list \<Rightarrow> ('k \<times> 'v) list" where
  "dict_del k d = filter (\<lambda>kv. fst kv \<noteq> k) d"

definition dict_has :: "'k \<Rightarrow> ('k \<times> 'v) list \<Rightarrow> bool" where
  "dict_has k d \<longleftrightarrow> k \<in> fst ` set d"

definition dict_keys :: "('k \<times> 'v) list \<Rightarrow> 'k list" where
  "dict_keys d = map fst d"

lemma dict_get_set [store_simps]:
  "dict_get (dict_set k v d) k' = (if k' = k then Some v else dict_get d k')"
  by (induction d) auto

lemma dict_get_del [store_simps]:
  "dict_get (dict_del k d) k' = (if k' = k then None else dict_get d k')"
  by (induction d) (auto simp: dict_del_def)

lemma dict_has_iff: "dict_has k d \<longleftrightarrow> dict_get d k \<noteq> None"
  by (induction d) (auto simp: dict_has_def)

lemma dict_has_code [code]: "dict_has k d = list_ex (\<lambda>kv. fst kv = k) d"
  by (auto simp: dict_has_def list_ex_iff)

lemma dict_set_fresh: "k \<notin> set (dict_keys d) \<Longrightarrow> dict_set k v d = d @ [(k, v)]"
  by (induction d) (auto simp: dict_keys_def)

lemma keys_dict_set_same: "dict_get d k = Some w \<Longrightarrow> dict_keys (dict_set k v d) = dict_keys d"
  by (induction d) (auto simp: dict_keys_def split: if_splits)

lemma keys_dict_set:
  "set (dict_keys (dict_set k v d)) = insert k (set (dict_keys d))"
  by (induction d rule: dict_set.induct) (simp_all add: dict_keys_def insert_commute)

lemma distinct_dict_set [simp]:
  "distinct (dict_keys d) \<Longrightarrow> distinct (dict_keys (dict_set k v d))"
proof (induction d)
  case (Cons kv d)
  then show ?case
    using keys_dict_set [of k v d] by (cases kv) (auto simp: dict_keys_def)
qed (simp add: dict_keys_def)

lemma keys_dict_del:
  "dict_keys (dict_del k d) = filter (\<lambda>k'. k' \<noteq> k) (dict_keys d)"
  by (induction d) (auto simp: dict_keys_def dict_del_def)

lemma distinct_dict_del [simp]:
  "distinct (dict_keys d) \<Longrightarrow> distinct (dict_keys (dict_del k d))"
  by (simp add: keys_dict_del)

lemma length_dict_del:
  "distinct (dict_keys d) \<Longrightarrow> k \<in> set (dict_keys d) \<Longrightarrow>
   Suc (length (dict_del k d)) = length d"
proof (induction d)
  case (Cons kv d)
  show ?case
  proof (cases "fst kv = k")
    case True
    with Cons.prems have "k \<notin> fst ` set d" by (auto simp: dict_keys_def)
    then have "filter (\<lambda>kv. fst kv \<noteq> k) d = d" by (induction d) auto
    with True show ?thesis by (simp add: dict_del_def)
  next
    case False
    with Cons show ?thesis by (auto simp: dict_keys_def dict_del_def)
  qed
qed (simp add: dict_keys_def)

lemma dict_get_keys: "dict_get d k = Some v \<Longrightarrow> k \<in> set (dict_keys d)"
  by (auto simp: dict_keys_def dest: map_of_SomeD intro: rev_image_eqI)

lemma in_dict_keys_iff: "k \<in> set (dict_keys d) \<longleftrightarrow> (\<exists>v. dict_get d k = Some v)"
  by (induction d) (auto simp: dict_keys_def)

lemma dict_get_map_snd:
  "dict_get (map (\<lambda>(k, v). (k, f k v)) d) k = map_option (f k) (dict_get d k)"
  by (induction d) auto

lemma dict_keys_map_snd: "dict_keys (map (\<lambda>(k, v). (k, f k v)) d) = dict_keys d"
  by (induction d) (auto simp: dict_keys_def)

text \<open>\<open>d.get(k, default)\<close>, which is also how a \<open>defaultdict\<close> or a \<open>Counter\<close> reads a missing key;
  \<open>dict_modify\<close> updates the value under a key that is there, \<open>counter_add\<close> is \<open>d[k] += n\<close> on a \<open>Counter\<close>, \<open>dict_append\<close> is \<open>d[k].append(v)\<close> on a
  \<open>defaultdict(list)\<close>.\<close>

definition dict_get_or :: "('k \<times> 'v) list \<Rightarrow> 'v \<Rightarrow> 'k \<Rightarrow> 'v" where
  "dict_get_or d dflt k = (case dict_get d k of None \<Rightarrow> dflt | Some v \<Rightarrow> v)"

definition counter_add :: "'k \<Rightarrow> int \<Rightarrow> ('k \<times> int) list \<Rightarrow> ('k \<times> int) list" where
  "counter_add k n d = dict_set k (dict_get_or d 0 k + n) d"

definition dict_append :: "'k \<Rightarrow> 'v \<Rightarrow> ('k \<times> 'v list) list \<Rightarrow> ('k \<times> 'v list) list" where
  "dict_append k v d = dict_set k (dict_get_or d [] k @ [v]) d"

definition dict_modify :: "'k \<Rightarrow> ('v \<Rightarrow> 'v) \<Rightarrow> ('k \<times> 'v) list \<Rightarrow> ('k \<times> 'v) list" where
  "dict_modify k f d = map (\<lambda>(k', v). (k', if k' = k then f v else v)) d"

lemma dict_get_modify [store_simps]:
  "dict_get (dict_modify k f d) k' = (if k' = k then map_option f (dict_get d k) else dict_get d k')"
  by (induction d) (auto simp: dict_modify_def)

lemma dict_keys_modify [simp]: "dict_keys (dict_modify k f d) = dict_keys d"
  by (induction d) (auto simp: dict_keys_def dict_modify_def)

lemma dict_get_or_Nil [simp]: "dict_get_or [] dflt k = dflt"
  by (simp add: dict_get_or_def)

lemma dict_get_or_set [store_simps]:
  "dict_get_or (dict_set k v d) dflt k' = (if k' = k then v else dict_get_or d dflt k')"
  by (simp add: dict_get_or_def store_simps)

lemma dict_get_or_counter_add [store_simps]:
  "dict_get_or (counter_add k n d) 0 k' = dict_get_or d 0 k' + (if k' = k then n else 0)"
  by (simp add: counter_add_def store_simps)

lemma dict_get_or_append [store_simps]:
  "dict_get_or (dict_append k v d) [] k' = dict_get_or d [] k' @ (if k' = k then [v] else [])"
  by (simp add: dict_append_def store_simps)

lemma keys_dict_append: "set (dict_keys (dict_append k v d)) = insert k (set (dict_keys d))"
  by (simp add: dict_append_def keys_dict_set)

lemma dict_get_or_mem:
  "distinct (dict_keys d) \<Longrightarrow> (k, v) \<in> set d \<Longrightarrow> dict_get_or d dflt k = v"
  by (auto simp: dict_get_or_def dict_keys_def)

subsection \<open>Sets and numerals as Python prints and updates them\<close>

text \<open>A Python set is a list without duplicates; \<open>set_update\<close> is \<open>s.update(t)\<close>, \<open>set_add\<close> is
  \<open>s.add(x)\<close>. \<open>str_of_int\<close> is \<open>str(i)\<close>.\<close>

definition set_update :: "'a list \<Rightarrow> 'a list \<Rightarrow> 'a list" where
  "set_update s t = s @ filter (\<lambda>x. x \<notin> set s) (remdups t)"

definition set_add :: "'a list \<Rightarrow> 'a \<Rightarrow> 'a list" where
  "set_add s x = (if x \<in> set s then s else s @ [x])"

lemma set_set_update [simp]: "set (set_update s t) = set s \<union> set t"
  by (auto simp: set_update_def)

lemma distinct_set_update [simp]: "distinct s \<Longrightarrow> distinct (set_update s t)"
  by (auto simp: set_update_def)

lemma set_set_add [simp]: "set (set_add s x) = insert x (set s)"
  by (auto simp: set_add_def)

lemma distinct_set_add [simp]: "distinct s \<Longrightarrow> distinct (set_add s x)"
  by (simp add: set_add_def)

lemma length_set_add: "length (set_add s x) \<le> Suc (length s)"
  by (simp add: set_add_def)

fun nat_digits :: "nat \<Rightarrow> string" where
  "nat_digits n = (if n < 10 then [] else nat_digits (n div 10)) @ [char_of (48 + n mod 10)]"

declare nat_digits.simps [simp del]

definition str_of_int :: "int \<Rightarrow> string" where
  "str_of_int i = (if i < 0 then CHR ''-'' # nat_digits (nat (- i)) else nat_digits (nat i))"

subsection \<open>Sums over the rows a query selects\<close>

definition sum_where :: "('a \<Rightarrow> int) \<Rightarrow> ('a \<Rightarrow> bool) \<Rightarrow> 'a list \<Rightarrow> int" where
  "sum_where f P xs = sum_list (map f (filter P xs))"

lemma sum_where_Nil [simp]: "sum_where f P [] = 0"
  by (simp add: sum_where_def)

lemma sum_where_Cons [simp]:
  "sum_where f P (x # xs) = (if P x then f x else 0) + sum_where f P xs"
  by (simp add: sum_where_def)

lemma sum_where_append [simp]:
  "sum_where f P (xs @ ys) = sum_where f P xs + sum_where f P ys"
  by (simp add: sum_where_def)

lemma sum_where_disj:
  "(\<And>x. x \<in> set xs \<Longrightarrow> \<not> (P x \<and> Q x)) \<Longrightarrow>
   sum_where f (\<lambda>x. P x \<or> Q x) xs = sum_where f P xs + sum_where f Q xs"
  by (induction xs) (auto simp: sum_where_def)

lemma sum_where_cong:
  "(\<And>x. x \<in> set xs \<Longrightarrow> P x = Q x) \<Longrightarrow> sum_where f P xs = sum_where f Q xs"
  by (auto simp: sum_where_def cong: filter_cong)

lemma sum_where_none:
  "(\<And>x. x \<in> set xs \<Longrightarrow> \<not> P x) \<Longrightarrow> sum_where f P xs = 0"
  by (induction xs) auto

lemma sum_where_nonneg:
  "(\<And>x. x \<in> set xs \<Longrightarrow> 0 \<le> f x) \<Longrightarrow> 0 \<le> sum_where f P xs"
  by (induction xs) auto

definition count_where :: "('a \<Rightarrow> bool) \<Rightarrow> 'a list \<Rightarrow> int" where
  "count_where P xs = int (length (filter P xs))"

lemma count_where_simps [simp]:
  "count_where P [] = 0"
  "count_where P (x # xs) = (if P x then 1 else 0) + count_where P xs"
  by (simp_all add: count_where_def)

lemma count_where_append [simp]:
  "count_where P (xs @ ys) = count_where P xs + count_where P ys"
  by (simp add: count_where_def)

lemma count_where_nonneg [simp]: "0 \<le> count_where P xs"
  by (simp add: count_where_def)

lemma count_where_zero_iff: "count_where P xs = 0 \<longleftrightarrow> (\<forall>x \<in> set xs. \<not> P x)"
  by (simp add: count_where_def filter_empty_conv)

lemma count_where_pos_iff: "0 < count_where P xs \<longleftrightarrow> (\<exists>x \<in> set xs. P x)"
  using count_where_zero_iff [of P xs] count_where_nonneg [of P xs] by (auto simp: less_le)

lemma count_where_le_length: "count_where P xs \<le> int (length xs)"
  by (simp add: count_where_def)

lemma count_where_eq_length_iff:
  "count_where P xs = int (length xs) \<longleftrightarrow> (\<forall>x \<in> set xs. P x)"
  by (induction xs) (auto, smt (verit) count_where_le_length)+

lemma count_where_filter: "count_where P (filter Q xs) = count_where (\<lambda>x. P x \<and> Q x) xs"
  by (induction xs) auto

lemma count_where_cong:
  "(\<And>x. x \<in> set xs \<Longrightarrow> P x = Q x) \<Longrightarrow> count_where P xs = count_where Q xs"
  by (simp add: count_where_def cong: filter_cong)

lemma count_where_disj:
  "(\<And>x. x \<in> set xs \<Longrightarrow> \<not> (P x \<and> Q x)) \<Longrightarrow>
   count_where P xs + count_where Q xs = count_where (\<lambda>x. P x \<or> Q x) xs"
  by (induction xs) auto

lemma count_where_sum: "count_where P xs = sum_where (\<lambda>_. 1) P xs"
  by (induction xs) auto

lemma sum_where_map: "sum_where f P (map g xs) = sum_where (\<lambda>x. f (g x)) (\<lambda>x. P (g x)) xs"
  by (induction xs) auto

lemma sum_where_sublist:
  assumes "distinct xs" "distinct ys" "set ys \<subseteq> set xs"
  shows "sum_where f (\<lambda>x. Q x \<and> x \<in> set ys) xs = sum_where f Q ys"
proof -
  have "sum_where f P zs = sum f {z \<in> set zs. P z}" if "distinct zs" for P zs
    using that by (simp add: sum_where_def sum_list_distinct_conv_sum_set)
  moreover have "{x \<in> set xs. Q x \<and> x \<in> set ys} = {x \<in> set ys. Q x}" using assms(3) by auto
  ultimately show ?thesis using assms(1,2) by simp
qed

subsection \<open>Integers with positive infinity\<close>

text \<open>
  \<open>float("inf")\<close> stands for an unlimited pool; every other slot count is an integer. Only the
  arithmetic the code performs on such values is defined: subtracting an integer and adding.
\<close>

datatype xint = Fin int | PInf

instantiation xint :: linorder
begin

fun less_eq_xint :: "xint \<Rightarrow> xint \<Rightarrow> bool" where
  "less_eq_xint (Fin a) (Fin b) = (a \<le> b)"
| "less_eq_xint (Fin a) PInf = True"
| "less_eq_xint PInf (Fin b) = False"
| "less_eq_xint PInf PInf = True"

fun less_xint :: "xint \<Rightarrow> xint \<Rightarrow> bool" where
  "less_xint (Fin a) (Fin b) = (a < b)"
| "less_xint (Fin a) PInf = True"
| "less_xint PInf b = False"

instance
proof
  fix x y z :: xint
  show "(x < y) = (x \<le> y \<and> \<not> y \<le> x)" by (cases x; cases y) auto
  show "x \<le> x" by (cases x) auto
  show "x \<le> y \<Longrightarrow> y \<le> z \<Longrightarrow> x \<le> z" by (cases x; cases y; cases z) auto
  show "x \<le> y \<Longrightarrow> y \<le> x \<Longrightarrow> x = y" by (cases x; cases y) auto
  show "x \<le> y \<or> y \<le> x" by (cases x; cases y) auto
qed

end

fun xminus :: "xint \<Rightarrow> int \<Rightarrow> xint" where
  "xminus (Fin a) b = Fin (a - b)"
| "xminus PInf b = PInf"

fun xplus :: "xint \<Rightarrow> xint \<Rightarrow> xint" where
  "xplus (Fin a) (Fin b) = Fin (a + b)"
| "xplus a b = PInf"

fun xsum :: "xint list \<Rightarrow> xint" where
  "xsum [] = Fin 0"
| "xsum (x # xs) = xplus x (xsum xs)"

lemma xint_le_PInf [simp]: "x \<le> PInf"
  by (cases x) auto

lemma xint_less_PInf [simp]: "x < PInf \<longleftrightarrow> x \<noteq> PInf"
  by (cases x) auto

lemma xminus_xminus [simp]: "xminus (xminus x a) b = xminus x (a + b)"
  by (cases x) auto

lemma xminus_zero [simp]: "xminus x 0 = x"
  by (cases x) auto

lemma xminus_nonneg_iff: "Fin 0 \<le> xminus x b \<longleftrightarrow> Fin b \<le> x"
  by (cases x) auto

lemma xminus_pos_iff: "Fin 0 < xminus x b \<longleftrightarrow> Fin b < x"
  by (cases x) auto

lemma xplus_nonneg: "Fin 0 \<le> x \<Longrightarrow> Fin 0 \<le> y \<Longrightarrow> Fin 0 \<le> xplus x y"
  by (cases x; cases y) auto

lemma xsum_nonneg: "(\<And>x. x \<in> set xs \<Longrightarrow> Fin 0 \<le> x) \<Longrightarrow> Fin 0 \<le> xsum xs"
  by (induction xs) (auto intro: xplus_nonneg)

lemma xplus_zero_iff:
  "Fin 0 \<le> x \<Longrightarrow> Fin 0 \<le> y \<Longrightarrow> xplus x y = Fin 0 \<longleftrightarrow> x = Fin 0 \<and> y = Fin 0"
  by (cases x; cases y) auto

lemma xsum_zero_iff:
  "(\<And>x. x \<in> set xs \<Longrightarrow> Fin 0 \<le> x) \<Longrightarrow>
   xsum xs = Fin 0 \<longleftrightarrow> (\<forall>x \<in> set xs. x = Fin 0)"
  by (induction xs) (auto simp: xplus_zero_iff xsum_nonneg)

subsection \<open>Sums as error results\<close>

text \<open>Sequencing of computations that may raise: the first exception wins.\<close>

fun bind_err :: "'e + 'a \<Rightarrow> ('a \<Rightarrow> 'e + 'b) \<Rightarrow> 'e + 'b" where
  "bind_err (Inl e) f = Inl e"
| "bind_err (Inr x) f = f x"

lemma bind_err_Inr_iff [simp]:
  "bind_err r f = Inr y \<longleftrightarrow> (\<exists>x. r = Inr x \<and> f x = Inr y)"
  by (cases r) auto

lemma bind_err_InrE:
  "bind_err r f = Inr y \<Longrightarrow> (\<And>x. r = Inr x \<Longrightarrow> f x = Inr y \<Longrightarrow> P) \<Longrightarrow> P"
  by (cases r) auto

lemma bind_err_Inl_iff:
  "bind_err r f = Inl e \<longleftrightarrow> r = Inl e \<or> (\<exists>x. r = Inr x \<and> f x = Inl e)"
  by (cases r) auto

lemma bind_err_cong [fundef_cong]:
  "r = r' \<Longrightarrow> (\<And>x. r' = Inr x \<Longrightarrow> f x = g x) \<Longrightarrow> bind_err r f = bind_err r' g"
  by (cases r') auto

text \<open>Sequencing of computations that may raise or, as \<open>None\<close>, not return.\<close>

definition bind_run :: "('e + 'a) option \<Rightarrow> ('a \<Rightarrow> ('e + 'b) option) \<Rightarrow> ('e + 'b) option" where
  "bind_run r f = (case r of None \<Rightarrow> None | Some (Inl e) \<Rightarrow> Some (Inl e) | Some (Inr x) \<Rightarrow> f x)"

lemma bind_run_simps [simp]:
  "bind_run None f = None" "bind_run (Some (Inl e)) f = Some (Inl e)" "bind_run (Some (Inr x)) f = f x"
  by (simp_all add: bind_run_def)

lemma bind_run_InrE:
  "bind_run r f = Some (Inr y) \<Longrightarrow> (\<And>x. r = Some (Inr x) \<Longrightarrow> f x = Some (Inr y) \<Longrightarrow> P) \<Longrightarrow> P"
  by (auto simp: bind_run_def split: option.splits sum.splits)

lemma bind_run_returns:
  "r \<noteq> None \<Longrightarrow> (\<And>x. r = Some (Inr x) \<Longrightarrow> f x \<noteq> None) \<Longrightarrow> bind_run r f \<noteq> None"
  by (auto simp: bind_run_def split: option.splits sum.splits)

text \<open>A computation that may raise on each element of a list, in order.\<close>

fun map_err :: "('a \<Rightarrow> 'e + 'b) \<Rightarrow> 'a list \<Rightarrow> 'e + 'b list" where
  "map_err f [] = Inr []"
| "map_err f (x # xs) = bind_err (f x) (\<lambda>y. bind_err (map_err f xs) (\<lambda>ys. Inr (y # ys)))"

lemma map_err_Inr_iff: "map_err f xs = Inr ys \<longleftrightarrow> list_all2 (\<lambda>x y. f x = Inr y) xs ys"
proof (induction xs arbitrary: ys)
  case (Cons x xs)
  then show ?case by (cases ys) auto
qed auto

lemma map_err_cong [fundef_cong]:
  "xs = ys \<Longrightarrow> (\<And>x. x \<in> set ys \<Longrightarrow> f x = g x) \<Longrightarrow> map_err f xs = map_err g ys"
  by (induction ys arbitrary: xs) auto

lemma map_err_defined:
  "(\<And>x. x \<in> set xs \<Longrightarrow> f x = Inr (g x)) \<Longrightarrow> map_err f xs = Inr (map g xs)"
  by (induction xs) auto

text \<open>\<open>for x in xs\<close> over a body that changes the state or raises.\<close>

fun fold_err :: "('a \<Rightarrow> 's \<Rightarrow> 'e + 's) \<Rightarrow> 'a list \<Rightarrow> 's \<Rightarrow> 'e + 's" where
  "fold_err f [] s = Inr s"
| "fold_err f (x # xs) s = bind_err (f x s) (fold_err f xs)"

text \<open>A loop keeps what its body keeps.\<close>

lemma fold_err_inv:
  assumes "fold_err f xs s = Inr s'" "P s" "\<And>x t t'. x \<in> set xs \<Longrightarrow> P t \<Longrightarrow> f x t = Inr t' \<Longrightarrow> P t'"
  shows "P s'"
  using assms
proof (induction xs arbitrary: s)
  case (Cons x xs)
  from Cons.prems(1) obtain t where t: "f x s = Inr t" "fold_err f xs t = Inr s'" by auto
  have "P t" using Cons.prems(3) [OF _ Cons.prems(2) t(1)] by simp
  from t(2) this show ?case by (rule Cons.IH) (rule Cons.prems(3), simp_all)
qed simp

lemma fold_err_cong_inv:
  assumes "P s" "\<And>x s. x \<in> set xs \<Longrightarrow> P s \<Longrightarrow> f x s = g x s" "\<And>x s s'. x \<in> set xs \<Longrightarrow> P s \<Longrightarrow> f x s = Inr s' \<Longrightarrow> P s'"
  shows "fold_err f xs s = fold_err g xs s"
  using assms
proof (induction xs arbitrary: s)
  case (Cons x xs)
  have eq: "f x s = g x s" using Cons.prems(1,2) by simp
  show ?case
  proof (cases "g x s")
    case (Inr t)
    then have "P t" using Cons.prems(1) Cons.prems(3) [of x s t] eq by simp
    then have "fold_err f xs t = fold_err g xs t"
      by (rule Cons.IH) (rule Cons.prems(2), simp_all, rule Cons.prems(3), simp_all)
    with eq Inr show ?thesis by simp
  qed (simp add: eq)
qed simp

end
