(* ===== verification/States.thy ===== *)
theory States
  imports Prelude
begin

text \<open>
  The enumerations the whole program is written over: the states of jobs, task instances and dag
  runs with the named sets of states (\<open>utils/state.py\<close>, \<open>ti_deps/dependencies_states.py\<close>), the
  trigger and weight rules, the dag run types (\<open>utils/types.py\<close>) and the key of a task instance
  (\<open>models/taskinstancekey.py\<close>). The state \<open>None\<close> of a task instance is the HOL value
  \<open>None\<close> of \<open>TaskInstanceState option\<close>.
\<close>

subsection \<open>State enumerations\<close>

datatype JobState = JOB_RUNNING | JOB_SUCCESS | JOB_RESTARTING | JOB_FAILED

datatype DagRunState = DR_QUEUED | DR_RUNNING | DR_SUCCESS | DR_FAILED

datatype TaskInstanceState =
    REMOVED | SCHEDULED | QUEUED | RUNNING | SUCCESS | RESTARTING | FAILED | UP_FOR_RETRY
  | UP_FOR_RESCHEDULE | UPSTREAM_FAILED | SKIPPED | DEFERRED | SHUTDOWN

type_synonym ti_state = "TaskInstanceState option"

fun job_state_value :: "JobState \<Rightarrow> string" where
  "job_state_value JOB_RUNNING = ''running''"
| "job_state_value JOB_SUCCESS = ''success''"
| "job_state_value JOB_RESTARTING = ''restarting''"
| "job_state_value JOB_FAILED = ''failed''"

fun dagrun_state_value :: "DagRunState \<Rightarrow> string" where
  "dagrun_state_value DR_QUEUED = ''queued''"
| "dagrun_state_value DR_RUNNING = ''running''"
| "dagrun_state_value DR_SUCCESS = ''success''"
| "dagrun_state_value DR_FAILED = ''failed''"

fun ti_state_value :: "TaskInstanceState \<Rightarrow> string" where
  "ti_state_value REMOVED = ''removed''"
| "ti_state_value SCHEDULED = ''scheduled''"
| "ti_state_value QUEUED = ''queued''"
| "ti_state_value RUNNING = ''running''"
| "ti_state_value SUCCESS = ''success''"
| "ti_state_value RESTARTING = ''restarting''"
| "ti_state_value FAILED = ''failed''"
| "ti_state_value UP_FOR_RETRY = ''up_for_retry''"
| "ti_state_value UP_FOR_RESCHEDULE = ''up_for_reschedule''"
| "ti_state_value UPSTREAM_FAILED = ''upstream_failed''"
| "ti_state_value SKIPPED = ''skipped''"
| "ti_state_value DEFERRED = ''deferred''"
| "ti_state_value SHUTDOWN = ''shutdown''"

definition all_ti_states :: "TaskInstanceState list" where
  "all_ti_states = [REMOVED, SCHEDULED, QUEUED, RUNNING, SUCCESS, RESTARTING, FAILED, UP_FOR_RETRY,
     UP_FOR_RESCHEDULE, UPSTREAM_FAILED, SKIPPED, DEFERRED, SHUTDOWN]"

subsection \<open>The sets of \<open>class State\<close>\<close>

definition task_states :: "ti_state list" where
  "task_states = None # map Some all_ti_states"

definition finished_dr_states :: "DagRunState list" where
  "finished_dr_states = [DR_SUCCESS, DR_FAILED]"

definition unfinished_dr_states :: "DagRunState list" where
  "unfinished_dr_states = [DR_QUEUED, DR_RUNNING]"

definition dag_states :: "DagRunState list" where
  "dag_states = [DR_QUEUED, DR_SUCCESS, DR_RUNNING, DR_FAILED]"

fun state_color :: "ti_state \<Rightarrow> string option" where
  "state_color None = Some ''lightblue''"
| "state_color (Some QUEUED) = Some ''gray''"
| "state_color (Some RUNNING) = Some ''lime''"
| "state_color (Some SUCCESS) = Some ''green''"
| "state_color (Some RESTARTING) = Some ''violet''"
| "state_color (Some FAILED) = Some ''red''"
| "state_color (Some UP_FOR_RETRY) = Some ''gold''"
| "state_color (Some UP_FOR_RESCHEDULE) = Some ''turquoise''"
| "state_color (Some UPSTREAM_FAILED) = Some ''orange''"
| "state_color (Some SKIPPED) = Some ''hotpink''"
| "state_color (Some REMOVED) = Some ''lightgrey''"
| "state_color (Some SCHEDULED) = Some ''tan''"
| "state_color (Some DEFERRED) = Some ''mediumpurple''"
| "state_color (Some SHUTDOWN) = None"

definition state_color_of :: "ti_state \<Rightarrow> string" where
  "state_color_of s = (case state_color s of None \<Rightarrow> ''white'' | Some c \<Rightarrow> c)"

definition state_color_fg :: "ti_state \<Rightarrow> string" where
  "state_color_fg s = (if state_color_of s \<in> {''green'', ''red''} then ''white'' else ''black'')"

fun finished :: "ti_state \<Rightarrow> bool" where
  "finished s = (s \<in> {Some SUCCESS, Some FAILED, Some SKIPPED, Some UPSTREAM_FAILED, Some REMOVED})"

fun unfinished :: "ti_state \<Rightarrow> bool" where
  "unfinished s = (s \<in> {None, Some SCHEDULED, Some QUEUED, Some RUNNING, Some RESTARTING,
     Some UP_FOR_RETRY, Some UP_FOR_RESCHEDULE, Some DEFERRED})"

fun failed_states :: "ti_state \<Rightarrow> bool" where
  "failed_states s = (s \<in> {Some FAILED, Some UPSTREAM_FAILED})"

fun success_states :: "ti_state \<Rightarrow> bool" where
  "success_states s = (s \<in> {Some SUCCESS, Some SKIPPED})"

fun terminating_states :: "ti_state \<Rightarrow> bool" where
  "terminating_states s = (s \<in> {Some SHUTDOWN, Some RESTARTING})"

fun adoptable_states :: "ti_state \<Rightarrow> bool" where
  "adoptable_states s = (s \<in> {Some QUEUED, Some RUNNING, Some RESTARTING})"

subsection \<open>\<open>ti_deps/dependencies_states.py\<close>\<close>

definition EXECUTION_STATES :: "ti_state list" where
  "EXECUTION_STATES = [Some RUNNING, Some QUEUED]"

definition SCHEDULEABLE_STATES :: "ti_state list" where
  "SCHEDULEABLE_STATES = [None, Some UP_FOR_RETRY, Some UP_FOR_RESCHEDULE]"

definition RUNNABLE_STATES :: "ti_state list" where
  "RUNNABLE_STATES = [None, Some UP_FOR_RETRY, Some UP_FOR_RESCHEDULE, Some QUEUED]"

definition QUEUEABLE_STATES :: "ti_state list" where
  "QUEUEABLE_STATES = [Some SCHEDULED]"

definition BACKFILL_QUEUEABLE_STATES :: "ti_state list" where
  "BACKFILL_QUEUEABLE_STATES =
     [None, Some UP_FOR_RESCHEDULE, Some UP_FOR_RETRY, Some SCHEDULED]"

lemmas state_set_defs = EXECUTION_STATES_def SCHEDULEABLE_STATES_def RUNNABLE_STATES_def
  QUEUEABLE_STATES_def BACKFILL_QUEUEABLE_STATES_def finished_dr_states_def
  unfinished_dr_states_def

lemma all_ti_states_complete: "set all_ti_states = UNIV"
proof -
  have "s \<in> set all_ti_states" for s by (cases s) (simp_all add: all_ti_states_def)
  then show ?thesis by blast
qed

lemma not_finished_and_unfinished: "\<not> (finished s \<and> unfinished s)"
  by auto

lemma finished_or_unfinished: "finished s \<or> unfinished s \<longleftrightarrow> s \<noteq> Some SHUTDOWN"
proof (cases s)
  case (Some x)
  then show ?thesis by (cases x) simp_all
qed simp

text \<open>
  The two state sets every scheduling decision filters by: no task instance state is both
  finished and unfinished; together they cover every state of the enumeration and the state None
  except the retired SHUTDOWN; the failed and the success states are disjoint subsets of the
  finished ones; a schedulable state is always unfinished; and every task instance state that
  carries the name of a finished dag run state is finished.
\<close>

theorem state_sets_partition:
  "\<not> (finished s \<and> unfinished s) \<and> (finished s \<or> unfinished s \<longleftrightarrow> s \<noteq> Some SHUTDOWN) \<and>
   \<not> (failed_states s \<and> success_states s) \<and>
   (if failed_states s \<or> success_states s then finished s else True) \<and>
   (if s \<in> set SCHEDULEABLE_STATES then unfinished s else True) \<and>
   (if s \<in> Some ` {t. ti_state_value t \<in> dagrun_state_value ` set finished_dr_states}
    then finished s else True)"
proof -
  have named_finished: "t \<in> {SUCCESS, FAILED}"
    if "ti_state_value t \<in> dagrun_state_value ` set finished_dr_states" for t
    using that by (cases t) (simp_all add: finished_dr_states_def)
  show ?thesis
    using not_finished_and_unfinished finished_or_unfinished
    by (auto simp: SCHEDULEABLE_STATES_def dest!: named_finished)
qed

subsection \<open>Trigger and weight rules\<close>

datatype TriggerRule =
    ALL_SUCCESS | ALL_FAILED | ALL_DONE | ALL_DONE_SETUP_SUCCESS | ONE_SUCCESS | ONE_FAILED
  | ONE_DONE | NONE_FAILED | NONE_FAILED_OR_SKIPPED | NONE_SKIPPED | DUMMY | ALWAYS
  | NONE_FAILED_MIN_ONE_SUCCESS | ALL_SKIPPED

fun trigger_rule_value :: "TriggerRule \<Rightarrow> string" where
  "trigger_rule_value ALL_SUCCESS = ''all_success''"
| "trigger_rule_value ALL_FAILED = ''all_failed''"
| "trigger_rule_value ALL_DONE = ''all_done''"
| "trigger_rule_value ALL_DONE_SETUP_SUCCESS = ''all_done_setup_success''"
| "trigger_rule_value ONE_SUCCESS = ''one_success''"
| "trigger_rule_value ONE_FAILED = ''one_failed''"
| "trigger_rule_value ONE_DONE = ''one_done''"
| "trigger_rule_value NONE_FAILED = ''none_failed''"
| "trigger_rule_value NONE_FAILED_OR_SKIPPED = ''none_failed_or_skipped''"
| "trigger_rule_value NONE_SKIPPED = ''none_skipped''"
| "trigger_rule_value DUMMY = ''dummy''"
| "trigger_rule_value ALWAYS = ''always''"
| "trigger_rule_value NONE_FAILED_MIN_ONE_SUCCESS = ''none_failed_min_one_success''"
| "trigger_rule_value ALL_SKIPPED = ''all_skipped''"

definition all_triggers :: "TriggerRule list" where
  "all_triggers = [ALL_SUCCESS, ALL_FAILED, ALL_DONE, ALL_DONE_SETUP_SUCCESS, ONE_SUCCESS,
     ONE_FAILED, ONE_DONE, NONE_FAILED, NONE_FAILED_OR_SKIPPED, NONE_SKIPPED, DUMMY, ALWAYS,
     NONE_FAILED_MIN_ONE_SUCCESS, ALL_SKIPPED]"

definition trigger_rule_is_valid :: "string \<Rightarrow> bool" where
  "trigger_rule_is_valid s = (s \<in> set (map trigger_rule_value all_triggers))"

datatype WeightRule = DOWNSTREAM | UPSTREAM | ABSOLUTE

fun weight_rule_value :: "WeightRule \<Rightarrow> string" where
  "weight_rule_value DOWNSTREAM = ''downstream''"
| "weight_rule_value UPSTREAM = ''upstream''"
| "weight_rule_value ABSOLUTE = ''absolute''"

definition all_weight_rules :: "WeightRule list" where
  "all_weight_rules = [DOWNSTREAM, UPSTREAM, ABSOLUTE]"

definition weight_rule_is_valid :: "string \<Rightarrow> bool" where
  "weight_rule_is_valid s = (s \<in> set (map weight_rule_value all_weight_rules))"

lemma trigger_rule_valid_iff: "trigger_rule_is_valid s \<longleftrightarrow> (\<exists>r. s = trigger_rule_value r)"
proof -
  have "r \<in> set all_triggers" for r by (cases r) (simp_all add: all_triggers_def)
  then show ?thesis by (auto simp: trigger_rule_is_valid_def)
qed

subsection \<open>Dag run types\<close>

datatype DagRunType = BACKFILL_JOB | SCHEDULED_RUN | MANUAL | DATASET_TRIGGERED

fun dagrun_type_value :: "DagRunType \<Rightarrow> string" where
  "dagrun_type_value BACKFILL_JOB = ''backfill''"
| "dagrun_type_value SCHEDULED_RUN = ''scheduled''"
| "dagrun_type_value MANUAL = ''manual''"
| "dagrun_type_value DATASET_TRIGGERED = ''dataset_triggered''"

text \<open>\<open>isoformat\<close> is the rendering of the logical date, a parameter.\<close>

definition generate_run_id :: "(time \<Rightarrow> string) \<Rightarrow> DagRunType \<Rightarrow> time \<Rightarrow> string" where
  "generate_run_id isoformat t d = dagrun_type_value t @ ''__'' @ isoformat d"

fun first_run_type :: "DagRunType list \<Rightarrow> string \<Rightarrow> DagRunType" where
  "first_run_type [] r = MANUAL"
| "first_run_type (t # ts) r =
     (if r \<noteq> [] \<and> prefix (dagrun_type_value t @ ''__'') r then t else first_run_type ts r)"

definition from_run_id :: "string \<Rightarrow> DagRunType" where
  "from_run_id r = first_run_type [BACKFILL_JOB, SCHEDULED_RUN, MANUAL, DATASET_TRIGGERED] r"

text \<open>
  The type of a dag run can be read back from the run id generated for it, whatever the
  rendering of its logical date: no type's prefix is a prefix of another's.
\<close>

theorem run_id_roundtrip: "from_run_id (generate_run_id isoformat t d) = t"
  by (cases t) (simp_all add: from_run_id_def generate_run_id_def)

subsection \<open>Keys of task instances\<close>

record TaskInstanceKey =
  k_dag_id :: id_str
  k_task_id :: id_str
  k_run_id :: id_str
  k_try_number :: int
  k_map_index :: int

type_synonym ti_primary = "id_str \<times> id_str \<times> id_str \<times> int"

definition key_primary :: "TaskInstanceKey \<Rightarrow> ti_primary" where
  "key_primary k = (k_dag_id k, k_task_id k, k_run_id k, k_map_index k)"

definition key_reduced :: "TaskInstanceKey \<Rightarrow> TaskInstanceKey" where
  "key_reduced k = k\<lparr>k_try_number := max 1 (k_try_number k - 1)\<rparr>"

definition with_try_number :: "TaskInstanceKey \<Rightarrow> int \<Rightarrow> TaskInstanceKey" where
  "with_try_number k n = k\<lparr>k_try_number := n\<rparr>"

lemma primary_with_try_number [simp]: "key_primary (with_try_number k n) = key_primary k"
  by (simp add: key_primary_def with_try_number_def)

lemma key_eqI: "key_primary k = key_primary k' \<Longrightarrow> k_try_number k = k_try_number k' \<Longrightarrow>
  k = (k' :: TaskInstanceKey)"
  by (cases k; cases k') (simp add: key_primary_def)

end
