(* ===== verification/Metadata.thy ===== *)
theory Metadata
  imports States
begin

text \<open>
  The data the components share: operators and DAGs as the DAG files define them, and the rows of
  the metadata database (task instances, dag runs, dags, pools, reschedules, XComs). A session is
  the record \<open>db\<close> of its tables. An ORM object of a session is its row: the code mutates the
  object and the identity map makes every holder of it see the change, so the model passes primary
  keys around and looks the row up, and an assignment to an attribute is an update of the row.
\<close>

subsection \<open>Exceptions\<close>

datatype error =
    AirflowException string
  | ValueError string
  | KeyError string
  | TaskNotFound id_str
  | PoolNotFound id_str
  | OperationalError string
  | AirflowDagCycleException id_str
  | NotImplementedError
  | AttributeError string
  | TypeError string
  | NotMapped
  | NotFullyPopulated "id_str list"
  | DeserializationError string
  | InvalidStatsNameException string
  | AirflowTimetableInvalid string
  | AssertionError string
  | RuntimeError string
  | IndexError string
  | ZeroDivisionError
  | IntegrityError
  | ParamValidationError
  | CroniterBadDateError
  | XComForMappingNotPushed
  | UnmappableXComTypePushed
  | UnmappableXComLengthPushed
  | ImportError string
  | RecursionError string
  | SerializationError string

type_synonym 'a result = "error + 'a"

subsection \<open>Python values stored as XComs\<close>

datatype pyval =
    PNone
  | PBool bool
  | PInt int
  | PStr string
  | PList "pyval list"
  | PTuple "pyval list"
  | PDict "(string \<times> pyval) list"

text \<open>Truth value testing and \<open>key in value\<close> for a string key; \<open>in\<close> on a value with no
  membership test raises \<open>TypeError\<close> and is \<open>None\<close> here.\<close>

fun py_truthy :: "pyval \<Rightarrow> bool" where
  "py_truthy PNone = False"
| "py_truthy (PBool b) = b"
| "py_truthy (PInt i) = (i \<noteq> 0)"
| "py_truthy (PStr s) = (s \<noteq> [])"
| "py_truthy (PList xs) = (xs \<noteq> [])"
| "py_truthy (PTuple xs) = (xs \<noteq> [])"
| "py_truthy (PDict d) = (d \<noteq> [])"

fun py_in :: "string \<Rightarrow> pyval \<Rightarrow> bool option" where
  "py_in s (PDict d) = Some (s \<in> fst ` set d)"
| "py_in s (PList xs) = Some (PStr s \<in> set xs)"
| "py_in s (PTuple xs) = Some (PStr s \<in> set xs)"
| "py_in s (PStr t) = Some (sublist s t)"
| "py_in s _ = None"

fun py_item :: "pyval \<Rightarrow> string \<Rightarrow> pyval option" where
  "py_item (PDict d) k = map_of d k"
| "py_item _ k = None"

subsection \<open>Operators and DAGs\<close>

text \<open>The dependency checks an operator or a context can hold (\<open>ti_deps/deps\<close>).\<close>

datatype ti_dep =
    RunnableExecDateDep
  | ValidStateDep "ti_state list"
  | TaskNotRunningDep
  | DagTISlotsAvailableDep
  | TaskConcurrencyDep
  | PoolSlotsAvailableDep
  | DagrunRunningDep
  | DagRunNotBackfillDep
  | DagUnpausedDep
  | ExecDateAfterStartDateDep
  | NotInRetryPeriodDep
  | PrevDagrunDep
  | TriggerRuleDep
  | NotPreviouslySkippedDep
  | ReadyToRescheduleDep
  | MappedTaskIsExpanded

text \<open>
  What a mapped task or task group is expanded over (\<open>models/expandinput.py\<close>, \<open>models/xcom_arg.py\<close>).
  The operator an XCom argument refers to is reduced to its task id and whether it is itself a
  \<open>MappedOperator\<close>; a callable of \<open>map()\<close> is its source text. \<open>expand()\<close> takes a dict of arguments,
  \<open>expand_kwargs()\<close> an XCom or a list whose elements are XComs or dicts.
\<close>

datatype xcom_arg =
    PlainXComArg id_str bool string
  | MapXComArg xcom_arg "string list"
  | ZipXComArg "xcom_arg list" "pyval option"

datatype expand_kwargs_argument =
    XComKwargs xcom_arg
  | ListKwargs "(xcom_arg + (string \<times> pyval) list) list"

datatype expand_input =
    DictOfListsExpandInput "(string \<times> expand_argument) list"
  | ListOfDictsExpandInput expand_kwargs_argument
and expand_argument =
    ListArgument "pyval list"
  | DictArgument "(string \<times> pyval) list"
  | XComArgument xcom_arg
  | MappedArgument expand_input string

text \<open>
  The attributes of an operator that the modelled code reads. \<open>op_is_mapped\<close> says whether the
  object is a \<open>MappedOperator\<close>, which then expands over \<open>op_expand_input\<close>; \<open>op_is_skip_mixin\<close>
  whether it is a \<open>SkipMixin\<close>; \<open>op_mapped_task_groups\<close> are the mapped task groups around it with what
  they expand over, innermost first. A callback attribute is reduced to whether it is set.
\<close>

record operator =
  op_task_id :: id_str
  op_upstream_task_ids :: "id_str list"
  op_downstream_task_ids :: "id_str list"
  op_trigger_rule :: TriggerRule
  op_is_setup :: bool
  op_is_teardown :: bool
  op_on_failure_fail_dagrun :: bool
  op_depends_on_past :: bool
  op_wait_for_downstream :: bool
  op_ignore_first_depends_on_past :: bool
  op_max_active_tis_per_dag :: "int option"
  op_max_active_tis_per_dagrun :: "int option"
  op_start_date :: "time option"
  op_end_date :: "time option"
  op_retries :: int
  op_retry_delay :: duration
  op_retry_exponential_backoff :: bool
  op_max_retry_delay :: "duration option"
  op_inherits_from_empty_operator :: bool
  op_on_execute_callback :: bool
  op_on_success_callback :: bool
  op_on_failure_callback :: bool
  op_on_retry_callback :: bool
  op_has_outlets :: bool
  op_pool :: id_str
  op_pool_slots :: int
  op_queue :: string
  op_priority_weight :: int
  op_weight_rule :: WeightRule
  op_is_mapped :: bool
  op_expand_input :: expand_input
  op_mapped_task_groups :: "(id_str \<times> expand_input) list"
  op_is_skip_mixin :: bool
  op_reschedule :: bool
  op_task_type :: string
  op_deps :: "ti_dep list"
  op_executor_config :: "string option"
  op_execution_timeout :: "duration option"

definition op_closest_mapped_task_group :: "operator \<Rightarrow> id_str option" where
  "op_closest_mapped_task_group op =
     (case op_mapped_task_groups op of [] \<Rightarrow> None | g # _ \<Rightarrow> Some (fst g))"

lemma closest_group_None_iff [simp]:
  "op_closest_mapped_task_group op = None \<longleftrightarrow> op_mapped_task_groups op = []"
  by (simp add: op_closest_mapped_task_group_def split: list.splits)

text \<open>
  When a DAG runs (\<open>timetables\<close>): a cron expression with its timezone, a fixed delta, listed instants
  (sorted by the constructor; the flag restricts manual runs to them), or nothing periodic. Timetables
  of plugins are not part of the program.
\<close>

record relativedelta =
  rd_years :: int
  rd_months :: int
  rd_days :: int
  rd_hours :: int
  rd_minutes :: int
  rd_seconds :: int

datatype delta = Timedelta duration | Relativedelta relativedelta

datatype timetable =
    NullTimetable
  | OnceTimetable
  | ContinuousTimetable
  | DatasetTriggeredTimetable
  | CronDataIntervalTimetable string string
  | DeltaDataIntervalTimetable delta
  | CronTriggerTimetable string string delta
  | EventsTimetable "time list" bool

record dag =
  d_dag_id :: id_str
  d_task_dict :: "(id_str \<times> operator) list"
  d_max_active_tasks :: int
  d_catchup :: bool
  d_start_date :: "time option"
  d_end_date :: "time option"
  d_allow_future_exec_dates :: bool
  d_timetable :: timetable
  d_max_active_runs :: int
  d_dagrun_timeout :: "duration option"
  d_is_subdag :: bool
  d_partial :: bool
  d_fileloc :: string
  d_has_on_success_callback :: bool
  d_has_on_failure_callback :: bool
  d_fail_stop :: bool

definition dag_tasks :: "dag \<Rightarrow> operator list" where
  "dag_tasks d = map snd (d_task_dict d)"

definition has_task :: "dag \<Rightarrow> id_str \<Rightarrow> bool" where
  "has_task d t = dict_has t (d_task_dict d)"

definition get_task :: "dag \<Rightarrow> id_str \<Rightarrow> operator result" where
  "get_task d t =
     (case dict_get (d_task_dict d) t of Some op \<Rightarrow> Inr op | None \<Rightarrow> Inl (TaskNotFound t))"

text \<open>
  A DAG object's dictionary stores every operator under its own task id (never the empty string,
  which \<open>validate_key\<close> rejects), and the relatives of an
  operator are operators of the DAG, recorded on both ends of the edge.
\<close>

definition wf_dag :: "dag \<Rightarrow> bool" where
  "wf_dag d \<longleftrightarrow>
     distinct (dict_keys (d_task_dict d)) \<and>
     list_all (\<lambda>(k, op). k = op_task_id op \<and> k \<noteq> [] \<and>
        distinct (op_upstream_task_ids op) \<and> distinct (op_downstream_task_ids op) \<and>
        list_all (\<lambda>u. case dict_get (d_task_dict d) u of None \<Rightarrow> False
           | Some up \<Rightarrow> k \<in> set (op_downstream_task_ids up)) (op_upstream_task_ids op) \<and>
        list_all (\<lambda>u. case dict_get (d_task_dict d) u of None \<Rightarrow> False
           | Some dn \<Rightarrow> k \<in> set (op_upstream_task_ids dn)) (op_downstream_task_ids op))
       (d_task_dict d)"

subsection \<open>Rows of the metadata database\<close>

record task_instance =
  ti_task_id :: id_str
  ti_dag_id :: id_str
  ti_run_id :: id_str
  ti_map_index :: int
  ti_start_date :: "time option"
  ti_end_date :: "time option"
  ti_duration :: "duration option"
  ti_state :: ti_state
  ti__try_number :: int
  ti_max_tries :: int
  ti_hostname :: string
  ti_job_id :: "int option"
  ti_pool :: id_str
  ti_pool_slots :: int
  ti_queue :: string
  ti_priority_weight :: int
  ti_operator :: string
  ti_queued_dttm :: "time option"
  ti_queued_by_job_id :: "int option"
  ti_pid :: "int option"
  ti_external_executor_id :: "string option"
  ti_trigger_id :: "int option"
  ti_trigger_timeout :: "time option"
  ti_next_method :: "string option"
  ti_next_kwargs :: "pyval option"
  ti_executor_config :: "string option"

record dag_run =
  dr_id :: int
  dr_dag_id :: id_str
  dr_queued_at :: "time option"
  dr_execution_date :: time
  dr_start_date :: "time option"
  dr_end_date :: "time option"
  dr_state :: DagRunState
  dr_run_id :: id_str
  dr_creating_job_id :: "int option"
  dr_external_trigger :: bool
  dr_run_type :: DagRunType
  dr_data_interval :: "(time \<times> time) option"
  dr_last_scheduling_decision :: "time option"
  dr_dag_hash :: "string option"
  dr_clear_number :: int

record dag_model =
  dm_dag_id :: id_str
  dm_is_paused :: bool
  dm_is_active :: bool
  dm_pickle_id :: "int option"
  dm_root_dag_id :: "id_str option"
  dm_last_parsed_time :: "time option"
  dm_fileloc :: string
  dm_processor_subdir :: "string option"
  dm_max_active_tasks :: int
  dm_max_active_runs :: "int option"
  dm_has_task_concurrency_limits :: bool
  dm_has_import_errors :: bool
  dm_next_dagrun :: "time option"
  dm_next_dagrun_data_interval :: "(time \<times> time) option"
  dm_next_dagrun_create_after :: "time option"

record pool =
  pl_id :: int
  pl_pool :: id_str
  pl_slots :: int
  pl_description :: string
  pl_include_deferred :: bool

record task_reschedule =
  tr_id :: int
  tr_task_id :: id_str
  tr_dag_id :: id_str
  tr_run_id :: id_str
  tr_map_index :: int
  tr_try_number :: int
  tr_start_date :: time
  tr_end_date :: time
  tr_duration :: duration
  tr_reschedule_date :: time

text \<open>An XCom row holds its deserialised value: serialisation is a separate concern.\<close>

record xcom =
  xc_dag_run_id :: int
  xc_task_id :: id_str
  xc_map_index :: int
  xc_key :: string
  xc_dag_id :: id_str
  xc_run_id :: id_str
  xc_value :: pyval
  xc_timestamp :: time

record job =
  jb_id :: int
  jb_state :: "JobState option"
  jb_job_type :: string
  jb_end_date :: "time option"
  jb_latest_heartbeat :: time

text \<open>Triggers of deferred task instances, and the tables of data-aware scheduling: datasets, the
  DAGs that are scheduled on them and the tasks that update them, the updates, and the updates a DAG has not been run for.\<close>

record trigger_row =
  tg_id :: int
  tg_classpath :: string
  tg_kwargs :: pyval
  tg_created_date :: time
  tg_triggerer_id :: "int option"

record dataset_model =
  dt_id :: int
  dt_uri :: string
  dt_is_orphaned :: bool

record dag_schedule_dataset_reference =
  sr_dataset_id :: int
  sr_dag_id :: id_str

record task_outlet_dataset_reference =
  or_dataset_id :: int
  or_dag_id :: id_str
  or_task_id :: id_str

record dataset_dag_run_queue =
  dq_dataset_id :: int
  dq_target_dag_id :: id_str
  dq_created_at :: time

record dataset_event =
  ev_id :: int
  ev_dataset_id :: int
  ev_source_task_id :: id_str
  ev_source_dag_id :: id_str
  ev_source_run_id :: id_str
  ev_source_map_index :: int
  ev_timestamp :: time

text \<open>What an unmapped task instance pushed for a mapped task downstream (\<open>models/taskmap.py\<close>); \<open>keys\<close> is
  \<open>None\<close> for a list.\<close>

record task_map =
  tm_dag_id :: id_str
  tm_task_id :: id_str
  tm_run_id :: id_str
  tm_map_index :: int
  tm_length :: int
  tm_keys :: "string list option"

record db =
  db_tis :: "task_instance list"
  db_drs :: "dag_run list"
  db_dms :: "dag_model list"
  db_pools :: "pool list"
  db_trs :: "task_reschedule list"
  db_xcoms :: "xcom list"
  db_jobs :: "job list"
  db_triggers :: "trigger_row list"
  db_datasets :: "dataset_model list"
  db_schedule_refs :: "dag_schedule_dataset_reference list"
  db_dataset_queue :: "dataset_dag_run_queue list"
  db_dataset_events :: "dataset_event list"
  db_task_maps :: "task_map list"
  db_outlet_refs :: "task_outlet_dataset_reference list"

definition empty_db :: db where
  "empty_db = \<lparr>db_tis = [], db_drs = [], db_dms = [], db_pools = [], db_trs = [], db_xcoms = [],
     db_jobs = [], db_triggers = [], db_datasets = [], db_schedule_refs = [], db_dataset_queue = [],
     db_dataset_events = [], db_task_maps = [], db_outlet_refs = []\<rparr>"

subsection \<open>Task instances: keys and the store\<close>

definition ti_primary :: "task_instance \<Rightarrow> ti_primary" where
  "ti_primary ti = (ti_dag_id ti, ti_task_id ti, ti_run_id ti, ti_map_index ti)"

definition get_try_number :: "task_instance \<Rightarrow> int" where
  "get_try_number ti =
     (if ti_state ti = Some RUNNING then ti__try_number ti else ti__try_number ti + 1)"

definition set_try_number :: "int \<Rightarrow> task_instance \<Rightarrow> task_instance" where
  "set_try_number n ti = ti\<lparr>ti__try_number := n\<rparr>"

definition prev_attempted_tries :: "task_instance \<Rightarrow> int" where
  "prev_attempted_tries ti = ti__try_number ti"

definition next_try_number :: "task_instance \<Rightarrow> int" where
  "next_try_number ti = ti__try_number ti + 1"

definition ti_key :: "task_instance \<Rightarrow> TaskInstanceKey" where
  "ti_key ti = \<lparr>k_dag_id = ti_dag_id ti, k_task_id = ti_task_id ti, k_run_id = ti_run_id ti,
     k_try_number = get_try_number ti, k_map_index = ti_map_index ti\<rparr>"

lemma primary_ti_key [simp]: "key_primary (ti_key ti) = ti_primary ti"
  by (simp add: key_primary_def ti_key_def ti_primary_def)

definition find_ti :: "db \<Rightarrow> ti_primary \<Rightarrow> task_instance option" where
  "find_ti s k = find (\<lambda>ti. ti_primary ti = k) (db_tis s)"

definition update_ti :: "ti_primary \<Rightarrow> (task_instance \<Rightarrow> task_instance) \<Rightarrow> db \<Rightarrow> db" where
  "update_ti k f s =
     s\<lparr>db_tis := map (\<lambda>ti. if ti_primary ti = k then f ti else ti) (db_tis s)\<rparr>"

definition wf_db :: "db \<Rightarrow> bool" where
  "wf_db s \<longleftrightarrow> distinct (map ti_primary (db_tis s)) \<and> distinct (map pl_pool (db_pools s)) \<and>
     distinct (map (\<lambda>r. (dr_dag_id r, dr_run_id r)) (db_drs s)) \<and>
     distinct (map dm_dag_id (db_dms s))"

text \<open>An update that keeps the primary key of the row it changes.\<close>

definition keeps_primary :: "(task_instance \<Rightarrow> task_instance) \<Rightarrow> bool" where
  "keeps_primary f \<longleftrightarrow> (\<forall>ti. ti_primary (f ti) = ti_primary ti)"

lemma find_ti_Some: "find_ti s k = Some ti \<Longrightarrow> ti \<in> set (db_tis s) \<and> ti_primary ti = k"
  by (auto simp: find_ti_def find_Some_iff)

lemma find_map_update:
  "(\<And>x. key (f x) = key x) \<Longrightarrow>
   find (\<lambda>x. key x = k') (map (\<lambda>x. if key x = k then f x else x) xs) =
   (if k' = k then map_option f (find (\<lambda>x. key x = k) xs) else find (\<lambda>x. key x = k') xs)"
  by (induction xs) auto

lemma find_ti_update [store_simps]:
  "keeps_primary f \<Longrightarrow>
   find_ti (update_ti k f s) k' = (if k' = k then map_option f (find_ti s k) else find_ti s k')"
  using find_map_update [of ti_primary f k' k "db_tis s"]
  by (simp add: find_ti_def update_ti_def keeps_primary_def)

lemma update_ti_frame [frame_simps, simp]:
  "db_drs (update_ti k f s) = db_drs s" "db_dms (update_ti k f s) = db_dms s"
  "db_pools (update_ti k f s) = db_pools s" "db_trs (update_ti k f s) = db_trs s"
  "db_xcoms (update_ti k f s) = db_xcoms s" "db_jobs (update_ti k f s) = db_jobs s"
  "db_triggers (update_ti k f s) = db_triggers s" "db_datasets (update_ti k f s) = db_datasets s"
  "db_schedule_refs (update_ti k f s) = db_schedule_refs s" "db_dataset_queue (update_ti k f s) = db_dataset_queue s"
  "db_dataset_events (update_ti k f s) = db_dataset_events s" "db_task_maps (update_ti k f s) = db_task_maps s"
  by (simp_all add: update_ti_def)

lemma map_primary_update_ti:
  "keeps_primary f \<Longrightarrow> map ti_primary (db_tis (update_ti k f s)) = map ti_primary (db_tis s)"
  by (simp add: update_ti_def keeps_primary_def comp_def cong: if_cong)

lemma wf_db_update_ti: "keeps_primary f \<Longrightarrow> wf_db s \<Longrightarrow> wf_db (update_ti k f s)"
  by (simp add: wf_db_def map_primary_update_ti)

lemma find_ti_in: "wf_db s \<Longrightarrow> ti \<in> set (db_tis s) \<Longrightarrow> find_ti s (ti_primary ti) = Some ti"
proof -
  assume d: "wf_db s" and m: "ti \<in> set (db_tis s)"
  have "distinct (map ti_primary xs) \<Longrightarrow> ti \<in> set xs \<Longrightarrow>
      find (\<lambda>x. ti_primary x = ti_primary ti) xs = Some ti" for xs
    by (induction xs) auto
  with d m show ?thesis by (simp add: find_ti_def wf_db_def)
qed

subsection \<open>Dag runs and dag models\<close>

definition find_dr :: "db \<Rightarrow> id_str \<Rightarrow> id_str \<Rightarrow> dag_run option" where
  "find_dr s d r = find (\<lambda>dr. (dr_dag_id dr, dr_run_id dr) = (d, r)) (db_drs s)"

definition update_dr :: "id_str \<Rightarrow> id_str \<Rightarrow> (dag_run \<Rightarrow> dag_run) \<Rightarrow> db \<Rightarrow> db" where
  "update_dr d r f s =
     s\<lparr>db_drs := map (\<lambda>dr. if (dr_dag_id dr, dr_run_id dr) = (d, r) then f dr else dr) (db_drs s)\<rparr>"

text \<open>\<open>DagRun.set_state\<close>, which every assignment to \<open>state\<close> goes through.\<close>

definition set_dr_state :: "time \<Rightarrow> DagRunState \<Rightarrow> dag_run \<Rightarrow> dag_run" where
  "set_dr_state now st dr =
     (if dr_state dr = st then dr
      else let dr' = dr\<lparr>dr_state := st,
             dr_end_date := (if st \<in> set finished_dr_states then Some now else None)\<rparr> in
        if st = DR_QUEUED then dr'\<lparr>dr_queued_at := Some now\<rparr> else dr')"

lemma set_dr_state_simps [simp]:
  "dr_state (set_dr_state now st dr) = st" "dr_dag_id (set_dr_state now st dr) = dr_dag_id dr"
  "dr_run_id (set_dr_state now st dr) = dr_run_id dr" "dr_id (set_dr_state now st dr) = dr_id dr"
  "dr_execution_date (set_dr_state now st dr) = dr_execution_date dr"
  "dr_run_type (set_dr_state now st dr) = dr_run_type dr"
  by (simp_all add: set_dr_state_def Let_def)

definition find_dm :: "db \<Rightarrow> id_str \<Rightarrow> dag_model option" where
  "find_dm s d = find (\<lambda>m. dm_dag_id m = d) (db_dms s)"

lemma update_dr_frame [frame_simps, simp]:
  "db_tis (update_dr d r f s) = db_tis s" "db_dms (update_dr d r f s) = db_dms s"
  "db_pools (update_dr d r f s) = db_pools s" "db_trs (update_dr d r f s) = db_trs s"
  "db_xcoms (update_dr d r f s) = db_xcoms s" "db_jobs (update_dr d r f s) = db_jobs s"
  "db_triggers (update_dr d r f s) = db_triggers s" "db_datasets (update_dr d r f s) = db_datasets s"
  "db_schedule_refs (update_dr d r f s) = db_schedule_refs s" "db_dataset_queue (update_dr d r f s) = db_dataset_queue s"
  "db_dataset_events (update_dr d r f s) = db_dataset_events s" "db_task_maps (update_dr d r f s) = db_task_maps s"
  by (simp_all add: update_dr_def)

lemma find_ti_update_dr [store_simps, simp]: "find_ti (update_dr d r f s) k = find_ti s k"
  by (simp add: find_ti_def)

lemma find_dr_update_ti [store_simps, simp]: "find_dr (update_ti k f s) d r = find_dr s d r"
  by (simp add: find_dr_def)

lemma find_dm_update [store_simps, simp]:
  "find_dm (update_ti k f s) d = find_dm s d" "find_dm (update_dr d' r g s) d = find_dm s d"
  by (simp_all add: find_dm_def)

lemma find_dr_update_dr [store_simps]:
  "(\<And>x. dr_dag_id (f x) = dr_dag_id x \<and> dr_run_id (f x) = dr_run_id x) \<Longrightarrow>
   find_dr (update_dr d r f s) d' r' =
   (if (d', r') = (d, r) then map_option f (find_dr s d r) else find_dr s d' r')"
  using find_map_update [of "\<lambda>x. (dr_dag_id x, dr_run_id x)" f "(d', r')" "(d, r)" "db_drs s"]
  by (simp add: find_dr_def update_dr_def)

text \<open>The execution date of a task instance is that of its dag run (an association proxy over an
  inner join); a task instance without dag run cannot be loaded, so \<open>None\<close> is unreachable.\<close>

definition ti_execution_date :: "db \<Rightarrow> task_instance \<Rightarrow> time option" where
  "ti_execution_date s ti = map_option dr_execution_date (find_dr s (ti_dag_id ti) (ti_run_id ti))"

subsection \<open>Sample rows\<close>

text \<open>Rows with every field at a neutral value, from which the witnesses of the properties build
  their concrete databases.\<close>

definition sample_op :: "id_str \<Rightarrow> operator" where
  "sample_op t = \<lparr>op_task_id = t, op_upstream_task_ids = [], op_downstream_task_ids = [],
     op_trigger_rule = ALL_SUCCESS, op_is_setup = False, op_is_teardown = False,
     op_on_failure_fail_dagrun = False, op_depends_on_past = False, op_wait_for_downstream = False,
     op_ignore_first_depends_on_past = False, op_max_active_tis_per_dag = None,
     op_max_active_tis_per_dagrun = None, op_start_date = None, op_end_date = None, op_retries = 0,
     op_retry_delay = 300 * usec_per_sec, op_retry_exponential_backoff = False,
     op_max_retry_delay = None, op_inherits_from_empty_operator = False,
     op_on_execute_callback = False, op_on_success_callback = False,
     op_on_failure_callback = False, op_on_retry_callback = False, op_has_outlets = False,
     op_pool = ''p'', op_pool_slots = 1, op_queue = ''q'', op_priority_weight = 1,
     op_weight_rule = DOWNSTREAM, op_is_mapped = False, op_expand_input = DictOfListsExpandInput [], op_mapped_task_groups = [],
     op_is_skip_mixin = False, op_reschedule = False, op_task_type = ''op'', op_deps = [],
     op_executor_config = None, op_execution_timeout = None\<rparr>"

definition sample_dag :: "operator list \<Rightarrow> dag" where
  "sample_dag ops = \<lparr>d_dag_id = ''d'', d_task_dict = map (\<lambda>op. (op_task_id op, op)) ops,
     d_max_active_tasks = 16, d_catchup = False, d_start_date = None, d_end_date = None,
     d_allow_future_exec_dates = False, d_timetable = DeltaDataIntervalTimetable (Timedelta 10),
     d_max_active_runs = 2, d_dagrun_timeout = None, d_is_subdag = False, d_partial = False,
     d_fileloc = ''f'', d_has_on_success_callback = False, d_has_on_failure_callback = False,
     d_fail_stop = False\<rparr>"

definition sample_ti :: "id_str \<Rightarrow> ti_state \<Rightarrow> task_instance" where
  "sample_ti t st = \<lparr>ti_task_id = t, ti_dag_id = ''d'', ti_run_id = ''r'', ti_map_index = -1,
     ti_start_date = None, ti_end_date = None, ti_duration = None, ti_state = st,
     ti__try_number = 0, ti_max_tries = 0, ti_hostname = [], ti_job_id = None, ti_pool = ''p'',
     ti_pool_slots = 1, ti_queue = ''q'', ti_priority_weight = 1, ti_operator = ''op'',
     ti_queued_dttm = None, ti_queued_by_job_id = None, ti_pid = None,
     ti_external_executor_id = None, ti_trigger_id = None, ti_trigger_timeout = None,
     ti_next_method = None, ti_next_kwargs = None,
     ti_executor_config = None\<rparr>"

definition sample_dr :: "id_str \<Rightarrow> time \<Rightarrow> DagRunState \<Rightarrow> dag_run" where
  "sample_dr r d st = \<lparr>dr_id = d, dr_dag_id = ''d'', dr_queued_at = None, dr_execution_date = d,
     dr_start_date = Some d, dr_end_date = None, dr_state = st, dr_run_id = r,
     dr_creating_job_id = None, dr_external_trigger = False, dr_run_type = SCHEDULED_RUN,
     dr_data_interval = None, dr_last_scheduling_decision = None, dr_dag_hash = None,
     dr_clear_number = 0\<rparr>"

definition sample_dm :: dag_model where
  "sample_dm = \<lparr>dm_dag_id = ''d'', dm_is_paused = False, dm_is_active = True, dm_pickle_id = None,
     dm_root_dag_id = None, dm_last_parsed_time = None, dm_fileloc = ''f'', dm_processor_subdir = None, dm_max_active_tasks = 16,
     dm_max_active_runs = Some 16, dm_has_task_concurrency_limits = False, dm_has_import_errors = False, dm_next_dagrun = None,
     dm_next_dagrun_data_interval = None, dm_next_dagrun_create_after = None\<rparr>"

definition sample_pool :: "id_str \<Rightarrow> int \<Rightarrow> pool" where
  "sample_pool n k = \<lparr>pl_id = 1, pl_pool = n, pl_slots = k, pl_description = [],
     pl_include_deferred = False\<rparr>"

definition sample_db :: "task_instance list \<Rightarrow> db" where
  "sample_db tis = empty_db\<lparr>db_tis := tis, db_drs := [sample_dr ''r'' 1 DR_RUNNING],
     db_dms := [sample_dm], db_pools := [sample_pool ''p'' 4]\<rparr>"

lemmas sample_defs = sample_op_def sample_dag_def sample_ti_def sample_dr_def sample_dm_def
  sample_pool_def sample_db_def empty_db_def

end
