(* ===== verification/Dag_Graph.thy ===== *)
theory Dag_Graph
  imports Metadata
begin

text \<open>
  The graph a DAG object carries: direct and transitive relatives of an operator
  (\<open>models/taskmixin.py\<close>, \<open>models/abstractoperator.py\<close>), priority weights, setups and teardowns. A Python set of task ids is a list: its iteration order is the order of
  the list, which the properties never depend on.
\<close>

subsection \<open>Direct relatives\<close>

definition get_direct_relative_ids :: "operator \<Rightarrow> bool \<Rightarrow> id_str list" where
  "get_direct_relative_ids op upstream =
     (if upstream then op_upstream_task_ids op else op_downstream_task_ids op)"

text \<open>The edges of a DAG in one of the two directions.\<close>

definition edges :: "dag \<Rightarrow> bool \<Rightarrow> (id_str \<times> id_str) set" where
  "edges d upstream = {(a, b). \<exists>op. dict_get (d_task_dict d) a = Some op \<and>
     b \<in> set (get_direct_relative_ids op upstream)}"

lemma edges_iff: "(a, b) \<in> edges d up \<longleftrightarrow>
    (\<exists>op. dict_get (d_task_dict d) a = Some op \<and> b \<in> set (get_direct_relative_ids op up))"
  by (simp add: edges_def)

lemma wf_dag_opD:
  assumes "wf_dag d" "dict_get (d_task_dict d) t = Some op"
  shows "op_task_id op = t" "t \<noteq> []"
    and "\<And>up u. u \<in> set (get_direct_relative_ids op up) \<Longrightarrow>
      \<exists>op'. dict_get (d_task_dict d) u = Some op' \<and> t \<in> set (get_direct_relative_ids op' (\<not> up))"
proof -
  have *: "(t, op) \<in> set (d_task_dict d)" using assms(2) by (rule map_of_SomeD)
  note w = assms(1) [unfolded wf_dag_def list_all_iff, THEN conjunct2, rule_format, OF *, simplified]
  from w show "op_task_id op = t" "t \<noteq> []" by auto
  fix up u assume u: "u \<in> set (get_direct_relative_ids op up)"
  with w show "\<exists>op'. dict_get (d_task_dict d) u = Some op' \<and>
      t \<in> set (get_direct_relative_ids op' (\<not> up))"
    by (cases up) (force simp: get_direct_relative_ids_def split: option.splits)+
qed

lemma edges_converse: "wf_dag d \<Longrightarrow> edges d (\<not> up) = (edges d up)\<inverse>"
proof -
  assume w: "wf_dag d"
  have *: "(a, b) \<in> edges d up \<Longrightarrow> (b, a) \<in> edges d (\<not> up)" for a b up
    using wf_dag_opD(3) [OF w] by (fastforce simp: edges_iff)
  show ?thesis using * [of _ _ up] * [of _ _ "\<not> up"] by auto
qed

lemma edges_in_dag:
  "wf_dag d \<Longrightarrow> (a, b) \<in> edges d up \<Longrightarrow>
   a \<in> set (dict_keys (d_task_dict d)) \<and> b \<in> set (dict_keys (d_task_dict d))"
  by (auto simp: edges_iff dest!: wf_dag_opD(3) dest: dict_get_keys)

subsection \<open>Transitive relatives\<close>

text \<open>
  \<open>trace_round\<close> is the \<open>for\<close> loop of \<open>get_flat_relative_ids\<close>; looking up an id the DAG does not
  have raises \<open>KeyError\<close>.
\<close>

fun trace_round :: "dag \<Rightarrow> bool \<Rightarrow> id_str list \<Rightarrow> id_str list \<Rightarrow> id_str list \<Rightarrow>
    (id_str list \<times> id_str list) result" where
  "trace_round d up [] relatives next = Inr (relatives, next)"
| "trace_round d up (t # ts) relatives next =
     (if t \<in> set relatives then trace_round d up ts relatives next
      else case dict_get (d_task_dict d) t of
        None \<Rightarrow> Inl (KeyError t)
      | Some op \<Rightarrow> trace_round d up ts (relatives @ [t])
                     (set_update next (get_direct_relative_ids op up)))"

definition untraced :: "dag \<Rightarrow> id_str list \<Rightarrow> id_str list" where
  "untraced d relatives = filter (\<lambda>k. k \<notin> set relatives) (remdups (dict_keys (d_task_dict d)))"

lemma untraced_snoc:
  "t \<in> set (dict_keys (d_task_dict d)) \<Longrightarrow> t \<notin> set rs \<Longrightarrow>
   length (untraced d (rs @ [t])) < length (untraced d rs)"
proof -
  assume a: "t \<in> set (dict_keys (d_task_dict d))" "t \<notin> set rs"
  have "set (untraced d (rs @ [t])) \<subset> set (untraced d rs)"
    using a by (auto simp: untraced_def)
  moreover have "distinct (untraced d rs)" "distinct (untraced d (rs @ [t]))"
    by (simp_all add: untraced_def)
  ultimately show ?thesis by (metis distinct_card psubset_card_mono finite_set)
qed

lemma trace_round_measure:
  "trace_round d up ts rs nxt = Inr (rs', nxt') \<Longrightarrow>
   (rs' = rs \<and> nxt' = nxt) \<or> length (untraced d rs') < length (untraced d rs)"
proof (induction d up ts rs nxt rule: trace_round.induct)
  case (2 d up t ts rs nxt)
  then show ?case
    using untraced_snoc [of t d rs]
    by (auto split: if_splits option.splits dest!: dict_get_keys)
qed auto

function flat_loop :: "dag \<Rightarrow> bool \<Rightarrow> id_str list \<Rightarrow> id_str list \<Rightarrow> id_str list result" where
  "flat_loop d up trace relatives =
     (if trace = [] then Inr relatives
      else case trace_round d up trace relatives [] of
        Inl e \<Rightarrow> Inl e
      | Inr (relatives', next) \<Rightarrow> flat_loop d up next relatives')"
  by pat_completeness auto
termination
  by (relation "measures [\<lambda>(d, up, trace, rs). length (untraced d rs), \<lambda>(d, up, trace, rs). length trace]")
     (auto dest!: trace_round_measure)

declare flat_loop.simps [simp del]

text \<open>An operator outside every DAG has no relatives; the operators of the model are those of a
  DAG, so the result is that of the loop.\<close>

definition get_flat_relative_ids :: "dag \<Rightarrow> operator \<Rightarrow> bool \<Rightarrow> id_str list result" where
  "get_flat_relative_ids d op upstream = flat_loop d upstream (get_direct_relative_ids op upstream) []"

lemma trace_round_result:
  "trace_round d up ts rs nxt = Inr (rs', nxt') \<Longrightarrow>
   set rs' = set rs \<union> set ts \<and> set nxt' = set nxt \<union> {b. \<exists>a \<in> set ts - set rs. (a, b) \<in> edges d up}
   \<and> (distinct rs \<longrightarrow> distinct rs')"
proof (induction d up ts rs nxt rule: trace_round.induct)
  case (2 d up t ts rs nxt)
  show ?case
  proof (cases "t \<in> set rs")
    case True
    with 2 show ?thesis by auto
  next
    case False
    with 2 obtain op where op: "dict_get (d_task_dict d) t = Some op"
      by (auto split: option.splits)
    have "{b. (t, b) \<in> edges d up} = set (get_direct_relative_ids op up)"
      using op by (auto simp: edges_iff)
    with 2 False op show ?thesis by auto
  qed
qed auto

lemma trace_round_defined:
  "set ts \<subseteq> set (dict_keys (d_task_dict d)) \<Longrightarrow> \<exists>r. trace_round d up ts rs nxt = Inr r"
proof (induction d up ts rs nxt rule: trace_round.induct)
  case (2 d up t ts rs nxt)
  then show ?case
    by (cases "dict_get (d_task_dict d) t") (auto simp: dict_keys_def map_of_eq_None_iff)
qed auto

text \<open>The loop returns the least set that holds the ids to trace and is closed under the edges.\<close>

lemma flat_loop_closed:
  assumes "wf_dag d" "set trace \<subseteq> set (dict_keys (d_task_dict d))" "distinct rs"
    "\<And>a b. a \<in> set rs \<Longrightarrow> (a, b) \<in> edges d up \<Longrightarrow> b \<in> set rs \<union> set trace"
  shows "\<exists>rs'. flat_loop d up trace rs = Inr rs' \<and> distinct rs' \<and>
     set rs' = set rs \<union> (edges d up)\<^sup>* `` set trace"
  using assms
proof (induction d up trace rs rule: flat_loop.induct)
  case (1 d up trace rs)
  show ?case
  proof (cases "trace = []")
    case True
    with 1 show ?thesis by (simp add: flat_loop.simps)
  next
    case False
    from trace_round_defined [OF "1.prems"(2)] obtain rs1 nxt
      where r: "trace_round d up trace rs [] = Inr (rs1, nxt)" by fastforce
    note res = trace_round_result [OF r]
    have sub: "set nxt \<subseteq> set (dict_keys (d_task_dict d))"
      using res edges_in_dag [OF "1.prems"(1)] by auto
    have cl: "a \<in> set rs1 \<Longrightarrow> (a, b) \<in> edges d up \<Longrightarrow> b \<in> set rs1 \<union> set nxt" for a b
      using res "1.prems"(4) [of a b] by auto
    from "1.IH" [OF False r refl "1.prems"(1) sub] res "1.prems"(3) cl
    obtain rs' where rs': "flat_loop d up nxt rs1 = Inr rs'" "distinct rs'"
      "set rs' = set rs1 \<union> (edges d up)\<^sup>* `` set nxt" by auto
    have "set rs' = set rs \<union> (edges d up)\<^sup>* `` set trace" (is "_ = ?R")
    proof
      show "set rs' \<subseteq> ?R"
        using rs'(3) res by (auto intro: converse_rtrancl_into_rtrancl)
      have closed: "(a, b) \<in> (edges d up)\<^sup>* \<Longrightarrow> a \<in> set rs' \<Longrightarrow> b \<in> set rs'" for a b
      proof (induction rule: rtrancl_induct)
        case (step y z)
        then show ?case
          using rs'(3) cl [of y z] by (auto intro: rtrancl_into_rtrancl)
      qed
      show "?R \<subseteq> set rs'" using closed rs'(3) res by auto
    qed
    with rs' r False show ?thesis by (subst flat_loop.simps) simp
  qed
qed

lemma flat_relative_ids_trancl:
  assumes "wf_dag d" "dict_get (d_task_dict d) t = Some op"
  shows "\<exists>rs. get_flat_relative_ids d op up = Inr rs \<and> distinct rs \<and>
    set rs = {b. (t, b) \<in> (edges d up)\<^sup>+}"
proof -
  let ?ds = "get_direct_relative_ids op up"
  have ds: "set ?ds = {b. (t, b) \<in> edges d up}" using assms(2) by (auto simp: edges_iff)
  have "set ?ds \<subseteq> set (dict_keys (d_task_dict d))"
    using ds edges_in_dag [OF assms(1)] by auto
  from flat_loop_closed [OF assms(1) this, of "[]" up] show ?thesis
    by (auto simp: get_flat_relative_ids_def ds trancl_unfold_left Image_def)
qed

text \<open>\<open>get_flat_relatives\<close>: the operators of the transitive relatives.\<close>

definition get_flat_relatives :: "dag \<Rightarrow> operator \<Rightarrow> bool \<Rightarrow> operator list result" where
  "get_flat_relatives d op upstream =
     bind_err (get_flat_relative_ids d op upstream)
       (map_err (\<lambda>t. case dict_get (d_task_dict d) t of None \<Rightarrow> Inl (KeyError t) | Some r \<Rightarrow> Inr r))"

text \<open>The direct relatives as operators, which \<open>DAG.get_task\<close> looks up.\<close>

definition downstream_list :: "dag \<Rightarrow> operator \<Rightarrow> operator list result" where
  "downstream_list d op = map_err (get_task d) (op_downstream_task_ids op)"

definition upstream_list :: "dag \<Rightarrow> operator \<Rightarrow> operator list result" where
  "upstream_list d op = map_err (get_task d) (op_upstream_task_ids op)"

definition dag_op :: "dag \<Rightarrow> id_str \<Rightarrow> operator" where
  "dag_op d t = the (dict_get (d_task_dict d) t)"

lemma upstream_list_wf:
  assumes "wf_dag d" "dict_get (d_task_dict d) t = Some op"
  shows "upstream_list d op = Inr (map (dag_op d) (op_upstream_task_ids op))"
    and "downstream_list d op = Inr (map (dag_op d) (op_downstream_task_ids op))"
proof -
  have *: "u \<in> set (get_direct_relative_ids op up) \<Longrightarrow> get_task d u = Inr (dag_op d u)" for u up
    using wf_dag_opD(3) [OF assms] by (fastforce simp: get_task_def dag_op_def)
  show "upstream_list d op = Inr (map (dag_op d) (op_upstream_task_ids op))"
    unfolding upstream_list_def
    by (rule map_err_defined) (rule * [of _ True], simp add: get_direct_relative_ids_def)
  show "downstream_list d op = Inr (map (dag_op d) (op_downstream_task_ids op))"
    unfolding downstream_list_def
    by (rule map_err_defined) (rule * [of _ False], simp add: get_direct_relative_ids_def)
qed

subsection \<open>Priority weights\<close>

definition priority_weight_total :: "dag \<Rightarrow> operator \<Rightarrow> int result" where
  "priority_weight_total d op =
     (case op_weight_rule op of
        ABSOLUTE \<Rightarrow> Inr (op_priority_weight op)
      | rule \<Rightarrow>
          bind_err (get_flat_relative_ids d op (rule = UPSTREAM))
            (\<lambda>ids. bind_err
              (map_err (\<lambda>t. case dict_get (d_task_dict d) t of
                 None \<Rightarrow> Inl (KeyError t) | Some r \<Rightarrow> Inr (op_priority_weight r)) ids)
              (\<lambda>ws. Inr (op_priority_weight op + sum_list ws))))"

definition weight_of :: "dag \<Rightarrow> id_str \<Rightarrow> int" where
  "weight_of d t = op_priority_weight (dag_op d t)"

lemma finite_edges [simp]: "finite {b. (a, b) \<in> (edges d up)\<^sup>+}" if "wf_dag d"
proof (rule finite_subset)
  show "{b. (a, b) \<in> (edges d up)\<^sup>+} \<subseteq> set (dict_keys (d_task_dict d))"
    using edges_in_dag [OF that] by (auto elim: tranclE)
qed simp

lemma trancl_in_dag:
  "wf_dag d \<Longrightarrow> (a, b) \<in> (edges d up)\<^sup>+ \<Longrightarrow> \<exists>op. dict_get (d_task_dict d) b = Some op"
  by (erule tranclE) (auto dest!: edges_in_dag simp: in_dict_keys_iff)

lemma priority_weight_total_sum:
  assumes "wf_dag d" "dict_get (d_task_dict d) t = Some op" "op_weight_rule op \<noteq> ABSOLUTE"
  shows "priority_weight_total d op = Inr (op_priority_weight op +
     (\<Sum>u \<in> {b. (t, b) \<in> (edges d (op_weight_rule op = UPSTREAM))\<^sup>+}. weight_of d u))"
proof -
  let ?up = "op_weight_rule op = UPSTREAM"
  let ?f = "\<lambda>t. case dict_get (d_task_dict d) t of
      None \<Rightarrow> Inl (KeyError t) | Some r \<Rightarrow> Inr (op_priority_weight r)"
  from flat_relative_ids_trancl [OF assms(1,2), of ?up] obtain rs where
    rs: "get_flat_relative_ids d op ?up = Inr rs" "distinct rs" "set rs = {b. (t, b) \<in> (edges d ?up)\<^sup>+}"
    by auto
  have "map_err ?f rs = Inr (map (weight_of d) rs)"
    using trancl_in_dag [OF assms(1)] rs(3)
    by (intro map_err_defined) (fastforce simp: weight_of_def dag_op_def)
  with rs(1) have "priority_weight_total d op = Inr (op_priority_weight op + sum_list (map (weight_of d) rs))"
    using assms(3) by (cases "op_weight_rule op") (simp_all add: priority_weight_total_def)
  with rs(2,3) show ?thesis by (simp add: sum_list_distinct_conv_sum_set)
qed

subsection \<open>Setups and teardowns\<close>

text \<open>\<open>any_teardown\<close> is the test \<open>any(True for x in task.downstream_list if x.is_teardown)\<close>. The
  generators are evaluated to the list of what they yield.\<close>

definition own_teardowns :: "operator \<Rightarrow> operator list \<Rightarrow> operator list" where
  "own_teardowns self ds = filter (\<lambda>t. op_is_teardown t \<and> op_task_id t \<noteq> op_task_id self) ds"

definition get_upstreams_follow_setups :: "dag \<Rightarrow> operator \<Rightarrow> operator list result" where
  "get_upstreams_follow_setups d self =
     bind_err (get_flat_relatives d self True) (\<lambda>rel.
       bind_err (map_err (\<lambda>task.
           if op_is_setup task
           then bind_err (downstream_list d task) (\<lambda>ds. Inr (task # own_teardowns self ds))
           else Inr [task]) rel)
         (\<lambda>yss. Inr (concat yss)))"

definition get_upstreams_only_setups_and_teardowns :: "dag \<Rightarrow> operator \<Rightarrow> operator list result" where
  "get_upstreams_only_setups_and_teardowns d self =
     bind_err (get_flat_relatives d self False) (\<lambda>down.
     bind_err (get_flat_relatives d self True) (\<lambda>up.
       let downstream_teardown_ids = map op_task_id (filter op_is_teardown down) in
       bind_err (map_err (\<lambda>task.
           if \<not> op_is_setup task then Inr []
           else bind_err (downstream_list d task) (\<lambda>ds.
             let has_no_teardowns = \<not> list_ex op_is_teardown ds in
             if has_no_teardowns \<or>
                list_ex (\<lambda>t. t \<in> set downstream_teardown_ids) (op_downstream_task_ids task)
             then Inr (task # own_teardowns self ds)
             else Inr [])) up)
         (\<lambda>yss. Inr (concat yss))))"

definition get_upstreams_only_setups :: "dag \<Rightarrow> operator \<Rightarrow> operator list result" where
  "get_upstreams_only_setups d self =
     bind_err (get_upstreams_only_setups_and_teardowns d self) (\<lambda>ts. Inr (filter op_is_setup ts))"

lemma flat_relatives_wf:
  assumes "wf_dag d" "dict_get (d_task_dict d) t = Some op"
  shows "\<exists>rs. get_flat_relatives d op up = Inr (map (dag_op d) rs) \<and> distinct rs \<and>
    set rs = {b. (t, b) \<in> (edges d up)\<^sup>+}"
proof -
  from flat_relative_ids_trancl [OF assms, of up] obtain rs where
    rs: "get_flat_relative_ids d op up = Inr rs" "distinct rs" "set rs = {b. (t, b) \<in> (edges d up)\<^sup>+}"
    by auto
  have "map_err (\<lambda>t. case dict_get (d_task_dict d) t of None \<Rightarrow> Inl (KeyError t) | Some r \<Rightarrow> Inr r) rs
      = Inr (map (dag_op d) rs)"
    using trancl_in_dag [OF assms(1)] rs(3)
    by (intro map_err_defined) (fastforce simp: dag_op_def)
  with rs show ?thesis by (auto simp: get_flat_relatives_def)
qed

text \<open>An operator is a setup, a teardown or neither (the setters refuse both).\<close>

definition setups_not_teardowns :: "dag \<Rightarrow> bool" where
  "setups_not_teardowns d \<longleftrightarrow> list_all (\<lambda>(t, op). \<not> (op_is_setup op \<and> op_is_teardown op)) (d_task_dict d)"

text \<open>The setups a task waits for, stated on the graph.\<close>

definition relevant_setup :: "dag \<Rightarrow> id_str \<Rightarrow> id_str \<Rightarrow> bool" where
  "relevant_setup d t s \<longleftrightarrow>
     (t, s) \<in> (edges d True)\<^sup>+ \<and> op_is_setup (dag_op d s) \<and>
     ((\<forall>x. (s, x) \<in> edges d False \<longrightarrow> \<not> op_is_teardown (dag_op d x)) \<or>
      (\<exists>x. (s, x) \<in> edges d False \<and> (t, x) \<in> (edges d False)\<^sup>+ \<and> op_is_teardown (dag_op d x)))"

lemma dag_op_wf:
  "wf_dag d \<Longrightarrow> (a, b) \<in> (edges d up)\<^sup>+ \<Longrightarrow>
   dict_get (d_task_dict d) b = Some (dag_op d b) \<and> op_task_id (dag_op d b) = b"
  using trancl_in_dag [of d a b up] by (fastforce simp: dag_op_def dest: wf_dag_opD(1))

lemma edges_op: "wf_dag d \<Longrightarrow> dict_get (d_task_dict d) a = Some op \<Longrightarrow>
   set (get_direct_relative_ids op up) = {b. (a, b) \<in> edges d up}"
  by (auto simp: edges_iff)

text \<open>The test of the code on one upstream setup is the relevance condition.\<close>

lemma setup_test_relevant:
  assumes "wf_dag d" "dict_get (d_task_dict d) t = Some op" "(t, s) \<in> (edges d True)\<^sup>+"
    "set down = {b. (t, b) \<in> (edges d False)\<^sup>+}"
  shows "((\<not> list_ex op_is_teardown (map (dag_op d) (op_downstream_task_ids (dag_op d s))) \<or>
      list_ex (\<lambda>x. x \<in> set (map op_task_id (filter op_is_teardown (map (dag_op d) down))))
        (op_downstream_task_ids (dag_op d s))) \<and> op_is_setup (dag_op d s))
    = relevant_setup d t s"
proof -
  have s: "dict_get (d_task_dict d) s = Some (dag_op d s)"
    using dag_op_wf [OF assms(1,3)] by simp
  have ds: "set (op_downstream_task_ids (dag_op d s)) = {b. (s, b) \<in> edges d False}"
    using edges_op [OF assms(1) s, of False] by (simp add: get_direct_relative_ids_def)
  have "x \<in> set (map op_task_id (filter op_is_teardown (map (dag_op d) down))) \<longleftrightarrow>
      (t, x) \<in> (edges d False)\<^sup>+ \<and> op_is_teardown (dag_op d x)" for x
    using dag_op_wf [OF assms(1), of t _ False] assms(4) by (auto simp: image_iff)
  with ds show ?thesis using assms(3) by (auto simp: relevant_setup_def list_ex_iff)
qed

lemma only_setups_relevant:
  assumes "wf_dag d" "setups_not_teardowns d" "dict_get (d_task_dict d) t = Some op"
  shows "\<exists>us. get_upstreams_only_setups d op = Inr (map (dag_op d) us) \<and> distinct us \<and>
    set us = {s. relevant_setup d t s}"
proof -
  note w = assms(1)
  from flat_relatives_wf [OF w assms(3), of False] flat_relatives_wf [OF w assms(3), of True]
  obtain down up where
    down: "get_flat_relatives d op False = Inr (map (dag_op d) down)"
      "set down = {b. (t, b) \<in> (edges d False)\<^sup>+}" and
    up: "get_flat_relatives d op True = Inr (map (dag_op d) up)" "distinct up"
      "set up = {b. (t, b) \<in> (edges d True)\<^sup>+}" by auto
  let ?tds = "map op_task_id (filter op_is_teardown (map (dag_op d) down))"
  let ?ds = "\<lambda>task. map (dag_op d) (op_downstream_task_ids task)"
  let ?g = "\<lambda>task. if \<not> op_is_setup task then []
     else if \<not> list_ex op_is_teardown (?ds task) \<or>
        list_ex (\<lambda>t. t \<in> set ?tds) (op_downstream_task_ids task)
     then task # own_teardowns op (?ds task) else []"
  have dl: "s \<in> set up \<Longrightarrow> downstream_list d (dag_op d s) = Inr (?ds (dag_op d s))" for s
    using upstream_list_wf(2) [OF w] dag_op_wf [OF w] up(3) by blast
  have tds: "s \<in> set up \<Longrightarrow> filter op_is_setup (own_teardowns op (?ds (dag_op d s))) = []" for s
  proof -
    assume "s \<in> set up"
    then have s: "dict_get (d_task_dict d) s = Some (dag_op d s)" using dag_op_wf [OF w] up(3) by blast
    have "x \<in> set (op_downstream_task_ids (dag_op d s)) \<Longrightarrow>
        \<not> (op_is_setup (dag_op d x) \<and> op_is_teardown (dag_op d x))" for x
    proof -
      assume "x \<in> set (op_downstream_task_ids (dag_op d s))"
      then have "(s, x) \<in> (edges d False)\<^sup>+"
        using edges_op [OF w s, of False] by (auto simp: get_direct_relative_ids_def)
      from dag_op_wf [OF w this] have "(x, dag_op d x) \<in> set (d_task_dict d)" by (auto dest: map_of_SomeD)
      with assms(2) show ?thesis by (auto simp: setups_not_teardowns_def list_all_iff)
    qed
    then show ?thesis by (auto simp: own_teardowns_def filter_empty_conv)
  qed
  have "get_upstreams_only_setups_and_teardowns d op = Inr (concat (map ?g (map (dag_op d) up)))"
    unfolding get_upstreams_only_setups_and_teardowns_def down up bind_err.simps Let_def
    by (subst map_err_defined [where g = ?g]) (auto simp: dl)
  moreover have "filter op_is_setup (concat (map ?g (map (dag_op d) xs))) =
      map (dag_op d) (filter (relevant_setup d t) xs)" if "set xs \<subseteq> set up" for xs
    using that
  proof (induction xs)
    case (Cons s xs)
    then have s: "(t, s) \<in> (edges d True)\<^sup>+" using up(3) by auto
    have "s \<in> set up" using Cons.prems by simp
    then show ?case
      using setup_test_relevant [OF w assms(3) s down(2)] tds [of s] Cons by auto
  qed simp
  ultimately have "get_upstreams_only_setups d op =
      Inr (map (dag_op d) (filter (relevant_setup d t) up))"
    by (simp add: get_upstreams_only_setups_def)
  moreover have "set (filter (relevant_setup d t) up) = {s. relevant_setup d t s}"
    using up(3) by (auto simp: relevant_setup_def)
  ultimately show ?thesis using up(2) by (intro exI [of _ "filter (relevant_setup d t) up"]) simp
qed

end
