(* ===== verification/Dag_Cycles.thy ===== *)
theory Dag_Cycles
  imports Dag_Graph
begin

text \<open>
  The cycle check of a DAG (\<open>utils/dag_cycle_tester.py\<close>), an iterative depth-first search, and the
  topological sort of the children of a task group (\<open>utils/task_group.py\<close>).
\<close>

subsection \<open>The cycle check\<close>

datatype cycle_state = CYCLE_NEW | CYCLE_IN_PROGRESS | CYCLE_DONE

fun check_adjacent_tasks :: "(id_str \<Rightarrow> cycle_state) \<Rightarrow> id_str \<Rightarrow> id_str list \<Rightarrow> id_str option result" where
  "check_adjacent_tasks visited t [] = Inr None"
| "check_adjacent_tasks visited t (a # as) =
     (if visited a = CYCLE_IN_PROGRESS then Inl (AirflowDagCycleException t)
      else if visited a = CYCLE_NEW then Inr (Some a)
      else check_adjacent_tasks visited t as)"

text \<open>
  \<open>walk\<close> is the \<open>while path_stack\<close> loop, the top of the stack first. \<open>if not child_to_check\<close> is also
  true of the empty string. The measure: a new node weighs two, one in progress weighs one; a push
  replaces a top in progress by a new one.
\<close>

definition visit_top :: "(id_str \<Rightarrow> cycle_state) \<Rightarrow> id_str \<Rightarrow> id_str \<Rightarrow> cycle_state" where
  "visit_top visited c =
     (if visited c = CYCLE_NEW then visited(c := CYCLE_IN_PROGRESS) else visited)"

definition finish_top :: "(id_str \<Rightarrow> cycle_state) \<Rightarrow> id_str \<Rightarrow> id_str \<Rightarrow> cycle_state" where
  "finish_top visited c = (visit_top visited c)(c := CYCLE_DONE)"

fun colour_weight :: "cycle_state \<Rightarrow> nat" where
  "colour_weight CYCLE_NEW = 2"
| "colour_weight CYCLE_IN_PROGRESS = 1"
| "colour_weight CYCLE_DONE = 0"

definition load :: "dag \<Rightarrow> (id_str \<Rightarrow> cycle_state) \<Rightarrow> nat" where
  "load d visited = (\<Sum>k \<in> set (dict_keys (d_task_dict d)). colour_weight (visited k))"

lemma load_less:
  "k \<in> set (dict_keys (d_task_dict d)) \<Longrightarrow> colour_weight c < colour_weight (v k) \<Longrightarrow>
   load d (v(k := c)) < load d v"
  unfolding load_def by (rule sum_strict_mono_ex1) auto

lemma load_le: "colour_weight c \<le> colour_weight (v k) \<Longrightarrow> load d (v(k := c)) \<le> load d v"
  unfolding load_def by (rule sum_mono) auto

lemma load_visit_top:
  "k \<in> set (dict_keys (d_task_dict d)) \<Longrightarrow>
   (v k = CYCLE_NEW \<and> load d (visit_top v k) < load d v) \<or> (v k \<noteq> CYCLE_NEW \<and> visit_top v k = v)"
  by (auto simp: visit_top_def intro: load_less)

lemma load_done:
  "k \<in> set (dict_keys (d_task_dict d)) \<Longrightarrow>
   load d (v(k := CYCLE_DONE)) < load d v \<or> (v(k := CYCLE_DONE) = v \<and> v k = CYCLE_DONE)"
  by (cases "v k") (auto intro: load_less)

lemma check_adjacent_child:
  "check_adjacent_tasks v t as = Inr (Some a) \<Longrightarrow> v a = CYCLE_NEW \<and> a \<in> set as"
  by (induction v t as rule: check_adjacent_tasks.induct) (auto split: if_splits)

lemma check_adjacent_none:
  "check_adjacent_tasks v t as = Inr None \<longleftrightarrow> (\<forall>a \<in> set as. v a = CYCLE_DONE)"
proof (induction v t as rule: check_adjacent_tasks.induct)
  case (2 v t a as)
  then show ?case by (cases "v a") auto
qed simp

lemma check_adjacent_error:
  "check_adjacent_tasks v t as = Inl e \<Longrightarrow>
   e = AirflowDagCycleException t \<and> (\<exists>a \<in> set as. v a = CYCLE_IN_PROGRESS)"
  by (induction v t as rule: check_adjacent_tasks.induct) (auto split: if_splits)

definition top_weight :: "(id_str \<Rightarrow> cycle_state) \<Rightarrow> id_str list \<Rightarrow> nat" where
  "top_weight v st = (case st of [] \<Rightarrow> 1 | c # _ \<Rightarrow> if v c = CYCLE_NEW then 0 else 1)"

lemma top_weight_le: "top_weight v st \<le> 1"
  by (auto simp: top_weight_def split: list.splits)

function walk :: "dag \<Rightarrow> (id_str \<Rightarrow> cycle_state) \<Rightarrow> id_str list \<Rightarrow> (id_str \<Rightarrow> cycle_state) result" where
  "walk d visited [] = Inr visited"
| "walk d visited (c # stack) =
     (let visited' = visit_top visited c in
      case dict_get (d_task_dict d) c of
        None \<Rightarrow> Inl (KeyError c)
      | Some task \<Rightarrow>
          (case check_adjacent_tasks visited' c (get_direct_relative_ids task False) of
             Inl e \<Rightarrow> Inl e
           | Inr None \<Rightarrow> walk d (finish_top visited c) stack
           | Inr (Some child) \<Rightarrow>
               if child = [] then walk d (finish_top visited c) stack
               else walk d visited' (child # c # stack)))"
  by pat_completeness auto

lemma walk_pop_decreases:
  assumes "dict_get (d_task_dict d) c = Some task"
  shows "((d, finish_top v c, st), (d, v, c # st)) \<in>
     measures [\<lambda>(d, v, st). load d v, \<lambda>(d, v, st). top_weight v st, \<lambda>(d, v, st). length st]"
proof -
  from assms have k: "c \<in> set (dict_keys (d_task_dict d))" by (rule dict_get_keys)
  from load_visit_top [OF k, of v] load_done [OF k, of "visit_top v c", folded finish_top_def]
  consider "load d (finish_top v c) < load d v" |
    "finish_top v c = v" "v c = CYCLE_DONE"
    by fastforce
  then show ?thesis
  proof cases
    case 2
    have "top_weight v (c # st) = 1" using 2(2) by (simp add: top_weight_def)
    with 2 top_weight_le [of v st] show ?thesis by auto
  qed simp
qed

lemma walk_push_decreases:
  assumes "dict_get (d_task_dict d) c = Some task" "visit_top v c child = CYCLE_NEW"
  shows "((d, visit_top v c, child # c # st), (d, v, c # st)) \<in>
     measures [\<lambda>(d, v, st). load d v, \<lambda>(d, v, st). top_weight v st, \<lambda>(d, v, st). length st]"
proof -
  from assms(1) have k: "c \<in> set (dict_keys (d_task_dict d))" by (rule dict_get_keys)
  from load_visit_top [OF k, of v] show ?thesis
    using assms(2) by (auto simp: top_weight_def)
qed

termination walk
  by (relation "measures [\<lambda>(d, v, st). load d v, \<lambda>(d, v, st). top_weight v st, \<lambda>(d, v, st). length st]")
     (auto simp del: in_measures intro!: walk_pop_decreases walk_push_decreases
        dest: check_adjacent_child)

declare walk.simps(2) [simp del]

lemma walk_step:
  "dict_get (d_task_dict d) c = Some task \<Longrightarrow>
   walk d v (c # st) =
     (case check_adjacent_tasks (visit_top v c) c (get_direct_relative_ids task False) of
        Inl e \<Rightarrow> Inl e
      | Inr None \<Rightarrow> walk d (finish_top v c) st
      | Inr (Some child) \<Rightarrow>
          if child = [] then walk d (finish_top v c) st
          else walk d (visit_top v c) (child # c # st))"
  by (simp add: walk.simps(2) Let_def)

fun check_from :: "dag \<Rightarrow> (id_str \<Rightarrow> cycle_state) \<Rightarrow> id_str list \<Rightarrow> unit result" where
  "check_from d visited [] = Inr ()"
| "check_from d visited (k # ks) =
     (if visited k = CYCLE_DONE then check_from d visited ks
      else bind_err (walk d visited [k]) (\<lambda>visited'. check_from d visited' ks))"

definition check_cycle :: "dag \<Rightarrow> unit result" where
  "check_cycle d = check_from d (\<lambda>_. CYCLE_NEW) (dict_keys (d_task_dict d))"

text \<open>What holds of the finished nodes: they are closed under the edges and lie on no cycle.\<close>

definition done_inv :: "dag \<Rightarrow> (id_str \<Rightarrow> cycle_state) \<Rightarrow> bool" where
  "done_inv d v \<longleftrightarrow> (\<forall>x y. v x = CYCLE_DONE \<longrightarrow> (x, y) \<in> edges d False \<longrightarrow> v y = CYCLE_DONE) \<and>
     (\<forall>x. v x = CYCLE_DONE \<longrightarrow> (x, x) \<notin> (edges d False)\<^sup>+)"

lemma done_inv_star:
  "done_inv d v \<Longrightarrow> v x = CYCLE_DONE \<Longrightarrow> (x, y) \<in> (edges d False)\<^sup>* \<Longrightarrow> v y = CYCLE_DONE"
  by (rotate_tac -1, induction rule: rtrancl_induct) (auto simp: done_inv_def)

lemma done_inv_finish:
  assumes "done_inv d v" "\<And>y. (c, y) \<in> edges d False \<Longrightarrow> v y = CYCLE_DONE"
  shows "done_inv d (v(c := CYCLE_DONE))"
proof -
  have "v c \<noteq> CYCLE_DONE \<Longrightarrow> (c, c) \<notin> (edges d False)\<^sup>+"
    using assms done_inv_star [OF assms(1), of _ c] by (auto dest!: tranclD)
  with assms show ?thesis by (auto simp: done_inv_def)
qed

lemma done_inv_visit_top: "done_inv d v \<Longrightarrow> done_inv d (visit_top v c)"
  by (auto simp: done_inv_def visit_top_def)

lemma finish_top_done [simp]: "finish_top v c x = CYCLE_DONE \<longleftrightarrow> x = c \<or> v x = CYCLE_DONE"
  by (auto simp: finish_top_def visit_top_def)

lemma visit_top_done [simp]: "visit_top v c x = CYCLE_DONE \<longleftrightarrow> v x = CYCLE_DONE"
  by (auto simp: visit_top_def)

lemma walk_finishes:
  assumes "wf_dag d" "walk d v st = Inr v'" "done_inv d v"
  shows "done_inv d v' \<and> (\<forall>x. x \<in> set st \<or> v x = CYCLE_DONE \<longrightarrow> v' x = CYCLE_DONE)"
  using assms
proof (induction d v st rule: walk.induct)
  case (2 d v c st)
  from "2.prems"(2) obtain task where t: "dict_get (d_task_dict d) c = Some task"
    by (auto simp: walk.simps(2) Let_def split: option.splits)
  have E: "(c, y) \<in> edges d False \<longleftrightarrow> y \<in> set (get_direct_relative_ids task False)" for y
    using t by (simp add: edges_iff)
  note vt = done_inv_visit_top [OF "2.prems"(3), of c]
  show ?case
  proof (cases "check_adjacent_tasks (visit_top v c) c (get_direct_relative_ids task False)")
    case (Inr r)
    show ?thesis
    proof (cases r)
      case None
      have "done_inv d (finish_top v c)"
        using Inr None E by (auto simp: check_adjacent_none finish_top_def intro: done_inv_finish [OF vt])
      with "2.IH"(1) [OF refl t Inr None] "2.prems" walk_step [OF t] Inr None show ?thesis by auto
    next
      case (Some child)
      with check_adjacent_child [of "visit_top v c" c _ child] Inr E have "(c, child) \<in> edges d False"
        by auto
      then have "child \<noteq> []" using wf_dag_opD(2) [OF "2.prems"(1)] edges_in_dag [OF "2.prems"(1)]
        by (fastforce simp: in_dict_keys_iff)
      with "2.IH"(3) [OF refl t Inr Some this] "2.prems" walk_step [OF t] Inr Some vt show ?thesis by auto
    qed
  qed (use "2.prems" walk_step [OF t] in auto)
qed auto

text \<open>What holds while the walk is under way: the stack is a path, and holds every node in progress.\<close>

definition path_inv :: "dag \<Rightarrow> (id_str \<Rightarrow> cycle_state) \<Rightarrow> id_str list \<Rightarrow> bool" where
  "path_inv d v st \<longleftrightarrow> successively (\<lambda>x y. (y, x) \<in> edges d False) st \<and>
     set st \<subseteq> set (dict_keys (d_task_dict d)) \<and> (\<forall>x. v x = CYCLE_IN_PROGRESS \<longrightarrow> x \<in> set st)"

lemma path_reaches_top:
  "successively (\<lambda>x y. (y, x) \<in> E) (c # st) \<Longrightarrow> x \<in> set (c # st) \<Longrightarrow> (x, c) \<in> E\<^sup>*"
proof (induction st arbitrary: c)
  case (Cons y st)
  from Cons.prems have "(y, c) \<in> E" "successively (\<lambda>x y. (y, x) \<in> E) (y # st)" by auto
  with Cons.IH [of y] Cons.prems(2) show ?case by (auto intro: rtrancl_into_rtrancl)
qed simp

lemma successively_tail: "successively P (x # xs) \<Longrightarrow> successively P xs"
  by (cases xs) auto

lemma walk_raises:
  assumes "wf_dag d" "walk d v st = Inl e" "path_inv d v st"
  shows "\<exists>t. e = AirflowDagCycleException t \<and> (t, t) \<in> (edges d False)\<^sup>+"
  using assms
proof (induction d v st rule: walk.induct)
  case (2 d v c st)
  from "2.prems"(3) have "c \<in> set (dict_keys (d_task_dict d))" by (simp add: path_inv_def)
  then obtain task where t: "dict_get (d_task_dict d) c = Some task" by (auto simp: in_dict_keys_iff)
  have E: "(c, y) \<in> edges d False \<longleftrightarrow> y \<in> set (get_direct_relative_ids task False)" for y
    using t by (simp add: edges_iff)
  have pv: "path_inv d (visit_top v c) (c # st)"
    using "2.prems"(3) by (auto simp: path_inv_def visit_top_def)
  have pop: "path_inv d (finish_top v c) st"
    using pv by (auto simp: path_inv_def finish_top_def dest: successively_tail)
  show ?case
  proof (cases "check_adjacent_tasks (visit_top v c) c (get_direct_relative_ids task False)")
    case (Inl e')
    from check_adjacent_error [OF this] obtain a where
      a: "e' = AirflowDagCycleException c" "(c, a) \<in> edges d False" "visit_top v c a = CYCLE_IN_PROGRESS"
      using E by auto
    with pv have "a \<in> set (c # st)" by (auto simp: path_inv_def)
    with pv have "(a, c) \<in> (edges d False)\<^sup>*"
      by (intro path_reaches_top) (auto simp: path_inv_def)
    with a(2) have "(c, c) \<in> (edges d False)\<^sup>+" by (rule rtrancl_into_trancl2)
    with a(1) "2.prems"(2) walk_step [OF t] Inl show ?thesis by auto
  next
    case (Inr r)
    show ?thesis
    proof (cases r)
      case None
      with "2.IH"(1) [OF refl t Inr None] "2.prems" walk_step [OF t] Inr None pop show ?thesis by auto
    next
      case (Some child)
      with check_adjacent_child [of "visit_top v c" c _ child] Inr E have e: "(c, child) \<in> edges d False"
        by auto
      then have "path_inv d (visit_top v c) (child # c # st)"
        using pv edges_in_dag [OF "2.prems"(1)] by (auto simp: path_inv_def)
      with "2.IH" [OF refl t Inr] "2.prems" walk_step [OF t] Inr Some pop show ?thesis by (auto split: if_splits)
    qed
  qed
qed auto

lemma walk_no_progress_left:
  assumes "wf_dag d" "walk d v st = Inr v'" "path_inv d v st"
  shows "\<forall>x. v' x \<noteq> CYCLE_IN_PROGRESS"
  using assms
proof (induction d v st rule: walk.induct)
  case (2 d v c st)
  from "2.prems"(2) obtain task where t: "dict_get (d_task_dict d) c = Some task"
    by (auto simp: walk.simps(2) Let_def split: option.splits)
  have E: "(c, y) \<in> edges d False \<longleftrightarrow> y \<in> set (get_direct_relative_ids task False)" for y
    using t by (simp add: edges_iff)
  have pv: "path_inv d (visit_top v c) (c # st)"
    using "2.prems"(3) by (auto simp: path_inv_def visit_top_def)
  have pop: "path_inv d (finish_top v c) st"
    using pv by (auto simp: path_inv_def finish_top_def dest: successively_tail)
  show ?case
  proof (cases "check_adjacent_tasks (visit_top v c) c (get_direct_relative_ids task False)")
    case (Inr r)
    show ?thesis
    proof (cases r)
      case None
      with "2.IH"(1) [OF refl t Inr None] "2.prems" walk_step [OF t] Inr None pop show ?thesis by auto
    next
      case (Some child)
      with check_adjacent_child [of "visit_top v c" c _ child] Inr E have e: "(c, child) \<in> edges d False"
        by auto
      then have "path_inv d (visit_top v c) (child # c # st)"
        using pv edges_in_dag [OF "2.prems"(1)] by (auto simp: path_inv_def)
      with "2.IH" [OF refl t Inr] "2.prems" walk_step [OF t] Inr Some pop show ?thesis by (auto split: if_splits)
    qed
  qed (use "2.prems" walk_step [OF t] in auto)
qed (auto simp: path_inv_def)

lemma check_from_result:
  assumes "wf_dag d" "set ks \<subseteq> set (dict_keys (d_task_dict d))" "done_inv d v"
    "\<forall>x. v x \<noteq> CYCLE_IN_PROGRESS"
  shows "case check_from d v ks of
      Inl e \<Rightarrow> \<exists>t. e = AirflowDagCycleException t \<and> (t, t) \<in> (edges d False)\<^sup>+
    | Inr _ \<Rightarrow> \<forall>k \<in> set ks. (k, k) \<notin> (edges d False)\<^sup>+"
  using assms
proof (induction d v ks rule: check_from.induct)
  case (2 d v k ks)
  have pi: "path_inv d v [k]" using "2.prems" by (simp add: path_inv_def)
  show ?case
  proof (cases "v k = CYCLE_DONE")
    case True
    then have "(k, k) \<notin> (edges d False)\<^sup>+" using "2.prems"(3) by (simp add: done_inv_def)
    with "2.IH"(1) [OF True] "2.prems" True show ?thesis by (auto split: sum.splits)
  next
    case False
    show ?thesis
    proof (cases "walk d v [k]")
      case (Inl e)
      from walk_raises [OF "2.prems"(1) Inl pi] False Inl show ?thesis by simp
    next
      case (Inr v')
      from walk_finishes [OF "2.prems"(1) Inr "2.prems"(3)]
      have v': "done_inv d v'" "v' k = CYCLE_DONE" by auto
      then have "(k, k) \<notin> (edges d False)\<^sup>+" by (simp add: done_inv_def)
      with "2.IH"(2) [OF False Inr] "2.prems" v' walk_no_progress_left [OF "2.prems"(1) Inr pi] False Inr
      show ?thesis by (auto split: sum.splits)
    qed
  qed
qed auto

text \<open>
  C16. The cycle check accepts a DAG exactly when its graph is acyclic; otherwise it raises
  AirflowDagCycleException, naming a task that lies on a cycle. It never raises anything else.
\<close>

theorem check_cycle_correct:
  assumes "wf_dag d"
  shows "(check_cycle d = Inr () \<longleftrightarrow> acyclic (edges d False)) \<and>
    (check_cycle d = Inr () \<or>
     (\<exists>t. check_cycle d = Inl (AirflowDagCycleException t) \<and> (t, t) \<in> (edges d False)\<^sup>+))"
proof -
  have "(k, k) \<in> (edges d False)\<^sup>+ \<Longrightarrow> k \<in> set (dict_keys (d_task_dict d))" for k
    using edges_in_dag [OF assms] by (auto elim: tranclE)
  moreover have "done_inv d (\<lambda>_. CYCLE_NEW)" by (simp add: done_inv_def)
  note check_from_result [OF assms subset_refl this]
  ultimately show ?thesis
    by (cases "check_cycle d") (auto simp: check_cycle_def acyclic_def)
qed

lemma check_cycle_correct_witness:
  "check_cycle (sample_dag [(sample_op ''a'')\<lparr>op_downstream_task_ids := [''b'']\<rparr>,
      (sample_op ''b'')\<lparr>op_upstream_task_ids := [''a'']\<rparr>]) = Inr () \<and>
   acyclic (edges (sample_dag [(sample_op ''a'')\<lparr>op_downstream_task_ids := [''b'']\<rparr>,
      (sample_op ''b'')\<lparr>op_upstream_task_ids := [''a'']\<rparr>]) False)"
proof -
  let ?d = "sample_dag [(sample_op ''a'')\<lparr>op_downstream_task_ids := [''b'']\<rparr>,
      (sample_op ''b'')\<lparr>op_upstream_task_ids := [''a'']\<rparr>]"
  have "wf_dag ?d" by (simp add: wf_dag_def sample_defs dict_keys_def)
  from check_cycle_correct [OF this] moreover have "check_cycle ?d = Inr ()"
    by (simp add: check_cycle_def sample_defs dict_keys_def walk.simps(2) visit_top_def finish_top_def
        get_direct_relative_ids_def Let_def)
  ultimately show ?thesis by blast
qed

subsection \<open>Topological sort\<close>

text \<open>
  The children of a task group as ids; \<open>upstream\<close> is \<open>node.upstream_list\<close> and \<open>groups\<close> the ids of
  the groups an upstream task is nested in, from its own \<open>task_group\<close> outwards. An edge blocks a
  node while it, or a group around it, is still unsorted. Sub-DAGs are not expanded (the default).
\<close>

definition edge_blocks :: "(id_str \<Rightarrow> id_str list) \<Rightarrow> id_str list \<Rightarrow> id_str \<Rightarrow> bool" where
  "edge_blocks groups unsorted edge \<longleftrightarrow>
     edge \<in> set unsorted \<or> list_ex (\<lambda>tg. tg \<in> set unsorted) (groups edge)"

fun topo_pass :: "(id_str \<Rightarrow> id_str list) \<Rightarrow> (id_str \<Rightarrow> id_str list) \<Rightarrow> id_str list \<Rightarrow>
    id_str list \<Rightarrow> id_str list \<Rightarrow> bool \<Rightarrow> id_str list \<times> id_str list \<times> bool" where
  "topo_pass upstream groups [] unsorted srt acyc = (unsorted, srt, acyc)"
| "topo_pass upstream groups (n # ns) unsorted srt acyc =
     (if list_ex (edge_blocks groups unsorted) (upstream n)
      then topo_pass upstream groups ns unsorted srt acyc
      else topo_pass upstream groups ns (remove1 n unsorted) (srt @ [n]) True)"

lemma remove1_submset:
  assumes "mset (n # ns) \<subseteq># mset un"
  shows "n \<in> set un \<and> mset ns \<subseteq># mset (remove1 n un) \<and> mset ns \<subseteq># mset un"
proof -
  from assms have *: "n \<in> set un" "mset ns \<subseteq># mset un - {#n#}" by (auto simp: insert_subset_eq_iff)
  then have "mset ns \<subseteq># mset un" by (meson diff_subset_eq_self subset_mset.order_trans)
  with * show ?thesis by simp
qed

lemma topo_pass_mset:
  "topo_pass up g ns un srt ac = (un', srt', ac') \<Longrightarrow> mset ns \<subseteq># mset un \<Longrightarrow>
   mset un' + mset srt' = mset un + mset srt \<and> (if ac' \<and> \<not> ac then length un' < length un
     else length un' \<le> length un)"
proof (induction up g ns un srt ac rule: topo_pass.induct)
  case (2 up g n ns un srt ac)
  note n = remove1_submset [OF "2.prems"(2)]
  show ?case
  proof (cases "list_ex (edge_blocks g un) (up n)")
    case False
    have "length (remove1 n un) < length un" using n by (auto simp: length_remove1 dest: length_pos_if_in_set)
    moreover have "mset (remove1 n un) + mset (srt @ [n]) = mset un + mset srt"
      using n by simp
    ultimately show ?thesis using "2.IH"(2) [OF False] "2.prems"(1) False n
      by (auto split: if_splits)
  qed (use 2 n in auto)
qed auto

function topo_loop :: "id_str \<Rightarrow> (id_str \<Rightarrow> id_str list) \<Rightarrow> (id_str \<Rightarrow> id_str list) \<Rightarrow> id_str list \<Rightarrow>
    id_str list \<Rightarrow> id_str list result" where
  "topo_loop dag_id upstream groups unsorted srt =
     (if unsorted = [] then Inr srt
      else case topo_pass upstream groups unsorted unsorted srt False of
        (unsorted', srt', acyc) \<Rightarrow>
          if acyc then topo_loop dag_id upstream groups unsorted' srt'
          else Inl (AirflowDagCycleException dag_id))"
  by pat_completeness auto
termination
  by (relation "measure (\<lambda>(d, up, g, un, srt). length un)") (auto dest!: topo_pass_mset [OF sym])

declare topo_loop.simps [simp del]

definition topological_sort :: "id_str \<Rightarrow> (id_str \<Rightarrow> id_str list) \<Rightarrow> (id_str \<Rightarrow> id_str list) \<Rightarrow> id_str list \<Rightarrow>
    id_str list result" where
  "topological_sort dag_id upstream groups children =
     topo_loop dag_id upstream groups children []"

text \<open>\<open>ordered up g rest srt\<close>: no node of \<open>srt\<close> is blocked by itself, a later node or the rest.\<close>

fun ordered :: "(id_str \<Rightarrow> id_str list) \<Rightarrow> (id_str \<Rightarrow> id_str list) \<Rightarrow> id_str list \<Rightarrow> id_str list \<Rightarrow> bool" where
  "ordered up g rest [] = True"
| "ordered up g rest (n # ns) =
     (\<not> list_ex (edge_blocks g (n # ns @ rest)) (up n) \<and> ordered up g rest ns)"

lemma edge_blocks_mono: "edge_blocks g un e \<Longrightarrow> set un \<subseteq> set un' \<Longrightarrow> edge_blocks g un' e"
  by (auto simp: edge_blocks_def list_ex_iff)

lemma ordered_snoc:
  "ordered up g un srt \<Longrightarrow> n \<in> set un \<Longrightarrow> \<not> list_ex (edge_blocks g un) (up n) \<Longrightarrow>
   ordered up g (remove1 n un) (srt @ [n])"
proof (induction srt)
  case Nil
  have "set (n # remove1 n un) \<subseteq> set un" using Nil set_remove1_subset [of n un] by auto
  with Nil edge_blocks_mono show ?case by (fastforce simp: list_ex_iff)
next
  case (Cons m srt)
  have "set (m # (srt @ [n]) @ remove1 n un) \<subseteq> set (m # srt @ un)"
    using Cons.prems set_remove1_subset [of n un] by auto
  with Cons edge_blocks_mono show ?case by (fastforce simp: list_ex_iff)
qed

lemma topo_pass_ordered:
  "topo_pass up g ns un srt ac = (un', srt', ac') \<Longrightarrow> mset ns \<subseteq># mset un \<Longrightarrow>
   ordered up g un srt \<Longrightarrow> ordered up g un' srt'"
proof (induction up g ns un srt ac rule: topo_pass.induct)
  case (2 up g n ns un srt ac)
  note n = remove1_submset [OF "2.prems"(2)]
  with 2 ordered_snoc [of up g un srt n] show ?case by (auto split: if_splits)
qed auto

lemma topo_pass_flag: "topo_pass up g ns un srt True = (un', srt', ac') \<Longrightarrow> ac'"
  by (induction up g ns un srt True rule: topo_pass.induct) (auto split: if_splits)

lemma topo_pass_stuck:
  "topo_pass up g ns un srt False = (un', srt', False) \<Longrightarrow>
   \<forall>n \<in> set ns. list_ex (edge_blocks g un) (up n)"
  by (induction up g ns un srt False rule: topo_pass.induct)
     (auto split: if_splits dest: topo_pass_flag)

lemma topo_pass_sub: "topo_pass up g ns un srt ac = (un', srt', ac') \<Longrightarrow> set un' \<subseteq> set un"
proof (induction up g ns un srt ac rule: topo_pass.induct)
  case (2 up g n ns un srt ac)
  then show ?case using set_remove1_subset [of n un] by (auto split: if_splits)
qed auto

text \<open>\<open>m\<close> blocks \<open>n\<close> when an upstream task of \<open>n\<close> is \<open>m\<close> or lies inside the group \<open>m\<close>.\<close>

definition blocks :: "(id_str \<Rightarrow> id_str list) \<Rightarrow> (id_str \<Rightarrow> id_str list) \<Rightarrow> id_str list \<Rightarrow> (id_str \<times> id_str) set" where
  "blocks up g ns = {(m, n). m \<in> set ns \<and> n \<in> set ns \<and> (\<exists>e \<in> set (up n). m = e \<or> m \<in> set (g e))}"

lemma list_ex_blocks:
  "n \<in> set ns \<Longrightarrow> set un \<subseteq> set ns \<Longrightarrow>
   list_ex (edge_blocks g un) (up n) \<longleftrightarrow> (\<exists>m \<in> set un. (m, n) \<in> blocks up g ns)"
  by (auto simp: list_ex_iff edge_blocks_def blocks_def)

lemma acyclic_has_source:
  assumes "acyclic (blocks up g ns)" "un \<noteq> []" "set un \<subseteq> set ns"
  shows "\<exists>n \<in> set un. \<not> list_ex (edge_blocks g un) (up n)"
proof -
  have "finite (blocks up g ns)"
    by (rule finite_subset [of _ "set ns \<times> set ns"]) (auto simp: blocks_def)
  with assms(1) have "wf (blocks up g ns)" by (rule finite_acyclic_wf [rotated])
  then obtain n where "n \<in> set un" "\<And>m. (m, n) \<in> blocks up g ns \<Longrightarrow> m \<notin> set un"
    using assms(2) by (metis list.set_intros(1) neq_Nil_conv wf_eq_minimal)
  with assms(3) list_ex_blocks [of n ns un g up] show ?thesis by blast
qed

lemma topo_loop_acyclic:
  assumes "acyclic (blocks up g ns)" "set un \<subseteq> set ns"
  shows "\<exists>order. topo_loop d up g un srt = Inr order"
  using assms
proof (induction d up g un srt rule: topo_loop.induct)
  case (1 d up g un srt)
  obtain un' srt' ac where r: "topo_pass up g un un srt False = (un', srt', ac)"
    by (cases "topo_pass up g un un srt False")
  show ?case
  proof (cases "un = []")
    case False
    with acyclic_has_source [OF "1.prems"(1) False "1.prems"(2)] topo_pass_stuck [of up g un un srt] r
    have ac by (cases ac) auto
    have "set un' \<subseteq> set ns" using topo_pass_sub [OF r] "1.prems"(2) by auto
    with "1.IH" [OF False r [symmetric] refl \<open>ac\<close>] "1.prems" show ?thesis
      by (subst topo_loop.simps) (simp add: False r \<open>ac\<close>)
  qed (simp add: topo_loop.simps)
qed

lemma topo_loop_result:
  assumes "topo_loop d up g un srt = Inr order" "ordered up g un srt"
  shows "mset order = mset un + mset srt \<and> ordered up g [] order"
  using assms
proof (induction d up g un srt rule: topo_loop.induct)
  case (1 d up g un srt)
  obtain un' srt' ac where r: "topo_pass up g un un srt False = (un', srt', ac)"
    by (cases "topo_pass up g un un srt False")
  show ?case
  proof (cases "un = []")
    case False
    with "1.prems"(1) r have ac by (subst (asm) topo_loop.simps) (auto split: if_splits)
    with "1.prems"(1) r False have "topo_loop d up g un' srt' = Inr order"
      by (subst (asm) topo_loop.simps) auto
    with "1.IH" [OF False r [symmetric] refl \<open>ac\<close>] topo_pass_ordered [OF r] topo_pass_mset [OF r]
      "1.prems"(2) show ?thesis by auto
  qed (use "1.prems" in \<open>simp add: topo_loop.simps\<close>)
qed

lemma ordered_split:
  "ordered up g rest (xs @ n # ys) \<Longrightarrow> \<not> list_ex (edge_blocks g (n # ys @ rest)) (up n)"
  by (induction xs) auto

lemma ordered_precedes:
  assumes "ordered up g [] order" "(m, n) \<in> blocks up g order"
  shows "\<exists>xs ys. order = xs @ n # ys \<and> m \<in> set xs \<and> n \<notin> set xs"
proof -
  from assms(2) have "n \<in> set order" "m \<in> set order" by (auto simp: blocks_def)
  then obtain xs ys where o: "order = xs @ n # ys" "n \<notin> set xs" by (meson split_list_first)
  with ordered_split assms(1) have "\<not> list_ex (edge_blocks g (n # ys)) (up n)" by fastforce
  with list_ex_blocks [of n order "n # ys" g up] o assms(2) have "m \<notin> set (n # ys)" by auto
  with o \<open>m \<in> set order\<close> show ?thesis by auto
qed

lemma takeWhile_until: "x \<notin> set us \<Longrightarrow> takeWhile (\<lambda>y. y \<noteq> x) (us @ x # vs) = us"
  by (induction us) auto

lemma ordered_acyclic: "ordered up g [] order \<Longrightarrow> acyclic (blocks up g order)"
proof (rule acyclic_subset [OF wf_acyclic [OF wf_measure [of "\<lambda>x. length (takeWhile (\<lambda>y. y \<noteq> x) order)"]]],
    clarify)
  fix m n assume o: "ordered up g [] order" and e: "(m, n) \<in> blocks up g order"
  from ordered_precedes [OF o e] obtain xs ys where
    x: "order = xs @ n # ys" "m \<in> set xs" "n \<notin> set xs" by auto
  from x(2) obtain us vs where u: "xs = us @ m # vs" "m \<notin> set us" by (meson split_list_first)
  have "takeWhile (\<lambda>y. y \<noteq> n) order = xs"
    using x by (simp add: takeWhile_until)
  moreover have "takeWhile (\<lambda>y. y \<noteq> m) order = us"
    using x(1) u by (simp add: takeWhile_until)
  ultimately show "(m, n) \<in> measure (\<lambda>x. length (takeWhile (\<lambda>y. y \<noteq> x) order))" using u by simp
qed

text \<open>
  C23. The topological sort of a group's children succeeds exactly when no child blocks itself in a
  cycle; then it returns the children, each once and after every child that blocks it. Otherwise
  it raises AirflowDagCycleException.
\<close>

theorem topological_sort_correct:
  assumes "distinct children"
  shows "case topological_sort d up g children of
      Inl e \<Rightarrow> e = AirflowDagCycleException d \<and> \<not> acyclic (blocks up g children)
    | Inr order \<Rightarrow> acyclic (blocks up g children) \<and> distinct order \<and> set order = set children \<and>
        (\<forall>(m, n) \<in> blocks up g children. \<exists>xs ys. order = xs @ n # ys \<and> m \<in> set xs)"
proof (cases "topological_sort d up g children")
  case (Inl e)
  have "topo_loop d up g un srt = Inl e \<Longrightarrow> e = AirflowDagCycleException d" for un srt
    by (induction d up g un srt rule: topo_loop.induct)
       (subst (asm) (2) topo_loop.simps, auto split: if_splits prod.splits)
  with Inl topo_loop_acyclic [of up g children children d "[]"] show ?thesis
    by (auto simp: topological_sort_def)
next
  case (Inr order)
  with topo_loop_result [of d up g children "[]" order] have
    o: "mset order = mset children" "ordered up g [] order" by (auto simp: topological_sort_def)
  from o(1) have s: "set order = set children" "distinct order"
    using assms by (metis set_mset_mset, metis mset_eq_imp_distinct_iff)
  then have "blocks up g order = blocks up g children" by (simp add: blocks_def)
  with o(2) s ordered_acyclic [OF o(2)] ordered_precedes [OF o(2)] Inr show ?thesis by fastforce
qed

lemma topological_sort_correct_witness:
  "topological_sort ''d'' (\<lambda>n. if n = ''a'' then [''b''] else []) (\<lambda>_. []) [''a'', ''b''] = Inr [''b'', ''a''] \<and>
   acyclic (blocks (\<lambda>n. if n = ''a'' then [''b''] else []) (\<lambda>_. []) [''a'', ''b''])"
proof -
  let ?up = "\<lambda>n. if n = ''a'' then [''b''] else []"
  have r: "topological_sort ''d'' ?up (\<lambda>_. []) [''a'', ''b''] = Inr [''b'', ''a'']"
    by (simp add: topological_sort_def topo_loop.simps edge_blocks_def)
  have "distinct [''a'', ''b'']" by simp
  from topological_sort_correct [OF this, of "''d''" ?up "\<lambda>_. []"] r show ?thesis by simp
qed

subsection \<open>Properties of the relatives and the weights\<close>

lemma acyclic_reach_insert:
  assumes "wf_dag d" "acyclic (edges d False)" "(a, b) \<in> edges d False"
  shows "insert b {c. (b, c) \<in> (edges d False)\<^sup>+} \<subseteq> {c. (a, c) \<in> (edges d False)\<^sup>+}"
    and "b \<notin> {c. (b, c) \<in> (edges d False)\<^sup>+}"
  using assms(2,3) by (auto simp: acyclic_def intro: trancl_into_trancl2)

text \<open>
  In a DAG whose tasks have positive weights under the (default) downstream rule, a task's total
  priority weight is strictly greater than that of every task directly downstream of it, so an
  executor ordering by it prefers the upstream task.
\<close>

theorem upstream_outweighs_downstream:
  assumes "wf_dag d" "acyclic (edges d False)" "(a, b) \<in> edges d False"
    "list_all (\<lambda>(t, op). op_weight_rule op = DOWNSTREAM \<and> 0 < op_priority_weight op) (d_task_dict d)"
  shows "\<exists>x y. priority_weight_total d (dag_op d a) = Inr x \<and>
    priority_weight_total d (dag_op d b) = Inr y \<and> y < x"
proof -
  let ?R = "\<lambda>t. {c. (t, c) \<in> (edges d False)\<^sup>+}"
  have op: "dict_get (d_task_dict d) t = Some (dag_op d t)" "op_weight_rule (dag_op d t) = DOWNSTREAM"
    "0 < weight_of d t" if "t \<in> set (dict_keys (d_task_dict d))" for t
    using that assms(4) by (fastforce simp: in_dict_keys_iff dag_op_def weight_of_def list_all_iff dest: map_of_SomeD)+
  have pos: "t \<in> ?R c \<Longrightarrow> 0 \<le> weight_of d t" for t c
    using dag_op_wf [OF assms(1)] op(3) [of t] by (force simp: in_dict_keys_iff)
  from edges_in_dag [OF assms(1,3)] have k: "a \<in> set (dict_keys (d_task_dict d))"
    "b \<in> set (dict_keys (d_task_dict d))" by auto
  have tot: "priority_weight_total d (dag_op d t) = Inr (weight_of d t + sum (weight_of d) (?R t))"
    if "t \<in> set (dict_keys (d_task_dict d))" for t
    using priority_weight_total_sum [OF assms(1) op(1) [OF that]] op(2) [OF that]
    by (simp add: weight_of_def)
  have "sum (weight_of d) (insert b (?R b)) \<le> sum (weight_of d) (?R a)"
    using acyclic_reach_insert [OF assms(1-3)] pos
    by (intro sum_mono2) (auto simp: finite_edges [OF assms(1)])
  then have "weight_of d b + sum (weight_of d) (?R b) \<le> sum (weight_of d) (?R a)"
    using acyclic_reach_insert(2) [OF assms(1-3)] by (simp add: finite_edges [OF assms(1)])
  with op(3) [OF k(1)] tot [OF k(1)] tot [OF k(2)] show ?thesis by auto
qed

text \<open>A two-task chain, the DAG of the witnesses.\<close>

definition sample_chain :: dag where
  "sample_chain = sample_dag [(sample_op ''a'')\<lparr>op_downstream_task_ids := [''b'']\<rparr>,
     (sample_op ''b'')\<lparr>op_upstream_task_ids := [''a'']\<rparr>]"

lemma sample_chain_wf: "wf_dag sample_chain"
  by (simp add: sample_chain_def wf_dag_def sample_defs dict_keys_def)

lemma sample_chain_edges: "edges sample_chain False = {(''a'', ''b'')}"
  by (auto simp: edges_def sample_chain_def sample_defs get_direct_relative_ids_def split: if_splits)

lemma sample_chain_acyclic: "acyclic (edges sample_chain False)"
  by (auto simp: sample_chain_edges acyclic_def elim: tranclE dest: tranclD)

lemma upstream_outweighs_downstream_witness:
  "\<exists>x y. priority_weight_total sample_chain (dag_op sample_chain ''a'') = Inr x \<and>
    priority_weight_total sample_chain (dag_op sample_chain ''b'') = Inr y \<and> y < x"
proof (rule upstream_outweighs_downstream [OF sample_chain_wf sample_chain_acyclic])
  show "(''a'', ''b'') \<in> edges sample_chain False" by (simp add: sample_chain_edges)
qed (simp add: sample_chain_def sample_defs)

text \<open>
  The flat relatives of a task of a well-formed DAG are exactly the tasks reachable over one
  or more edges in the chosen direction, each once; the loop terminates and never raises.
\<close>

theorem get_flat_relative_ids_closure:
  assumes "wf_dag d" "dict_get (d_task_dict d) t = Some op"
  shows "\<exists>rs. get_flat_relative_ids d op up = Inr rs \<and> distinct rs \<and>
    set rs = {b. (t, b) \<in> (edges d up)\<^sup>+}"
  using assms by (rule flat_relative_ids_trancl)

lemma get_flat_relative_ids_closure_witness:
  "\<exists>rs. get_flat_relative_ids sample_chain (dag_op sample_chain ''a'') False = Inr rs \<and> distinct rs \<and>
    set rs = {b. (''a'', b) \<in> (edges sample_chain False)\<^sup>+}"
  by (rule get_flat_relative_ids_closure [OF sample_chain_wf]) (simp add: sample_chain_def sample_defs dag_op_def)

text \<open>
  The upstream setups a task waits for are exactly its transitive upstream setups that have no
  teardown, or have a teardown downstream of the task as well.
\<close>

theorem upstream_setups_relevant:
  assumes "wf_dag d" "setups_not_teardowns d" "dict_get (d_task_dict d) t = Some op"
  shows "\<exists>us. get_upstreams_only_setups d op = Inr (map (dag_op d) us) \<and> distinct us \<and>
    set us = {s. relevant_setup d t s}"
  using assms by (rule only_setups_relevant)

lemma upstream_setups_relevant_witness:
  "\<exists>us. get_upstreams_only_setups sample_chain (dag_op sample_chain ''b'') = Inr (map (dag_op sample_chain) us) \<and>
    distinct us \<and> set us = {s. relevant_setup sample_chain ''b'' s}"
  by (rule upstream_setups_relevant [OF sample_chain_wf])
     (simp_all add: setups_not_teardowns_def sample_chain_def sample_defs dag_op_def)

end
