(* ===== verification/Pools.thy ===== *)
theory Pools
  imports Dag_Cycles
begin

text \<open>
  Pools (\<open>models/pool.py\<close>): the slot accounting every admission decision of the scheduler rests
  on. \<open>slots_stats\<close> computes the statistics of all pools with two queries; \<open>open_slots\<close>
  computes the same figure for one pool. The theory shows that the two agree.
\<close>

definition DEFAULT_POOL_NAME :: id_str where
  "DEFAULT_POOL_NAME = ''default_pool''"

record PoolStats =
  ps_total :: xint
  ps_running :: int
  ps_deferred :: int
  ps_queued :: int
  ps_open :: xint

subsection \<open>Rows\<close>

definition get_pools :: "db \<Rightarrow> pool list" where
  "get_pools s = db_pools s"

definition get_pool :: "db \<Rightarrow> id_str \<Rightarrow> pool option" where
  "get_pool s name = find (\<lambda>p. pl_pool p = name) (db_pools s)"

definition get_default_pool :: "db \<Rightarrow> pool option" where
  "get_default_pool s = get_pool s DEFAULT_POOL_NAME"

definition is_default_pool :: "db \<Rightarrow> int \<Rightarrow> bool" where
  "is_default_pool s i = list_ex (\<lambda>p. pl_id p = i \<and> pl_pool p = DEFAULT_POOL_NAME) (db_pools s)"

text \<open>The primary key \<open>new_id\<close> of an inserted row is chosen by the database.\<close>

definition create_or_update_pool ::
  "id_str \<Rightarrow> int \<Rightarrow> string \<Rightarrow> bool \<Rightarrow> int \<Rightarrow> db \<Rightarrow> (pool \<times> db) result" where
  "create_or_update_pool name slots description include_deferred new_id s =
     (if name = [] then Inl (ValueError ''Pool name must not be empty'')
      else case get_pool s name of
        None \<Rightarrow>
          (let p = \<lparr>pl_id = new_id, pl_pool = name, pl_slots = slots, pl_description = description,
                    pl_include_deferred = include_deferred\<rparr>
           in Inr (p, s\<lparr>db_pools := db_pools s @ [p]\<rparr>))
      | Some q \<Rightarrow>
          (let p = q\<lparr>pl_slots := slots, pl_description := description,
                     pl_include_deferred := include_deferred\<rparr>
           in Inr (p, s\<lparr>db_pools := map (\<lambda>x. if pl_pool x = name then p else x) (db_pools s)\<rparr>)))"

definition delete_pool :: "id_str \<Rightarrow> db \<Rightarrow> (pool \<times> db) result" where
  "delete_pool name s =
     (if name = DEFAULT_POOL_NAME then Inl (AirflowException ''default_pool cannot be deleted'')
      else case get_pool s name of
        None \<Rightarrow> Inl (PoolNotFound name)
      | Some p \<Rightarrow> Inr (p, s\<lparr>db_pools := filter (\<lambda>x. pl_pool x \<noteq> name) (db_pools s)\<rparr>))"

subsection \<open>Slots of one pool\<close>

definition sum_slots :: "db \<Rightarrow> id_str \<Rightarrow> (ti_state \<Rightarrow> bool) \<Rightarrow> int" where
  "sum_slots s name P =
     sum_where ti_pool_slots (\<lambda>ti. ti_pool ti = name \<and> P (ti_state ti)) (db_tis s)"

definition get_occupied_states :: "pool \<Rightarrow> ti_state list" where
  "get_occupied_states p =
     (if pl_include_deferred p then EXECUTION_STATES @ [Some DEFERRED] else EXECUTION_STATES)"

definition occupied_slots :: "db \<Rightarrow> pool \<Rightarrow> int" where
  "occupied_slots s p = sum_slots s (pl_pool p) (\<lambda>st. st \<in> set (get_occupied_states p))"

definition running_slots :: "db \<Rightarrow> pool \<Rightarrow> int" where
  "running_slots s p = sum_slots s (pl_pool p) (\<lambda>st. st = Some RUNNING)"

definition queued_slots :: "db \<Rightarrow> pool \<Rightarrow> int" where
  "queued_slots s p = sum_slots s (pl_pool p) (\<lambda>st. st = Some QUEUED)"

definition scheduled_slots :: "db \<Rightarrow> pool \<Rightarrow> int" where
  "scheduled_slots s p = sum_slots s (pl_pool p) (\<lambda>st. st = Some SCHEDULED)"

definition deferred_slots :: "db \<Rightarrow> pool \<Rightarrow> int" where
  "deferred_slots s p = sum_slots s (pl_pool p) (\<lambda>st. st = Some DEFERRED)"

definition open_slots :: "db \<Rightarrow> pool \<Rightarrow> xint" where
  "open_slots s p =
     (if pl_slots p = -1 then PInf else Fin (pl_slots p - occupied_slots s p))"

subsection \<open>Statistics of all pools\<close>

text \<open>The rows of the two queries: one entry per pool, and one per pool and state that occurs.\<close>

definition initial_stats :: "pool \<Rightarrow> PoolStats" where
  "initial_stats p = \<lparr>ps_total = (if pl_slots p = -1 then PInf else Fin (pl_slots p)),
     ps_running = 0, ps_deferred = 0, ps_queued = 0, ps_open = Fin 0\<rparr>"

definition allowed_execution_states :: "ti_state list" where
  "allowed_execution_states = EXECUTION_STATES @ [Some DEFERRED]"

definition state_count_by_pool :: "db \<Rightarrow> ((id_str \<times> ti_state) \<times> int) list" where
  "state_count_by_pool s =
     (let rows = filter (\<lambda>ti. ti_state ti \<in> set allowed_execution_states) (db_tis s)
      in map (\<lambda>g. (g, sum_where ti_pool_slots (\<lambda>ti. (ti_pool ti, ti_state ti) = g) rows))
           (remdups (map (\<lambda>ti. (ti_pool ti, ti_state ti)) rows)))"

definition set_count :: "ti_state \<Rightarrow> int \<Rightarrow> PoolStats \<Rightarrow> PoolStats result" where
  "set_count st c ps =
     (if st = Some RUNNING then Inr (ps\<lparr>ps_running := c\<rparr>)
      else if st = Some QUEUED then Inr (ps\<lparr>ps_queued := c\<rparr>)
      else if st = Some DEFERRED then Inr (ps\<lparr>ps_deferred := c\<rparr>)
      else Inl (AirflowException ''Unexpected state.''))"

fun count_loop :: "((id_str \<times> ti_state) \<times> int) list \<Rightarrow> (id_str \<times> PoolStats) list \<Rightarrow>
    (id_str \<times> PoolStats) list result" where
  "count_loop [] pools = Inr pools"
| "count_loop (((name, st), c) # rows) pools =
     (case dict_get pools name of
        None \<Rightarrow> count_loop rows pools
      | Some ps \<Rightarrow> bind_err (set_count st c ps) (\<lambda>ps'. count_loop rows (dict_set name ps' pools)))"

definition with_open :: "bool \<Rightarrow> PoolStats \<Rightarrow> PoolStats" where
  "with_open include_deferred ps =
     (let o1 = xminus (xminus (ps_total ps) (ps_running ps)) (ps_queued ps)
      in ps\<lparr>ps_open := (if include_deferred then xminus o1 (ps_deferred ps) else o1)\<rparr>)"

text \<open>
  \<open>lock_rows\<close> asks for a non-blocking row lock; \<open>locked\<close> is whether another transaction holds
  it, in which case the database raises. The dictionary of the deferred flags is that of the pool
  rows.
\<close>

definition slots_stats :: "bool \<Rightarrow> bool \<Rightarrow> db \<Rightarrow> (id_str \<times> PoolStats) list result" where
  "slots_stats lock_rows locked s =
     (if lock_rows \<and> locked then Inl (OperationalError ''could not obtain lock on row'')
      else
        let pools = fold (\<lambda>p d. dict_set (pl_pool p) (initial_stats p) d) (db_pools s) [];
            includes_deferred =
              fold (\<lambda>p d. dict_set (pl_pool p) (pl_include_deferred p) d) (db_pools s) []
        in bind_err (count_loop (state_count_by_pool s) pools)
             (\<lambda>counted. Inr (map (\<lambda>(name, ps).
                (name, with_open (dict_get includes_deferred name = Some True) ps)) counted)))"

subsection \<open>The dictionary built from the pool rows\<close>

lemma fold_dict_set_fresh:
  assumes "distinct (map kf ps)" and "\<forall>p \<in> set ps. kf p \<notin> set (dict_keys d)"
  shows "fold (\<lambda>p d. dict_set (kf p) (g p) d) ps d = d @ map (\<lambda>p. (kf p, g p)) ps"
  using assms
proof (induction ps arbitrary: d)
  case (Cons p ps)
  have "fold (\<lambda>p d. dict_set (kf p) (g p) d) ps (d @ [(kf p, g p)]) =
      (d @ [(kf p, g p)]) @ map (\<lambda>p. (kf p, g p)) ps"
    using Cons.prems by (intro Cons.IH) (auto simp: dict_keys_def, metis imageI)
  then show ?case using Cons.prems by (simp add: dict_set_fresh)
qed simp

lemma fold_dict_set_rows:
  "distinct (map kf ps) \<Longrightarrow>
   fold (\<lambda>p d. dict_set (kf p) (g p) d) ps [] = map (\<lambda>p. (kf p, g p)) ps"
  by (simp add: fold_dict_set_fresh dict_keys_def)

lemma dict_get_rows:
  "distinct (map kf ps) \<Longrightarrow> p \<in> set ps \<Longrightarrow>
   dict_get (map (\<lambda>p. (kf p, g p)) ps) (kf p) = Some (g p)"
  by (induction ps) (auto simp: rev_image_eqI)

subsection \<open>The counting loop\<close>

text \<open>What the loop leaves in the entry of one pool: each counter is the count of the last row of
  that pool and state, and nothing else changes.\<close>

definition counted_entry ::
  "((id_str \<times> ti_state) \<times> int) list \<Rightarrow> id_str \<Rightarrow> PoolStats \<Rightarrow> PoolStats" where
  "counted_entry rows name ps =
     (let c = map_of (rev rows) in
      ps\<lparr>ps_running := (case c (name, Some RUNNING) of None \<Rightarrow> ps_running ps | Some n \<Rightarrow> n),
         ps_queued := (case c (name, Some QUEUED) of None \<Rightarrow> ps_queued ps | Some n \<Rightarrow> n),
         ps_deferred := (case c (name, Some DEFERRED) of None \<Rightarrow> ps_deferred ps | Some n \<Rightarrow> n)\<rparr>)"

lemma set_count_ok:
  assumes "st \<in> set allowed_execution_states"
  shows "\<exists>ps'. set_count st c ps = Inr ps' \<and>
    counted_entry rows name ps' = counted_entry (((name, st), c) # rows) name ps"
  using assms
  by (auto simp: set_count_def allowed_execution_states_def EXECUTION_STATES_def counted_entry_def
      Let_def map_add_def split: option.splits)

lemma counted_entry_other:
  "name' \<noteq> name \<Longrightarrow> counted_entry (((name', st), c) # rows) name ps = counted_entry rows name ps"
  by (simp add: counted_entry_def Let_def map_add_def split: option.splits)

lemma count_loop_ok:
  assumes "\<forall>((n, st), c) \<in> set rows. st \<in> set allowed_execution_states"
  shows "\<exists>d'. count_loop rows d = Inr d' \<and> dict_keys d' = dict_keys d \<and>
    (\<forall>name. dict_get d' name = map_option (counted_entry rows name) (dict_get d name))"
  using assms
proof (induction rows arbitrary: d)
  case Nil
  have "counted_entry [] name ps = ps" for name ps by (simp add: counted_entry_def Let_def)
  then show ?case by (simp add: option.map_ident)
next
  case (Cons row rows)
  obtain n st c where row: "row = ((n, st), c)" by (metis surj_pair)
  with Cons.prems have st: "st \<in> set allowed_execution_states"
    and rest: "\<forall>((n, st), c) \<in> set rows. st \<in> set allowed_execution_states" by auto
  show ?case
  proof (cases "dict_get d n")
    case None
    from Cons.IH [OF rest, of d] obtain d' where d': "count_loop rows d = Inr d'"
      "dict_keys d' = dict_keys d"
      "\<forall>name. dict_get d' name = map_option (counted_entry rows name) (dict_get d name)" by blast
    have "dict_get d' name = map_option (counted_entry (row # rows) name) (dict_get d name)" for name
      using d'(3) None row counted_entry_other [of n name st c rows]
      by (cases "name = n") (auto simp: map_option_case split: option.splits)
    with d'(1,2) None row show ?thesis by simp
  next
    case (Some ps)
    from set_count_ok [OF st, of c ps rows n] obtain ps' where ps': "set_count st c ps = Inr ps'"
      "counted_entry rows n ps' = counted_entry (row # rows) n ps" using row by auto
    from Cons.IH [OF rest, of "dict_set n ps' d"] obtain d' where d':
      "count_loop rows (dict_set n ps' d) = Inr d'"
      "dict_keys d' = dict_keys (dict_set n ps' d)"
      "\<forall>name. dict_get d' name =
         map_option (counted_entry rows name) (dict_get (dict_set n ps' d) name)" by blast
    have keys: "dict_keys (dict_set n ps' d) = dict_keys d"
      using Some by (rule keys_dict_set_same)
    have "dict_get d' name = map_option (counted_entry (row # rows) name) (dict_get d name)" for name
      using d'(3) Some row ps' counted_entry_other [of n name st c rows]
      by (cases "name = n") (auto simp: store_simps map_option_case split: option.splits)
    with d'(1,2) Some row ps'(1) keys show ?thesis by simp
  qed
qed

subsection \<open>The group-by query\<close>

lemma state_count_lookup:
  assumes "st \<in> set allowed_execution_states"
  shows "(case map_of (rev (state_count_by_pool s)) (name, st) of None \<Rightarrow> 0 | Some n \<Rightarrow> n) =
    sum_slots s name (\<lambda>x. x = st)"
proof -
  define rows where "rows = filter (\<lambda>ti. ti_state ti \<in> set allowed_execution_states) (db_tis s)"
  define f where "f g = sum_where ti_pool_slots (\<lambda>ti. (ti_pool ti, ti_state ti) = g) rows" for g
  define gs where "gs = remdups (map (\<lambda>ti. (ti_pool ti, ti_state ti)) rows)"
  have eq: "state_count_by_pool s = map (\<lambda>g. (g, f g)) gs"
    by (simp add: state_count_by_pool_def rows_def f_def gs_def Let_def)
  have dist: "distinct gs" by (simp add: gs_def)
  have look: "map_of (rev (map (\<lambda>g. (g, f g)) gs)) g = (if g \<in> set gs then Some (f g) else None)" for g
    using dist by (auto simp: map_of_eq_None_iff comp_def rev_map intro!: map_of_is_SomeI)
  have sum: "f (name, st) = sum_slots s name (\<lambda>x. x = st)"
    using assms unfolding f_def rows_def sum_slots_def sum_where_def filter_filter
    by (intro arg_cong [where f = "\<lambda>xs. sum_list (map ti_pool_slots xs)"] filter_cong) auto
  have none: "f (name, st) = 0" if "(name, st) \<notin> set gs"
    using that unfolding f_def gs_def by (intro sum_where_none) force
  show ?thesis unfolding eq look using sum none by auto
qed

lemma state_count_states:
  "\<forall>((n, st), c) \<in> set (state_count_by_pool s). st \<in> set allowed_execution_states"
  by (auto simp: state_count_by_pool_def Let_def)

subsection \<open>Agreement of the two computations\<close>

lemma occupied_slots_split:
  "occupied_slots s p = running_slots s p + queued_slots s p +
     (if pl_include_deferred p then deferred_slots s p else 0)"
proof -
  have "sum_where f (\<lambda>t. ti_pool t = n \<and> ti_state t \<in> set [Some RUNNING, Some QUEUED, Some DEFERRED]) xs =
      sum_where f (\<lambda>t. ti_pool t = n \<and> ti_state t = Some RUNNING) xs +
      sum_where f (\<lambda>t. ti_pool t = n \<and> ti_state t = Some QUEUED) xs +
      sum_where f (\<lambda>t. ti_pool t = n \<and> ti_state t = Some DEFERRED) xs"
    and "sum_where f (\<lambda>t. ti_pool t = n \<and> ti_state t \<in> set [Some RUNNING, Some QUEUED]) xs =
      sum_where f (\<lambda>t. ti_pool t = n \<and> ti_state t = Some RUNNING) xs +
      sum_where f (\<lambda>t. ti_pool t = n \<and> ti_state t = Some QUEUED) xs" for f :: "task_instance \<Rightarrow> int" and n xs
    by (induction xs) auto
  then show ?thesis
    by (simp add: occupied_slots_def get_occupied_states_def EXECUTION_STATES_def running_slots_def
        queued_slots_def deferred_slots_def sum_slots_def)
qed

lemma slots_stats_result:
  assumes "wf_db s"
  shows "\<exists>stats. slots_stats lock_rows False s = Inr stats \<and>
    dict_keys stats = map pl_pool (db_pools s) \<and>
    (\<forall>p \<in> set (db_pools s). dict_get stats (pl_pool p) =
       Some \<lparr>ps_total = (if pl_slots p = -1 then PInf else Fin (pl_slots p)),
         ps_running = running_slots s p, ps_deferred = deferred_slots s p,
         ps_queued = queued_slots s p, ps_open = open_slots s p\<rparr>)"
proof -
  let ?rows = "state_count_by_pool s"
  let ?pools = "map (\<lambda>p. (pl_pool p, initial_stats p)) (db_pools s)"
  let ?inc = "map (\<lambda>p. (pl_pool p, pl_include_deferred p)) (db_pools s)"
  have dist: "distinct (map pl_pool (db_pools s))" using assms by (simp add: wf_db_def)
  obtain d' where d': "count_loop ?rows ?pools = Inr d'" "dict_keys d' = dict_keys ?pools"
    "\<forall>name. dict_get d' name = map_option (counted_entry ?rows name) (dict_get ?pools name)"
    using count_loop_ok [OF state_count_states] by blast
  let ?stats = "map (\<lambda>(name, ps). (name, with_open (dict_get ?inc name = Some True) ps)) d'"
  have stats: "slots_stats lock_rows False s = Inr ?stats"
    using d'(1) by (simp add: slots_stats_def Let_def fold_dict_set_rows [OF dist])
  have entry: "dict_get ?stats (pl_pool p) = Some \<lparr>
       ps_total = (if pl_slots p = -1 then PInf else Fin (pl_slots p)),
       ps_running = running_slots s p, ps_deferred = deferred_slots s p,
       ps_queued = queued_slots s p, ps_open = open_slots s p\<rparr>" if "p \<in> set (db_pools s)" for p
  proof -
    have counts: "counted_entry ?rows (pl_pool p) (initial_stats p) = (initial_stats p)
        \<lparr>ps_running := running_slots s p, ps_queued := queued_slots s p,
         ps_deferred := deferred_slots s p\<rparr>"
      using state_count_lookup [of "Some RUNNING" s "pl_pool p"]
        state_count_lookup [of "Some QUEUED" s "pl_pool p"]
        state_count_lookup [of "Some DEFERRED" s "pl_pool p"]
      by (simp add: counted_entry_def initial_stats_def running_slots_def queued_slots_def
          deferred_slots_def allowed_execution_states_def EXECUTION_STATES_def Let_def
          cong: option.case_cong)
    show ?thesis
      using d'(3) counts dict_get_rows [OF dist that, of initial_stats]
        dict_get_rows [OF dist that, of pl_include_deferred]
      by (simp add: dict_get_map_snd with_open_def initial_stats_def open_slots_def
          occupied_slots_split Let_def)
  qed
  show ?thesis
    using stats entry d'(2) by (auto simp: dict_keys_map_snd) (simp add: dict_keys_def comp_def)
qed

text \<open>
  The two-query statistics of all pools agree with the per-pool queries: unless a row lock is
  refused, \<open>slots_stats\<close> raises nothing, has exactly one entry per pool, and the running, queued,
  deferred and open slots of each entry are those \<open>running_slots\<close>, \<open>queued_slots\<close>,
  \<open>deferred_slots\<close> and \<open>open_slots\<close> compute (deferred task instances counting against the open
  slots exactly when the pool includes them, and the pool of size -1 staying open without bound).
\<close>

theorem slots_stats_agree:
  assumes "wf_db s" and "lock_rows = False \<or> locked = False"
  shows "\<exists>stats. slots_stats lock_rows locked s = Inr stats \<and>
    dict_keys stats = map pl_pool (get_pools s) \<and>
    (\<forall>p \<in> set (get_pools s). \<exists>ps. dict_get stats (pl_pool p) = Some ps \<and>
       ps_running ps = running_slots s p \<and> ps_queued ps = queued_slots s p \<and>
       ps_deferred ps = deferred_slots s p \<and> ps_open ps = open_slots s p)"
proof -
  have "slots_stats lock_rows locked s = slots_stats lock_rows False s"
    using assms(2) by (auto simp: slots_stats_def)
  with slots_stats_result [OF assms(1), of lock_rows] show ?thesis
    unfolding get_pools_def by fastforce
qed

lemma slots_stats_agree_witness:
  "\<exists>stats ps. slots_stats True False (sample_db [sample_ti ''a'' (Some RUNNING)]) = Inr stats \<and>
     dict_get stats ''p'' = Some ps \<and> ps_running ps = 1 \<and> ps_open ps = Fin 3"
proof -
  let ?s = "sample_db [sample_ti ''a'' (Some RUNNING)]"
  have wf: "wf_db ?s" by (simp add: wf_db_def sample_defs)
  have mem: "sample_pool ''p'' 4 \<in> set (get_pools ?s)" by (simp add: get_pools_def sample_db_def)
  from slots_stats_agree [OF wf, of True False] mem obtain stats ps where
    "slots_stats True False ?s = Inr stats"
    "dict_get stats (pl_pool (sample_pool ''p'' 4)) = Some ps"
    "ps_running ps = running_slots ?s (sample_pool ''p'' 4)"
    "ps_open ps = open_slots ?s (sample_pool ''p'' 4)" by auto
  moreover have "running_slots ?s (sample_pool ''p'' 4) = 1" by code_simp
  moreover have "open_slots ?s (sample_pool ''p'' 4) = Fin 3" by code_simp
  moreover have "pl_pool (sample_pool ''p'' 4) = ''p''" by (simp add: sample_pool_def)
  ultimately show ?thesis by auto
qed

end
