(* ===== verification/Task_State.thy ===== *)
theory Task_State
  imports Dag_Cycles Pools
begin

text \<open>
  What task instances, dag runs, XComs and reschedules offer the rest of the scheduler: setting a
  state, retry times, pushing and pulling XComs, counting running task instances, and the previous
  dag runs (\<open>models/taskinstance.py\<close>, \<open>models/xcom.py\<close>, \<open>models/taskreschedule.py\<close>,
  \<open>models/dagrun.py\<close>, \<open>models/dag.py\<close>). Every function takes the time it runs at.
\<close>

subsection \<open>Setting the state of a task instance\<close>

definition set_state_row :: "time \<Rightarrow> ti_state \<Rightarrow> task_instance \<Rightarrow> task_instance" where
  "set_state_row now state ti =
     (if ti_state ti = state then ti
      else let start = (case ti_start_date ti of None \<Rightarrow> now | Some d \<Rightarrow> d);
               ti' = ti\<lparr>ti_state := state, ti_start_date := Some start\<rparr> in
        if finished state \<or> state = Some UP_FOR_RETRY
        then let end' = (case ti_end_date ti of None \<Rightarrow> now | Some d \<Rightarrow> d) in
             ti'\<lparr>ti_end_date := Some end', ti_duration := Some (end' - start)\<rparr>
        else ti')"

text \<open>The result tells whether the state changed.\<close>

definition set_state :: "time \<Rightarrow> ti_primary \<Rightarrow> ti_state \<Rightarrow> db \<Rightarrow> bool \<times> db" where
  "set_state now k state s =
     (case find_ti s k of
        None \<Rightarrow> (False, s)
      | Some ti \<Rightarrow> (ti_state ti \<noteq> state, update_ti k (set_state_row now state) s))"

lemma keeps_primary_set_state_row [simp, intro]: "keeps_primary (set_state_row now st)"
  by (auto simp: keeps_primary_def set_state_row_def ti_primary_def Let_def split: option.splits)

lemma set_state_row_state [simp]: "ti_state (set_state_row now st ti) = st"
  by (simp add: set_state_row_def Let_def)

lemma set_state_row_frame [frame_simps, simp]:
  "ti_task_id (set_state_row now st ti) = ti_task_id ti"
  "ti_dag_id (set_state_row now st ti) = ti_dag_id ti"
  "ti_run_id (set_state_row now st ti) = ti_run_id ti"
  "ti_map_index (set_state_row now st ti) = ti_map_index ti"
  "ti_pool (set_state_row now st ti) = ti_pool ti"
  "ti_pool_slots (set_state_row now st ti) = ti_pool_slots ti"
  "ti__try_number (set_state_row now st ti) = ti__try_number ti"
  "ti_max_tries (set_state_row now st ti) = ti_max_tries ti"
  by (simp_all add: set_state_row_def Let_def)

lemma update_ti_none: "find_ti s k = None \<Longrightarrow> update_ti k f s = s"
  by (auto simp: find_ti_def update_ti_def find_None_iff intro!: db.equality map_idI)

lemma set_state_db: "snd (set_state now k st s) = update_ti k (set_state_row now st) s"
  by (auto simp: set_state_def update_ti_none split: option.splits)

lemma set_state_changed:
  "fst (set_state now k st s) \<longleftrightarrow> (\<exists>ti. find_ti s k = Some ti \<and> ti_state ti \<noteq> st)"
  by (auto simp: set_state_def split: option.splits)

lemma find_set_state [store_simps]:
  "find_ti (snd (set_state now k st s)) k' =
   (if k' = k then map_option (set_state_row now st) (find_ti s k) else find_ti s k')"
  by (simp add: set_state_db store_simps)

lemma wf_db_set_state: "wf_db s \<Longrightarrow> wf_db (snd (set_state now k st s))"
  by (simp add: set_state_db wf_db_update_ti)

subsection \<open>Retries\<close>

definition op_of :: "dag \<Rightarrow> task_instance \<Rightarrow> operator" where
  "op_of d ti = dag_op d (ti_task_id ti)"

text \<open>
  The configured bound on a retry delay (in seconds) and the SHA-1 hash of the task instance's
  identity are parameters. \<open>min_backoff\<close> is the ceiling of the delay times a power of two, which the
  model computes exactly where the code uses floating point.
\<close>

definition ceil_div :: "int \<Rightarrow> int \<Rightarrow> int" where
  "ceil_div a b = - ((- a) div b)"

definition min_backoff :: "duration \<Rightarrow> int \<Rightarrow> int" where
  "min_backoff delay try_number =
     max 1 (if 2 \<le> try_number then ceil_div (delay * 2 ^ nat (try_number - 2)) usec_per_sec
            else ceil_div delay (usec_per_sec * 2 ^ nat (2 - try_number)))"

definition next_retry_delay :: "int \<Rightarrow> (task_instance \<Rightarrow> int) \<Rightarrow> operator \<Rightarrow> task_instance \<Rightarrow> duration" where
  "next_retry_delay max_retry_delay ti_hash op ti =
     (if op_retry_exponential_backoff op then
        let backoff = min_backoff (op_retry_delay op) (get_try_number ti);
            modded_hash = backoff + ti_hash ti mod backoff;
            delay = min modded_hash max_retry_delay * usec_per_sec in
        case op_max_retry_delay op of
          None \<Rightarrow> delay
        | Some m \<Rightarrow> if m \<noteq> 0 then min m delay else delay
      else op_retry_delay op)"

definition next_retry_datetime :: "int \<Rightarrow> (task_instance \<Rightarrow> int) \<Rightarrow> operator \<Rightarrow> task_instance \<Rightarrow> time result" where
  "next_retry_datetime max_retry_delay ti_hash op ti =
     (case ti_end_date ti of
        None \<Rightarrow> Inl (TypeError ''NoneType + timedelta'')
      | Some end_date \<Rightarrow> Inr (end_date + next_retry_delay max_retry_delay ti_hash op ti))"

definition ready_for_retry :: "time \<Rightarrow> int \<Rightarrow> (task_instance \<Rightarrow> int) \<Rightarrow> operator \<Rightarrow> task_instance \<Rightarrow> bool result" where
  "ready_for_retry now max_retry_delay ti_hash op ti =
     (if ti_state ti = Some UP_FOR_RETRY
      then bind_err (next_retry_datetime max_retry_delay ti_hash op ti) (\<lambda>t. Inr (t < now))
      else Inr False)"

definition is_premature :: "time \<Rightarrow> int \<Rightarrow> (task_instance \<Rightarrow> int) \<Rightarrow> operator \<Rightarrow> task_instance \<Rightarrow> bool result" where
  "is_premature now max_retry_delay ti_hash op ti =
     (if ti_state ti = Some UP_FOR_RETRY
      then bind_err (ready_for_retry now max_retry_delay ti_hash op ti) (\<lambda>b. Inr (\<not> b))
      else Inr False)"

lemma min_backoff_pos [simp]: "0 < min_backoff d n" "1 \<le> min_backoff d n"
  by (auto simp: min_backoff_def)

lemma backoff_hash_bounds:
  "min_backoff d n \<le> min_backoff d n + h mod min_backoff d n"
  "min_backoff d n + h mod min_backoff d n < 2 * min_backoff d n"
  using min_backoff_pos(1) [of d n] pos_mod_bound [of "min_backoff d n" h] pos_mod_sign [of "min_backoff d n" h]
  by linarith+



subsection \<open>XComs\<close>

definition PAST_DEPENDS_MET :: string where
  "PAST_DEPENDS_MET = ''past_depends_met''"

text \<open>\<open>XCom.set\<close>: an XCom belongs to an existing dag run; the new row replaces any with the same
  identity.\<close>

definition xcom_set :: "time \<Rightarrow> string \<Rightarrow> pyval \<Rightarrow> id_str \<Rightarrow> id_str \<Rightarrow> id_str \<Rightarrow> int \<Rightarrow> db \<Rightarrow> db result" where
  "xcom_set now key val task_id dag_id run_id map_index s =
     (case find_dr s dag_id run_id of
        None \<Rightarrow> Inl (ValueError ''DAG run not found'')
      | Some dr \<Rightarrow> Inr (s\<lparr>db_xcoms :=
          filter (\<lambda>x. \<not> (xc_key x = key \<and> xc_run_id x = run_id \<and> xc_task_id x = task_id \<and>
                       xc_dag_id x = dag_id \<and> xc_map_index x = map_index)) (db_xcoms s) @
          [\<lparr>xc_dag_run_id = dr_id dr, xc_task_id = task_id, xc_map_index = map_index, xc_key = key,
            xc_dag_id = dag_id, xc_run_id = run_id, xc_value = val, xc_timestamp = now\<rparr>]\<rparr>))"

definition xcom_push :: "time \<Rightarrow> string \<Rightarrow> pyval \<Rightarrow> task_instance \<Rightarrow> db \<Rightarrow> db result" where
  "xcom_push now key val ti s =
     xcom_set now key val (ti_task_id ti) (ti_dag_id ti) (ti_run_id ti) (ti_map_index ti) s"

text \<open>\<open>XCom.get_many\<close> for one run, task, DAG and key, without prior dates: newest first.\<close>

definition xcom_get_many :: "string \<Rightarrow> id_str \<Rightarrow> id_str \<Rightarrow> id_str \<Rightarrow> db \<Rightarrow> xcom list" where
  "xcom_get_many key run_id dag_id task_id s =
     sort_key (\<lambda>x. - xc_timestamp x)
       (filter (\<lambda>x. (key = [] \<or> xc_key x = key) \<and> xc_task_id x = task_id \<and> xc_dag_id x = dag_id \<and>
                    xc_run_id x = run_id) (db_xcoms s))"

text \<open>\<open>xcom_pull\<close> of one task without map indexes. The XComs of a mapped task come as a sequence
  in map-index order.\<close>

definition xcom_pull :: "task_instance \<Rightarrow> id_str \<Rightarrow> string \<Rightarrow> pyval \<Rightarrow> db \<Rightarrow> pyval" where
  "xcom_pull ti task_id key dflt s =
     (let rows = xcom_get_many key (ti_run_id ti) (ti_dag_id ti) task_id s in
      case rows of
        [] \<Rightarrow> dflt
      | first # _ \<Rightarrow>
          if xc_map_index first < 0 then xc_value first
          else PList (map xc_value (sort_key xc_map_index rows)))"

text \<open>\<open>XCom.clear\<close>\<close>

definition xcom_clear :: "id_str \<Rightarrow> id_str \<Rightarrow> id_str \<Rightarrow> int option \<Rightarrow> db \<Rightarrow> db" where
  "xcom_clear dag_id task_id run_id map_index s =
     s\<lparr>db_xcoms := filter (\<lambda>x. \<not> (xc_dag_id x = dag_id \<and> xc_task_id x = task_id \<and> xc_run_id x = run_id \<and>
         (case map_index of None \<Rightarrow> True | Some i \<Rightarrow> xc_map_index x = i))) (db_xcoms s)\<rparr>"

lemma xcom_pull_cong:
  "xcom_get_many key (ti_run_id ti) (ti_dag_id ti) t s' = xcom_get_many key (ti_run_id ti) (ti_dag_id ti) t s \<Longrightarrow>
   xcom_pull ti t key dflt s' = xcom_pull ti t key dflt s"
  by (simp add: xcom_pull_def)

text \<open>
  An XCom pushed by an unmapped task instance is what a pull of its task and key in that run
  returns afterwards, whatever was stored before, as long as no task instance with a map index has
  pushed the same key; pulls of other tasks, keys and runs are unaffected.
\<close>

theorem xcom_push_pull:
  assumes "xcom_push now key val ti s = Inr s'" "ti_map_index ti < 0" "key \<noteq> []"
    "\<forall>x \<in> set (db_xcoms s). xc_key x = key \<and> xc_task_id x = ti_task_id ti \<and> xc_dag_id x = ti_dag_id ti \<and>
       xc_run_id x = ti_run_id ti \<longrightarrow> xc_map_index x = ti_map_index ti"
  shows "xcom_pull ti (ti_task_id ti) key dflt s' = val \<and>
    (\<forall>ti' t' key'. (t', key', ti_run_id ti', ti_dag_id ti') \<noteq> (ti_task_id ti, key, ti_run_id ti, ti_dag_id ti) \<and> key' \<noteq> [] \<longrightarrow>
       xcom_pull ti' t' key' dflt s' = xcom_pull ti' t' key' dflt s)"
proof -
  from assms(1) obtain dr where "find_dr s (ti_dag_id ti) (ti_run_id ti) = Some dr"
    by (auto simp: xcom_push_def xcom_set_def split: option.splits)
  with assms(1) have s': "s' = s\<lparr>db_xcoms :=
      filter (\<lambda>x. \<not> (xc_key x = key \<and> xc_run_id x = ti_run_id ti \<and> xc_task_id x = ti_task_id ti \<and>
                       xc_dag_id x = ti_dag_id ti \<and> xc_map_index x = ti_map_index ti)) (db_xcoms s) @
          [\<lparr>xc_dag_run_id = dr_id dr, xc_task_id = ti_task_id ti, xc_map_index = ti_map_index ti, xc_key = key,
            xc_dag_id = ti_dag_id ti, xc_run_id = ti_run_id ti, xc_value = val, xc_timestamp = now\<rparr>]\<rparr>"
    by (simp add: xcom_push_def xcom_set_def)
  have "filter (\<lambda>x. xc_key x = key \<and> xc_task_id x = ti_task_id ti \<and> xc_dag_id x = ti_dag_id ti \<and>
      xc_run_id x = ti_run_id ti) (filter (\<lambda>x. \<not> (xc_key x = key \<and> xc_run_id x = ti_run_id ti \<and>
      xc_task_id x = ti_task_id ti \<and> xc_dag_id x = ti_dag_id ti \<and> xc_map_index x = ti_map_index ti)) (db_xcoms s)) = []"
    using assms(4) by (auto simp: filter_empty_conv)
  then have "xcom_pull ti (ti_task_id ti) key dflt s' = val"
    using assms(2,3) by (simp add: s' xcom_pull_def xcom_get_many_def)
  moreover have "xcom_pull ti' t' key' dflt s' = xcom_pull ti' t' key' dflt s"
    if "(t', key', ti_run_id ti', ti_dag_id ti') \<noteq> (ti_task_id ti, key, ti_run_id ti, ti_dag_id ti) \<and> key' \<noteq> []"
    for ti' t' key'
    by (rule xcom_pull_cong)
       (use that in \<open>auto simp: s' xcom_get_many_def intro!: arg_cong [of _ _ "sort_key _"] filter_cong\<close>)
  ultimately show ?thesis by (intro conjI allI impI)
qed

lemma xcom_push_pull_witness:
  "\<exists>s'. xcom_push 5 ''k'' (PInt 2) (sample_ti ''a'' None) (sample_db [sample_ti ''a'' None]) = Inr s' \<and>
     xcom_pull (sample_ti ''a'' None) ''a'' ''k'' PNone s' = PInt 2"
proof -
  let ?ti = "sample_ti ''a'' None" and ?s = "sample_db [sample_ti ''a'' None]"
  obtain s' where s': "xcom_push 5 ''k'' (PInt 2) ?ti ?s = Inr s'"
    by (simp add: xcom_push_def xcom_set_def find_dr_def sample_defs)
  have "ti_map_index ?ti < 0" "db_xcoms ?s = []" "ti_task_id ?ti = ''a''" by (simp_all add: sample_defs)
  with xcom_push_pull [OF s', of PNone] s' show ?thesis by auto
qed

subsection \<open>Counts of running task instances\<close>

definition get_num_running_task_instances :: "task_instance \<Rightarrow> bool \<Rightarrow> db \<Rightarrow> int" where
  "get_num_running_task_instances ti same_dagrun s =
     count_where (\<lambda>t. ti_dag_id t = ti_dag_id ti \<and> ti_task_id t = ti_task_id ti \<and>
        ti_state t = Some RUNNING \<and> (if same_dagrun then ti_run_id t = ti_run_id ti else True)) (db_tis s)"

definition get_concurrency_reached :: "dag \<Rightarrow> db \<Rightarrow> bool" where
  "get_concurrency_reached d s \<longleftrightarrow>
     d_max_active_tasks d \<le>
       count_where (\<lambda>t. ti_dag_id t = d_dag_id d \<and> ti_state t = Some RUNNING) (db_tis s)"

text \<open>The value of a dag's row, or \<open>None\<close> without a row.\<close>

definition get_is_active :: "dag \<Rightarrow> db \<Rightarrow> bool option" where
  "get_is_active d s = map_option dm_is_active (find_dm s (d_dag_id d))"

definition get_is_paused :: "dag \<Rightarrow> db \<Rightarrow> bool option" where
  "get_is_paused d s = map_option dm_is_paused (find_dm s (d_dag_id d))"

definition are_dependents_done :: "operator \<Rightarrow> task_instance \<Rightarrow> db \<Rightarrow> bool" where
  "are_dependents_done op ti s \<longleftrightarrow>
     op_downstream_task_ids op = [] \<or>
     count_where (\<lambda>t. ti_dag_id t = ti_dag_id ti \<and> ti_task_id t \<in> set (op_downstream_task_ids op) \<and>
         ti_run_id t = ti_run_id ti \<and> ti_state t \<in> {Some SKIPPED, Some SUCCESS}) (db_tis s)
       = int (length (op_downstream_task_ids op))"

subsection \<open>Dag runs of a task instance and their predecessors\<close>

text \<open>\<open>select(...).order_by(execution_date.desc()).limit(1)\<close>\<close>

definition latest_run :: "(dag_run \<Rightarrow> bool) \<Rightarrow> db \<Rightarrow> dag_run option" where
  "latest_run P s =
     (case sort_key (\<lambda>dr. - dr_execution_date dr) (filter P (db_drs s)) of [] \<Rightarrow> None | dr # _ \<Rightarrow> Some dr)"

definition get_previous_dagrun :: "dag_run \<Rightarrow> DagRunState option \<Rightarrow> db \<Rightarrow> dag_run option" where
  "get_previous_dagrun dr state s =
     latest_run (\<lambda>r. dr_dag_id r = dr_dag_id dr \<and> dr_execution_date r < dr_execution_date dr \<and>
        (case state of None \<Rightarrow> True | Some st \<Rightarrow> dr_state r = st)) s"

definition get_previous_scheduled_dagrun :: "dag_run \<Rightarrow> db \<Rightarrow> dag_run option" where
  "get_previous_scheduled_dagrun dr s =
     latest_run (\<lambda>r. dr_dag_id r = dr_dag_id dr \<and> dr_execution_date r < dr_execution_date dr \<and>
        dr_run_type r \<noteq> MANUAL) s"

lemma latest_run_Some:
  "latest_run P s = Some dr \<longleftrightarrow>
   (\<exists>rest. sort_key (\<lambda>dr. - dr_execution_date dr) (filter P (db_drs s)) = dr # rest)"
  by (auto simp: latest_run_def split: list.splits)

lemma latest_run_spec:
  assumes "latest_run P s = Some dr"
  shows "dr \<in> set (db_drs s) \<and> P dr \<and> (\<forall>r \<in> set (db_drs s). P r \<longrightarrow> dr_execution_date r \<le> dr_execution_date dr)"
proof -
  let ?f = "\<lambda>dr. - dr_execution_date dr"
  from assms obtain rest where r: "sort_key ?f (filter P (db_drs s)) = dr # rest"
    by (auto simp: latest_run_Some)
  have "set (sort_key ?f (filter P (db_drs s))) = {r \<in> set (db_drs s). P r}" by simp
  moreover have "sorted (map ?f (dr # rest))" unfolding r [symmetric] by (rule sorted_sort_key)
  ultimately show ?thesis unfolding r by auto
qed

lemma latest_run_None: "latest_run P s = None \<longleftrightarrow> (\<forall>r \<in> set (db_drs s). \<not> P r)"
proof -
  have "sort_key (\<lambda>dr. - dr_execution_date dr) (filter P (db_drs s)) = [] \<longleftrightarrow> filter P (db_drs s) = []"
    by (metis length_0_conv length_sort)
  then show ?thesis by (auto simp: latest_run_def filter_empty_conv split: list.splits)
qed

subsection \<open>Reschedules\<close>

text \<open>\<open>TaskReschedule.stmt_for_task_instance\<close>: the reschedules of the current try, by id.\<close>

definition reschedules_for_task_instance :: "task_instance \<Rightarrow> bool \<Rightarrow> db \<Rightarrow> task_reschedule list" where
  "reschedules_for_task_instance ti descending s =
     sort_key (\<lambda>r. if descending then - tr_id r else tr_id r)
       (filter (\<lambda>r. tr_dag_id r = ti_dag_id ti \<and> tr_task_id r = ti_task_id ti \<and>
          tr_run_id r = ti_run_id ti \<and> tr_map_index r = ti_map_index ti \<and>
          tr_try_number r = get_try_number ti) (db_trs s))"

end
