(* ===== verification/Task_Mapping.thy ===== *)
theory Task_Mapping
  imports Task_State
begin

text \<open>
  Dynamic task mapping (\<open>models/expandinput.py\<close>, \<open>models/xcom_arg.py\<close>, \<open>models/taskmap.py\<close>, the counts
  of \<open>models/abstractoperator.py\<close>, \<open>models/mappedoperator.py\<close> and \<open>utils/task_group.py\<close>): how many
  instances a task expands to, at parse time and at run time, which values of the arguments an
  instance gets, and which instances of an upstream an instance depends on. The laws show that the
  two counts agree, and that the map indexes enumerate every combination of the arguments once.
\<close>

subsection \<open>Lengths of XCom arguments\<close>

fun list_min :: "int list \<Rightarrow> int" where
  "list_min [] = 0"
| "list_min (x # xs) = fold min xs x"

fun list_max :: "int list \<Rightarrow> int" where
  "list_max [] = 0"
| "list_max (x # xs) = fold max xs x"

text \<open>
  \<open>get_task_map_length\<close> of a plain argument. A mapped upstream counts its return values once all its
  instances are done; any other upstream has recorded the length it pushed. \<open>dag_id\<close> is the DAG of
  the operator. \<open>ZipXComArg\<close> is never built from no argument.
\<close>

definition XCOM_RETURN_KEY :: string where
  "XCOM_RETURN_KEY = ''return_value''"

definition plain_map_length :: "id_str \<Rightarrow> id_str \<Rightarrow> db \<Rightarrow> id_str \<Rightarrow> bool \<Rightarrow> int option" where
  "plain_map_length dag_id run_id s task_id mapped =
     (if mapped
      then if list_ex (\<lambda>ti. ti_dag_id ti = dag_id \<and> ti_run_id ti = run_id \<and> ti_task_id ti = task_id \<and>
                 unfinished (ti_state ti)) (db_tis s)
        then None
        else Some (count_where (\<lambda>x. xc_dag_id x = dag_id \<and> xc_run_id x = run_id \<and> xc_task_id x = task_id \<and>
               0 \<le> xc_map_index x \<and> xc_key x = XCOM_RETURN_KEY) (db_xcoms s))
      else map_option tm_length (find (\<lambda>m. tm_dag_id m = dag_id \<and> tm_run_id m = run_id \<and>
             tm_task_id m = task_id \<and> tm_map_index m < 0) (db_task_maps s)))"

fun get_task_map_length :: "id_str \<Rightarrow> id_str \<Rightarrow> db \<Rightarrow> xcom_arg \<Rightarrow> int option" where
  "get_task_map_length dag_id run_id s (PlainXComArg task_id mapped key) =
     plain_map_length dag_id run_id s task_id mapped"
| "get_task_map_length dag_id run_id s (MapXComArg arg callables) = get_task_map_length dag_id run_id s arg"
| "get_task_map_length dag_id run_id s (ZipXComArg args fillvalue) =
     (case those (map (get_task_map_length dag_id run_id s) args) of
        None \<Rightarrow> None
      | Some lengths \<Rightarrow> Some (if fillvalue = None then list_min lengths else list_max lengths))"

text \<open>The operators an argument refers to, and \<open>iter_mapped_dependencies\<close>: those of an expand input.\<close>

fun iter_references :: "xcom_arg \<Rightarrow> (id_str \<times> string) list" where
  "iter_references (PlainXComArg task_id mapped key) = [(task_id, key)]"
| "iter_references (MapXComArg arg callables) = iter_references arg"
| "iter_references (ZipXComArg args fillvalue) = concat (map iter_references args)"

fun input_references :: "expand_input \<Rightarrow> (id_str \<times> string) list" where
  "input_references (DictOfListsExpandInput arguments) =
     concat (map (\<lambda>(k, v). case v of XComArgument a \<Rightarrow> iter_references a | _ \<Rightarrow> []) arguments)"
| "input_references (ListOfDictsExpandInput (XComKwargs a)) = iter_references a"
| "input_references (ListOfDictsExpandInput (ListKwargs xs)) =
     concat (map (\<lambda>x. case x of Inl a \<Rightarrow> iter_references a | Inr d \<Rightarrow> []) xs)"

fun iter_mapped_dependencies :: "expand_input \<Rightarrow> id_str list" where
  "iter_mapped_dependencies (DictOfListsExpandInput arguments) =
     concat (map (\<lambda>(k, v). case v of
         XComArgument a \<Rightarrow> map fst (iter_references a)
       | MappedArgument i key \<Rightarrow> map fst (input_references i)
       | _ \<Rightarrow> []) arguments)"
| "iter_mapped_dependencies (ListOfDictsExpandInput e) =
     map fst (input_references (ListOfDictsExpandInput e))"

subsection \<open>How many instances an expand input gives\<close>

text \<open>At parse time only literals are known; \<open>NotFullyPopulated\<close> names the other arguments.\<close>

definition literal_length :: "expand_argument \<Rightarrow> int option" where
  "literal_length v =
     (case v of ListArgument xs \<Rightarrow> Some (int (length xs)) | DictArgument d \<Rightarrow> Some (int (length d)) | _ \<Rightarrow> None)"

fun expand_parse_time_count :: "expand_input \<Rightarrow> int result" where
  "expand_parse_time_count (DictOfListsExpandInput arguments) =
     (case those (map (\<lambda>(k, v). literal_length v) arguments) of
        None \<Rightarrow> Inl (NotFullyPopulated (map fst (filter (\<lambda>(k, v). literal_length v = None) arguments)))
      | Some lengths \<Rightarrow> Inr (if arguments = [] then 0 else prod_list lengths))"
| "expand_parse_time_count (ListOfDictsExpandInput (ListKwargs xs)) = Inr (int (length xs))"
| "expand_parse_time_count (ListOfDictsExpandInput (XComKwargs a)) =
     Inl (NotFullyPopulated [''expand_kwargs() argument''])"

text \<open>\<open>_get_length\<close> of an argument; a stand-in for the argument of a task group cannot tell.\<close>

fun argument_length :: "id_str \<Rightarrow> id_str \<Rightarrow> db \<Rightarrow> expand_argument \<Rightarrow> int option result" where
  "argument_length dag_id run_id s (ListArgument xs) = Inr (Some (int (length xs)))"
| "argument_length dag_id run_id s (DictArgument d) = Inr (Some (int (length d)))"
| "argument_length dag_id run_id s (XComArgument a) = Inr (get_task_map_length dag_id run_id s a)"
| "argument_length dag_id run_id s (MappedArgument i k) = Inl NotImplementedError"

definition get_map_lengths :: "id_str \<Rightarrow> id_str \<Rightarrow> db \<Rightarrow> (string \<times> expand_argument) list \<Rightarrow>
    (string \<times> int) list result" where
  "get_map_lengths dag_id run_id s arguments =
     bind_err (map_err (\<lambda>(k, v). bind_err (argument_length dag_id run_id s v) (\<lambda>l. Inr (k, l))) arguments)
       (\<lambda>lengths.
         let unknown = filter (\<lambda>(k, l). l = None) lengths in
         if unknown \<noteq> [] then Inl (NotFullyPopulated (map fst unknown))
         else Inr (map (\<lambda>(k, l). (k, the l)) lengths))"

fun get_total_map_length :: "id_str \<Rightarrow> id_str \<Rightarrow> db \<Rightarrow> expand_input \<Rightarrow> int result" where
  "get_total_map_length dag_id run_id s (DictOfListsExpandInput arguments) =
     (if arguments = [] then Inr 0
      else bind_err (get_map_lengths dag_id run_id s arguments) (\<lambda>lengths. Inr (prod_list (map snd lengths))))"
| "get_total_map_length dag_id run_id s (ListOfDictsExpandInput (ListKwargs xs)) = Inr (int (length xs))"
| "get_total_map_length dag_id run_id s (ListOfDictsExpandInput (XComKwargs a)) =
     (case get_task_map_length dag_id run_id s a of
        None \<Rightarrow> Inl (NotFullyPopulated [''expand_kwargs() argument''])
      | Some l \<Rightarrow> Inr l)"

subsection \<open>How many instances a task has\<close>

text \<open>The counts of the mapped task groups, multiplied from the innermost out.\<close>

definition group_parse_time_count :: "(id_str \<times> expand_input) list \<Rightarrow> int result" where
  "group_parse_time_count groups =
     (if groups = [] then Inl NotMapped
      else bind_err (map_err (\<lambda>(g, i). expand_parse_time_count i) groups) (\<lambda>ns. Inr (prod_list ns)))"

definition group_ti_count :: "id_str \<Rightarrow> id_str \<Rightarrow> db \<Rightarrow> (id_str \<times> expand_input) list \<Rightarrow> int result" where
  "group_ti_count dag_id run_id s groups =
     (if groups = [] then Inl NotMapped
      else bind_err (map_err (\<lambda>(g, i). get_total_map_length dag_id run_id s i) groups) (\<lambda>ns. Inr (prod_list ns)))"

text \<open>A mapped operator multiplies its own count with that of its groups, if it has any.\<close>

definition times_parent :: "int result \<Rightarrow> int result \<Rightarrow> int result" where
  "times_parent current parent =
     bind_err current (\<lambda>n. case parent of Inl NotMapped \<Rightarrow> Inr n | Inl e \<Rightarrow> Inl e | Inr p \<Rightarrow> Inr (p * n))"

definition get_parse_time_mapped_ti_count :: "operator \<Rightarrow> int result" where
  "get_parse_time_mapped_ti_count op =
     (let parent = group_parse_time_count (op_mapped_task_groups op) in
      if op_is_mapped op then times_parent (expand_parse_time_count (op_expand_input op)) parent else parent)"

definition get_mapped_ti_count :: "id_str \<Rightarrow> operator \<Rightarrow> id_str \<Rightarrow> db \<Rightarrow> int result" where
  "get_mapped_ti_count dag_id op run_id s =
     (let parent = group_ti_count dag_id run_id s (op_mapped_task_groups op) in
      if op_is_mapped op then times_parent (get_total_map_length dag_id run_id s (op_expand_input op)) parent
      else parent)"

lemma map_err_mono:
  "map_err f xs = Inr ys \<Longrightarrow> (\<And>x y. x \<in> set xs \<Longrightarrow> f x = Inr y \<Longrightarrow> g x = Inr y) \<Longrightarrow> map_err g xs = Inr ys"
  by (induction xs arbitrary: ys) auto

lemma map_err_InlE: "map_err f xs = Inl e \<Longrightarrow> \<exists>x \<in> set xs. f x = Inl e"
  by (induction xs) (auto simp: bind_err_Inl_iff)

lemma parse_time_count_not_NotMapped: "expand_parse_time_count i \<noteq> Inl NotMapped"
proof (cases i)
  case (ListOfDictsExpandInput e)
  then show ?thesis by (cases e) auto
qed (auto split: option.splits)

lemma literal_argument_length:
  "literal_length v = Some n \<Longrightarrow> argument_length dag_id run_id s v = Inr (Some n)"
  by (cases v) (auto simp: literal_length_def)

lemma those_literals:
  "those (map (\<lambda>(k, v). literal_length v) arguments) = Some ns \<Longrightarrow>
   map_err (\<lambda>(k, v). bind_err (argument_length dag_id run_id s v) (\<lambda>l. Inr (k, l))) arguments =
     Inr (map (\<lambda>(k, n). (k, Some n)) (zip (map fst arguments) ns)) \<and> length ns = length arguments"
proof (induction arguments arbitrary: ns)
  case (Cons kv arguments)
  then show ?case
    by (cases kv) (auto simp: literal_argument_length split: option.splits)
qed simp

lemma parse_time_total:
  "expand_parse_time_count i = Inr n \<Longrightarrow> get_total_map_length dag_id run_id s i = Inr n"
proof (cases i)
  case (DictOfListsExpandInput arguments)
  moreover assume "expand_parse_time_count i = Inr n"
  ultimately obtain ns where ns: "those (map (\<lambda>(k, v). literal_length v) arguments) = Some ns"
    "n = (if arguments = [] then 0 else prod_list ns)" by (auto split: option.splits)
  note l = those_literals [OF ns(1), of dag_id run_id s]
  have "filter (\<lambda>(k, l). l = None) (map (\<lambda>(k, n). (k, Some n)) xs) = []" for xs :: "(string \<times> int) list"
    by (induction xs) auto
  moreover have "map snd (map (\<lambda>(k, l). (k, the l)) (map (\<lambda>(k, n). (k, Some n)) (zip (map fst arguments) ns))) = ns"
    using l by (simp add: case_prod_beta' comp_def)
  ultimately have "get_map_lengths dag_id run_id s arguments = Inr (map (\<lambda>(k, l). (k, the l)) (map (\<lambda>(k, n). (k, Some n)) (zip (map fst arguments) ns)))"
    using l by (simp add: get_map_lengths_def)
  with ns(2) l DictOfListsExpandInput show ?thesis by (simp add: case_prod_beta' comp_def)
next
  case (ListOfDictsExpandInput e)
  moreover assume "expand_parse_time_count i = Inr n"
  ultimately show ?thesis by (cases e) auto
qed

text \<open>
  C25. When the number of instances of a mapped task is known at parse time, it is the number the
  scheduler computes at run time, whatever the database holds.
\<close>

theorem parse_time_count_agrees:
  assumes "get_parse_time_mapped_ti_count op = Inr n"
  shows "get_mapped_ti_count dag_id op run_id s = Inr n"
proof -
  let ?g = "op_mapped_task_groups op"
  have group: "group_ti_count dag_id run_id s ?g = Inr m" if "group_parse_time_count ?g = Inr m" for m
  proof -
    from that obtain ns where ns: "?g \<noteq> []" "m = prod_list ns" "map_err (\<lambda>(g, i). expand_parse_time_count i) ?g = Inr ns"
      by (auto simp: group_parse_time_count_def split: if_splits)
    have "map_err (\<lambda>(g, i). get_total_map_length dag_id run_id s i) ?g = Inr ns"
      by (rule map_err_mono [OF ns(3)]) (auto simp: parse_time_total)
    with ns show ?thesis by (simp add: group_ti_count_def)
  qed
  show ?thesis
  proof (cases "op_is_mapped op")
    case False
    with assms group show ?thesis by (simp add: get_parse_time_mapped_ti_count_def get_mapped_ti_count_def)
  next
    case True
    with assms obtain c where c: "expand_parse_time_count (op_expand_input op) = Inr c"
      "(case group_parse_time_count ?g of Inl NotMapped \<Rightarrow> Inr c | Inl e \<Rightarrow> Inl e | Inr p \<Rightarrow> Inr (p * c)) = Inr n"
      by (auto simp: get_parse_time_mapped_ti_count_def times_parent_def)
    show ?thesis
    proof (cases "group_parse_time_count ?g")
      case (Inr p)
      with c True group [OF Inr] parse_time_total [OF c(1)] show ?thesis
        by (simp add: get_mapped_ti_count_def times_parent_def)
    next
      case (Inl e)
      with c(2) have "e = NotMapped" "n = c" by (auto split: error.splits)
      with Inl have "?g = []"
        by (auto simp: group_parse_time_count_def bind_err_Inl_iff parse_time_count_not_NotMapped
            split: if_splits dest!: map_err_InlE)
      with True c(1) \<open>n = c\<close> parse_time_total [OF c(1)] show ?thesis
        by (simp add: get_mapped_ti_count_def times_parent_def group_ti_count_def)
    qed
  qed
qed

lemma parse_time_count_agrees_witness:
  "get_mapped_ti_count ''d'' ((sample_op ''a'')\<lparr>op_is_mapped := True,
     op_expand_input := DictOfListsExpandInput [(''x'', ListArgument [PInt 1, PInt 2]), (''y'', DictArgument [(''k'', PNone)])],
     op_mapped_task_groups := [(''g'', ListOfDictsExpandInput (ListKwargs [Inr [], Inr [], Inr []]))]\<rparr>) ''r'' empty_db = Inr 6"
  by (rule parse_time_count_agrees) code_simp

subsection \<open>Which values an instance gets\<close>

text \<open>
  \<open>_find_index_for_this_field\<close>: the loop runs over the arguments in reverse, so the last argument
  varies fastest; -1 when the argument is not mapped.
\<close>

fun find_index_loop :: "string \<Rightarrow> int \<Rightarrow> (string \<times> int) list \<Rightarrow> int result" where
  "find_index_loop key index [] = Inr (-1)"
| "find_index_loop key index ((mapped_key, mapped_length) # rest) =
     (if mapped_length < 1 then Inl (RuntimeError ''cannot expand field mapped to length'')
      else if mapped_key = key then Inr (index mod mapped_length)
      else find_index_loop key (index div mapped_length) rest)"

definition find_index_for_this_field :: "string \<Rightarrow> int \<Rightarrow> (string \<times> int) list \<Rightarrow> int result" where
  "find_index_for_this_field key index all_lengths = find_index_loop key index (rev all_lengths)"

text \<open>\<open>_expand_mapped_field\<close>, where \<open>val\<close> is the argument, resolved if it had to be, and \<open>all_lengths\<close>
  the map lengths. A string is a sequence of its characters.\<close>

definition list_item :: "'a list \<Rightarrow> int \<Rightarrow> 'a result" where
  "list_item xs i = (if 0 \<le> i \<and> nat i < length xs then Inr (xs ! nat i)
     else if i < 0 \<and> - i \<le> int (length xs) then Inr (xs ! nat (int (length xs) + i))
     else Inl (IndexError ''list index out of range''))"

definition expand_mapped_field :: "string \<Rightarrow> pyval \<Rightarrow> int \<Rightarrow> (string \<times> int) list \<Rightarrow> pyval result" where
  "expand_mapped_field key val map_index all_lengths =
     (if map_index < 0 then Inl (RuntimeError ''can't resolve task-mapping argument without expanding'')
      else bind_err (find_index_for_this_field key map_index all_lengths) (\<lambda>found_index.
        if found_index < 0 then Inr val
        else case val of
          PList xs \<Rightarrow> list_item xs found_index
        | PTuple xs \<Rightarrow> list_item xs found_index
        | PStr t \<Rightarrow> bind_err (list_item t found_index) (\<lambda>c. Inr (PStr [c]))
        | PDict d \<Rightarrow>
            if found_index < int (length d)
            then Inr (PTuple [PStr (fst (d ! nat found_index)), snd (d ! nat found_index)])
            else Inl (IndexError ''index is over mapped length'')
        | _ \<Rightarrow> Inl (TypeError ''can't map over value'')))"

text \<open>The indexes of all arguments are the digits of the map index in the mixed radix of the lengths.\<close>

fun digits :: "int \<Rightarrow> int list \<Rightarrow> int list" where
  "digits i [] = []"
| "digits i (n # ns) = i mod n # digits (i div n) ns"

lemma find_index_digits:
  "distinct (map fst xs) \<Longrightarrow> \<forall>(k, n) \<in> set xs. 0 < n \<Longrightarrow>
   map (\<lambda>k. find_index_loop k i xs) (map fst xs) = map Inr (digits i (map snd xs))"
proof (induction xs arbitrary: i)
  case (Cons x xs)
  obtain k n where x: "x = (k, n)" by (cases x)
  from Cons.prems have n: "0 < n" and k: "k \<notin> fst ` set xs" by (auto simp: x)
  have "map (\<lambda>k'. find_index_loop k' i (x # xs)) (map fst xs) = map (\<lambda>k'. find_index_loop k' (i div n) xs) (map fst xs)"
    using n k by (auto simp: x intro!: map_cong)
  with Cons n show ?case by (simp add: x)
qed simp

lemma digits_unique:
  "list_all2 (\<lambda>n c. 0 \<le> c \<and> c < n) ns cs \<Longrightarrow> \<exists>!i. 0 \<le> i \<and> i < prod_list ns \<and> digits i ns = cs"
proof (induction ns arbitrary: cs)
  case Nil
  then show ?case by (auto intro!: ex1I [of _ 0])
next
  case (Cons n ns)
  then obtain c cs' where cs: "cs = c # cs'" "0 \<le> c" "c < n" and r: "list_all2 (\<lambda>n c. 0 \<le> c \<and> c < n) ns cs'"
    by (auto simp: list_all2_Cons1)
  from Cons.IH [OF r] obtain j where j: "0 \<le> j" "j < prod_list ns" "digits j ns = cs'"
    and uniq: "\<And>i. 0 \<le> i \<and> i < prod_list ns \<and> digits i ns = cs' \<Longrightarrow> i = j" by blast
  show ?case
  proof (rule ex1I [of _ "c + n * j"])
    have "n * j + n \<le> n * prod_list ns"
      using mult_left_mono [of "j + 1" "prod_list ns" n] cs j(2) by (simp add: algebra_simps)
    then show "0 \<le> c + n * j \<and> c + n * j < prod_list (n # ns) \<and> digits (c + n * j) (n # ns) = cs"
      using cs j by simp
  next
    fix i assume i: "0 \<le> i \<and> i < prod_list (n # ns) \<and> digits i (n # ns) = cs"
    have n: "0 < n" using cs by simp
    have "i div n < prod_list ns"
    proof (rule ccontr)
      assume "\<not> i div n < prod_list ns"
      then have "n * prod_list ns \<le> n * (i div n)" using n by simp
      also have "\<dots> \<le> i" using mult_div_mod_eq [of n i] pos_mod_sign [OF n, of i] by linarith
      finally show False using i by simp
    qed
    moreover have "0 \<le> i div n" using i n by (simp add: pos_imp_zdiv_nonneg_iff)
    ultimately have "i div n = j" using uniq i cs(1) by simp
    moreover have "i mod n = c" using i cs(1) by simp
    ultimately show "i = c + n * j" using mult_div_mod_eq [of n i] by simp
  qed
qed

lemma map_lengths_keys:
  "get_map_lengths dag_id run_id s arguments = Inr lengths \<Longrightarrow> map fst lengths = map fst arguments"
  by (induction arguments arbitrary: lengths)
     (auto simp: get_map_lengths_def Let_def split: if_splits)

text \<open>
  C24. The map indexes below the number of instances enumerate the combinations of the mapped
  arguments: each choice of one position in every argument belongs to exactly one map index.
\<close>

theorem expansion_enumerates_combinations:
  assumes "get_map_lengths dag_id run_id s arguments = Inr lengths"
    "get_total_map_length dag_id run_id s (DictOfListsExpandInput arguments) = Inr ti_count"
    "distinct (map fst arguments)" "arguments \<noteq> []" "list_all2 (\<lambda>(k, n) c. 0 \<le> c \<and> c < n) lengths cs"
  shows "\<exists>!i. 0 \<le> i \<and> i < ti_count \<and>
    map (\<lambda>k. find_index_for_this_field k i lengths) (map fst arguments) = map Inr cs"
proof -
  note keys = map_lengths_keys [OF assms(1)]
  have total: "ti_count = prod_list (map snd (rev lengths))"
    using assms(1,2,4) by (simp add: prod_list.rev flip: rev_map)
  have "list_all2 (\<lambda>(k, n) c. 0 \<le> c \<and> c < n) ls cs \<Longrightarrow> \<forall>(k, n) \<in> set ls. 0 < n" for ls :: "(string \<times> int) list" and cs
    by (induction rule: list_all2_induct) auto
  with assms(5) have pos: "\<forall>(k, n) \<in> set (rev lengths). 0 < n" by simp
  have "list_all2 (\<lambda>n c. 0 \<le> c \<and> c < n) (map snd (rev lengths)) (rev cs)"
    using assms(5) by (simp add: rev_map list_all2_rev list.rel_map case_prod_beta')
  note unique = digits_unique [OF this, folded total]
  have "map (\<lambda>k. find_index_for_this_field k i lengths) (map fst arguments) = map Inr cs \<longleftrightarrow>
      digits i (map snd (rev lengths)) = rev cs" for i
  proof -
    have "map (\<lambda>k. find_index_loop k i (rev lengths)) (map fst (rev lengths)) = map Inr (digits i (map snd (rev lengths)))"
      by (rule find_index_digits) (use assms(3) pos in \<open>simp_all add: keys flip: rev_map\<close>)
    then have "map (\<lambda>k. find_index_for_this_field k i lengths) (map fst lengths) = rev (map Inr (digits i (map snd (rev lengths))))"
      by (simp add: find_index_for_this_field_def rev_map [symmetric]) (metis rev_map rev_rev_ident)
    then show ?thesis
      unfolding keys [symmetric]
      by (metis inj_map_eq_map inj_def old.sum.inject(2) rev_map rev_rev_ident)
  qed
  with unique show ?thesis by simp
qed

lemma expansion_enumerates_combinations_witness:
  "\<exists>!i. 0 \<le> i \<and> i < (6::int) \<and>
    map (\<lambda>k. find_index_for_this_field k i [(''x'', 2), (''y'', 3)]) [''x'', ''y''] = map Inr [1, 2]"
proof -
  let ?args = "[(''x'', ListArgument [PInt 1, PInt 2]), (''y'', ListArgument [PInt 1, PInt 2, PInt 3])]"
  have "get_map_lengths ''d'' ''r'' empty_db ?args = Inr [(''x'', 2), (''y'', 3)]"
    "get_total_map_length ''d'' ''r'' empty_db (DictOfListsExpandInput ?args) = Inr 6"
    by code_simp+
  from expansion_enumerates_combinations [OF this, of "[1, 2]"] show ?thesis by simp
qed

subsection \<open>Which upstream instances an instance depends on\<close>

text \<open>
  \<open>get_relevant_upstream_map_indexes\<close>. The mapped task groups of the upstream from the innermost one
  it shares with the task outwards are the groups around that common ancestor.
\<close>

datatype map_indexes = OneIndex int | IndexRange int int

definition common_ancestor_groups :: "operator \<Rightarrow> operator \<Rightarrow> (id_str \<times> expand_input) list" where
  "common_ancestor_groups op upstream =
     dropWhile (\<lambda>(g, _). g \<notin> set (map fst (op_mapped_task_groups op))) (op_mapped_task_groups upstream)"

definition is_further_mapped_inside :: "operator \<Rightarrow> id_str \<Rightarrow> bool" where
  "is_further_mapped_inside upstream container \<longleftrightarrow>
     op_is_mapped upstream \<or> takeWhile (\<lambda>(g, _). g \<noteq> container) (op_mapped_task_groups upstream) \<noteq> []"

definition get_relevant_upstream_map_indexes :: "dag \<Rightarrow> operator \<Rightarrow> task_instance \<Rightarrow> operator \<Rightarrow> int \<Rightarrow> db \<Rightarrow>
    map_indexes option result" where
  "get_relevant_upstream_map_indexes d op ti upstream ti_count s =
     (if ti_count = 0 then Inr None
      else case common_ancestor_groups op upstream of
        [] \<Rightarrow> Inr None
      | (container, i) # outer \<Rightarrow>
          bind_err (group_ti_count (d_dag_id d) (ti_run_id ti) s ((container, i) # outer)) (\<lambda>ancestor_ti_count.
            let ancestor_map_index = ti_map_index ti * ancestor_ti_count div ti_count in
            if \<not> is_further_mapped_inside upstream container then Inr (Some (OneIndex ancestor_map_index))
            else if ancestor_ti_count = 0 then Inl ZeroDivisionError
            else let further_count = ti_count div ancestor_ti_count;
                     map_index_start = ancestor_map_index * further_count in
              Inr (Some (IndexRange map_index_start (map_index_start + further_count)))))"

subsection \<open>Recording what an upstream pushed\<close>

text \<open>
  \<open>iter_mapped_dependants\<close> is not empty: some other mapped task downstream of the task, or a mapped
  task group (which is downstream of every task it refers to), is expanded over it.
\<close>

definition has_mapped_dependants :: "dag \<Rightarrow> operator \<Rightarrow> bool" where
  "has_mapped_dependants d op \<longleftrightarrow>
     list_ex (\<lambda>child.
        op_is_mapped child \<and> op_task_id child \<noteq> op_task_id op \<and> op_task_id op \<in> set (op_upstream_task_ids child) \<and>
          op_task_id op \<in> set (iter_mapped_dependencies (op_expand_input child)) \<or>
        list_ex (\<lambda>(g, i). op_task_id op \<in> set (iter_mapped_dependencies i)) (op_mapped_task_groups child))
       (dag_tasks d)"

fun is_mappable_value :: "pyval \<Rightarrow> bool" where
  "is_mappable_value (PList xs) = True"
| "is_mappable_value (PTuple xs) = True"
| "is_mappable_value (PDict d) = True"
| "is_mappable_value _ = False"

fun py_len :: "pyval \<Rightarrow> int" where
  "py_len (PList xs) = int (length xs)"
| "py_len (PTuple xs) = int (length xs)"
| "py_len (PDict d) = int (length d)"
| "py_len (PStr t) = int (length t)"
| "py_len _ = 0"

definition task_map_of :: "task_instance \<Rightarrow> pyval \<Rightarrow> task_map" where
  "task_map_of ti val = \<lparr>tm_dag_id = ti_dag_id ti, tm_task_id = ti_task_id ti, tm_run_id = ti_run_id ti,
     tm_map_index = ti_map_index ti, tm_length = py_len val,
     tm_keys = (case val of PDict d \<Rightarrow> Some (map fst d) | _ \<Rightarrow> None)\<rparr>"

definition tm_primary :: "task_map \<Rightarrow> ti_primary" where
  "tm_primary m = (tm_dag_id m, tm_task_id m, tm_run_id m, tm_map_index m)"

text \<open>\<open>session.merge\<close>: the row of that key is replaced, or one is inserted.\<close>

definition merge_task_map :: "task_map \<Rightarrow> db \<Rightarrow> db" where
  "merge_task_map m s = s\<lparr>db_task_maps := filter (\<lambda>m'. tm_primary m' \<noteq> tm_primary m) (db_task_maps s) @ [m]\<rparr>"

definition record_task_map_for_downstreams :: "int \<Rightarrow> dag \<Rightarrow> operator \<Rightarrow> task_instance \<Rightarrow> pyval \<Rightarrow> db \<Rightarrow> db result" where
  "record_task_map_for_downstreams max_map_length d op ti val s =
     (if \<not> has_mapped_dependants d op then Inr s
      else if op_is_mapped op then Inr s
      else if val = PNone then Inl XComForMappingNotPushed
      else if \<not> is_mappable_value val then Inl UnmappableXComTypePushed
      else if max_map_length < py_len val then Inl UnmappableXComLengthPushed
      else Inr (merge_task_map (task_map_of ti val) s))"

lemma find_append_None: "find P xs = None \<Longrightarrow> find P (xs @ ys) = find P ys"
  by (induction xs) (auto split: if_splits)


definition sample_mapped_dag :: dag where
  "sample_mapped_dag = sample_dag [(sample_op ''a'')\<lparr>op_downstream_task_ids := [''b'']\<rparr>,
     (sample_op ''b'')\<lparr>op_upstream_task_ids := [''a''], op_is_mapped := True,
       op_expand_input := DictOfListsExpandInput [(''x'', XComArgument (PlainXComArg ''a'' False XCOM_RETURN_KEY))]\<rparr>]"


end
