(* ===== verification/Ti_Deps.thy ===== *)
theory Ti_Deps
  imports Task_Mapping
begin

text \<open>
  The dependency checks of a task instance (\<open>ti_deps/\<close>) but the trigger rule: the context they are
  evaluated in, one function per check, and the sets of checks the scheduler, the backfill and the
  task runner use. A check may change the state of the task instance, push an XCom and record in
  the context that it did, so it maps the context and the database to the statuses it yields and
  the context and database it leaves. Reasons are constructors, one per message of the code. The
  statuses of a generator are consumed entirely, as \<open>are_dependencies_met\<close> does.
\<close>

subsection \<open>Context and environment\<close>

text \<open>
  What a check reads besides the database: the clock, the DAG of the task instance, the configured
  bound on retry delays, the hash of the retry jitter, and whether the executor forces sensors into
  reschedule mode.
\<close>

record dep_env =
  de_now :: time
  de_dag :: dag
  de_max_retry_delay :: int
  de_ti_hash :: "task_instance \<Rightarrow> int"
  de_change_sensor_mode :: bool

record dep_context =
  dc_deps :: "ti_dep list"
  dc_flag_upstream_failed :: bool
  dc_ignore_all_deps :: bool
  dc_ignore_depends_on_past :: bool
  dc_wait_for_past_depends_before_skipping :: bool
  dc_ignore_in_retry_period :: bool
  dc_ignore_in_reschedule_period :: bool
  dc_ignore_task_deps :: bool
  dc_ignore_ti_state :: bool
  dc_ignore_unmapped_tasks :: bool
  dc_finished_tis :: "ti_primary list option"
  dc_have_changed_ti_states :: bool

definition default_dep_context :: dep_context where
  "default_dep_context = \<lparr>dc_deps = [], dc_flag_upstream_failed = False, dc_ignore_all_deps = False,
     dc_ignore_depends_on_past = False, dc_wait_for_past_depends_before_skipping = False,
     dc_ignore_in_retry_period = False, dc_ignore_in_reschedule_period = False,
     dc_ignore_task_deps = False, dc_ignore_ti_state = False, dc_ignore_unmapped_tasks = False,
     dc_finished_tis = None, dc_have_changed_ti_states = False\<rparr>"

datatype (plugins only: code) dep_reason =
    IgnoreAllDeps | IgnoreTaskDeps
  | StateIgnored | StateValid ti_state | StateInvalid ti_state
  | NotRunning | StillRunning
  | ExecutionDateInFuture time | AfterTaskEndDate time | AfterDagEndDate time
  | BeforeTaskStartDate time | BeforeDagStartDate time
  | MaxActiveTasksReached int
  | ConcurrencyNotSet | ConcurrencyReached | ConcurrencyPerRunReached | ConcurrencyNotReached
  | PoolMissing id_str | PoolFull xint int | PoolOpen id_str
  | DagRunNotRunning DagRunState | DagRunIsBackfill | DagPaused id_str
  | RetryPeriodIgnored | NotUpForRetry | InRetryPeriod time
  | NotInRescheduleMode | ReschedulePeriodIgnored | NotReschedulable | MappedNotInRescheduleMode
  | NoRescheduleRequest | ReadyForReschedule | NotReadyForReschedule time
  | PastIgnored | NoDependsOnPast | FirstTaskInstance | IgnoreFirstDependsOnPast
  | PreviousHasNotRun | PreviousUnsuccessful int | PreviousDownstreamUnsuccessful
  | PastDependsNotMet | SkippedByParent id_str
  | NotYetMapped | Mapped
  | NoUpstream | AlwaysRule
  | SetupsIncomplete int | RuleNotMet TriggerRule int | RuleUnknown TriggerRule

record dep_status =
  ds_dep_name :: string
  ds_passed :: bool
  ds_reason :: dep_reason

fun dep_name :: "ti_dep \<Rightarrow> string" where
  "dep_name RunnableExecDateDep = ''Execution Date''"
| "dep_name (ValidStateDep _) = ''Task Instance State''"
| "dep_name TaskNotRunningDep = ''Task Instance Not Running''"
| "dep_name DagTISlotsAvailableDep = ''Task Instance Slots Available''"
| "dep_name TaskConcurrencyDep = ''Task Concurrency''"
| "dep_name PoolSlotsAvailableDep = ''Pool Slots Available''"
| "dep_name DagrunRunningDep = ''Dagrun Running''"
| "dep_name DagRunNotBackfillDep = ''DagRun is not backfill job''"
| "dep_name DagUnpausedDep = ''Dag Not Paused''"
| "dep_name ExecDateAfterStartDateDep = ''Execution Date''"
| "dep_name NotInRetryPeriodDep = ''Not In Retry Period''"
| "dep_name PrevDagrunDep = ''Previous Dagrun State''"
| "dep_name TriggerRuleDep = ''Trigger Rule''"
| "dep_name NotPreviouslySkippedDep = ''Not Previously Skipped''"
| "dep_name ReadyToRescheduleDep = ''Ready To Reschedule''"
| "dep_name MappedTaskIsExpanded = ''Task has been mapped''"

fun IGNORABLE :: "ti_dep \<Rightarrow> bool" where
  "IGNORABLE TaskNotRunningDep = False"
| "IGNORABLE MappedTaskIsExpanded = False"
| "IGNORABLE _ = True"

fun IS_TASK_DEP :: "ti_dep \<Rightarrow> bool" where
  "IS_TASK_DEP TaskConcurrencyDep = True"
| "IS_TASK_DEP NotInRetryPeriodDep = True"
| "IS_TASK_DEP PrevDagrunDep = True"
| "IS_TASK_DEP TriggerRuleDep = True"
| "IS_TASK_DEP NotPreviouslySkippedDep = True"
| "IS_TASK_DEP ReadyToRescheduleDep = True"
| "IS_TASK_DEP _ = False"

definition passing_status :: "ti_dep \<Rightarrow> dep_reason \<Rightarrow> dep_status" where
  "passing_status dep r = \<lparr>ds_dep_name = dep_name dep, ds_passed = True, ds_reason = r\<rparr>"

definition failing_status :: "ti_dep \<Rightarrow> dep_reason \<Rightarrow> dep_status" where
  "failing_status dep r = \<lparr>ds_dep_name = dep_name dep, ds_passed = False, ds_reason = r\<rparr>"

lemma status_passed [simp]: "ds_passed (passing_status d r)" "\<not> ds_passed (failing_status d r)"
  by (simp_all add: passing_status_def failing_status_def)

text \<open>The sets of dependencies (\<open>dependencies_deps.py\<close>).\<close>

definition SCHEDULED_DEPS :: "ti_dep list" where
  "SCHEDULED_DEPS = [RunnableExecDateDep, ValidStateDep SCHEDULEABLE_STATES, TaskNotRunningDep]"

definition REQUEUEABLE_DEPS :: "ti_dep list" where
  "REQUEUEABLE_DEPS = [DagTISlotsAvailableDep, TaskConcurrencyDep, PoolSlotsAvailableDep]"

definition RUNNING_DEPS :: "ti_dep list" where
  "RUNNING_DEPS = [RunnableExecDateDep, ValidStateDep RUNNABLE_STATES, DagTISlotsAvailableDep,
     TaskConcurrencyDep, PoolSlotsAvailableDep, TaskNotRunningDep]"

definition BACKFILL_QUEUED_DEPS :: "ti_dep list" where
  "BACKFILL_QUEUED_DEPS = [RunnableExecDateDep, ValidStateDep BACKFILL_QUEUEABLE_STATES,
     DagrunRunningDep, TaskNotRunningDep]"

definition SCHEDULER_QUEUED_DEPS :: "ti_dep list" where
  "SCHEDULER_QUEUED_DEPS = [RunnableExecDateDep, ValidStateDep QUEUEABLE_STATES,
     DagTISlotsAvailableDep, TaskConcurrencyDep, PoolSlotsAvailableDep, DagrunRunningDep,
     DagRunNotBackfillDep, DagUnpausedDep, ExecDateAfterStartDateDep, TaskNotRunningDep]"

text \<open>The task instances of a run, of the tasks of a partial DAG only when the DAG is partial.\<close>

definition get_task_instances :: "dag \<Rightarrow> dag_run \<Rightarrow> (ti_state \<Rightarrow> bool) \<Rightarrow> db \<Rightarrow> task_instance list" where
  "get_task_instances d dr state s =
     filter (\<lambda>ti. ti_dag_id ti = dr_dag_id dr \<and> ti_run_id ti = dr_run_id dr \<and>
        (d_partial d \<longrightarrow> has_task d (ti_task_id ti)) \<and> state (ti_state ti)) (db_tis s)"

definition ensure_finished_tis :: "dag \<Rightarrow> dag_run \<Rightarrow> dep_context \<Rightarrow> db \<Rightarrow> ti_primary list \<times> dep_context" where
  "ensure_finished_tis d dr cxt s =
     (case dc_finished_tis cxt of
        None \<Rightarrow> let tis = map ti_primary (get_task_instances d dr finished s) in
          (tis, cxt\<lparr>dc_finished_tis := Some tis\<rparr>)
      | Some tis \<Rightarrow> (tis, cxt))"

text \<open>The rows of the finished task instances as they are now.\<close>

definition finished_rows :: "ti_primary list \<Rightarrow> db \<Rightarrow> task_instance list" where
  "finished_rows ks s = List.map_filter (find_ti s) ks"

text \<open>\<open>get_dagrun\<close> raises when the run's row is missing.\<close>

definition get_dagrun :: "task_instance \<Rightarrow> db \<Rightarrow> dag_run result" where
  "get_dagrun ti s =
     (case find_dr s (ti_dag_id ti) (ti_run_id ti) of
        None \<Rightarrow> Inl (KeyError (ti_run_id ti)) | Some dr \<Rightarrow> Inr dr)"

subsection \<open>Checks that only look\<close>

definition valid_state_statuses :: "ti_state list \<Rightarrow> dep_context \<Rightarrow> task_instance \<Rightarrow> dep_status list" where
  "valid_state_statuses valid_states cxt ti =
     (let dep = ValidStateDep valid_states in
      if dc_ignore_ti_state cxt then [passing_status dep StateIgnored]
      else if ti_state ti \<in> set valid_states then [passing_status dep (StateValid (ti_state ti))]
      else [failing_status dep (StateInvalid (ti_state ti))])"

definition task_not_running_statuses :: "task_instance \<Rightarrow> dep_status list" where
  "task_not_running_statuses ti =
     (if ti_state ti \<noteq> Some RUNNING then [passing_status TaskNotRunningDep NotRunning]
      else [failing_status TaskNotRunningDep StillRunning])"

definition runnable_exec_date_statuses :: "dep_env \<Rightarrow> operator \<Rightarrow> dag_run \<Rightarrow> dep_status list" where
  "runnable_exec_date_statuses env op dr =
     (let logical_date = dr_execution_date dr; d = de_dag env in
      (if de_now env < logical_date \<and> \<not> d_allow_future_exec_dates d
       then [failing_status RunnableExecDateDep (ExecutionDateInFuture logical_date)] else []) @
      (case op_end_date op of None \<Rightarrow> []
       | Some e \<Rightarrow> if e < logical_date then [failing_status RunnableExecDateDep (AfterTaskEndDate e)] else []) @
      (case d_end_date d of None \<Rightarrow> []
       | Some e \<Rightarrow> if e < logical_date then [failing_status RunnableExecDateDep (AfterDagEndDate e)] else []))"

definition exec_date_after_start_date_statuses :: "dep_env \<Rightarrow> operator \<Rightarrow> dag_run \<Rightarrow> dep_status list" where
  "exec_date_after_start_date_statuses env op dr =
     (let date = dr_execution_date dr in
      (case op_start_date op of None \<Rightarrow> []
       | Some b \<Rightarrow> if date < b then [failing_status ExecDateAfterStartDateDep (BeforeTaskStartDate b)] else []) @
      (case d_start_date (de_dag env) of None \<Rightarrow> []
       | Some b \<Rightarrow> if date < b then [failing_status ExecDateAfterStartDateDep (BeforeDagStartDate b)] else []))"

definition dag_ti_slots_statuses :: "dag \<Rightarrow> db \<Rightarrow> dep_status list" where
  "dag_ti_slots_statuses d s =
     (if get_concurrency_reached d s
      then [failing_status DagTISlotsAvailableDep (MaxActiveTasksReached (d_max_active_tasks d))] else [])"

definition task_concurrency_statuses :: "operator \<Rightarrow> task_instance \<Rightarrow> db \<Rightarrow> dep_status list" where
  "task_concurrency_statuses op ti s =
     (if op_max_active_tis_per_dag op = None \<and> op_max_active_tis_per_dagrun op = None
      then [passing_status TaskConcurrencyDep ConcurrencyNotSet]
      else if (case op_max_active_tis_per_dag op of None \<Rightarrow> False
               | Some m \<Rightarrow> m \<le> get_num_running_task_instances ti False s)
      then [failing_status TaskConcurrencyDep ConcurrencyReached]
      else if (case op_max_active_tis_per_dagrun op of None \<Rightarrow> False
               | Some m \<Rightarrow> m \<le> get_num_running_task_instances ti True s)
      then [failing_status TaskConcurrencyDep ConcurrencyPerRunReached]
      else [passing_status TaskConcurrencyDep ConcurrencyNotReached])"

definition pool_slots_statuses :: "task_instance \<Rightarrow> db \<Rightarrow> dep_status list" where
  "pool_slots_statuses ti s =
     (case find (\<lambda>p. pl_pool p = ti_pool ti) (db_pools s) of
        None \<Rightarrow> [failing_status PoolSlotsAvailableDep (PoolMissing (ti_pool ti))]
      | Some p \<Rightarrow>
          let free = open_slots s p;
              free' = (if ti_state ti \<in> set (get_occupied_states p)
                       then xplus free (Fin (ti_pool_slots ti)) else free) in
          if free' \<le> Fin (ti_pool_slots ti - 1)
          then [failing_status PoolSlotsAvailableDep (PoolFull free' (ti_pool_slots ti))]
          else [passing_status PoolSlotsAvailableDep (PoolOpen (ti_pool ti))])"

definition dagrun_running_statuses :: "dag_run \<Rightarrow> dep_status list" where
  "dagrun_running_statuses dr =
     (if dr_state dr \<noteq> DR_RUNNING
      then [failing_status DagrunRunningDep (DagRunNotRunning (dr_state dr))] else [])"

definition dagrun_not_backfill_statuses :: "dag_run \<Rightarrow> dep_status list" where
  "dagrun_not_backfill_statuses dr =
     (if dr_run_type dr = BACKFILL_JOB then [failing_status DagRunNotBackfillDep DagRunIsBackfill] else [])"

definition dag_unpaused_statuses :: "dag \<Rightarrow> db \<Rightarrow> dep_status list" where
  "dag_unpaused_statuses d s =
     (if get_is_paused d s = Some True then [failing_status DagUnpausedDep (DagPaused (d_dag_id d))] else [])"

definition not_in_retry_period_statuses ::
    "dep_env \<Rightarrow> dep_context \<Rightarrow> operator \<Rightarrow> task_instance \<Rightarrow> dep_status list result" where
  "not_in_retry_period_statuses env cxt op ti =
     (if dc_ignore_in_retry_period cxt then Inr [passing_status NotInRetryPeriodDep RetryPeriodIgnored]
      else if ti_state ti \<noteq> Some UP_FOR_RETRY then Inr [passing_status NotInRetryPeriodDep NotUpForRetry]
      else bind_err (next_retry_datetime (de_max_retry_delay env) (de_ti_hash env) op ti) (\<lambda>date.
           bind_err (is_premature (de_now env) (de_max_retry_delay env) (de_ti_hash env) op ti) (\<lambda>premature.
           Inr (if premature then [failing_status NotInRetryPeriodDep (InRetryPeriod date)] else []))))"

definition ready_to_reschedule_statuses ::
    "dep_env \<Rightarrow> dep_context \<Rightarrow> operator \<Rightarrow> task_instance \<Rightarrow> db \<Rightarrow> dep_status list" where
  "ready_to_reschedule_statuses env cxt op ti s =
     (let dep = ReadyToRescheduleDep; is_mapped = op_is_mapped op in
      if \<not> is_mapped \<and> \<not> op_reschedule op \<and> \<not> de_change_sensor_mode env
      then [passing_status dep NotInRescheduleMode]
      else if dc_ignore_in_reschedule_period cxt then [passing_status dep ReschedulePeriodIgnored]
      else if ti_state ti \<notin> {Some UP_FOR_RESCHEDULE, None} then [passing_status dep NotReschedulable]
      else case reschedules_for_task_instance ti True s of
        [] \<Rightarrow> [passing_status dep (if is_mapped then MappedNotInRescheduleMode else NoRescheduleRequest)]
      | tr # _ \<Rightarrow>
          if tr_reschedule_date tr \<le> de_now env then [passing_status dep ReadyForReschedule]
          else [failing_status dep (NotReadyForReschedule (tr_reschedule_date tr))])"

definition mapped_task_is_expanded_statuses :: "dep_context \<Rightarrow> task_instance \<Rightarrow> dep_status list" where
  "mapped_task_is_expanded_statuses cxt ti =
     (if dc_ignore_unmapped_tasks cxt then []
      else if ti_map_index ti = -1 then [failing_status MappedTaskIsExpanded NotYetMapped]
      else [passing_status MappedTaskIsExpanded Mapped])"

subsection \<open>The previous dag run\<close>

definition successful_state :: "ti_state \<Rightarrow> bool" where
  "successful_state st \<longleftrightarrow> st \<in> {Some SKIPPED, Some SUCCESS}"

definition push_past_deps_met_xcom_if_needed :: "dep_env \<Rightarrow> dep_context \<Rightarrow> task_instance \<Rightarrow> db \<Rightarrow> db result" where
  "push_past_deps_met_xcom_if_needed env cxt ti s =
     (if dc_wait_for_past_depends_before_skipping cxt
      then xcom_push (de_now env) PAST_DEPENDS_MET (PBool True) ti s else Inr s)"

definition has_tis :: "dag_run \<Rightarrow> id_str \<Rightarrow> db \<Rightarrow> bool" where
  "has_tis dr task_id s \<longleftrightarrow>
     list_ex (\<lambda>t. ti_dag_id t = dr_dag_id dr \<and> ti_task_id t = task_id \<and> ti_run_id t = dr_run_id dr) (db_tis s)"

definition has_any_prior_tis :: "task_instance \<Rightarrow> dag_run \<Rightarrow> db \<Rightarrow> bool" where
  "has_any_prior_tis ti dr s \<longleftrightarrow>
     list_ex (\<lambda>t. ti_dag_id t = ti_dag_id ti \<and> ti_task_id t = ti_task_id ti \<and>
        (case ti_execution_date s t of None \<Rightarrow> False | Some e \<Rightarrow> e < dr_execution_date dr)) (db_tis s)"

definition count_unsuccessful_tis :: "dag_run \<Rightarrow> id_str \<Rightarrow> db \<Rightarrow> int" where
  "count_unsuccessful_tis dr task_id s =
     count_where (\<lambda>t. ti_dag_id t = dr_dag_id dr \<and> ti_task_id t = task_id \<and> ti_run_id t = dr_run_id dr \<and>
        \<not> successful_state (ti_state t)) (db_tis s)"

definition has_unsuccessful_dependants :: "dag_run \<Rightarrow> operator \<Rightarrow> db \<Rightarrow> bool" where
  "has_unsuccessful_dependants dr op s \<longleftrightarrow>
     (if op_downstream_task_ids op = [] then False
      else list_ex (\<lambda>t. ti_dag_id t = dr_dag_id dr \<and> ti_task_id t \<in> set (op_downstream_task_ids op) \<and>
        ti_run_id t = dr_run_id dr \<and> \<not> successful_state (ti_state t)) (db_tis s))"

text \<open>
  The decision, without the XCom: a passing reason, a failing reason, or neither (the last line of
  the generator yields nothing). Comparing a date with a missing start date raises.
\<close>

datatype past_verdict = PastPasses dep_reason | PastFails dep_reason | PastFine

definition past_verdict :: "dep_env \<Rightarrow> dep_context \<Rightarrow> operator \<Rightarrow> task_instance \<Rightarrow> dag_run \<Rightarrow> db \<Rightarrow>
    past_verdict result" where
  "past_verdict env cxt op ti dr s =
     (if dc_ignore_depends_on_past cxt then Inr (PastPasses PastIgnored)
      else if \<not> op_depends_on_past op then Inr (PastPasses NoDependsOnPast)
      else
        let catchup = d_catchup (de_dag env);
            last_dagrun = (if catchup then get_previous_scheduled_dagrun dr s
                           else get_previous_dagrun dr None s) in
        case last_dagrun of
          None \<Rightarrow> Inr (PastPasses FirstTaskInstance)
        | Some prev_run \<Rightarrow>
            if catchup \<and> op_start_date op = None then Inl (TypeError ''datetime < NoneType'')
            else if catchup \<and> dr_execution_date prev_run < the (op_start_date op)
            then Inr (PastPasses FirstTaskInstance)
            else if \<not> has_tis prev_run (ti_task_id ti) s then
              (if op_ignore_first_depends_on_past op \<and> \<not> has_any_prior_tis ti dr s
               then Inr (PastPasses IgnoreFirstDependsOnPast)
               else Inr (PastFails PreviousHasNotRun))
            else let n = count_unsuccessful_tis prev_run (ti_task_id ti) s in
              if 0 < n then Inr (PastFails (PreviousUnsuccessful n))
              else if op_wait_for_downstream op \<and> has_unsuccessful_dependants prev_run op s
              then Inr (PastFails PreviousDownstreamUnsuccessful)
              else Inr PastFine)"

definition prev_dagrun_statuses :: "dep_env \<Rightarrow> dep_context \<Rightarrow> operator \<Rightarrow> task_instance \<Rightarrow> dag_run \<Rightarrow> db \<Rightarrow>
    (dep_status list \<times> db) result" where
  "prev_dagrun_statuses env cxt op ti dr s =
     bind_err (past_verdict env cxt op ti dr s) (\<lambda>v.
       case v of
         PastFails r \<Rightarrow> Inr ([failing_status PrevDagrunDep r], s)
       | PastPasses r \<Rightarrow> bind_err (push_past_deps_met_xcom_if_needed env cxt ti s)
           (\<lambda>s'. Inr ([passing_status PrevDagrunDep r], s'))
       | PastFine \<Rightarrow> bind_err (push_past_deps_met_xcom_if_needed env cxt ti s) (\<lambda>s'. Inr ([], s')))"

subsection \<open>Not previously skipped\<close>

definition XCOM_SKIPMIXIN_KEY :: string where "XCOM_SKIPMIXIN_KEY = ''skipmixin_key''"
definition XCOM_SKIPMIXIN_SKIPPED :: string where "XCOM_SKIPMIXIN_SKIPPED = ''skipped''"
definition XCOM_SKIPMIXIN_FOLLOWED :: string where "XCOM_SKIPMIXIN_FOLLOWED = ''followed''"

text \<open>\<open>key in result and (not) task_id in result[key]\<close>; a value without membership test or subscript
  raises.\<close>

definition skip_lookup :: "string \<Rightarrow> id_str \<Rightarrow> pyval \<Rightarrow> bool option result" where
  "skip_lookup key task_id result' =
     (case py_in key result' of
        None \<Rightarrow> Inl (TypeError key)
      | Some False \<Rightarrow> Inr None
      | Some True \<Rightarrow>
          (case py_item result' key of
             None \<Rightarrow> Inl (TypeError key)
           | Some v \<Rightarrow> (case py_in task_id v of None \<Rightarrow> Inl (TypeError key) | Some b \<Rightarrow> Inr (Some b))))"

definition parent_skips :: "id_str \<Rightarrow> pyval \<Rightarrow> bool result" where
  "parent_skips task_id prev_result =
     bind_err (skip_lookup XCOM_SKIPMIXIN_FOLLOWED task_id prev_result) (\<lambda>followed.
       if followed = Some False then Inr True
       else bind_err (skip_lookup XCOM_SKIPMIXIN_SKIPPED task_id prev_result)
         (\<lambda>skipped. Inr (skipped = Some True)))"

definition past_depends_met :: "task_instance \<Rightarrow> db \<Rightarrow> bool" where
  "past_depends_met ti s = py_truthy (xcom_pull ti (ti_task_id ti) PAST_DEPENDS_MET (PBool False) s)"

fun skip_loop :: "dep_env \<Rightarrow> dep_context \<Rightarrow> task_instance \<Rightarrow> id_str list \<Rightarrow> operator list \<Rightarrow> db \<Rightarrow>
    (dep_status list \<times> db) result" where
  "skip_loop env cxt ti finished_ids [] s = Inr ([], s)"
| "skip_loop env cxt ti finished_ids (parent # rest) s =
     (if \<not> op_is_skip_mixin parent \<or> op_task_id parent \<notin> set finished_ids
      then skip_loop env cxt ti finished_ids rest s
      else let prev_result = xcom_pull ti (op_task_id parent) XCOM_SKIPMIXIN_KEY PNone s in
        if prev_result = PNone then skip_loop env cxt ti finished_ids rest s
        else bind_err (parent_skips (ti_task_id ti) prev_result) (\<lambda>should_skip.
          if \<not> should_skip then skip_loop env cxt ti finished_ids rest s
          else if dc_wait_for_past_depends_before_skipping cxt \<and> \<not> past_depends_met ti s
          then Inr ([failing_status NotPreviouslySkippedDep PastDependsNotMet], s)
          else Inr ([failing_status NotPreviouslySkippedDep (SkippedByParent (op_task_id parent))],
                    snd (set_state (de_now env) (ti_primary ti) (Some SKIPPED) s))))"

definition not_previously_skipped_statuses :: "dep_env \<Rightarrow> dep_context \<Rightarrow> operator \<Rightarrow> task_instance \<Rightarrow>
    dag_run \<Rightarrow> db \<Rightarrow> (dep_status list \<times> dep_context \<times> db) result" where
  "not_previously_skipped_statuses env cxt op ti dr s =
     bind_err (upstream_list (de_dag env) op) (\<lambda>upstream.
       let (tis, cxt') = ensure_finished_tis (de_dag env) dr cxt s;
           finished_ids = map ti_task_id (finished_rows tis s) in
       bind_err (skip_loop env cxt ti finished_ids upstream s) (\<lambda>(sts, s'). Inr (sts, cxt', s')))"

end
