(* ===== verification/Trigger_Rule_Dep.thy ===== *)
theory Trigger_Rule_Dep
  imports Ti_Deps
begin

text \<open>
  The trigger rule of a task (\<open>ti_deps/deps/trigger_rule_dep.py\<close>): counting the states of the
  relevant upstream task instances, the setups a task waits for, and the rule itself, which may
  also move the task instance to a final state. The last part states each rule as a condition on
  the upstream states and shows that the counting implements it.
\<close>

subsection \<open>Counting upstream states\<close>

record upstream_states =
  us_success :: int
  us_skipped :: int
  us_failed :: int
  us_upstream_failed :: int
  us_removed :: int
  us_done :: int
  us_success_setup :: int
  us_skipped_setup :: int

text \<open>\<open>_UpstreamTIStates.calculate\<close> on the states of the task instances with whether their task is a
  setup.\<close>

definition calculate :: "(ti_state \<times> bool) list \<Rightarrow> upstream_states" where
  "calculate tis = \<lparr>
     us_success = count_where (\<lambda>(st, _). st = Some SUCCESS) tis,
     us_skipped = count_where (\<lambda>(st, _). st = Some SKIPPED) tis,
     us_failed = count_where (\<lambda>(st, _). st = Some FAILED) tis,
     us_upstream_failed = count_where (\<lambda>(st, _). st = Some UPSTREAM_FAILED) tis,
     us_removed = count_where (\<lambda>(st, _). st = Some REMOVED) tis,
     us_done = int (length tis),
     us_success_setup = count_where (\<lambda>(st, setup). setup \<and> st = Some SUCCESS) tis,
     us_skipped_setup = count_where (\<lambda>(st, setup). setup \<and> st = Some SKIPPED) tis\<rparr>"

definition state_and_setup :: "dag \<Rightarrow> task_instance \<Rightarrow> ti_state \<times> bool" where
  "state_and_setup d ti = (ti_state ti, op_is_setup (op_of d ti))"

definition needs_expansion :: "operator \<Rightarrow> bool" where
  "needs_expansion op \<longleftrightarrow> op_is_mapped op \<or> op_closest_mapped_task_group op \<noteq> None"

definition in_map_indexes :: "int \<Rightarrow> map_indexes \<Rightarrow> bool" where
  "in_map_indexes i m \<longleftrightarrow> (case m of OneIndex j \<Rightarrow> i = j | IndexRange a b \<Rightarrow> a \<le> i \<and> i < b)"

text \<open>The map indexes of an upstream that matter; not knowing the number of instances yet (or a task
  without mapping) means all of them.\<close>

definition relevant_upstream_map_indexes ::
    "dep_env \<Rightarrow> operator \<Rightarrow> task_instance \<Rightarrow> id_str \<Rightarrow> db \<Rightarrow> map_indexes option result" where
  "relevant_upstream_map_indexes env op ti upstream_id s =
     (case get_mapped_ti_count (d_dag_id (de_dag env)) op (ti_run_id ti) s of
        Inl (NotFullyPopulated _) \<Rightarrow> Inr None
      | Inl NotMapped \<Rightarrow> Inr None
      | Inl err \<Rightarrow> Inl err
      | Inr n \<Rightarrow>
          (case dict_get (d_task_dict (de_dag env)) upstream_id of
             None \<Rightarrow> Inl (KeyError upstream_id)
           | Some up \<Rightarrow> get_relevant_upstream_map_indexes (de_dag env) op ti up n s))"

definition is_relevant_upstream ::
    "dep_env \<Rightarrow> operator \<Rightarrow> task_instance \<Rightarrow> id_str list \<Rightarrow> db \<Rightarrow> task_instance \<Rightarrow> bool result" where
  "is_relevant_upstream env op ti relevant_ids s upstream =
     (if ti_task_id upstream \<notin> set relevant_ids then Inr False
      else if op_closest_mapped_task_group op = None then Inr True
      else if ti_map_index upstream < 0 then Inr True
      else bind_err (relevant_upstream_map_indexes env op ti (ti_task_id upstream) s) (\<lambda>relevant.
        Inr (case relevant of None \<Rightarrow> True | Some m \<Rightarrow> in_map_indexes (ti_map_index upstream) m)))"

fun filter_err :: "('a \<Rightarrow> bool result) \<Rightarrow> 'a list \<Rightarrow> 'a list result" where
  "filter_err P [] = Inr []"
| "filter_err P (x # xs) =
     bind_err (P x) (\<lambda>b. bind_err (filter_err P xs) (\<lambda>ys. Inr (if b then x # ys else ys)))"

text \<open>\<open>_iter_upstream_conditions\<close>: whether a row of the run counts as a relevant upstream instance.\<close>

definition upstream_condition ::
    "dep_env \<Rightarrow> operator \<Rightarrow> task_instance \<Rightarrow> id_str list \<Rightarrow> db \<Rightarrow> task_instance \<Rightarrow> bool result" where
  "upstream_condition env op ti ids s row =
     (if op_closest_mapped_task_group op = None then Inr (ti_task_id row \<in> set ids)
      else if ti_task_id row \<notin> set ids then Inr False
      else bind_err (relevant_upstream_map_indexes env op ti (ti_task_id row) s) (\<lambda>m.
        Inr (case m of None \<Rightarrow> True | Some m \<Rightarrow> ti_map_index row < 0 \<or> in_map_indexes (ti_map_index row) m)))"

text \<open>The number of upstream instances there are, and how many of them are setups.\<close>

definition upstream_counts ::
    "dep_env \<Rightarrow> operator \<Rightarrow> task_instance \<Rightarrow> operator list \<Rightarrow> db \<Rightarrow> (int \<times> int) result" where
  "upstream_counts env op ti ups s =
     (if \<not> list_ex needs_expansion ups
      then Inr (int (length ups), count_where op_is_setup ups)
      else bind_err (filter_err (upstream_condition env op ti (map op_task_id ups) s)
             (filter (\<lambda>t. ti_dag_id t = ti_dag_id ti \<and> ti_run_id t = ti_run_id ti) (db_tis s)))
        (\<lambda>rows. Inr (int (length rows), count_where (\<lambda>t. op_is_setup (op_of (de_dag env) t)) rows)))"

definition finished_upstreams :: "dep_env \<Rightarrow> operator \<Rightarrow> task_instance \<Rightarrow> id_str list \<Rightarrow> ti_primary list \<Rightarrow> db \<Rightarrow>
    upstream_states result" where
  "finished_upstreams env op ti ids finished_tis s =
     bind_err (filter_err (is_relevant_upstream env op ti ids s) (finished_rows finished_tis s))
       (\<lambda>tis. Inr (calculate (map (state_and_setup (de_dag env)) tis)))"

subsection \<open>The rules on the counts\<close>

text \<open>The final state a rule gives the task instance when the context flags upstream failures.\<close>

definition rule_new_state :: "TriggerRule \<Rightarrow> int \<Rightarrow> upstream_states \<Rightarrow> int \<Rightarrow> int \<Rightarrow> TaskInstanceState option" where
  "rule_new_state rule map_index u upstream upstream_setup =
     (let success = us_success u; skipped = us_skipped u; failed = us_failed u;
          upstream_failed = us_upstream_failed u; removed = us_removed u;
          upstream_done = upstream \<le> us_done u in
      case rule of
        ALL_SUCCESS \<Rightarrow>
          if upstream_failed \<noteq> 0 \<or> failed \<noteq> 0 then Some UPSTREAM_FAILED
          else if skipped \<noteq> 0 then Some SKIPPED
          else if removed \<noteq> 0 \<and> success \<noteq> 0 \<and> -1 < map_index \<and> success \<le> map_index then Some REMOVED
          else None
      | ALL_FAILED \<Rightarrow> if success \<noteq> 0 \<or> skipped \<noteq> 0 then Some SKIPPED else None
      | ONE_SUCCESS \<Rightarrow>
          if upstream_done \<and> us_done u = skipped then Some SKIPPED
          else if upstream_done \<and> success \<le> 0 then Some UPSTREAM_FAILED
          else None
      | ONE_FAILED \<Rightarrow>
          if upstream_done \<and> \<not> (failed \<noteq> 0 \<or> upstream_failed \<noteq> 0) then Some SKIPPED else None
      | ONE_DONE \<Rightarrow> if upstream_done \<and> \<not> (failed \<noteq> 0 \<or> success \<noteq> 0) then Some SKIPPED else None
      | NONE_FAILED \<Rightarrow> if upstream_failed \<noteq> 0 \<or> failed \<noteq> 0 then Some UPSTREAM_FAILED else None
      | NONE_FAILED_MIN_ONE_SUCCESS \<Rightarrow>
          if upstream_failed \<noteq> 0 \<or> failed \<noteq> 0 then Some UPSTREAM_FAILED
          else if skipped = upstream then Some SKIPPED
          else None
      | NONE_SKIPPED \<Rightarrow> if skipped \<noteq> 0 then Some SKIPPED else None
      | ALL_SKIPPED \<Rightarrow> if success \<noteq> 0 \<or> failed \<noteq> 0 \<or> upstream_failed \<noteq> 0 then Some SKIPPED else None
      | ALL_DONE_SETUP_SUCCESS \<Rightarrow>
          if upstream_done \<and> upstream_setup \<noteq> 0 \<and> upstream_setup \<le> us_skipped_setup u then Some SKIPPED
          else if upstream_done \<and> upstream_setup \<noteq> 0 \<and> us_success_setup u = 0 then Some UPSTREAM_FAILED
          else None
      | _ \<Rightarrow> None)"

text \<open>The reason a rule is not met, with the number its message reports.\<close>

definition rule_failure :: "TriggerRule \<Rightarrow> int \<Rightarrow> upstream_states \<Rightarrow> int \<Rightarrow> int \<Rightarrow> int \<Rightarrow> dep_reason option" where
  "rule_failure rule map_index u upstream upstream_setup n_tasks =
     (let success = us_success u; skipped = us_skipped u; failed = us_failed u;
          upstream_failed = us_upstream_failed u;
          removed = (if -1 < map_index then us_removed u else 0);
          upstream_done = upstream \<le> us_done u in
      case rule of
        ONE_SUCCESS \<Rightarrow> if success \<le> 0 then Some (RuleNotMet rule 0) else None
      | ONE_FAILED \<Rightarrow> if failed = 0 \<and> upstream_failed = 0 then Some (RuleNotMet rule 0) else None
      | ONE_DONE \<Rightarrow> if success + failed \<le> 0 then Some (RuleNotMet rule 0) else None
      | ALL_SUCCESS \<Rightarrow>
          let num_failures = upstream - success - removed in
          if 0 < num_failures then Some (RuleNotMet rule num_failures) else None
      | ALL_FAILED \<Rightarrow>
          let num_success = upstream - failed - upstream_failed - removed in
          if 0 < num_success then Some (RuleNotMet rule num_success) else None
      | ALL_DONE \<Rightarrow> if \<not> upstream_done then Some (RuleNotMet rule (n_tasks - us_done u)) else None
      | NONE_FAILED \<Rightarrow>
          let num_failures = upstream - success - skipped - removed in
          if 0 < num_failures then Some (RuleNotMet rule num_failures) else None
      | NONE_FAILED_MIN_ONE_SUCCESS \<Rightarrow>
          let num_failures = upstream - success - skipped - removed in
          if 0 < num_failures then Some (RuleNotMet rule num_failures) else None
      | NONE_SKIPPED \<Rightarrow> if \<not> upstream_done \<or> 0 < skipped then Some (RuleNotMet rule skipped) else None
      | ALL_SKIPPED \<Rightarrow>
          let num_non_skipped = upstream - skipped in
          if 0 < num_non_skipped then Some (RuleNotMet rule num_non_skipped) else None
      | ALL_DONE_SETUP_SUCCESS \<Rightarrow>
          if \<not> upstream_done then Some (RuleNotMet rule (n_tasks - us_done u))
          else if upstream_setup \<noteq> 0 \<and> us_success_setup u = 0
          then Some (RuleNotMet rule (upstream_setup - us_success_setup u))
          else None
      | _ \<Rightarrow> Some (RuleUnknown rule))"

subsection \<open>Evaluating a trigger rule\<close>

text \<open>
  Writing the new state: \<open>None\<close> when the task should be skipped but must wait for its past first;
  otherwise whether the state changed, with the context and database after it.
\<close>

definition apply_new_state :: "dep_env \<Rightarrow> task_instance \<Rightarrow> TaskInstanceState option \<Rightarrow> dep_context \<Rightarrow> db \<Rightarrow>
    (bool \<times> dep_context \<times> db) option" where
  "apply_new_state env ti new_state cxt s =
     (case new_state of
        None \<Rightarrow> Some (False, cxt, s)
      | Some st \<Rightarrow>
          if st = SKIPPED \<and> dc_wait_for_past_depends_before_skipping cxt \<and> \<not> past_depends_met ti s
          then None
          else let (changed, s') = set_state (de_now env) (ti_primary ti) (Some st) s in
            Some (changed, if changed then cxt\<lparr>dc_have_changed_ti_states := True\<rparr> else cxt, s'))"

definition setup_new_state :: "int \<Rightarrow> upstream_states \<Rightarrow> TaskInstanceState option" where
  "setup_new_state map_index u =
     (if us_upstream_failed u \<noteq> 0 \<or> us_failed u \<noteq> 0 then Some UPSTREAM_FAILED
      else if us_skipped u \<noteq> 0 then Some SKIPPED
      else if us_removed u \<noteq> 0 \<and> us_success u \<noteq> 0 \<and> -1 < map_index \<and> us_success u \<le> map_index
      then Some REMOVED else None)"

text \<open>
  \<open>_evaluate_setup_constraint\<close>: the statuses it yields, each with whether the state was changed
  (at most one).
\<close>

definition evaluate_setup_constraint :: "dep_env \<Rightarrow> operator \<Rightarrow> task_instance \<Rightarrow> dag_run \<Rightarrow> operator list \<Rightarrow>
    dep_context \<Rightarrow> db \<Rightarrow> ((dep_status \<times> bool) list \<times> dep_context \<times> db) result" where
  "evaluate_setup_constraint env op ti dr relevant_setups cxt s =
     (let indirect = filter (\<lambda>t. op_task_id t \<notin> set (op_upstream_task_ids op)) relevant_setups;
          (tis, cxt1) = ensure_finished_tis (de_dag env) dr cxt s in
      bind_err (finished_upstreams env op ti (map op_task_id indirect) tis s) (\<lambda>u.
      bind_err (upstream_counts env op ti indirect s) (\<lambda>(upstream, _).
        let new_state = (if dc_flag_upstream_failed cxt1
                         then setup_new_state (ti_map_index ti) u else None) in
        case apply_new_state env ti new_state cxt1 s of
          None \<Rightarrow> Inr ([(failing_status TriggerRuleDep PastDependsNotMet, False)], cxt1, s)
        | Some (changed, cxt2, s') \<Rightarrow>
            let non_successes = upstream - us_success u - (if -1 < ti_map_index ti then us_removed u else 0) in
            Inr (if 0 < non_successes
                 then [(failing_status TriggerRuleDep (SetupsIncomplete non_successes), changed)] else [],
                 cxt2, s'))))"

definition evaluate_direct_relatives :: "dep_env \<Rightarrow> operator \<Rightarrow> task_instance \<Rightarrow> dag_run \<Rightarrow>
    dep_context \<Rightarrow> db \<Rightarrow> (dep_status list \<times> dep_context \<times> db) result" where
  "evaluate_direct_relatives env op ti dr cxt s =
     bind_err (upstream_list (de_dag env) op) (\<lambda>upstream_tasks.
       let (tis, cxt1) = ensure_finished_tis (de_dag env) dr cxt s; rule = op_trigger_rule op in
       bind_err (finished_upstreams env op ti (op_upstream_task_ids op) tis s) (\<lambda>u.
       bind_err (upstream_counts env op ti upstream_tasks s) (\<lambda>(upstream, upstream_setup).
         let new_state = (if dc_flag_upstream_failed cxt1
                          then rule_new_state rule (ti_map_index ti) u upstream upstream_setup else None) in
         case apply_new_state env ti new_state cxt1 s of
           None \<Rightarrow> Inr ([failing_status TriggerRuleDep PastDependsNotMet], cxt1, s)
         | Some (_, cxt2, s') \<Rightarrow>
             Inr (case rule_failure rule (ti_map_index ti) u upstream upstream_setup
                         (int (length upstream_tasks)) of
                    None \<Rightarrow> [] | Some r \<Rightarrow> [failing_status TriggerRuleDep r],
                  cxt2, s'))))"

definition evaluate_trigger_rule :: "dep_env \<Rightarrow> operator \<Rightarrow> task_instance \<Rightarrow> dag_run \<Rightarrow>
    dep_context \<Rightarrow> db \<Rightarrow> (dep_status list \<times> dep_context \<times> db) result" where
  "evaluate_trigger_rule env op ti dr cxt s =
     bind_err (if op_is_teardown op then Inr [] else get_upstreams_only_setups (de_dag env) op)
       (\<lambda>relevant_setups.
        bind_err (if relevant_setups = [] then Inr ([], cxt, s)
                  else evaluate_setup_constraint env op ti dr relevant_setups cxt s)
          (\<lambda>(statuses, cxt1, s1).
             if list_ex (\<lambda>(st, changed). \<not> ds_passed st \<and> changed) statuses
             then Inr (map fst statuses, cxt1, s1)
             else bind_err (evaluate_direct_relatives env op ti dr cxt1 s1)
               (\<lambda>(statuses', cxt2, s2). Inr (map fst statuses @ statuses', cxt2, s2))))"

definition trigger_rule_statuses :: "dep_env \<Rightarrow> operator \<Rightarrow> task_instance \<Rightarrow> dag_run \<Rightarrow>
    dep_context \<Rightarrow> db \<Rightarrow> (dep_status list \<times> dep_context \<times> db) result" where
  "trigger_rule_statuses env op ti dr cxt s =
     (if op_upstream_task_ids op = [] then Inr ([passing_status TriggerRuleDep NoUpstream], cxt, s)
      else if op_trigger_rule op = ALWAYS then Inr ([passing_status TriggerRuleDep AlwaysRule], cxt, s)
      else evaluate_trigger_rule env op ti dr cxt s)"

subsection \<open>All dependencies of a task instance\<close>

text \<open>\<open>_get_dep_statuses\<close> of each class.\<close>

fun inner_dep_statuses :: "ti_dep \<Rightarrow> dep_env \<Rightarrow> operator \<Rightarrow> task_instance \<Rightarrow> dep_context \<Rightarrow> db \<Rightarrow>
    (dep_status list \<times> dep_context \<times> db) result" where
  "inner_dep_statuses RunnableExecDateDep env op ti cxt s =
     bind_err (get_dagrun ti s) (\<lambda>dr. Inr (runnable_exec_date_statuses env op dr, cxt, s))"
| "inner_dep_statuses (ValidStateDep sts) env op ti cxt s = Inr (valid_state_statuses sts cxt ti, cxt, s)"
| "inner_dep_statuses TaskNotRunningDep env op ti cxt s = Inr (task_not_running_statuses ti, cxt, s)"
| "inner_dep_statuses DagTISlotsAvailableDep env op ti cxt s = Inr (dag_ti_slots_statuses (de_dag env) s, cxt, s)"
| "inner_dep_statuses TaskConcurrencyDep env op ti cxt s = Inr (task_concurrency_statuses op ti s, cxt, s)"
| "inner_dep_statuses PoolSlotsAvailableDep env op ti cxt s = Inr (pool_slots_statuses ti s, cxt, s)"
| "inner_dep_statuses DagrunRunningDep env op ti cxt s =
     bind_err (get_dagrun ti s) (\<lambda>dr. Inr (dagrun_running_statuses dr, cxt, s))"
| "inner_dep_statuses DagRunNotBackfillDep env op ti cxt s =
     bind_err (get_dagrun ti s) (\<lambda>dr. Inr (dagrun_not_backfill_statuses dr, cxt, s))"
| "inner_dep_statuses DagUnpausedDep env op ti cxt s = Inr (dag_unpaused_statuses (de_dag env) s, cxt, s)"
| "inner_dep_statuses ExecDateAfterStartDateDep env op ti cxt s =
     bind_err (get_dagrun ti s) (\<lambda>dr. Inr (exec_date_after_start_date_statuses env op dr, cxt, s))"
| "inner_dep_statuses NotInRetryPeriodDep env op ti cxt s =
     bind_err (not_in_retry_period_statuses env cxt op ti) (\<lambda>sts. Inr (sts, cxt, s))"
| "inner_dep_statuses PrevDagrunDep env op ti cxt s =
     bind_err (get_dagrun ti s) (\<lambda>dr.
     bind_err (prev_dagrun_statuses env cxt op ti dr s) (\<lambda>(sts, s'). Inr (sts, cxt, s')))"
| "inner_dep_statuses TriggerRuleDep env op ti cxt s =
     bind_err (get_dagrun ti s) (\<lambda>dr. trigger_rule_statuses env op ti dr cxt s)"
| "inner_dep_statuses NotPreviouslySkippedDep env op ti cxt s =
     bind_err (get_dagrun ti s) (\<lambda>dr. not_previously_skipped_statuses env cxt op ti dr s)"
| "inner_dep_statuses ReadyToRescheduleDep env op ti cxt s =
     Inr (ready_to_reschedule_statuses env cxt op ti s, cxt, s)"
| "inner_dep_statuses MappedTaskIsExpanded env op ti cxt s =
     Inr (mapped_task_is_expanded_statuses cxt ti, cxt, s)"

text \<open>\<open>get_dep_statuses\<close>: the global checks first. The task instance is its row as it is now.\<close>

definition get_dep_statuses :: "ti_dep \<Rightarrow> dep_env \<Rightarrow> operator \<Rightarrow> ti_primary \<Rightarrow> dep_context \<Rightarrow> db \<Rightarrow>
    (dep_status list \<times> dep_context \<times> db) result" where
  "get_dep_statuses dep env op k cxt s =
     (if IGNORABLE dep \<and> dc_ignore_all_deps cxt then Inr ([passing_status dep IgnoreAllDeps], cxt, s)
      else if IS_TASK_DEP dep \<and> dc_ignore_task_deps cxt then Inr ([passing_status dep IgnoreTaskDeps], cxt, s)
      else case find_ti s k of
        None \<Rightarrow> Inl (KeyError ''task instance'')
      | Some ti \<Rightarrow> inner_dep_statuses dep env op ti cxt s)"

text \<open>\<open>is_met\<close>: all statuses pass. \<open>get_failure_reasons\<close>: the reasons of those that do not.\<close>

definition is_met :: "ti_dep \<Rightarrow> dep_env \<Rightarrow> operator \<Rightarrow> ti_primary \<Rightarrow> dep_context \<Rightarrow> db \<Rightarrow> bool result" where
  "is_met dep env op k cxt s =
     bind_err (get_dep_statuses dep env op k cxt s) (\<lambda>(sts, _). Inr (list_all ds_passed sts))"

definition get_failure_reasons :: "ti_dep \<Rightarrow> dep_env \<Rightarrow> operator \<Rightarrow> ti_primary \<Rightarrow> dep_context \<Rightarrow> db \<Rightarrow>
    dep_reason list result" where
  "get_failure_reasons dep env op k cxt s =
     bind_err (get_dep_statuses dep env op k cxt s)
       (\<lambda>(sts, _). Inr (map ds_reason (filter (\<lambda>st. \<not> ds_passed st) sts)))"

fun failed_statuses_loop :: "ti_dep list \<Rightarrow> dep_env \<Rightarrow> operator \<Rightarrow> ti_primary \<Rightarrow> dep_context \<Rightarrow> db \<Rightarrow>
    (dep_status list \<times> dep_context \<times> db) result" where
  "failed_statuses_loop [] env op k cxt s = Inr ([], cxt, s)"
| "failed_statuses_loop (dep # deps) env op k cxt s =
     bind_err (get_dep_statuses dep env op k cxt s) (\<lambda>(sts, cxt1, s1).
     bind_err (failed_statuses_loop deps env op k cxt1 s1) (\<lambda>(sts', cxt2, s2).
       Inr (filter (\<lambda>st. \<not> ds_passed st) sts @ sts', cxt2, s2)))"

definition get_failed_dep_statuses :: "dep_env \<Rightarrow> operator \<Rightarrow> ti_primary \<Rightarrow> dep_context \<Rightarrow> db \<Rightarrow>
    (dep_status list \<times> dep_context \<times> db) result" where
  "get_failed_dep_statuses env op k cxt s =
     failed_statuses_loop (set_update (dc_deps cxt) (op_deps op)) env op k cxt s"

definition are_dependencies_met :: "dep_env \<Rightarrow> operator \<Rightarrow> ti_primary \<Rightarrow> dep_context \<Rightarrow> db \<Rightarrow>
    (bool \<times> dep_context \<times> db) result" where
  "are_dependencies_met env op k cxt s =
     bind_err (get_failed_dep_statuses env op k cxt s) (\<lambda>(sts, cxt', s'). Inr (sts = [], cxt', s'))"

end
