(* ===== verification/Dep_Laws.thy ===== *)
theory Dep_Laws
  imports Trigger_Rule_Dep
begin

text \<open>
  What the dependency checks guarantee: evaluating them touches no other task instance than the one
  checked, a trigger rule passes exactly when the condition it names holds of the upstream states,
  and a task whose upstreams have all finished is never left waiting.
\<close>

subsection \<open>Evaluation leaves everything else alone\<close>

text \<open>
  \<open>settles_ti k s s'\<close>: at most the state and the dates of the row \<open>k\<close> changed, the state, if at all,
  to one a check may set; XComs may have been pushed.
\<close>

definition settled_state :: "ti_state \<Rightarrow> bool" where
  "settled_state st \<longleftrightarrow> st \<in> {Some SKIPPED, Some UPSTREAM_FAILED, Some REMOVED}"

definition lifecycle_update :: "(task_instance \<Rightarrow> task_instance) \<Rightarrow> bool" where
  "lifecycle_update f \<longleftrightarrow> (\<forall>ti. f ti = ti\<lparr>ti_state := ti_state (f ti), ti_start_date := ti_start_date (f ti),
      ti_end_date := ti_end_date (f ti), ti_duration := ti_duration (f ti)\<rparr>)"

definition settles_ti :: "ti_primary \<Rightarrow> db \<Rightarrow> db \<Rightarrow> bool" where
  "settles_ti k s s' \<longleftrightarrow>
     (\<exists>f. lifecycle_update f \<and> (\<forall>ti. ti_state (f ti) = ti_state ti \<or> settled_state (ti_state (f ti))) \<and>
          s' = (update_ti k f s)\<lparr>db_xcoms := db_xcoms s'\<rparr>)"

lemma lifecycle_keeps_primary: "lifecycle_update f \<Longrightarrow> keeps_primary f"
  unfolding lifecycle_update_def keeps_primary_def ti_primary_def
  by (metis (no_types, lifting) task_instance.select_convs(1-4) task_instance.surjective
      task_instance.update_convs(5,6,7,8))

lemma lifecycle_comp: "lifecycle_update f \<Longrightarrow> lifecycle_update g \<Longrightarrow> lifecycle_update (g \<circ> f)"
  unfolding lifecycle_update_def comp_def
proof
  fix ti
  assume f: "\<forall>ti. f ti = ti\<lparr>ti_state := ti_state (f ti), ti_start_date := ti_start_date (f ti),
      ti_end_date := ti_end_date (f ti), ti_duration := ti_duration (f ti)\<rparr>"
    and g: "\<forall>ti. g ti = ti\<lparr>ti_state := ti_state (g ti), ti_start_date := ti_start_date (g ti),
      ti_end_date := ti_end_date (g ti), ti_duration := ti_duration (g ti)\<rparr>"
  show "g (f ti) = ti\<lparr>ti_state := ti_state (g (f ti)), ti_start_date := ti_start_date (g (f ti)),
      ti_end_date := ti_end_date (g (f ti)), ti_duration := ti_duration (g (f ti))\<rparr>"
    by (subst g [rule_format, of "f ti"], subst f [rule_format, of ti]) simp
qed

lemma settles_ti_refl [simp]: "settles_ti k s s"
  by (auto simp: settles_ti_def update_ti_def lifecycle_update_def intro!: exI [of _ "\<lambda>ti. ti"])

lemma settles_ti_xcoms: "settles_ti k s (s\<lparr>db_xcoms := x\<rparr>)"
  by (auto simp: settles_ti_def update_ti_def lifecycle_update_def intro!: exI [of _ "\<lambda>ti. ti"])

lemma update_ti_comp: "keeps_primary f \<Longrightarrow> update_ti k g (update_ti k f s) = update_ti k (g \<circ> f) s"
  by (simp add: update_ti_def keeps_primary_def comp_def if_distrib cong: if_cong)

lemma settles_ti_trans:
  assumes "settles_ti k s1 s2" "settles_ti k s2 s3"
  shows "settles_ti k s1 s3"
proof -
  from assms obtain f g where
    f: "lifecycle_update f" "\<forall>ti. ti_state (f ti) = ti_state ti \<or> settled_state (ti_state (f ti))"
      "s2 = (update_ti k f s1)\<lparr>db_xcoms := db_xcoms s2\<rparr>" and
    g: "lifecycle_update g" "\<forall>ti. ti_state (g ti) = ti_state ti \<or> settled_state (ti_state (g ti))"
      "s3 = (update_ti k g s2)\<lparr>db_xcoms := db_xcoms s3\<rparr>"
    unfolding settles_ti_def by blast
  have "update_ti k g s2 = (update_ti k g (update_ti k f s1))\<lparr>db_xcoms := db_xcoms s2\<rparr>"
    by (subst f(3)) (simp add: update_ti_def)
  then have "s3 = (update_ti k (g \<circ> f) s1)\<lparr>db_xcoms := db_xcoms s3\<rparr>"
    using g(3) by (simp add: update_ti_comp lifecycle_keeps_primary [OF f(1)])
  moreover have "ti_state ((g \<circ> f) ti) = ti_state ti \<or> settled_state (ti_state ((g \<circ> f) ti))" for ti
    using f(2) g(2) by (metis comp_apply)
  ultimately show ?thesis using lifecycle_comp [OF f(1) g(1)] unfolding settles_ti_def by blast
qed

lemma settles_set_state: "settled_state st \<Longrightarrow> settles_ti k s (snd (set_state now k st s))"
  unfolding settles_ti_def set_state_db
  by (rule exI [of _ "set_state_row now st"])
     (auto simp: lifecycle_update_def set_state_row_def Let_def update_ti_def)

lemma settles_find_other:
  assumes "settles_ti k s s'" "k' \<noteq> k"
  shows "find_ti s' k' = find_ti s k'"
proof -
  from assms(1) obtain f where f: "lifecycle_update f" "s' = (update_ti k f s)\<lparr>db_xcoms := db_xcoms s'\<rparr>"
    unfolding settles_ti_def by blast
  have "find_ti s' k' = find_ti (update_ti k f s) k'" by (subst f(2)) (simp add: find_ti_def)
  with assms(2) show ?thesis by (simp add: store_simps lifecycle_keeps_primary [OF f(1)])
qed

lemma settles_tables:
  "settles_ti k s s' \<Longrightarrow> db_drs s' = db_drs s \<and> db_dms s' = db_dms s \<and> db_pools s' = db_pools s \<and>
     db_trs s' = db_trs s \<and> db_jobs s' = db_jobs s"
  unfolding settles_ti_def by (metis db.ext_inject db.surjective db.update_convs(6) update_ti_frame(1-4,6))

lemma settles_push: "push_past_deps_met_xcom_if_needed env cxt ti s = Inr s' \<Longrightarrow> settles_ti k s s'"
  by (auto simp: push_past_deps_met_xcom_if_needed_def xcom_push_def xcom_set_def settles_ti_xcoms
      split: if_split_asm option.split_asm)

lemma settles_prev: "prev_dagrun_statuses env cxt op ti dr s = Inr (sts, s') \<Longrightarrow> settles_ti k s s'"
  by (auto simp: prev_dagrun_statuses_def simp del: bind_err_Inr_iff elim!: bind_err_InrE split: past_verdict.split_asm dest: settles_push)

lemma settles_skip_loop:
  "skip_loop env cxt ti ids ps s = Inr (sts, s') \<Longrightarrow> settles_ti (ti_primary ti) s s'"
proof (induction env cxt ti ids ps s rule: skip_loop.induct)
  case (2 env cxt ti ids parent rest s)
  then show ?case
    using settles_set_state [of "Some SKIPPED" "ti_primary ti" s "de_now env"]
    by (auto simp: Let_def settled_state_def split: if_split_asm)
qed simp

lemma settles_skipped:
  "not_previously_skipped_statuses env cxt op ti dr s = Inr (sts, cxt', s') \<Longrightarrow>
   settles_ti (ti_primary ti) s s'"
  by (auto simp: not_previously_skipped_statuses_def Let_def simp del: bind_err_Inr_iff elim!: bind_err_InrE split: prod.split_asm dest: settles_skip_loop)

lemma settles_apply:
  "apply_new_state env ti ns cxt s = Some (ch, cxt', s') \<Longrightarrow>
   (case ns of None \<Rightarrow> True | Some st \<Rightarrow> settled_state (Some st)) \<Longrightarrow> settles_ti (ti_primary ti) s s'"
  using settles_set_state [of "Some (the ns)" "ti_primary ti" s "de_now env"]
  by (cases "set_state (de_now env) (ti_primary ti) (Some (the ns)) s")
     (auto simp: apply_new_state_def Let_def split: option.split_asm if_split_asm prod.split_asm)

lemma new_state_settled:
  "case rule_new_state rule i u n m of None \<Rightarrow> True | Some st \<Rightarrow> settled_state (Some st)"
  "case setup_new_state i u of None \<Rightarrow> True | Some st \<Rightarrow> settled_state (Some st)"
  by (cases rule; simp add: rule_new_state_def settled_state_def Let_def)
     (simp add: setup_new_state_def settled_state_def)

lemma settles_setup:
  "evaluate_setup_constraint env op ti dr rs cxt s = Inr (sts, cxt', s') \<Longrightarrow> settles_ti (ti_primary ti) s s'"
  using new_state_settled
  by (auto simp: evaluate_setup_constraint_def Let_def simp del: bind_err_Inr_iff elim!: bind_err_InrE split: prod.split_asm option.split_asm if_split_asm
      dest!: settles_apply)

lemma settles_direct:
  "evaluate_direct_relatives env op ti dr cxt s = Inr (sts, cxt', s') \<Longrightarrow> settles_ti (ti_primary ti) s s'"
  using new_state_settled
  by (auto simp: evaluate_direct_relatives_def Let_def simp del: bind_err_Inr_iff elim!: bind_err_InrE split: prod.split_asm option.split_asm if_split_asm
      dest!: settles_apply)

lemma settles_trigger_rule:
  "trigger_rule_statuses env op ti dr cxt s = Inr (sts, cxt', s') \<Longrightarrow> settles_ti (ti_primary ti) s s'"
  unfolding trigger_rule_statuses_def evaluate_trigger_rule_def
  by (auto simp del: bind_err_Inr_iff elim!: bind_err_InrE split: if_split_asm prod.split_asm dest!: settles_direct settles_setup intro: settles_ti_trans)

lemma settles_inner:
  "inner_dep_statuses dep env op ti cxt s = Inr (sts, cxt', s') \<Longrightarrow> settles_ti (ti_primary ti) s s'"
  by (cases dep) (auto simp del: bind_err_Inr_iff elim!: bind_err_InrE split: prod.split_asm
      dest: settles_prev settles_trigger_rule settles_skipped)

lemma settles_get:
  "get_dep_statuses dep env op k cxt s = Inr (sts, cxt', s') \<Longrightarrow> settles_ti k s s'"
  by (auto simp: get_dep_statuses_def split: if_split_asm option.split_asm dest!: settles_inner find_ti_Some)

lemma settles_loop:
  "failed_statuses_loop deps env op k cxt s = Inr (sts, cxt', s') \<Longrightarrow> settles_ti k s s'"
proof (induction deps env op k cxt s arbitrary: sts cxt' s' rule: failed_statuses_loop.induct)
  case (2 dep deps env op k cxt s)
  then show ?case by (auto split: prod.split_asm dest: settles_get intro: settles_ti_trans)
qed auto

lemma settles_dependencies:
  "are_dependencies_met env op k cxt s = Inr (b, cxt', s') \<Longrightarrow> settles_ti k s s'"
  by (auto simp: are_dependencies_met_def get_failed_dep_statuses_def dest: settles_loop)


text \<open>A chain \<open>a\<close>, \<open>b\<close> with \<open>a\<close> done in the given state and \<open>b\<close> waiting.\<close>

definition sample_env :: "dag \<Rightarrow> dep_env" where
  "sample_env d = \<lparr>de_now = 100, de_dag = d, de_max_retry_delay = 86400, de_ti_hash = (\<lambda>_. 0),
     de_change_sensor_mode = False\<rparr>"

definition sample_chain_db :: "ti_state \<Rightarrow> db" where
  "sample_chain_db st = sample_db [sample_ti ''a'' st, sample_ti ''b'' None]"

lemmas chain_defs = sample_chain_def sample_chain_db_def sample_env_def sample_defs dag_op_def

definition sample_flag_context :: dep_context where
  "sample_flag_context = default_dep_context\<lparr>dc_deps := [TriggerRuleDep], dc_flag_upstream_failed := True\<rparr>"

lemma sample_b_flagged:
  "case are_dependencies_met (sample_env sample_chain) (dag_op sample_chain ''b'')
      (''d'', ''b'', ''r'', -1) sample_flag_context (sample_chain_db (Some FAILED)) of
     Inl e \<Rightarrow> False
   | Inr (b, cxt', s') \<Rightarrow> \<not> b \<and> map ti_state (db_tis s') = [Some FAILED, Some UPSTREAM_FAILED]"
  by code_simp


subsection \<open>What each trigger rule asks of the upstream states\<close>

text \<open>The rules, on the states of all upstream task instances with whether they are setups.\<close>

fun rule_holds :: "TriggerRule \<Rightarrow> (ti_state \<times> bool) list \<Rightarrow> bool" where
  "rule_holds ALL_SUCCESS ups \<longleftrightarrow> (\<forall>(st, _) \<in> set ups. st = Some SUCCESS)"
| "rule_holds ALL_FAILED ups \<longleftrightarrow> (\<forall>(st, _) \<in> set ups. st \<in> {Some FAILED, Some UPSTREAM_FAILED})"
| "rule_holds ALL_DONE ups \<longleftrightarrow> (\<forall>(st, _) \<in> set ups. finished st)"
| "rule_holds ALL_DONE_SETUP_SUCCESS ups \<longleftrightarrow> (\<forall>(st, _) \<in> set ups. finished st) \<and>
     ((\<exists>(_, setup) \<in> set ups. setup) \<longrightarrow> (\<exists>(st, setup) \<in> set ups. setup \<and> st = Some SUCCESS))"
| "rule_holds ONE_SUCCESS ups \<longleftrightarrow> (\<exists>(st, _) \<in> set ups. st = Some SUCCESS)"
| "rule_holds ONE_FAILED ups \<longleftrightarrow> (\<exists>(st, _) \<in> set ups. st \<in> {Some FAILED, Some UPSTREAM_FAILED})"
| "rule_holds ONE_DONE ups \<longleftrightarrow> (\<exists>(st, _) \<in> set ups. st \<in> {Some SUCCESS, Some FAILED})"
| "rule_holds NONE_FAILED ups \<longleftrightarrow> (\<forall>(st, _) \<in> set ups. st \<in> {Some SUCCESS, Some SKIPPED})"
| "rule_holds NONE_FAILED_MIN_ONE_SUCCESS ups \<longleftrightarrow> (\<forall>(st, _) \<in> set ups. st \<in> {Some SUCCESS, Some SKIPPED})"
| "rule_holds NONE_SKIPPED ups \<longleftrightarrow> (\<forall>(st, _) \<in> set ups. finished st \<and> st \<noteq> Some SKIPPED)"
| "rule_holds ALL_SKIPPED ups \<longleftrightarrow> (\<forall>(st, _) \<in> set ups. st = Some SKIPPED)"
| "rule_holds ALWAYS ups \<longleftrightarrow> True"
| "rule_holds NONE_FAILED_OR_SKIPPED ups \<longleftrightarrow> False"
| "rule_holds DUMMY ups \<longleftrightarrow> False"

definition is_fin :: "ti_state \<times> bool \<Rightarrow> bool" where
  "is_fin x \<longleftrightarrow> finished (fst x)"

lemma calculate_finished [simp]:
  "us_success (calculate (filter is_fin ups)) = count_where (\<lambda>(st, _). st = Some SUCCESS) ups"
  "us_skipped (calculate (filter is_fin ups)) = count_where (\<lambda>(st, _). st = Some SKIPPED) ups"
  "us_failed (calculate (filter is_fin ups)) = count_where (\<lambda>(st, _). st = Some FAILED) ups"
  "us_upstream_failed (calculate (filter is_fin ups)) = count_where (\<lambda>(st, _). st = Some UPSTREAM_FAILED) ups"
  "us_removed (calculate (filter is_fin ups)) = count_where (\<lambda>(st, _). st = Some REMOVED) ups"
  "us_done (calculate (filter is_fin ups)) = count_where is_fin ups"
  "us_success_setup (calculate (filter is_fin ups)) = count_where (\<lambda>(st, setup). setup \<and> st = Some SUCCESS) ups"
  "us_skipped_setup (calculate (filter is_fin ups)) = count_where (\<lambda>(st, setup). setup \<and> st = Some SKIPPED) ups"
  by (simp_all add: calculate_def count_where_filter count_where_def [of is_fin])
     (rule count_where_cong, auto simp: is_fin_def)+

lemma calculate_setup:
  "us_success_setup (calculate ups) = count_where (\<lambda>x. snd x \<and> fst x = Some SUCCESS) ups"
  by (simp add: calculate_def case_prod_beta')

lemma count_less_length_iff: "count_where P xs < int (length xs) \<longleftrightarrow> \<not> (\<forall>x \<in> set xs. P x)"
  using count_where_eq_length_iff [of P xs] count_where_le_length [of P xs] by auto

lemma length_le_count_iff: "int (length xs) \<le> count_where P xs \<longleftrightarrow> (\<forall>x \<in> set xs. P x)"
  using count_where_eq_length_iff [of P xs] count_where_le_length [of P xs] by auto

lemma count_nonpos_iff: "count_where P xs \<le> 0 \<longleftrightarrow> (\<forall>x \<in> set xs. \<not> P x)"
  using count_where_zero_iff [of P xs] count_where_nonneg [of P xs] by linarith

lemma count_two_states:
  "st1 \<noteq> st2 \<Longrightarrow> count_where (\<lambda>x. fst x = st1) ups + count_where (\<lambda>x. fst x = st2) ups =
     count_where (\<lambda>x. fst x = st1 \<or> fst x = st2) ups"
  by (rule count_where_disj) auto

lemma two_states_less:
  "st1 \<noteq> st2 \<Longrightarrow> count_where (\<lambda>x. fst x = st1) ups < int (length ups) - count_where (\<lambda>x. fst x = st2) ups
     \<longleftrightarrow> (\<exists>x \<in> set ups. fst x \<noteq> st1 \<and> fst x \<noteq> st2)"
  using count_two_states [of st1 st2 ups] count_less_length_iff [of "\<lambda>x. fst x = st1 \<or> fst x = st2" ups]
  by auto

lemma two_states_zero:
  "st1 \<noteq> st2 \<Longrightarrow> count_where (\<lambda>x. fst x = st1) ups + count_where (\<lambda>x. fst x = st2) ups \<le> 0
     \<longleftrightarrow> (\<forall>x \<in> set ups. fst x \<noteq> st1 \<and> fst x \<noteq> st2)"
  using count_two_states [of st1 st2 ups] count_nonpos_iff [of "\<lambda>x. fst x = st1 \<or> fst x = st2" ups]
  by auto

lemmas rule_counts = count_less_length_iff length_le_count_iff count_where_zero_iff count_nonpos_iff
  count_where_pos_iff

lemma rule_failure_iff:
  assumes "map_index \<le> -1" "rule \<noteq> ALWAYS"
  shows "rule_failure rule map_index (calculate (filter is_fin ups)) (int (length ups))
      (count_where snd ups) n = None \<longleftrightarrow> rule_holds rule ups"
proof -
  note d = rule_failure_def Let_def calculate_setup two_states_less two_states_zero rule_counts is_fin_def case_prod_beta'
  show ?thesis using assms
    by (cases rule) (simp_all add: d, blast+)
qed

text \<open>
  When the context flags upstream failures and every upstream is finished and none removed, a rule
  that is not met moves the task instance to a final state.
\<close>

lemma rule_settles:
  assumes "\<forall>x \<in> set ups. is_fin x \<and> fst x \<noteq> Some REMOVED" "\<not> rule_holds rule ups" "map_index \<le> -1"
    "rule \<notin> {ALWAYS, DUMMY, NONE_FAILED_OR_SKIPPED}"
  shows "\<exists>st. rule_new_state rule map_index (calculate (filter is_fin ups)) (int (length ups))
      (count_where snd ups) = Some st"
proof -
  have d: "int (length ups) \<le> count_where is_fin ups" using assms(1) by (simp add: length_le_count_iff)
  have f: "filter is_fin ups = ups" using assms(1) by simp
  note simps = rule_new_state_def Let_def d calculate_def rule_counts case_prod_beta' f
  have fin: "fst x \<in> {Some SUCCESS, Some FAILED, Some SKIPPED, Some UPSTREAM_FAILED}" if "x \<in> set ups" for x
    using assms(1) that by (auto simp: is_fin_def)
  show ?thesis using assms(2-) fin
    by (cases rule) (simp_all add: simps, (blast | fastforce)+)
qed

subsection \<open>The rules on the database\<close>

definition upstream_rows :: "operator \<Rightarrow> task_instance \<Rightarrow> db \<Rightarrow> task_instance list" where
  "upstream_rows op ti s =
     filter (\<lambda>t. ti_dag_id t = ti_dag_id ti \<and> ti_run_id t = ti_run_id ti \<and>
        ti_task_id t \<in> set (op_upstream_task_ids op)) (db_tis s)"

definition upstream_view :: "dag \<Rightarrow> operator \<Rightarrow> task_instance \<Rightarrow> db \<Rightarrow> (ti_state \<times> bool) list" where
  "upstream_view d op ti s = map (state_and_setup d) (upstream_rows op ti s)"

text \<open>
  A task without dynamic mapping: neither it nor an upstream is mapped, every upstream has exactly
  one instance in the run, and the task waits for no setups beyond its direct upstreams.
\<close>

definition unmapped_task :: "dag \<Rightarrow> operator \<Rightarrow> task_instance \<Rightarrow> db \<Rightarrow> bool" where
  "unmapped_task d op ti s \<longleftrightarrow>
     wf_dag d \<and> dict_get (d_task_dict d) (ti_task_id ti) = Some op \<and>
     wf_db s \<and> find_ti s (ti_primary ti) = Some ti \<and> find_dr s (ti_dag_id ti) (ti_run_id ti) \<noteq> None \<and>
     ti_map_index ti \<le> -1 \<and> op_closest_mapped_task_group op = None \<and>
     list_all (\<lambda>u. \<not> needs_expansion (dag_op d u)) (op_upstream_task_ids op) \<and>
     mset (map ti_task_id (upstream_rows op ti s)) = mset (op_upstream_task_ids op) \<and>
     (op_is_teardown op \<or> get_upstreams_only_setups d op = Inr [])"

lemma filter_err_total:
  "(\<And>x. x \<in> set xs \<Longrightarrow> P x = Inr (p x)) \<Longrightarrow> filter_err P xs = Inr (filter p xs)"
  by (induction xs) auto

lemma finished_rows_stored:
  "wf_db s \<Longrightarrow> set rows \<subseteq> set (db_tis s) \<Longrightarrow> finished_rows (map ti_primary rows) s = rows"
  by (induction rows) (auto simp: finished_rows_def List.map_filter_def find_ti_in)

lemma find_dr_Some: "find_dr s d r = Some dr \<Longrightarrow> dr_dag_id dr = d \<and> dr_run_id dr = r"
  by (auto simp: find_dr_def find_Some_iff)

lemma finished_upstreams_view:
  assumes "unmapped_task (de_dag env) op ti s" "find_dr s (ti_dag_id ti) (ti_run_id ti) = Some dr"
    "dc_finished_tis cxt = None"
  shows "finished_upstreams env op ti (op_upstream_task_ids op)
      (fst (ensure_finished_tis (de_dag env) dr cxt s)) s =
    Inr (calculate (filter is_fin (upstream_view (de_dag env) op ti s)))"
proof -
  let ?d = "de_dag env" and ?ids = "op_upstream_task_ids op"
  let ?tis = "get_task_instances ?d dr finished s"
  note dr = find_dr_Some [OF assms(2)]
  have w: "wf_dag ?d" "wf_db s" "dict_get (d_task_dict ?d) (ti_task_id ti) = Some op"
    "op_closest_mapped_task_group op = None" using assms(1) by (auto simp: unmapped_task_def)
  have "set ?tis \<subseteq> set (db_tis s)" by (auto simp: get_task_instances_def)
  with w(2) have rows: "finished_rows (map ti_primary ?tis) s = ?tis" by (rule finished_rows_stored)
  have has: "u \<in> set ?ids \<Longrightarrow> has_task ?d u" for u
    using wf_dag_opD(3) [OF w(1,3), of u True]
    by (auto simp: has_task_def dict_has_iff get_direct_relative_ids_def)
  have "filter_err (is_relevant_upstream env op ti ?ids s) ?tis = Inr (filter (\<lambda>t. ti_task_id t \<in> set ?ids) ?tis)"
    by (rule filter_err_total) (simp add: is_relevant_upstream_def w(4))
  moreover have "filter (\<lambda>t. ti_task_id t \<in> set ?ids) ?tis = filter (\<lambda>t. finished (ti_state t)) (upstream_rows op ti s)"
    using has dr by (auto simp: get_task_instances_def upstream_rows_def intro!: filter_cong)
  moreover have "map (state_and_setup ?d) (filter (\<lambda>t. finished (ti_state t)) xs) =
      filter is_fin (map (state_and_setup ?d) xs)" for xs
    by (induction xs) (auto simp: is_fin_def state_and_setup_def)
  ultimately show ?thesis
    using assms(3) by (simp add: finished_upstreams_def ensure_finished_tis_def Let_def rows upstream_view_def)
qed

lemma upstream_counts_view:
  assumes "unmapped_task (de_dag env) op ti s"
  shows "upstream_list (de_dag env) op = Inr (map (dag_op (de_dag env)) (op_upstream_task_ids op))"
    and "upstream_counts env op ti (map (dag_op (de_dag env)) (op_upstream_task_ids op)) s =
      Inr (int (length (upstream_view (de_dag env) op ti s)),
           count_where snd (upstream_view (de_dag env) op ti s))"
proof -
  let ?d = "de_dag env" and ?ids = "op_upstream_task_ids op"
  have w: "wf_dag ?d" "dict_get (d_task_dict ?d) (ti_task_id ti) = Some op"
    "mset (map ti_task_id (upstream_rows op ti s)) = mset ?ids"
    "list_all (\<lambda>u. \<not> needs_expansion (dag_op ?d u)) ?ids"
    using assms by (auto simp: unmapped_task_def)
  show "upstream_list ?d op = Inr (map (dag_op ?d) ?ids)" by (rule upstream_list_wf(1) [OF w(1,2)])
  have cnt: "count_where P xs = int (size (filter_mset P (mset xs)))" for P and xs :: "id_str list"
    by (simp add: count_where_def flip: size_mset mset_filter)
  have "count_where (\<lambda>u. op_is_setup (dag_op ?d u)) ?ids =
      count_where (\<lambda>u. op_is_setup (dag_op ?d u)) (map ti_task_id (upstream_rows op ti s))"
    by (simp only: cnt w(3))
  moreover have "count_where op_is_setup (map (dag_op ?d) xs) = count_where (\<lambda>u. op_is_setup (dag_op ?d u)) xs" for xs
    by (induction xs) auto
  moreover have "count_where (\<lambda>u. op_is_setup (dag_op ?d u)) (map ti_task_id xs) =
      count_where snd (map (state_and_setup ?d) xs)" for xs
    by (induction xs) (auto simp: state_and_setup_def op_of_def)
  moreover have "length (upstream_rows op ti s) = length ?ids"
    using arg_cong [OF w(3), of size] by simp
  ultimately show "upstream_counts env op ti (map (dag_op ?d) ?ids) s =
      Inr (int (length (upstream_view ?d op ti s)), count_where snd (upstream_view ?d op ti s))"
    using w(4) by (simp add: upstream_counts_def upstream_view_def list_ex_iff list_all_iff)
qed

lemma apply_new_state_plain:
  assumes "\<not> dc_wait_for_past_depends_before_skipping cxt"
  shows "\<exists>ch cxt2. apply_new_state env ti ns cxt s = Some (ch, cxt2,
      case ns of None \<Rightarrow> s | Some st \<Rightarrow> snd (set_state (de_now env) (ti_primary ti) (Some st) s))"
proof (cases ns)
  case (Some st)
  then show ?thesis
    using assms by (cases "set_state (de_now env) (ti_primary ti) (Some st) s") (simp add: apply_new_state_def)
qed (auto simp: apply_new_state_def)

text \<open>The outcome of the check for such a task, by the rule and the upstream view.\<close>

lemma trigger_rule_unmapped:
  assumes "unmapped_task (de_dag env) op ti s" "dc_finished_tis cxt = None"
    "\<not> dc_wait_for_past_depends_before_skipping cxt" "\<not> dc_ignore_all_deps cxt" "\<not> dc_ignore_task_deps cxt"
    "op_upstream_task_ids op \<noteq> []" "op_trigger_rule op \<noteq> ALWAYS"
  defines "ups \<equiv> upstream_view (de_dag env) op ti s"
  shows "\<exists>sts cxt'. get_dep_statuses TriggerRuleDep env op (ti_primary ti) cxt s =
      Inr (sts, cxt', case (if dc_flag_upstream_failed cxt
             then rule_new_state (op_trigger_rule op) (ti_map_index ti) (calculate (filter is_fin ups))
                    (int (length ups)) (count_where snd ups) else None) of
          None \<Rightarrow> s | Some st \<Rightarrow> snd (set_state (de_now env) (ti_primary ti) (Some st) s)) \<and>
    (list_all ds_passed sts \<longleftrightarrow> rule_holds (op_trigger_rule op) ups)"
proof -
  let ?d = "de_dag env" and ?rule = "op_trigger_rule op"
  have u: "find_ti s (ti_primary ti) = Some ti" "ti_map_index ti \<le> -1"
    "op_is_teardown op \<or> get_upstreams_only_setups ?d op = Inr []"
    using assms(1) by (auto simp: unmapped_task_def)
  from assms(1) obtain dr where dr: "find_dr s (ti_dag_id ti) (ti_run_id ti) = Some dr"
    by (auto simp: unmapped_task_def)
  obtain tis cxt1 where e: "ensure_finished_tis ?d dr cxt s = (tis, cxt1)"
    by (cases "ensure_finished_tis ?d dr cxt s")
  then have c: "\<not> dc_wait_for_past_depends_before_skipping cxt1"
    "dc_flag_upstream_failed cxt1 = dc_flag_upstream_failed cxt"
    using assms(2,3) by (auto simp: ensure_finished_tis_def Let_def)
  note view = finished_upstreams_view [OF assms(1) dr assms(2), folded ups_def, unfolded e fst_conv]
  let ?ns = "if dc_flag_upstream_failed cxt then rule_new_state ?rule (ti_map_index ti)
      (calculate (filter is_fin ups)) (int (length ups)) (count_where snd ups) else None"
  obtain ch cxt2 where ap: "apply_new_state env ti ?ns cxt1 s = Some (ch, cxt2,
      case ?ns of None \<Rightarrow> s | Some st \<Rightarrow> snd (set_state (de_now env) (ti_primary ti) (Some st) s))"
    using apply_new_state_plain [OF c(1)] by blast
  note failure = rule_failure_iff [OF u(2) assms(7), of ups "int (length (op_upstream_task_ids op))"]
  have direct: "\<exists>sts. evaluate_direct_relatives env op ti dr cxt s = Inr (sts, cxt2,
      case ?ns of None \<Rightarrow> s | Some st \<Rightarrow> snd (set_state (de_now env) (ti_primary ti) (Some st) s)) \<and>
      (list_all ds_passed sts \<longleftrightarrow> rule_holds ?rule ups)"
    using failure
    by (simp add: evaluate_direct_relatives_def upstream_counts_view [OF assms(1)] e view c(2) ap
        flip: ups_def del: not_None_eq) (auto split: option.splits)
  have setups: "(if op_is_teardown op then Inr [] else get_upstreams_only_setups ?d op) = Inr []"
    using u(3) by auto
  show ?thesis
    using direct assms(4-7) u(1) dr
    by (auto simp: get_dep_statuses_def get_dagrun_def trigger_rule_statuses_def evaluate_trigger_rule_def setups)
qed

lemma trigger_rule_trivial:
  assumes "op_upstream_task_ids op = [] \<or> op_trigger_rule op = ALWAYS" "unmapped_task (de_dag env) op ti s"
    "\<not> dc_ignore_all_deps cxt" "\<not> dc_ignore_task_deps cxt"
  shows "\<exists>r. get_dep_statuses TriggerRuleDep env op (ti_primary ti) cxt s =
    Inr ([passing_status TriggerRuleDep r], cxt, s)"
proof -
  from assms(2) obtain dr where dr: "find_dr s (ti_dag_id ti) (ti_run_id ti) = Some dr"
    "find_ti s (ti_primary ti) = Some ti" by (auto simp: unmapped_task_def)
  show ?thesis
    using assms(1,3,4) dr
    by (cases "op_upstream_task_ids op = []")
       (auto simp: get_dep_statuses_def get_dagrun_def trigger_rule_statuses_def)
qed





end
