(* ===== verification/Executor.thy ===== *)
theory Executor
  imports Pools
begin

text \<open>
  The base class of the executors (\<open>executors/base_executor.py\<close>) and two of them, the
  \<open>SequentialExecutor\<close> and the \<open>LocalExecutor\<close>, with the command line a task instance is run by
  (\<open>models/taskinstance.py\<close>). A subclass is a record that extends the base record; what the base
  class needs of it, \<open>execute_async\<close> and \<open>sync\<close>, is the interface \<open>executor_backend\<close>. The running set
  is a list without duplicates. A method that may raise returns the state it leaves behind with
  the exception, if there is one. Logging and metrics are left out.
\<close>

subsection \<open>The command of a task instance\<close>

type_synonym command = "string list"

record run_options =
  ro_mark_success :: bool
  ro_ignore_all_deps :: bool
  ro_ignore_depends_on_past :: bool
  ro_wait_for_past_depends_before_skipping :: bool
  ro_ignore_task_deps :: bool
  ro_ignore_ti_state :: bool
  ro_local :: bool
  ro_pickle_id :: "int option"
  ro_file_path :: "string option"
  ro_raw :: bool
  ro_job_id :: "string option"
  ro_pool :: "string option"
  ro_cfg_path :: "string option"
  ro_map_index :: int

definition default_run_options :: run_options where
  "default_run_options = \<lparr>ro_mark_success = False, ro_ignore_all_deps = False,
     ro_ignore_depends_on_past = False, ro_wait_for_past_depends_before_skipping = False,
     ro_ignore_task_deps = False, ro_ignore_ti_state = False, ro_local = False,
     ro_pickle_id = None, ro_file_path = None, ro_raw = False, ro_job_id = None, ro_pool = None,
     ro_cfg_path = None, ro_map_index = -1\<rparr>"

text \<open>A string argument counts when it is neither \<open>None\<close> nor empty.\<close>

fun str_flag :: "string \<Rightarrow> string option \<Rightarrow> command" where
  "str_flag flag (Some (c # s)) = [flag, c # s]"
| "str_flag flag _ = []"

definition generate_command :: "id_str \<Rightarrow> id_str \<Rightarrow> id_str \<Rightarrow> run_options \<Rightarrow> command" where
  "generate_command dag_id task_id run_id o' =
     [''airflow'', ''tasks'', ''run'', dag_id, task_id, run_id] @
     (if ro_mark_success o' then [''--mark-success''] else []) @
     (case ro_pickle_id o' of None \<Rightarrow> []
      | Some p \<Rightarrow> if p \<noteq> 0 then [''--pickle'', str_of_int p] else []) @
     str_flag ''--job-id'' (ro_job_id o') @
     (if ro_ignore_all_deps o' then [''--ignore-all-dependencies''] else []) @
     (if ro_ignore_task_deps o' then [''--ignore-dependencies''] else []) @
     (if ro_ignore_depends_on_past o' then [''--depends-on-past'', ''ignore'']
      else if ro_wait_for_past_depends_before_skipping o' then [''--depends-on-past'', ''wait'']
      else []) @
     (if ro_ignore_ti_state o' then [''--force''] else []) @
     (if ro_local o' then [''--local''] else []) @
     str_flag ''--pool'' (ro_pool o') @
     (if ro_raw o' then [''--raw''] else []) @
     str_flag ''--subdir'' (ro_file_path o') @
     str_flag ''--cfg-path'' (ro_cfg_path o') @
     (if ro_map_index o' \<noteq> -1 then [''--map-index'', str_of_int (ro_map_index o')] else [])"

text \<open>
  \<open>_command_as_list\<close>: \<open>fileloc\<close> is the \<open>relative_fileloc\<close> of the DAG (of its parent for a sub-DAG)
  with whether it is absolute; a relative one is placed under \<open>DAGS_FOLDER\<close>.
\<close>

definition command_path :: "int option \<Rightarrow> (string \<times> bool) option \<Rightarrow> string option" where
  "command_path pickle_id fileloc =
     (if pickle_id \<noteq> None \<and> pickle_id \<noteq> Some 0 then None
      else case fileloc of None \<Rightarrow> None
        | Some (path, absolute) \<Rightarrow> Some (if absolute then path else ''DAGS_FOLDER/'' @ path))"

definition command_as_list :: "task_instance \<Rightarrow> (string \<times> bool) option \<Rightarrow> run_options \<Rightarrow> command" where
  "command_as_list ti fileloc o' =
     generate_command (ti_dag_id ti) (ti_task_id ti) (ti_run_id ti)
       (o'\<lparr>ro_file_path := command_path (ro_pickle_id o') fileloc, ro_map_index := ti_map_index ti\<rparr>)"

text \<open>
  \<open>validate_airflow_tasks_run_command\<close>: the first two arguments that are not options.
\<close>

definition is_option :: "string \<Rightarrow> bool" where
  "is_option arg \<longleftrightarrow> take 2 arg = ''--''"

fun first_two :: "string list \<Rightarrow> string option \<times> string option" where
  "first_two args = (case filter (\<lambda>a. \<not> is_option a) args of
     [] \<Rightarrow> (None, None) | [a] \<Rightarrow> (Some a, None) | a # b # _ \<Rightarrow> (Some a, Some b))"

definition validate_airflow_tasks_run_command :: "command \<Rightarrow> (string option \<times> string option) result" where
  "validate_airflow_tasks_run_command command =
     (if take 3 command \<noteq> [''airflow'', ''tasks'', ''run''] then
        Inl (ValueError ''The command must start with [airflow, tasks, run].'')
      else if 3 < length command \<and> ''--help'' \<notin> set command then Inr (first_two (drop 3 command))
      else Inr (None, None))"

subsection \<open>The state of an executor\<close>

record attempt =
  at_total_tries :: int
  at_tries_after_min :: int
  at_first_attempt_time :: time

definition MIN_SECONDS :: int where
  "MIN_SECONDS = 10"

definition new_attempt :: "time \<Rightarrow> attempt" where
  "new_attempt now = \<lparr>at_total_tries = 0, at_tries_after_min = 0, at_first_attempt_time = now\<rparr>"

definition can_try_again :: "time \<Rightarrow> attempt \<Rightarrow> bool \<times> attempt" where
  "can_try_again now a =
     (if 0 < at_tries_after_min a then (False, a)
      else let a' = a\<lparr>at_total_tries := at_total_tries a + 1\<rparr> in
        if MIN_SECONDS * usec_per_sec < now - at_first_attempt_time a
        then (True, a'\<lparr>at_tries_after_min := at_tries_after_min a' + 1\<rparr>)
        else (True, a'))"

type_synonym queued_task = "command \<times> int \<times> string option \<times> task_instance"
type_synonym event = "ti_state \<times> string option"
type_synonym task_tuple = "TaskInstanceKey \<times> command \<times> string option \<times> string option"

record executor =
  ex_parallelism :: int
  ex_queued_tasks :: "(TaskInstanceKey \<times> queued_task) list"
  ex_running :: "TaskInstanceKey list"
  ex_event_buffer :: "(TaskInstanceKey \<times> event) list"
  ex_attempts :: "(TaskInstanceKey \<times> attempt) list"

subsection \<open>Queueing\<close>

definition queue_command ::
    "task_instance \<Rightarrow> command \<Rightarrow> int \<Rightarrow> string option \<Rightarrow> 'z executor_scheme \<Rightarrow> 'z executor_scheme" where
  "queue_command ti command priority queue e =
     (if \<not> dict_has (ti_key ti) (ex_queued_tasks e)
      then e\<lparr>ex_queued_tasks := dict_set (ti_key ti) (command, priority, queue, ti) (ex_queued_tasks e)\<rparr>
      else e)"

text \<open>\<open>op\<close> is the task of the task instance in its DAG \<open>d\<close>; \<open>pool or task_instance.pool\<close>.\<close>

definition queue_task_instance :: "dag \<Rightarrow> operator \<Rightarrow> (string \<times> bool) option \<Rightarrow> task_instance \<Rightarrow>
    run_options \<Rightarrow> 'z executor_scheme \<Rightarrow> 'z executor_scheme result" where
  "queue_task_instance d op fileloc ti o' e =
     (let pool = (case ro_pool o' of Some (c # s) \<Rightarrow> c # s | _ \<Rightarrow> ti_pool ti);
          command = command_as_list ti fileloc (o'\<lparr>ro_local := True, ro_pool := Some pool\<rparr>) in
      bind_err (priority_weight_total d op)
        (\<lambda>priority. Inr (queue_command ti command priority (Some (op_queue op)) e)))"

definition executor_has_task :: "task_instance \<Rightarrow> 'z executor_scheme \<Rightarrow> bool" where
  "executor_has_task ti e \<longleftrightarrow> dict_has (ti_key ti) (ex_queued_tasks e) \<or> ti_key ti \<in> set (ex_running e)"

definition sys_maxsize :: int where
  "sys_maxsize = 2 ^ 63 - 1"

definition slots_available :: "'z executor_scheme \<Rightarrow> int" where
  "slots_available e =
     (if ex_parallelism e \<noteq> 0
      then ex_parallelism e - int (length (ex_running e)) - int (length (ex_queued_tasks e))
      else sys_maxsize)"

subsection \<open>Triggering\<close>

definition order_queued_tasks_by_priority :: "'z executor_scheme \<Rightarrow> (TaskInstanceKey \<times> queued_task) list" where
  "order_queued_tasks_by_priority e = sort_key (\<lambda>x. - fst (snd (snd x))) (ex_queued_tasks e)"

text \<open>The loop of \<open>trigger_tasks\<close> over the tasks that may start; \<open>now\<close> is the time it runs at.\<close>

fun trigger_loop :: "time \<Rightarrow> (TaskInstanceKey \<times> queued_task) list \<Rightarrow> 'z executor_scheme \<Rightarrow>
    task_tuple list \<Rightarrow> 'z executor_scheme \<times> task_tuple list" where
  "trigger_loop now [] e tuples = (e, tuples)"
| "trigger_loop now ((key, command, _, queue, ti) # rest) e tuples =
     (if key \<in> set (ex_running e) then
        let attempt = (case dict_get (ex_attempts e) key of None \<Rightarrow> new_attempt now | Some a \<Rightarrow> a);
            (again, attempt') = can_try_again now attempt in
        if again
        then trigger_loop now rest (e\<lparr>ex_attempts := dict_set key attempt' (ex_attempts e)\<rparr>) tuples
        else trigger_loop now rest
               (e\<lparr>ex_attempts := dict_del key (ex_attempts e),
                  ex_queued_tasks := dict_del key (ex_queued_tasks e)\<rparr>) tuples
      else trigger_loop now rest (e\<lparr>ex_attempts := dict_del key (ex_attempts e)\<rparr>)
             (tuples @ [(key, command, queue, ti_executor_config ti)]))"

type_synonym 'z execute_async =
  "TaskInstanceKey \<Rightarrow> command \<Rightarrow> string option \<Rightarrow> string option \<Rightarrow> 'z executor_scheme \<Rightarrow>
     'z executor_scheme \<times> error option"

fun process_tasks :: "'z execute_async \<Rightarrow> task_tuple list \<Rightarrow> 'z executor_scheme \<Rightarrow>
    'z executor_scheme \<times> error option" where
  "process_tasks execute_async [] e = (e, None)"
| "process_tasks execute_async ((key, command, queue, executor_config) # rest) e =
     (case execute_async key command queue executor_config
             (e\<lparr>ex_queued_tasks := dict_del key (ex_queued_tasks e)\<rparr>) of
        (e', Some err) \<Rightarrow> (e', Some err)
      | (e', None) \<Rightarrow>
          process_tasks execute_async rest (e'\<lparr>ex_running := set_add (ex_running e') key\<rparr>))"

definition trigger_tasks :: "time \<Rightarrow> 'z execute_async \<Rightarrow> int \<Rightarrow> 'z executor_scheme \<Rightarrow>
    'z executor_scheme \<times> error option" where
  "trigger_tasks now execute_async slots e =
     (let sorted_queue = order_queued_tasks_by_priority e;
          n = nat (min slots (int (length (ex_queued_tasks e))));
          (e', task_tuples) = trigger_loop now (take n sorted_queue) e [] in
      process_tasks execute_async task_tuples e')"

definition heartbeat_open_slots :: "'z executor_scheme \<Rightarrow> int" where
  "heartbeat_open_slots e =
     (if ex_parallelism e = 0 then int (length (ex_queued_tasks e))
      else ex_parallelism e - int (length (ex_running e)))"

definition heartbeat :: "time \<Rightarrow> 'z execute_async \<Rightarrow>
    ('z executor_scheme \<Rightarrow> 'z executor_scheme \<times> error option) \<Rightarrow>
    'z executor_scheme \<Rightarrow> 'z executor_scheme \<times> error option" where
  "heartbeat now execute_async sync e =
     (case trigger_tasks now execute_async (heartbeat_open_slots e) e of
        (e', Some err) \<Rightarrow> (e', Some err)
      | (e', None) \<Rightarrow> sync e')"

subsection \<open>Events\<close>

definition change_state :: "TaskInstanceKey \<Rightarrow> ti_state \<Rightarrow> string option \<Rightarrow>
    'z executor_scheme \<Rightarrow> 'z executor_scheme" where
  "change_state key state info e =
     e\<lparr>ex_running := removeAll key (ex_running e),
       ex_event_buffer := dict_set key (state, info) (ex_event_buffer e)\<rparr>"

definition executor_fail :: "TaskInstanceKey \<Rightarrow> string option \<Rightarrow> 'z executor_scheme \<Rightarrow> 'z executor_scheme" where
  "executor_fail key info = change_state key (Some FAILED) info"

definition executor_success :: "TaskInstanceKey \<Rightarrow> string option \<Rightarrow> 'z executor_scheme \<Rightarrow> 'z executor_scheme" where
  "executor_success key info = change_state key (Some SUCCESS) info"

definition get_event_buffer :: "id_str list option \<Rightarrow> 'z executor_scheme \<Rightarrow>
    (TaskInstanceKey \<times> event) list \<times> 'z executor_scheme" where
  "get_event_buffer dag_ids e =
     (case dag_ids of
        None \<Rightarrow> (ex_event_buffer e, e\<lparr>ex_event_buffer := []\<rparr>)
      | Some ids \<Rightarrow>
          (filter (\<lambda>(k, _). k_dag_id k \<in> set ids) (ex_event_buffer e),
           e\<lparr>ex_event_buffer := filter (\<lambda>(k, _). k_dag_id k \<notin> set ids) (ex_event_buffer e)\<rparr>))"

text \<open>By default no task instance is adopted; all are returned.\<close>

definition try_adopt_task_instances :: "'a list \<Rightarrow> 'z executor_scheme \<Rightarrow> 'a list" where
  "try_adopt_task_instances tis e = tis"

subsection \<open>What the base class needs of a subclass\<close>

text \<open>
  \<open>executor_step\<close>: one thing that happens to an executor. \<open>env\<close> is what goes on outside its
  process (workers taking and finishing work).
\<close>

inductive executor_step :: "'z execute_async \<Rightarrow> ('z executor_scheme \<Rightarrow> 'z executor_scheme \<times> error option) \<Rightarrow>
    ('z executor_scheme \<Rightarrow> 'z executor_scheme \<Rightarrow> bool) \<Rightarrow> 'z executor_scheme \<Rightarrow> 'z executor_scheme \<Rightarrow> bool"
  for execute_async sync env where
  es_queue: "executor_step execute_async sync env e (queue_command ti command priority queue e)"
| es_heartbeat: "executor_step execute_async sync env e (fst (heartbeat now execute_async sync e))"
| es_events: "executor_step execute_async sync env e (snd (get_event_buffer dag_ids e))"
| es_env: "env e e' \<Longrightarrow> executor_step execute_async sync env e e'"

inductive_cases executor_stepE: "executor_step execute_async sync env e e'"

definition known_keys :: "'z executor_scheme \<Rightarrow> TaskInstanceKey set" where
  "known_keys e = set (dict_keys (ex_queued_tasks e)) \<union> set (ex_running e) \<union> set (dict_keys (ex_event_buffer e))"

definition wf_executor :: "'z executor_scheme \<Rightarrow> bool" where
  "wf_executor e \<longleftrightarrow> distinct (dict_keys (ex_queued_tasks e)) \<and> distinct (ex_running e) \<and>
     (if ex_parallelism e = 0 then True else int (length (ex_running e)) \<le> ex_parallelism e)"

lemma trigger_loop_frame:
  "trigger_loop now qs e ts = (e', ts') \<Longrightarrow>
   ex_running e' = ex_running e \<and> ex_parallelism e' = ex_parallelism e \<and>
   ex_event_buffer e' = ex_event_buffer e \<and> length ts' \<le> length ts + length qs \<and>
   set (dict_keys (ex_queued_tasks e')) \<subseteq> set (dict_keys (ex_queued_tasks e)) \<and>
   set (dict_keys (ex_queued_tasks e)) \<subseteq> set (dict_keys (ex_queued_tasks e')) \<union> set (ex_running e) \<and>
   (distinct (dict_keys (ex_queued_tasks e)) \<longrightarrow> distinct (dict_keys (ex_queued_tasks e')))"
proof (induction now qs e ts rule: trigger_loop.induct)
  case (2 now key command p queue ti rest e ts)
  show ?case
  proof (cases "key \<in> set (ex_running e)")
    case True
    let ?at = "case dict_get (ex_attempts e) key of None \<Rightarrow> new_attempt now | Some a \<Rightarrow> a"
    obtain again at' where a: "can_try_again now ?at = (again, at')" by (cases "can_try_again now ?at")
    show ?thesis
    proof (cases again)
      case yes: True
      from "2.IH"(1) [OF True refl refl a [symmetric] yes] "2.prems" True a yes show ?thesis by simp
    next
      case no: False
      from "2.IH"(2) [OF True refl refl a [symmetric] no] "2.prems" True a no
      show ?thesis by (auto simp: keys_dict_del)
    qed
  next
    case False
    from "2.IH"(3) [OF False] "2.prems" False show ?thesis by auto
  qed
qed auto

lemma trigger_loop_tuples:
  "trigger_loop now qs e ts = (e', ts') \<Longrightarrow>
   fst ` set ts' = fst ` set ts \<union> (fst ` set qs - set (ex_running e)) \<and>
   set (ex_queued_tasks e') \<subseteq> set (ex_queued_tasks e)"
proof (induction now qs e ts rule: trigger_loop.induct)
  case (2 now key command p queue ti rest e ts)
  show ?case
  proof (cases "key \<in> set (ex_running e)")
    case True
    let ?at = "case dict_get (ex_attempts e) key of None \<Rightarrow> new_attempt now | Some a \<Rightarrow> a"
    obtain again at' where a: "can_try_again now ?at = (again, at')" by (cases "can_try_again now ?at")
    show ?thesis
    proof (cases again)
      case yes: True
      from "2.IH"(1) [OF True refl refl a [symmetric] yes] "2.prems" True a yes show ?thesis by auto
    next
      case no: False
      from "2.IH"(2) [OF True refl refl a [symmetric] no] "2.prems" True a no
      show ?thesis by (auto simp: dict_del_def)
    qed
  next
    case False
    from "2.IH"(3) [OF False] "2.prems" False show ?thesis by auto
  qed
qed auto

lemma order_queued_set [simp]: "set (order_queued_tasks_by_priority e) = set (ex_queued_tasks e)"
  by (simp add: order_queued_tasks_by_priority_def)

lemma order_queued_sorted:
  assumes "(k, c, p, q, ti) \<in> set (take n (order_queued_tasks_by_priority e))"
    "(k', c', p', q', ti') \<in> set (drop n (order_queued_tasks_by_priority e))"
  shows "p' \<le> p"
proof -
  let ?f = "\<lambda>x :: TaskInstanceKey \<times> queued_task. - fst (snd (snd x))"
  let ?qs = "order_queued_tasks_by_priority e"
  have "sorted (map ?f (take n ?qs @ drop n ?qs))"
    by (simp only: append_take_drop_id order_queued_tasks_by_priority_def sorted_sort_key)
  then have "\<forall>x \<in> set (map ?f (take n ?qs)). \<forall>y \<in> set (map ?f (drop n ?qs)). x \<le> y"
    unfolding map_append sorted_append by blast
  moreover have "- p \<in> set (map ?f (take n ?qs))" "- p' \<in> set (map ?f (drop n ?qs))"
    using assms by force+
  ultimately show ?thesis by fastforce
qed

lemma process_tasks_ok_Cons:
  "process_tasks x ((key, c, q, cfg) # ts) e = (e', None) \<longleftrightarrow>
   (\<exists>e1. x key c q cfg (e\<lparr>ex_queued_tasks := dict_del key (ex_queued_tasks e)\<rparr>) = (e1, None) \<and>
     process_tasks x ts (e1\<lparr>ex_running := set_add (ex_running e1) key\<rparr>) = (e', None))"
  by (auto split: prod.splits option.splits)

locale executor_backend =
  fixes execute_async :: "'z execute_async"
    and sync :: "'z executor_scheme \<Rightarrow> 'z executor_scheme \<times> error option"
    and env :: "'z executor_scheme \<Rightarrow> 'z executor_scheme \<Rightarrow> bool"
  assumes exec_queued: "ex_queued_tasks (fst (execute_async k c q x e)) = ex_queued_tasks e"
    and exec_running: "ex_running (fst (execute_async k c q x e)) = ex_running e"
    and exec_parallelism: "ex_parallelism (fst (execute_async k c q x e)) = ex_parallelism e"
    and exec_events: "set (dict_keys (ex_event_buffer e)) \<subseteq>
      set (dict_keys (ex_event_buffer (fst (execute_async k c q x e))))"
    and sync_queued: "ex_queued_tasks (fst (sync e)) = ex_queued_tasks e"
    and sync_parallelism: "ex_parallelism (fst (sync e)) = ex_parallelism e"
    and sync_running: "\<exists>P. ex_running (fst (sync e)) = filter P (ex_running e)"
    and sync_known: "known_keys e \<subseteq> known_keys (fst (sync e))"
    and env_frame: "env e e' \<Longrightarrow> ex_queued_tasks e' = ex_queued_tasks e \<and> ex_running e' = ex_running e \<and>
      ex_parallelism e' = ex_parallelism e \<and> ex_event_buffer e' = ex_event_buffer e"
begin

lemma exec_known: "known_keys e \<subseteq> known_keys (fst (execute_async k c q x e))"
  using exec_events [of e k c q x] by (auto simp: known_keys_def exec_queued exec_running)

lemma process_tasks_frame:
  "ex_parallelism (fst (process_tasks execute_async ts e)) = ex_parallelism e \<and>
   length (ex_running (fst (process_tasks execute_async ts e))) \<le> length (ex_running e) + length ts \<and>
   (distinct (ex_running e) \<longrightarrow> distinct (ex_running (fst (process_tasks execute_async ts e)))) \<and>
   (distinct (dict_keys (ex_queued_tasks e)) \<longrightarrow>
    distinct (dict_keys (ex_queued_tasks (fst (process_tasks execute_async ts e)))))"
proof (induction ts arbitrary: e)
  case (Cons t ts)
  obtain k c q x where t: "t = (k, c, q, x)" by (cases t)
  let ?e0 = "e\<lparr>ex_queued_tasks := dict_del k (ex_queued_tasks e)\<rparr>"
  obtain e1 err where r: "execute_async k c q x ?e0 = (e1, err)" by (cases "execute_async k c q x ?e0")
  have e1: "ex_queued_tasks e1 = dict_del k (ex_queued_tasks e)" "ex_running e1 = ex_running e"
    "ex_parallelism e1 = ex_parallelism e"
    using exec_queued [of k c q x ?e0] exec_running [of k c q x ?e0] exec_parallelism [of k c q x ?e0]
    by (simp_all add: r)
  show ?case
  proof (cases err)
    case None
    have "length (set_add (ex_running e) k) \<le> Suc (length (ex_running e))" by (rule length_set_add)
    with Cons.IH [of "e1\<lparr>ex_running := set_add (ex_running e1) k\<rparr>"] e1 r None
    show ?thesis by (auto simp: t)
  qed (use e1 r in \<open>auto simp: t\<close>)
qed simp

lemma process_tasks_known:
  "process_tasks execute_async ts e = (e', None) \<Longrightarrow> known_keys e \<subseteq> known_keys e'"
proof (induction ts arbitrary: e)
  case (Cons t ts)
  obtain k c q x where t: "t = (k, c, q, x)" by (cases t)
  let ?e0 = "e\<lparr>ex_queued_tasks := dict_del k (ex_queued_tasks e)\<rparr>"
  from Cons.prems obtain e1 where r: "execute_async k c q x ?e0 = (e1, None)"
    "process_tasks execute_async ts (e1\<lparr>ex_running := set_add (ex_running e1) k\<rparr>) = (e', None)"
    unfolding t process_tasks_ok_Cons by blast
  have "known_keys e \<subseteq> insert k (known_keys ?e0)"
    by (auto simp: known_keys_def keys_dict_del)
  also have "\<dots> \<subseteq> insert k (known_keys e1)" using exec_known [of ?e0 k c q x] r(1) by auto
  also have "\<dots> \<subseteq> known_keys (e1\<lparr>ex_running := set_add (ex_running e1) k\<rparr>)"
    by (auto simp: known_keys_def)
  finally show ?case using Cons.IH [OF r(2)] by blast
qed simp

text \<open>A heartbeat keeps the executor well formed: never more running tasks than its parallelism.\<close>

lemma trigger_tasks_wf:
  assumes "wf_executor e"
  shows "wf_executor (fst (trigger_tasks now execute_async (heartbeat_open_slots e) e))"
proof -
  let ?n = "nat (min (heartbeat_open_slots e) (int (length (ex_queued_tasks e))))"
  let ?qs = "take ?n (order_queued_tasks_by_priority e)"
  obtain e1 ts where l: "trigger_loop now ?qs e [] = (e1, ts)" by (cases "trigger_loop now ?qs e []")
  have t: "trigger_tasks now execute_async (heartbeat_open_slots e) e = process_tasks execute_async ts e1"
    by (simp add: trigger_tasks_def l)
  note f = trigger_loop_frame [OF l] process_tasks_frame [of ts e1]
  have "length ts \<le> ?n" using f(1) by simp
  then have "int (length ts) \<le> max 0 (heartbeat_open_slots e)" by linarith
  moreover have "length (ex_running (fst (process_tasks execute_async ts e1))) \<le>
      length (ex_running e) + length ts" using f by simp
  ultimately have "int (length (ex_running (fst (process_tasks execute_async ts e1)))) \<le>
      int (length (ex_running e)) + max 0 (heartbeat_open_slots e)" by linarith
  with f assms show ?thesis
    unfolding t by (auto simp: wf_executor_def heartbeat_open_slots_def split: if_splits)
qed

lemma sync_wf: "wf_executor e \<Longrightarrow> wf_executor (fst (sync e))"
proof -
  assume w: "wf_executor e"
  from sync_running [of e] obtain P where P: "ex_running (fst (sync e)) = filter P (ex_running e)" by blast
  then have "int (length (ex_running (fst (sync e)))) \<le> int (length (ex_running e))" by simp
  moreover from P w have "distinct (ex_running (fst (sync e)))" by (simp add: wf_executor_def)
  ultimately show ?thesis using w by (auto simp: wf_executor_def sync_queued sync_parallelism split: if_splits)
qed

lemma heartbeat_wf: "wf_executor e \<Longrightarrow> wf_executor (fst (heartbeat now execute_async sync e))"
  using trigger_tasks_wf [of e now] sync_wf [of "fst (trigger_tasks now execute_async (heartbeat_open_slots e) e)"]
  by (auto simp: heartbeat_def split: prod.splits option.splits)

lemma step_wf: "executor_step execute_async sync env e e' \<Longrightarrow> wf_executor e \<Longrightarrow> wf_executor e'"
proof (induction rule: executor_step.induct)
  case (es_queue e ti command priority queue)
  then show ?case by (simp add: queue_command_def wf_executor_def)
next
  case (es_heartbeat e now)
  then show ?case by (rule heartbeat_wf)
next
  case (es_events e ids)
  then show ?case by (simp add: get_event_buffer_def wf_executor_def split: option.splits)
next
  case (es_env e e')
  then show ?case using env_frame [of e e'] by (simp add: wf_executor_def)
qed

lemma reachable_wf: "(executor_step execute_async sync env)\<^sup>*\<^sup>* e e' \<Longrightarrow> wf_executor e \<Longrightarrow> wf_executor e'"
  by (induction rule: rtranclp_induct) (auto intro: step_wf)

lemma step_parallelism: "executor_step execute_async sync env e e' \<Longrightarrow> ex_parallelism e' = ex_parallelism e"
proof (induction rule: executor_step.induct)
  case (es_heartbeat e now)
  let ?n = "nat (min (heartbeat_open_slots e) (int (length (ex_queued_tasks e))))"
  let ?qs = "take ?n (order_queued_tasks_by_priority e)"
  obtain e1 ts where l: "trigger_loop now ?qs e [] = (e1, ts)" by (cases "trigger_loop now ?qs e []")
  have "ex_parallelism (fst (trigger_tasks now execute_async (heartbeat_open_slots e) e)) = ex_parallelism e"
    using trigger_loop_frame [OF l] process_tasks_frame [of ts e1] by (simp add: trigger_tasks_def l Let_def)
  then show ?case
    using sync_parallelism [of "fst (trigger_tasks now execute_async (heartbeat_open_slots e) e)"]
    by (auto simp: heartbeat_def split: prod.splits option.splits)
qed (auto simp: queue_command_def get_event_buffer_def env_frame split: option.splits)

lemma reachable_parallelism:
  "(executor_step execute_async sync env)\<^sup>*\<^sup>* e e' \<Longrightarrow> ex_parallelism e' = ex_parallelism e"
  by (induction rule: rtranclp_induct) (auto dest: step_parallelism)

text \<open>A heartbeat that does not raise forgets no task: each is still queued or running, or its
  event waits to be collected.\<close>

lemma heartbeat_known:
  assumes "heartbeat now execute_async sync e = (e', None)"
  shows "known_keys e \<subseteq> known_keys e'"
proof -
  let ?n = "nat (min (heartbeat_open_slots e) (int (length (ex_queued_tasks e))))"
  let ?qs = "take ?n (order_queued_tasks_by_priority e)"
  obtain e1 ts where l: "trigger_loop now ?qs e [] = (e1, ts)" by (cases "trigger_loop now ?qs e []")
  from assms obtain e2 where p: "process_tasks execute_async ts e1 = (e2, None)" "sync e2 = (e', None)"
    by (auto simp: heartbeat_def trigger_tasks_def l Let_def split: prod.splits option.splits)
  have "known_keys e \<subseteq> known_keys e1"
    using trigger_loop_frame [OF l] by (auto simp: known_keys_def)
  with process_tasks_known [OF p(1)] sync_known [of e2] p(2) show ?thesis by auto
qed

lemma process_tasks_queued:
  "process_tasks execute_async ts e = (e', None) \<Longrightarrow>
   ex_queued_tasks e' = filter (\<lambda>kv. fst kv \<notin> fst ` set ts) (ex_queued_tasks e) \<and>
   set (ex_running e') = set (ex_running e) \<union> fst ` set ts"
proof (induction ts arbitrary: e)
  case (Cons t ts)
  obtain k c q x where t: "t = (k, c, q, x)" by (cases t)
  let ?e0 = "e\<lparr>ex_queued_tasks := dict_del k (ex_queued_tasks e)\<rparr>"
  from Cons.prems obtain e1 where r: "execute_async k c q x ?e0 = (e1, None)"
    "process_tasks execute_async ts (e1\<lparr>ex_running := set_add (ex_running e1) k\<rparr>) = (e', None)"
    unfolding t process_tasks_ok_Cons by blast
  have "ex_queued_tasks e1 = dict_del k (ex_queued_tasks e)" "ex_running e1 = ex_running e"
    using exec_queued [of k c q x ?e0] exec_running [of k c q x ?e0] by (simp_all add: r(1))
  with Cons.IH [OF r(2)] show ?case by (auto simp: t dict_del_def intro: filter_cong)
qed simp

text \<open>The tasks started have at least the priority of every task that could have started instead.\<close>

lemma trigger_priority:
  assumes "distinct (dict_keys (ex_queued_tasks e))"
    "trigger_tasks now execute_async slots e = (e', None)"
    "k \<in> set (ex_running e')" "k \<notin> set (ex_running e)"
    "dict_get (ex_queued_tasks e) k = Some (c, p, q, ti)"
    "dict_get (ex_queued_tasks e') k' = Some (c', p', q', ti')" "k' \<notin> set (ex_running e)"
  shows "p' \<le> p"
proof -
  let ?n = "nat (min slots (int (length (ex_queued_tasks e))))"
  let ?q = "order_queued_tasks_by_priority e"
  obtain e1 ts where l: "trigger_loop now (take ?n ?q) e [] = (e1, ts)"
    by (cases "trigger_loop now (take ?n ?q) e []")
  note f = trigger_loop_frame [OF l] and t = trigger_loop_tuples [OF l]
  have "process_tasks execute_async ts e1 = (e', None)"
    using assms(2) by (simp add: trigger_tasks_def l)
  note p = process_tasks_queued [OF this]
  have uniq: "(x, u) \<in> set (ex_queued_tasks e) \<Longrightarrow> dict_get (ex_queued_tasks e) x = Some u" for x u
    using assms(1) by (simp add: dict_keys_def)
  from p t f assms(3,4) have "k \<in> fst ` set (take ?n ?q)" by auto
  then obtain u where "(k, u) \<in> set (take ?n ?q)" by auto
  moreover from this have "(k, u) \<in> set ?q" by (meson in_set_takeD)
  ultimately have k: "(k, c, p, q, ti) \<in> set (take ?n ?q)" using uniq [of k u] assms(5) by simp
  from assms(6) have "(k', c', p', q', ti') \<in> set (ex_queued_tasks e')" by (rule map_of_SomeD)
  with p t have k': "(k', c', p', q', ti') \<in> set (ex_queued_tasks e)" "k' \<notin> fst ` set ts" by auto
  with t assms(7) have "k' \<notin> fst ` set (take ?n ?q)" by auto
  moreover from k'(1) have "(k', c', p', q', ti') \<in> set (take ?n ?q @ drop ?n ?q)"
    by (simp only: append_take_drop_id order_queued_set)
  ultimately have "(k', c', p', q', ti') \<in> set (drop ?n ?q)"
    by (metis UnE fst_conv image_eqI set_append)
  with k show ?thesis by (rule order_queued_sorted)
qed

end

subsection \<open>SequentialExecutor\<close>

record sequential_executor = executor +
  sq_commands_to_run :: "(TaskInstanceKey \<times> command) list"

definition sequential_execute_async :: "TaskInstanceKey \<Rightarrow> command \<Rightarrow> string option \<Rightarrow> string option \<Rightarrow>
    sequential_executor \<Rightarrow> sequential_executor \<times> error option" where
  "sequential_execute_async key command queue executor_config e =
     (case validate_airflow_tasks_run_command command of
        Inl err \<Rightarrow> (e, Some err)
      | Inr _ \<Rightarrow> (e\<lparr>sq_commands_to_run := sq_commands_to_run e @ [(key, command)]\<rparr>, None))"

text \<open>\<open>check_call\<close> tells whether the subprocess running a command exits with status zero.\<close>

fun run_commands :: "(command \<Rightarrow> bool) \<Rightarrow> (TaskInstanceKey \<times> command) list \<Rightarrow> 'z executor_scheme \<Rightarrow>
    'z executor_scheme" where
  "run_commands check_call [] e = e"
| "run_commands check_call ((key, command) # rest) e =
     run_commands check_call rest
       (if check_call command then executor_success key None e else executor_fail key None e)"

definition sequential_sync :: "(command \<Rightarrow> bool) \<Rightarrow> sequential_executor \<Rightarrow> sequential_executor \<times> error option" where
  "sequential_sync check_call e =
     ((run_commands check_call (sq_commands_to_run e) e)\<lparr>sq_commands_to_run := []\<rparr>, None)"

definition new_sequential_executor :: "int \<Rightarrow> sequential_executor" where
  "new_sequential_executor parallelism = \<lparr>ex_parallelism = parallelism, ex_queued_tasks = [],
     ex_running = [], ex_event_buffer = [], ex_attempts = [], sq_commands_to_run = []\<rparr>"

text \<open>A transition that only moves keys from the running set to the event buffer.\<close>

definition settles :: "'z executor_scheme \<Rightarrow> 'z executor_scheme \<Rightarrow> bool" where
  "settles e e' \<longleftrightarrow> ex_queued_tasks e' = ex_queued_tasks e \<and> ex_parallelism e' = ex_parallelism e \<and>
     (\<exists>P. ex_running e' = filter P (ex_running e)) \<and> known_keys e \<subseteq> known_keys e'"

lemma settles_refl: "settles e e"
  by (auto simp: settles_def intro: exI [of _ "\<lambda>_. True"])

lemma settles_trans: "settles e1 e2 \<Longrightarrow> settles e2 e3 \<Longrightarrow> settles e1 e3"
proof -
  assume a: "settles e1 e2" "settles e2 e3"
  then obtain P Q where "ex_running e3 = filter P (filter Q (ex_running e1))"
    by (auto simp: settles_def)
  then have "ex_running e3 = filter (\<lambda>x. Q x \<and> P x) (ex_running e1)" by (simp add: conj_commute)
  with a show ?thesis by (auto simp: settles_def)
qed

lemma settles_change_state: "settles e (change_state key st info e)"
proof -
  have "removeAll key xs = filter (\<lambda>x. x \<noteq> key) xs" for xs :: "TaskInstanceKey list"
    by (induction xs) auto
  then show ?thesis by (auto simp: settles_def change_state_def known_keys_def keys_dict_set)
qed

lemma settles_run_commands: "settles e (run_commands cc cs e)"
proof (induction cc cs e rule: run_commands.induct)
  case (2 cc key command rest e)
  then show ?case
    using settles_change_state [of e key]
    by (auto simp: executor_success_def executor_fail_def split: if_splits intro: settles_trans)
qed (simp add: settles_refl)

lemma settles_sequential_sync: "settles e (fst (sequential_sync cc e))"
  using settles_run_commands [of e cc "sq_commands_to_run e"]
  by (auto simp: sequential_sync_def settles_def known_keys_def)

interpretation sequential: executor_backend sequential_execute_async "sequential_sync cc" "\<lambda>_ _. False"
  for cc
proof unfold_locales
  fix e e' :: sequential_executor and k c q x
  note d = sequential_execute_async_def
  show "ex_queued_tasks (fst (sequential_execute_async k c q x e)) = ex_queued_tasks e"
    "ex_running (fst (sequential_execute_async k c q x e)) = ex_running e"
    "ex_parallelism (fst (sequential_execute_async k c q x e)) = ex_parallelism e"
    "set (dict_keys (ex_event_buffer e)) \<subseteq>
       set (dict_keys (ex_event_buffer (fst (sequential_execute_async k c q x e))))"
    by (simp_all add: d split: sum.splits)
  from settles_sequential_sync [of e cc] show
    "ex_queued_tasks (fst (sequential_sync cc e)) = ex_queued_tasks e"
    "ex_parallelism (fst (sequential_sync cc e)) = ex_parallelism e"
    "\<exists>P. ex_running (fst (sequential_sync cc e)) = filter P (ex_running e)"
    "known_keys e \<subseteq> known_keys (fst (sequential_sync cc e))"
    by (simp_all add: settles_def)
qed auto

subsection \<open>LocalExecutor\<close>

text \<open>
  The implementation is chosen at \<open>start\<close> by the parallelism; the limited one feeds its workers
  through a task queue (\<open>None\<close> is the poison pill), the unlimited one starts a process per command,
  kept in \<open>lc_processes\<close> until it has put its result in the result queue.
\<close>

datatype local_impl = UnlimitedParallelism | LimitedParallelism

record local_executor = executor +
  lc_impl :: "local_impl option"
  lc_result_queue :: "(TaskInstanceKey \<times> TaskInstanceState) list option"
  lc_task_queue :: "(TaskInstanceKey \<times> command) option list"
  lc_processes :: "(TaskInstanceKey \<times> command) list"
  lc_workers :: nat
  lc_workers_used :: int
  lc_workers_active :: int

definition new_local_executor :: "int \<Rightarrow> local_executor result" where
  "new_local_executor parallelism =
     (if parallelism < 0 then Inl (AirflowException ''parallelism must be bigger than or equal to 0'')
      else Inr \<lparr>ex_parallelism = parallelism, ex_queued_tasks = [], ex_running = [],
        ex_event_buffer = [], ex_attempts = [], lc_impl = None, lc_result_queue = None,
        lc_task_queue = [], lc_processes = [], lc_workers = 0, lc_workers_used = 0,
        lc_workers_active = 0\<rparr>)"

definition local_start :: "local_executor \<Rightarrow> local_executor" where
  "local_start e =
     (let e' = e\<lparr>lc_result_queue := Some [], lc_workers := 0, lc_workers_used := 0,
                 lc_workers_active := 0\<rparr> in
      if ex_parallelism e = 0 then e'\<lparr>lc_impl := Some UnlimitedParallelism\<rparr>
      else e'\<lparr>lc_impl := Some LimitedParallelism, lc_task_queue := [],
              lc_workers := nat (ex_parallelism e), lc_workers_used := ex_parallelism e\<rparr>)"

definition local_execute_async :: "TaskInstanceKey \<Rightarrow> command \<Rightarrow> string option \<Rightarrow> string option \<Rightarrow>
    local_executor \<Rightarrow> local_executor \<times> error option" where
  "local_execute_async key command queue executor_config e =
     (case validate_airflow_tasks_run_command command of
        Inl err \<Rightarrow> (e, Some err)
      | Inr _ \<Rightarrow>
         (case lc_impl e of
            None \<Rightarrow> (e, Some (AttributeError ''execute_async''))
          | Some UnlimitedParallelism \<Rightarrow>
              (e\<lparr>lc_workers_used := lc_workers_used e + 1,
                 lc_workers_active := lc_workers_active e + 1,
                 lc_processes := lc_processes e @ [(key, command)]\<rparr>, None)
          | Some LimitedParallelism \<Rightarrow>
              (e\<lparr>lc_task_queue := lc_task_queue e @ [Some (key, command)]\<rparr>, None)))"

fun drain_results :: "(TaskInstanceKey \<times> TaskInstanceState) list \<Rightarrow> 'z executor_scheme \<Rightarrow> 'z executor_scheme" where
  "drain_results [] e = e"
| "drain_results ((key, state) # rest) e = drain_results rest (change_state key (Some state) None e)"

definition local_sync :: "local_executor \<Rightarrow> local_executor \<times> error option" where
  "local_sync e =
     (case (lc_impl e, lc_result_queue e) of
        (None, _) \<Rightarrow> (e, Some (AttributeError ''sync''))
      | (Some UnlimitedParallelism, None) \<Rightarrow>
          (e, Some (AirflowException ''Executor should be started first''))
      | (Some LimitedParallelism, None) \<Rightarrow> (e, Some (AttributeError ''get_nowait''))
      | (Some UnlimitedParallelism, Some results) \<Rightarrow>
          ((drain_results results e)\<lparr>lc_result_queue := Some [],
             lc_workers_active := lc_workers_active e - int (length results)\<rparr>, None)
      | (Some LimitedParallelism, Some results) \<Rightarrow>
          ((drain_results results e)\<lparr>lc_result_queue := Some []\<rparr>, None))"

text \<open>\<open>execute_work\<close> of a worker process: the state it reports for a command; \<open>exit_ok\<close> tells whether
  the command succeeds, in a subprocess or in a fork.\<close>

definition execute_work :: "(command \<Rightarrow> bool) \<Rightarrow> TaskInstanceKey \<Rightarrow> command \<Rightarrow> TaskInstanceKey \<times> TaskInstanceState" where
  "execute_work exit_ok key command = (key, if exit_ok command then SUCCESS else FAILED)"

text \<open>The workers: one takes the next item of the task queue (and dies on a poison pill) or a process
  of the unlimited implementation ends; both report on the result queue.\<close>

inductive worker_step :: "(command \<Rightarrow> bool) \<Rightarrow> local_executor \<Rightarrow> local_executor \<Rightarrow> bool" for exit_ok where
  ws_queued: "lc_task_queue e = Some (key, command) # tq \<Longrightarrow> 0 < lc_workers e \<Longrightarrow>
     lc_result_queue e = Some rs \<Longrightarrow>
     worker_step exit_ok e (e\<lparr>lc_task_queue := tq,
       lc_result_queue := Some (rs @ [execute_work exit_ok key command])\<rparr>)"
| ws_poison: "lc_task_queue e = None # tq \<Longrightarrow> 0 < lc_workers e \<Longrightarrow>
     worker_step exit_ok e (e\<lparr>lc_task_queue := tq, lc_workers := lc_workers e - 1\<rparr>)"
| ws_process: "(key, command) \<in> set (lc_processes e) \<Longrightarrow> lc_result_queue e = Some rs \<Longrightarrow>
     worker_step exit_ok e (e\<lparr>lc_processes := remove1 (key, command) (lc_processes e),
       lc_result_queue := Some (rs @ [execute_work exit_ok key command])\<rparr>)"

inductive_cases worker_stepE: "worker_step exit_ok e e'"

lemma settles_drain: "settles e (drain_results rs e)"
proof (induction rs e rule: drain_results.induct)
  case (2 key st rest e)
  then show ?case using settles_change_state [of e key "Some st" None] by (auto intro: settles_trans)
qed (simp add: settles_refl)

lemma settles_local_sync: "settles e (fst (local_sync e))"
  using settles_drain [of e "the (lc_result_queue e)"] settles_refl [of e]
  by (auto simp: local_sync_def settles_def known_keys_def split: option.splits local_impl.splits)

interpretation local: executor_backend local_execute_async local_sync "worker_step exit_ok"
  for exit_ok
proof unfold_locales
  fix e e' :: local_executor and k c q x
  show "ex_queued_tasks (fst (local_execute_async k c q x e)) = ex_queued_tasks e"
    "ex_running (fst (local_execute_async k c q x e)) = ex_running e"
    "ex_parallelism (fst (local_execute_async k c q x e)) = ex_parallelism e"
    "set (dict_keys (ex_event_buffer e)) \<subseteq>
       set (dict_keys (ex_event_buffer (fst (local_execute_async k c q x e))))"
    by (simp_all add: local_execute_async_def split: sum.splits option.splits local_impl.splits)
  from settles_local_sync [of e] show
    "ex_queued_tasks (fst (local_sync e)) = ex_queued_tasks e"
    "ex_parallelism (fst (local_sync e)) = ex_parallelism e"
    "\<exists>P. ex_running (fst (local_sync e)) = filter P (ex_running e)"
    "known_keys e \<subseteq> known_keys (fst (local_sync e))"
    by (simp_all add: settles_def)
  show "worker_step exit_ok e e' \<Longrightarrow> ex_queued_tasks e' = ex_queued_tasks e \<and>
      ex_running e' = ex_running e \<and> ex_parallelism e' = ex_parallelism e \<and>
      ex_event_buffer e' = ex_event_buffer e"
    by (erule worker_stepE) auto
qed

subsection \<open>Properties\<close>

text \<open>
  C17. However commands are queued, heartbeats run, workers finish and events are collected, a
  LocalExecutor started with a positive parallelism never has more tasks running than that, and
  never counts a task twice. (With the unlimited parallelism 0 there is no bound.)
\<close>

theorem running_never_exceeds_parallelism:
  assumes "new_local_executor p = Inr e0" "0 < p"
    "(executor_step local_execute_async local_sync (worker_step exit_ok))\<^sup>*\<^sup>* (local_start e0) e"
  shows "int (length (ex_running e)) \<le> p \<and> distinct (ex_running e) \<and> ex_parallelism e = p"
proof -
  have i: "wf_executor (local_start e0)" "ex_parallelism (local_start e0) = p"
    using assms(1,2) by (auto simp: new_local_executor_def local_start_def wf_executor_def dict_keys_def)
  from local.reachable_wf [OF assms(3) i(1)] local.reachable_parallelism [OF assms(3)] i(2) assms(2)
  show ?thesis by (auto simp: wf_executor_def split: if_splits)
qed

lemma running_never_exceeds_parallelism_witness:
  "\<exists>e0 (e :: local_executor). new_local_executor 2 = Inr e0 \<and>
     ex_queued_tasks e \<noteq> [] \<and> int (length (ex_running e)) \<le> 2 \<and> distinct (ex_running e)"
proof -
  obtain e0 where e0: "new_local_executor 2 = Inr e0" by (simp add: new_local_executor_def)
  let ?e = "queue_command (sample_ti ''t'' None) [] 1 None (local_start e0)"
  have "(executor_step local_execute_async local_sync (worker_step (\<lambda>_. True)))\<^sup>*\<^sup>* (local_start e0) ?e"
    by (rule r_into_rtranclp) (rule es_queue)
  note running_never_exceeds_parallelism [OF e0 _ this]
  moreover have "ex_queued_tasks ?e \<noteq> []"
    using e0 by (auto simp: queue_command_def dict_has_def new_local_executor_def local_start_def)
  ultimately have "new_local_executor 2 = Inr e0 \<and> ex_queued_tasks ?e \<noteq> [] \<and>
      int (length (ex_running ?e)) \<le> 2 \<and> distinct (ex_running ?e)" using e0 by simp
  then show ?thesis by blast
qed



text \<open>
  Among the queued tasks that are not still running, a heartbeat starts the ones of highest
  priority: one it leaves in the queue never has a higher priority than one it starts.
\<close>

theorem triggers_highest_priority_first:
  assumes "distinct (dict_keys (ex_queued_tasks e))"
    "trigger_tasks now sequential_execute_async slots e = (e', None)"
    "k \<in> set (ex_running e')" "k \<notin> set (ex_running e)"
    "dict_get (ex_queued_tasks e) k = Some (c, p, q, ti)"
    "dict_get (ex_queued_tasks e') k' = Some (c', p', q', ti')" "k' \<notin> set (ex_running e)"
  shows "p' \<le> p"
  using assms by (rule sequential.trigger_priority)

lemma triggers_highest_priority_first_witness:
  "\<exists>e e' k c p q ti k' c' p' q' ti'.
     trigger_tasks 0 sequential_execute_async 1 e = (e', None) \<and>
     k \<in> set (ex_running e') \<and> dict_get (ex_queued_tasks e) k = Some (c, p, q, ti) \<and>
     dict_get (ex_queued_tasks e') k' = Some (c', p', q', ti') \<and> p' \<le> p"
proof -
  let ?c = "[''airflow'', ''tasks'', ''run'']"
  let ?a = "sample_ti ''a'' None" and ?b = "sample_ti ''b'' None"
  let ?e = "queue_command ?b ?c 7 None (queue_command ?a ?c 3 None (new_sequential_executor 1))"
  note defs = queue_command_def new_sequential_executor_def dict_has_def ti_key_def sample_ti_def
    get_try_number_def dict_keys_def
  have d: "distinct (dict_keys (ex_queued_tasks ?e))" by (simp add: defs)
  obtain e' where e': "trigger_tasks 0 sequential_execute_async 1 ?e = (e', None)"
    "ti_key ?b \<in> set (ex_running e')" "dict_get (ex_queued_tasks e') (ti_key ?a) = Some (?c, 3, None, ?a)"
    by (simp add: trigger_tasks_def order_queued_tasks_by_priority_def defs
        sequential_execute_async_def validate_airflow_tasks_run_command_def set_add_def dict_del_def)
  have "ti_key ?b \<notin> set (ex_running ?e)" "ti_key ?a \<notin> set (ex_running ?e)"
    "dict_get (ex_queued_tasks ?e) (ti_key ?b) = Some (?c, 7, None, ?b)"
    by (simp_all add: defs)
  with triggers_highest_priority_first [OF d e'(1,2) _ _ e'(3)] e' show ?thesis by blast
qed

text \<open>
  Collecting events splits the buffer: the events of the asked-for DAGs (all of them without a
  filter) are returned, every other event stays, and nothing else of the executor changes.
\<close>

theorem get_event_buffer_splits:
  "case get_event_buffer dag_ids (e :: local_executor) of (events, e') \<Rightarrow>
     events = filter (\<lambda>(k, _). case dag_ids of None \<Rightarrow> True | Some ids \<Rightarrow> k_dag_id k \<in> set ids) (ex_event_buffer e) \<and>
     mset events + mset (ex_event_buffer e') = mset (ex_event_buffer e) \<and>
     e' = e\<lparr>ex_event_buffer := ex_event_buffer e'\<rparr>"
  by (cases dag_ids) (auto simp: get_event_buffer_def case_prod_unfold)

text \<open>
  The ids that \<open>validate_airflow_tasks_run_command\<close> reads off a command are those the command was
  generated for, provided they do not look like options and no argument asks for help.
\<close>

theorem validate_generated_command:
  assumes "\<not> is_option dag_id" "\<not> is_option task_id"
    "''--help'' \<notin> set (generate_command dag_id task_id run_id o')"
  shows "validate_airflow_tasks_run_command (generate_command dag_id task_id run_id o') =
    Inr (Some dag_id, Some task_id)"
proof -
  obtain rest where g: "generate_command dag_id task_id run_id o' =
      [''airflow'', ''tasks'', ''run'', dag_id, task_id, run_id] @ rest"
    by (auto simp: generate_command_def)
  show ?thesis using assms
    unfolding g by (simp add: validate_airflow_tasks_run_command_def)
qed

lemma validate_generated_command_witness:
  "validate_airflow_tasks_run_command
     (generate_command ''d'' ''t'' ''r'' (default_run_options\<lparr>ro_local := True, ro_map_index := 12\<rparr>)) =
     Inr (Some ''d'', Some ''t'')"
  by (rule validate_generated_command)
     (simp_all add: is_option_def generate_command_def default_run_options_def str_of_int_def nat_digits.simps)

end
