(* ===== verification/Ti_Lifecycle.thy ===== *)
theory Ti_Lifecycle
  imports Dep_Laws Executor
begin

text \<open>
  The life of a task instance on a worker (\<open>models/taskinstance.py\<close>): the check that moves it to
  RUNNING, what the end of its execution does to its row (success, skip, deferral, reschedule,
  failure with or without retry), the deferral and its triggers (\<open>models/trigger.py\<close>), and clearing.
  The task instance is attached to the session, so its attributes are its row. What an operator
  does while it executes is not modelled: the end of an execution is a value of \<open>execution_outcome\<close>
  applied to the database as it is then. Logs, metrics, e-mails and listeners are left out; which
  callbacks run is returned.
\<close>

subsection \<open>Attributes\<close>

definition set_duration :: "task_instance \<Rightarrow> task_instance" where
  "set_duration ti = ti\<lparr>ti_duration :=
     (case (ti_end_date ti, ti_start_date ti) of (Some e, Some b) \<Rightarrow> Some (e - b) | _ \<Rightarrow> None)\<rparr>"

definition clear_next_method_args :: "task_instance \<Rightarrow> task_instance" where
  "clear_next_method_args ti = ti\<lparr>ti_next_method := None, ti_next_kwargs := None\<rparr>"

definition current_state :: "ti_primary \<Rightarrow> db \<Rightarrow> ti_state" where
  "current_state k s = (case find_ti s k of None \<Rightarrow> None | Some ti \<Rightarrow> ti_state ti)"

definition set_ti_state :: "ti_state \<Rightarrow> task_instance \<Rightarrow> task_instance" where
  "set_ti_state st ti = ti\<lparr>ti_state := st\<rparr>"

definition ti_error :: "ti_primary \<Rightarrow> db \<Rightarrow> db" where
  "ti_error k s = update_ti k (set_ti_state (Some FAILED)) s"

text \<open>\<open>pool_override or task.pool\<close>\<close>

definition refresh_from_task :: "dag \<Rightarrow> operator \<Rightarrow> string option \<Rightarrow> task_instance \<Rightarrow> task_instance result" where
  "refresh_from_task d op pool_override ti =
     bind_err (priority_weight_total d op) (\<lambda>weight.
       Inr (ti\<lparr>ti_queue := op_queue op,
            ti_pool := (case pool_override of Some (c # p) \<Rightarrow> c # p | _ \<Rightarrow> op_pool op),
            ti_pool_slots := op_pool_slots op, ti_priority_weight := weight,
            ti_executor_config := op_executor_config op, ti_operator := op_task_type op\<rparr>))"

definition insert_mapping :: "dag \<Rightarrow> id_str \<Rightarrow> operator \<Rightarrow> int \<Rightarrow> task_instance result" where
  "insert_mapping d run_id op map_index =
     bind_err (priority_weight_total d op) (\<lambda>weight.
       Inr \<lparr>ti_task_id = op_task_id op, ti_dag_id = d_dag_id d, ti_run_id = run_id, ti_map_index = map_index,
         ti_start_date = None, ti_end_date = None, ti_duration = None, ti_state = None,
         ti__try_number = 0, ti_max_tries = op_retries op, ti_hostname = [], ti_job_id = None,
         ti_pool = op_pool op, ti_pool_slots = op_pool_slots op, ti_queue = op_queue op,
         ti_priority_weight = weight, ti_operator = op_task_type op, ti_queued_dttm = None,
         ti_queued_by_job_id = None, ti_pid = None, ti_external_executor_id = None,
         ti_trigger_id = None, ti_trigger_timeout = None, ti_next_method = None,
         ti_next_kwargs = None, ti_executor_config = op_executor_config op\<rparr>)"

text \<open>\<open>task\<close> is \<open>None\<close> when the task could not be loaded.\<close>

definition is_eligible_to_retry :: "operator option \<Rightarrow> task_instance \<Rightarrow> bool" where
  "is_eligible_to_retry task ti =
     (if ti_state ti = Some RESTARTING then True
      else case task of
        None \<Rightarrow> get_try_number ti \<le> ti_max_tries ti
      | Some op \<Rightarrow> op_retries op \<noteq> 0 \<and> get_try_number ti \<le> ti_max_tries ti)"

subsection \<open>Failure\<close>

text \<open>\<open>_stop_remaining_tasks\<close>, over the task instances of the run as they were read.\<close>

fun stop_remaining_tasks :: "time \<Rightarrow> dag \<Rightarrow> id_str \<Rightarrow> task_instance list \<Rightarrow> db \<Rightarrow> db result" where
  "stop_remaining_tasks now d task_id [] s = Inr s"
| "stop_remaining_tasks now d task_id (ti # tis) s =
     (if ti_task_id ti = task_id \<or> ti_state ti \<in> {Some SUCCESS, Some FAILED}
      then stop_remaining_tasks now d task_id tis s
      else case dict_get (d_task_dict d) (ti_task_id ti) of
        None \<Rightarrow> Inl (KeyError (ti_task_id ti))
      | Some task \<Rightarrow>
          if op_is_teardown task then stop_remaining_tasks now d task_id tis s
          else if ti_state ti = Some RUNNING
          then stop_remaining_tasks now d task_id tis (ti_error (ti_primary ti) s)
          else stop_remaining_tasks now d task_id tis
                 (snd (set_state now (ti_primary ti) (Some SKIPPED) s)))"

datatype failure_callbacks = FailureCallbacks bool | RetryCallbacks bool

text \<open>The row of the failing task instance: \<open>fail_row\<close> when it may not retry, \<open>retry_row\<close> when it may.\<close>

definition ended_row :: "time \<Rightarrow> task_instance \<Rightarrow> task_instance" where
  "ended_row now ti = clear_next_method_args (set_duration (ti\<lparr>ti_end_date := Some now\<rparr>))"

definition fail_row :: "time \<Rightarrow> task_instance \<Rightarrow> task_instance" where
  "fail_row now ti = (ended_row now ti)\<lparr>ti_state := Some FAILED\<rparr>"

definition retry_row :: "time \<Rightarrow> task_instance \<Rightarrow> task_instance" where
  "retry_row now ti = (ended_row now ti)\<lparr>ti_state := Some UP_FOR_RETRY,
     ti__try_number := (if ti_state ti = Some QUEUED then ti__try_number ti + 1 else ti__try_number ti)\<rparr>"

text \<open>\<open>task\<close> is the task of the task instance with its DAG, when both could be loaded.\<close>

definition handle_failure :: "time \<Rightarrow> (dag \<times> operator) option \<Rightarrow> bool \<Rightarrow> ti_primary \<Rightarrow> db \<Rightarrow>
    (failure_callbacks \<times> db) result" where
  "handle_failure now task force_fail k s =
     (case find_ti s k of
        None \<Rightarrow> Inl (KeyError ''task instance'')
      | Some ti \<Rightarrow>
          if force_fail \<or> \<not> is_eligible_to_retry (map_option snd task) (ended_row now ti)
          then
            let s1 = update_ti k (fail_row now) s in
            case task of
              None \<Rightarrow> Inr (FailureCallbacks False, s1)
            | Some (d, op) \<Rightarrow>
                if d_fail_stop d
                then
                  case find_dr s (ti_dag_id ti) (ti_run_id ti) of
                    None \<Rightarrow> Inl (ValueError ''task_instance must have dag_run set'')
                  | Some dr \<Rightarrow>
                      bind_err (stop_remaining_tasks now d (ti_task_id ti)
                          (get_task_instances d dr (\<lambda>_. True) s1) s1)
                        (\<lambda>s2. Inr (FailureCallbacks (op_on_failure_callback op), s2))
                else Inr (FailureCallbacks (op_on_failure_callback op), s1)
          else Inr (RetryCallbacks (case task of None \<Rightarrow> False | Some (d, op) \<Rightarrow> op_on_retry_callback op),
                    update_ti k (retry_row now) s))"

subsection \<open>Deferral and reschedule\<close>

text \<open>\<open>new_id\<close> is the primary key the database gives the inserted row.\<close>

record task_deferred =
  td_classpath :: string
  td_trigger_kwargs :: pyval
  td_method_name :: string
  td_kwargs :: pyval
  td_timeout :: "duration option"

definition defer_timeout :: "time \<Rightarrow> operator \<Rightarrow> task_deferred \<Rightarrow> task_instance \<Rightarrow> time option result" where
  "defer_timeout now op defer ti =
     (let trigger_timeout = map_option (\<lambda>t. now + t) (td_timeout defer) in
      case op_execution_timeout op of
        None \<Rightarrow> Inr trigger_timeout
      | Some execution_timeout \<Rightarrow>
          if execution_timeout = 0 then Inr trigger_timeout
          else case ti_start_date ti of
            None \<Rightarrow> Inl (TypeError ''NoneType + timedelta'')
          | Some start_date \<Rightarrow>
              (case trigger_timeout of
                 Some t \<Rightarrow> Inr (Some (min (start_date + execution_timeout) t))
               | None \<Rightarrow> Inr (Some (start_date + execution_timeout))))"

definition defer_row :: "int \<Rightarrow> time option \<Rightarrow> task_deferred \<Rightarrow> task_instance \<Rightarrow> task_instance" where
  "defer_row trigger_id timeout defer ti = ti\<lparr>ti_state := Some DEFERRED, ti_trigger_id := Some trigger_id,
     ti_next_method := Some (td_method_name defer),
     ti_next_kwargs := Some (if py_truthy (td_kwargs defer) then td_kwargs defer else PDict []),
     ti__try_number := ti__try_number ti - 1, ti_trigger_timeout := timeout\<rparr>"

definition defer_task :: "time \<Rightarrow> int \<Rightarrow> operator \<Rightarrow> task_deferred \<Rightarrow> ti_primary \<Rightarrow> db \<Rightarrow> db result" where
  "defer_task now new_id op defer k s =
     (case find_ti s k of
        None \<Rightarrow> Inl (KeyError ''task instance'')
      | Some ti \<Rightarrow>
          bind_err (defer_timeout now op defer ti) (\<lambda>timeout.
            let trigger = \<lparr>tg_id = new_id, tg_classpath = td_classpath defer,
                  tg_kwargs = td_trigger_kwargs defer, tg_created_date = now, tg_triggerer_id = None\<rparr> in
            Inr ((update_ti k (defer_row new_id timeout defer) s)
                   \<lparr>db_triggers := db_triggers s @ [trigger]\<rparr>)))"

definition reschedule_row :: "time \<Rightarrow> task_instance \<Rightarrow> task_instance" where
  "reschedule_row now ti = (ended_row now ti)\<lparr>ti_state := Some UP_FOR_RESCHEDULE,
     ti__try_number := ti__try_number ti - 1\<rparr>"

text \<open>The run's row is locked first: it must exist.\<close>

definition handle_reschedule :: "time \<Rightarrow> int \<Rightarrow> time \<Rightarrow> time \<Rightarrow> ti_primary \<Rightarrow> db \<Rightarrow> db result" where
  "handle_reschedule now new_id actual_start_date reschedule_date k s =
     (case find_ti s k of
        None \<Rightarrow> Inl (KeyError ''task instance'')
      | Some ti \<Rightarrow>
          bind_err (get_dagrun ti s) (\<lambda>dr.
            let tr = \<lparr>tr_id = new_id, tr_task_id = ti_task_id ti, tr_dag_id = ti_dag_id ti,
                  tr_run_id = ti_run_id ti, tr_map_index = ti_map_index ti,
                  tr_try_number = ti__try_number ti, tr_start_date = actual_start_date,
                  tr_end_date = now, tr_duration = now - actual_start_date,
                  tr_reschedule_date = reschedule_date\<rparr> in
            Inr ((update_ti k (reschedule_row now) s)\<lparr>db_trs := db_trs s @ [tr]\<rparr>)))"

subsection \<open>Datasets\<close>

text \<open>
  \<open>DatasetManager\<close> (\<open>datasets/manager.py\<close>). The dialects differ in how they ignore a queue row that
  is there already, not in the rows they leave. \<open>new_id\<close> is the primary key of the next event.
\<close>

definition consuming_dags :: "db \<Rightarrow> dataset_model \<Rightarrow> id_str list" where
  "consuming_dags s dt = map sr_dag_id (filter (\<lambda>r. sr_dataset_id r = dt_id dt) (db_schedule_refs s))"

definition queue_dagrun :: "time \<Rightarrow> int \<Rightarrow> id_str \<Rightarrow> db \<Rightarrow> db" where
  "queue_dagrun now dataset_id dag_id s =
     (if list_ex (\<lambda>q. dq_dataset_id q = dataset_id \<and> dq_target_dag_id q = dag_id) (db_dataset_queue s) then s
      else s\<lparr>db_dataset_queue := db_dataset_queue s @
        [\<lparr>dq_dataset_id = dataset_id, dq_target_dag_id = dag_id, dq_created_at = now\<rparr>]\<rparr>)"

definition queue_dagruns :: "time \<Rightarrow> dataset_model \<Rightarrow> db \<Rightarrow> db" where
  "queue_dagruns now dt s = fold (queue_dagrun now (dt_id dt)) (consuming_dags s dt) s"

definition register_dataset_change :: "time \<Rightarrow> (db \<Rightarrow> int) \<Rightarrow> task_instance \<Rightarrow> string \<Rightarrow> db \<Rightarrow> db" where
  "register_dataset_change now new_id ti uri s =
     (case find (\<lambda>dt. dt_uri dt = uri) (db_datasets s) of
        None \<Rightarrow> s
      | Some dt \<Rightarrow>
          queue_dagruns now dt (s\<lparr>db_dataset_events := db_dataset_events s @
            [\<lparr>ev_id = new_id s, ev_dataset_id = dt_id dt, ev_source_task_id = ti_task_id ti,
              ev_source_dag_id = ti_dag_id ti, ev_source_run_id = ti_run_id ti,
              ev_source_map_index = ti_map_index ti, ev_timestamp = now\<rparr>]\<rparr>))"

definition register_dataset_changes :: "time \<Rightarrow> (db \<Rightarrow> int) \<Rightarrow> task_instance \<Rightarrow> string list \<Rightarrow> db \<Rightarrow> db" where
  "register_dataset_changes now new_id ti outlets s = fold (register_dataset_change now new_id ti) outlets s"

subsection \<open>Running a task\<close>

text \<open>
  How an execution ends: it returns (with the URIs of the dataset outlets of the task), or raises
  \<open>TaskDeferred\<close>, \<open>AirflowSkipException\<close>, \<open>AirflowRescheduleException\<close>, an exception that forbids
  a retry (\<open>AirflowFailException\<close>, \<open>AirflowSensorTimeout\<close>), another \<open>AirflowException\<close>, or
  anything else. \<open>_run_raw_task\<close> then returns or re-raises.
\<close>

datatype execution_outcome =
    Returned "string list"
  | RaisedDeferred task_deferred
  | RaisedSkip
  | RaisedReschedule time
  | RaisedFail
  | RaisedAirflowException
  | RaisedOther

datatype task_return = ReturnNone | ReturnDeferred | Reraised

definition take_job :: "string \<Rightarrow> int option \<Rightarrow> int option \<Rightarrow> task_instance \<Rightarrow> task_instance" where
  "take_job hostname job_id pid ti = ti\<lparr>ti_hostname := hostname, ti_job_id := job_id, ti_pid := pid\<rparr>"

definition is_resuming :: "task_instance \<Rightarrow> bool" where
  "is_resuming ti \<longleftrightarrow> (case ti_next_method ti of None \<Rightarrow> False | Some m \<Rightarrow> m \<noteq> [])"

definition clear_xcom_data :: "task_instance \<Rightarrow> db \<Rightarrow> db" where
  "clear_xcom_data ti s = xcom_clear (ti_dag_id ti) (ti_task_id ti) (ti_run_id ti)
     (if ti_map_index ti < 0 then None else Some (ti_map_index ti)) s"

text \<open>Up to the execution: the worker notes its job in the row and, unless it only marks success or
  resumes a deferred task, deletes the XComs of earlier tries.\<close>

definition start_raw_task :: "string \<Rightarrow> int option \<Rightarrow> int \<Rightarrow> bool \<Rightarrow> ti_primary \<Rightarrow> db \<Rightarrow> db result" where
  "start_raw_task hostname job_id pid mark_success k s =
     (case find_ti s k of
        None \<Rightarrow> Inl (KeyError ''task instance'')
      | Some ti \<Rightarrow>
          let s1 = update_ti k (take_job hostname job_id (Some pid)) s in
          Inr (if mark_success \<or> is_resuming ti then s1 else clear_xcom_data ti s1))"

text \<open>The row of a task instance that succeeded or skipped.\<close>

definition done_row :: "time \<Rightarrow> TaskInstanceState \<Rightarrow> task_instance \<Rightarrow> task_instance" where
  "done_row now st ti = set_duration ((clear_next_method_args (set_ti_state (Some st) ti))\<lparr>ti_end_date := Some now\<rparr>)"

definition finish_raw_task :: "time \<Rightarrow> (db \<Rightarrow> int) \<Rightarrow> dag \<Rightarrow> operator \<Rightarrow> time \<Rightarrow> execution_outcome \<Rightarrow>
    ti_primary \<Rightarrow> db \<Rightarrow> (task_return \<times> db) result" where
  "finish_raw_task now new_id d op actual_start_date outcome k s =
     (case outcome of
        Returned outlets \<Rightarrow>
          (case find_ti s k of
             None \<Rightarrow> Inl (KeyError ''task instance'')
           | Some ti \<Rightarrow>
               Inr (ReturnNone,
                 register_dataset_changes now new_id ti outlets (update_ti k (done_row now SUCCESS) s)))
      | RaisedDeferred defer \<Rightarrow>
          bind_err (defer_task now (new_id s) op defer k s) (\<lambda>s'. Inr (ReturnDeferred, s'))
      | RaisedSkip \<Rightarrow> Inr (ReturnNone, update_ti k (done_row now SKIPPED) s)
      | RaisedReschedule reschedule_date \<Rightarrow>
          bind_err (handle_reschedule now (new_id s) actual_start_date reschedule_date k s)
            (\<lambda>s'. Inr (ReturnNone, s'))
      | RaisedFail \<Rightarrow>
          bind_err (handle_failure now (Some (d, op)) True k s) (\<lambda>(_, s'). Inr (Reraised, s'))
      | RaisedAirflowException \<Rightarrow>
          if finished (current_state k s)
          then Inr (ReturnNone, update_ti k clear_next_method_args s)
          else bind_err (handle_failure now (Some (d, op)) False k s) (\<lambda>(_, s'). Inr (Reraised, s'))
      | RaisedOther \<Rightarrow>
          bind_err (handle_failure now (Some (d, op)) False k s) (\<lambda>(_, s'). Inr (Reraised, s')))"

subsection \<open>The check before execution\<close>

text \<open>
  \<open>refresh_from_db\<close> reads every column again that \<open>refresh_from_task\<close> has set before it, so the
  checks see the row of the database. \<open>env\<close> holds the time the check runs at.
\<close>

definition running_dep_context :: "ti_dep list \<Rightarrow> run_options \<Rightarrow> dep_context" where
  "running_dep_context deps opts = default_dep_context\<lparr>dc_deps := deps,
     dc_ignore_all_deps := ro_ignore_all_deps opts,
     dc_ignore_depends_on_past := ro_ignore_depends_on_past opts,
     dc_wait_for_past_depends_before_skipping := ro_wait_for_past_depends_before_skipping opts,
     dc_ignore_task_deps := ro_ignore_task_deps opts,
     dc_ignore_ti_state := ro_ignore_ti_state opts\<rparr>"

definition NON_REQUEUEABLE_DEPS :: "ti_dep list" where
  "NON_REQUEUEABLE_DEPS = filter (\<lambda>dep. dep \<notin> set REQUEUEABLE_DEPS) RUNNING_DEPS"

text \<open>The start date of this try: that of the first try of a rescheduled task instance.\<close>

definition try_start_date :: "time \<Rightarrow> task_instance \<Rightarrow> db \<Rightarrow> time option" where
  "try_start_date now ti s =
     (let start = (if is_resuming ti then ti_start_date ti else Some now) in
      if ti_state ti = Some UP_FOR_RESCHEDULE
      then (case reschedules_for_task_instance ti False s of [] \<Rightarrow> start | tr # _ \<Rightarrow> Some (tr_start_date tr))
      else start)"

definition requeued_row :: "time \<Rightarrow> task_instance \<Rightarrow> task_instance" where
  "requeued_row now ti = ti\<lparr>ti_state := None, ti_queued_dttm := Some now\<rparr>"

definition running_row :: "string option \<Rightarrow> task_instance \<Rightarrow> task_instance" where
  "running_row external_executor_id ti = ti\<lparr>ti__try_number := ti__try_number ti + 1,
     ti_state := Some RUNNING, ti_external_executor_id := external_executor_id, ti_end_date := None\<rparr>"

definition check_and_change_state_before_execution ::
  "dep_env \<Rightarrow> operator \<Rightarrow> run_options \<Rightarrow> string \<Rightarrow> int option \<Rightarrow> string option \<Rightarrow> ti_primary \<Rightarrow> db \<Rightarrow>
     (bool \<times> db) result" where
  "check_and_change_state_before_execution env op opts hostname job_id external_executor_id k s =
     (case find_ti s k of
        None \<Rightarrow> Inl (KeyError ''task instance'')
      | Some _ \<Rightarrow>
          let s1 = update_ti k (take_job hostname job_id None) s;
              start_running = (\<lambda>s'. Inr (True, update_ti k (running_row external_executor_id) s')) in
          if ro_mark_success opts then start_running s1
          else
            bind_err (are_dependencies_met env op k (running_dep_context NON_REQUEUEABLE_DEPS opts) s1)
              (\<lambda>(met, _, s2).
                if \<not> met then Inr (False, s2)
                else case find_ti s2 k of
                  None \<Rightarrow> Inl (KeyError ''task instance'')
                | Some ti \<Rightarrow>
                    let s3 = update_ti k (\<lambda>r. r\<lparr>ti_start_date := try_start_date (de_now env) ti s2\<rparr>) s2 in
                    bind_err (are_dependencies_met env op k (running_dep_context REQUEUEABLE_DEPS opts) s3)
                      (\<lambda>(met', _, s4).
                        if \<not> met' then Inr (False, update_ti k (requeued_row (de_now env)) s4)
                        else start_running s4)))"

subsection \<open>Clearing\<close>

text \<open>\<open>get_dag\<close> is the DAG of an id: the one passed to the call if it has that id, else the
  serialised one. Clearing returns the rows it was given, the keys of the reschedules to delete and
  the ids of the jobs to restart.\<close>

definition cleared_max_tries :: "operator option \<Rightarrow> task_instance \<Rightarrow> int" where
  "cleared_max_tries task ti =
     (case task of
        Some op \<Rightarrow> get_try_number ti + op_retries op - 1
      | None \<Rightarrow> max (ti_max_tries ti) (prev_attempted_tries ti))"

definition clear_row :: "(id_str \<Rightarrow> dag option) \<Rightarrow> task_instance \<Rightarrow> task_instance result" where
  "clear_row get_dag ti =
     (let task = (case get_dag (ti_dag_id ti) of None \<Rightarrow> None
          | Some d \<Rightarrow> (case get_task d (ti_task_id ti) of Inl _ \<Rightarrow> None | Inr op \<Rightarrow> Some (d, op))) in
      bind_err (case task of None \<Rightarrow> Inr ti | Some (d, op) \<Rightarrow> refresh_from_task d op None ti)
        (\<lambda>ti'. Inr (clear_next_method_args (ti'\<lparr>ti_max_tries := cleared_max_tries (map_option snd task) ti,
           ti_state := None, ti_external_executor_id := None\<rparr>))))"

definition clear_one :: "(id_str \<Rightarrow> dag option) \<Rightarrow> task_instance \<Rightarrow> task_instance result" where
  "clear_one get_dag ti =
     (if ti_state ti = Some RUNNING
      then Inr (case ti_job_id ti of
          None \<Rightarrow> ti
        | Some j \<Rightarrow> if j = 0 then ti else ti\<lparr>ti_state := Some RESTARTING\<rparr>)
      else clear_row get_dag ti)"

definition restarted_job :: "task_instance \<Rightarrow> int option" where
  "restarted_job ti =
     (if ti_state ti = Some RUNNING then (case ti_job_id ti of Some j \<Rightarrow> if j \<noteq> 0 then Some j else None | None \<Rightarrow> None)
      else None)"

text \<open>The loop over the task instances, each the row it has then.\<close>

fun clear_loop :: "(id_str \<Rightarrow> dag option) \<Rightarrow> ti_primary list \<Rightarrow> db \<Rightarrow>
    ((ti_primary \<times> int) list \<times> int list \<times> db) result" where
  "clear_loop get_dag [] s = Inr ([], [], s)"
| "clear_loop get_dag (k # ks) s =
     (case find_ti s k of
        None \<Rightarrow> Inl (KeyError ''task instance'')
      | Some ti \<Rightarrow>
          bind_err (clear_one get_dag ti) (\<lambda>ti'.
          bind_err (clear_loop get_dag ks (update_ti k (\<lambda>_. ti') s)) (\<lambda>(tries, jobs, s').
            Inr ((k, get_try_number ti') # tries,
                 (case restarted_job ti of None \<Rightarrow> jobs | Some j \<Rightarrow> j # jobs), s'))))"

definition clear_dag_run :: "time \<Rightarrow> DagRunState \<Rightarrow> dag_run \<Rightarrow> dag_run" where
  "clear_dag_run now dag_run_state dr =
     (if dr_state dr \<in> set finished_dr_states
      then let dr' = (set_dr_state now dag_run_state dr)\<lparr>dr_start_date := Some now\<rparr> in
        if dag_run_state = DR_QUEUED
        then dr'\<lparr>dr_last_scheduling_decision := None, dr_start_date := None,
                 dr_clear_number := dr_clear_number dr' + 1\<rparr>
        else dr'
      else dr)"

definition tr_primary :: "task_reschedule \<Rightarrow> ti_primary" where
  "tr_primary tr = (tr_dag_id tr, tr_task_id tr, tr_run_id tr, tr_map_index tr)"

text \<open>\<open>dag_run_state\<close> is \<open>None\<close> for \<open>False\<close>.\<close>

definition clear_task_instances :: "time \<Rightarrow> (id_str \<Rightarrow> dag option) \<Rightarrow> DagRunState option \<Rightarrow>
    ti_primary list \<Rightarrow> db \<Rightarrow> db result" where
  "clear_task_instances now get_dag dag_run_state tis s =
     bind_err (clear_loop get_dag tis s) (\<lambda>(tries, jobs, s1).
       let s2 = s1\<lparr>db_trs := filter (\<lambda>tr. (tr_primary tr, tr_try_number tr) \<notin> set tries) (db_trs s1),
                   db_jobs := map (\<lambda>j. if jb_id j \<in> set jobs then j\<lparr>jb_state := Some JOB_RESTARTING\<rparr> else j)
                     (db_jobs s1)\<rparr>;
           runs = map (\<lambda>(d, t, r, m). (d, r)) tis in
       Inr (case dag_run_state of
          None \<Rightarrow> s2
        | Some st \<Rightarrow>
            s2\<lparr>db_drs := map (\<lambda>dr. if (dr_dag_id dr, dr_run_id dr) \<in> set runs then clear_dag_run now st dr else dr)
                 (db_drs s2)\<rparr>))"

end
