(* ===== verification/Task_Expansion.thy ===== *)
theory Task_Expansion
  imports Ti_Lifecycle
begin

text \<open>
  Creating the instances of a mapped task (\<open>expand_mapped_task\<close> of \<open>models/abstractoperator.py\<close>,
  \<open>_revise_map_indexes_if_mapped\<close> of \<open>models/dagrun.py\<close>). \<open>hook\<close> is \<open>task_instance_mutation_hook\<close>,
  a function of the deployment that may change a task instance before it is stored; \<open>locked\<close> are
  the rows another session has locked, which are skipped.
\<close>

subsection \<open>New and referenced rows\<close>

text \<open>\<open>TaskInstance(task, run_id=..., map_index=..., state=...)\<close>, passed through the hook.\<close>

definition create_ti :: "(task_instance \<Rightarrow> task_instance) \<Rightarrow> dag \<Rightarrow> id_str \<Rightarrow> operator \<Rightarrow> int \<Rightarrow> ti_state \<Rightarrow>
    task_instance result" where
  "create_ti hook d run_id op map_index state =
     bind_err (insert_mapping d run_id op map_index) (\<lambda>ti. Inr (hook (ti\<lparr>ti_state := state\<rparr>)))"

definition add_ti :: "task_instance \<Rightarrow> db \<Rightarrow> db" where
  "add_ti ti s = s\<lparr>db_tis := db_tis s @ [ti]\<rparr>"

text \<open>The instances for new indexes: created, merged into the session and refreshed from the task.\<close>

fun add_expanded :: "(task_instance \<Rightarrow> task_instance) \<Rightarrow> dag \<Rightarrow> id_str \<Rightarrow> operator \<Rightarrow> ti_state \<Rightarrow> int list \<Rightarrow> db \<Rightarrow>
    (ti_primary list \<times> db) result" where
  "add_expanded hook d run_id op state [] s = Inr ([], s)"
| "add_expanded hook d run_id op state (index # indexes) s =
     bind_err (create_ti hook d run_id op index state) (\<lambda>ti.
     bind_err (refresh_from_task d op None ti) (\<lambda>ti'.
     bind_err (add_expanded hook d run_id op state indexes (add_ti ti' s)) (\<lambda>(ks, s').
       Inr (ti_primary ti' # ks, s'))))"

definition xc_primary :: "xcom \<Rightarrow> ti_primary" where
  "xc_primary x = (xc_dag_id x, xc_task_id x, xc_run_id x, xc_map_index x)"

text \<open>\<open>clear_db_references\<close>; task fails, notes and rendered fields are not modelled.\<close>

definition clear_db_references :: "ti_primary \<Rightarrow> db \<Rightarrow> db" where
  "clear_db_references k s = s\<lparr>
     db_trs := filter (\<lambda>tr. tr_primary tr \<noteq> k) (db_trs s),
     db_xcoms := filter (\<lambda>x. xc_primary x \<noteq> k) (db_xcoms s),
     db_task_maps := filter (\<lambda>m. tm_primary m \<noteq> k) (db_task_maps s)\<rparr>"

text \<open>Deleting a task instance deletes the rows that refer to it (\<open>ondelete="CASCADE"\<close>).\<close>

definition delete_ti :: "ti_primary \<Rightarrow> db \<Rightarrow> db" where
  "delete_ti k s = (clear_db_references k s)\<lparr>db_tis := filter (\<lambda>ti. ti_primary ti \<noteq> k) (db_tis s)\<rparr>"

definition is_task_row :: "id_str \<Rightarrow> id_str \<Rightarrow> id_str \<Rightarrow> task_instance \<Rightarrow> bool" where
  "is_task_row dag_id task_id run_id ti \<longleftrightarrow>
     ti_dag_id ti = dag_id \<and> ti_task_id ti = task_id \<and> ti_run_id ti = run_id"

definition map_indexes_of :: "id_str \<Rightarrow> id_str \<Rightarrow> id_str \<Rightarrow> db \<Rightarrow> int list" where
  "map_indexes_of dag_id task_id run_id s =
     map ti_map_index (filter (is_task_row dag_id task_id run_id) (db_tis s))"

text \<open>\<open>update(TaskInstance).where(...).values(state=REMOVED)\<close> on the rows of a task.\<close>

definition remove_indexes :: "id_str \<Rightarrow> id_str \<Rightarrow> id_str \<Rightarrow> (task_instance \<Rightarrow> bool) \<Rightarrow> db \<Rightarrow> db" where
  "remove_indexes dag_id task_id run_id P s =
     s\<lparr>db_tis := map (\<lambda>ti. if is_task_row dag_id task_id run_id ti \<and> P ti then ti\<lparr>ti_state := Some REMOVED\<rparr> else ti)
       (db_tis s)\<rparr>"

subsection \<open>Expansion\<close>

text \<open>
  What happens to the unmapped task instance when it is still unfinished: the instances that stem
  from it, the state new instances get, and the database.
\<close>

definition expand_unmapped :: "dag \<Rightarrow> operator \<Rightarrow> id_str \<Rightarrow> int option \<Rightarrow> db \<Rightarrow> ti_primary list \<times> ti_state \<times> db" where
  "expand_unmapped d op run_id total_length s =
     (let k = (d_dag_id d, op_task_id op, run_id, -1); k0 = (d_dag_id d, op_task_id op, run_id, 0) in
      case find_ti s k of
        None \<Rightarrow> ([], None, s)
      | Some ti \<Rightarrow>
          if \<not> unfinished (ti_state ti) then ([], None, s)
          else case total_length of
            None \<Rightarrow> ([], None, if d_partial d then s else update_ti k (set_ti_state (Some UPSTREAM_FAILED)) s)
          | Some n \<Rightarrow>
              if n < 1 then ([], None, update_ti k (set_ti_state (Some SKIPPED)) s)
              else if find_ti s k0 = None
              then ([k0], ti_state ti, update_ti k (\<lambda>r. r\<lparr>ti_map_index := 0\<rparr>) s)
              else ([], ti_state ti, delete_ti k s))"

definition int_range :: "int \<Rightarrow> int \<Rightarrow> int list" where
  "int_range a b = [a..b - 1]"

text \<open>The number of instances, \<open>None\<close> when upstream values are missing; the indexes to create.\<close>

definition known_total_length :: "dag \<Rightarrow> operator \<Rightarrow> id_str \<Rightarrow> db \<Rightarrow> int option result" where
  "known_total_length d op run_id s =
     (case get_mapped_ti_count (d_dag_id d) op run_id s of
        Inr n \<Rightarrow> Inr (Some n) | Inl (NotFullyPopulated m) \<Rightarrow> Inr None | Inl e \<Rightarrow> Inl e)"

definition missing_indexes :: "int option \<Rightarrow> int list \<Rightarrow> int list result" where
  "missing_indexes total_length indexes =
     (case total_length of
        None \<Rightarrow> Inr []
      | Some n \<Rightarrow>
          if n < 1 then Inr []
          else if indexes = [] then Inl (TypeError ''NoneType + int'')
          else Inr (int_range (list_max indexes + 1) n))"

definition expand_mapped_task :: "(task_instance \<Rightarrow> task_instance) \<Rightarrow> (ti_primary \<Rightarrow> bool) \<Rightarrow> dag \<Rightarrow> operator \<Rightarrow>
    id_str \<Rightarrow> db \<Rightarrow> (ti_primary list \<times> int \<times> db) result" where
  "expand_mapped_task hook locked d op run_id s =
     bind_err (known_total_length d op run_id s) (\<lambda>total_length.
     let (expanded, state, s1) = expand_unmapped d op run_id total_length s in
     bind_err (missing_indexes total_length (map_indexes_of (d_dag_id d) (op_task_id op) run_id s1)) (\<lambda>indexes_to_map.
     bind_err (add_expanded hook d run_id op state indexes_to_map s1) (\<lambda>(created, s2).
       let total_expanded_ti_count = (case total_length of None \<Rightarrow> 0 | Some n \<Rightarrow> n) in
       Inr (expanded @ created, total_expanded_ti_count - 1,
            remove_indexes (d_dag_id d) (op_task_id op) run_id
              (\<lambda>ti. total_expanded_ti_count \<le> ti_map_index ti \<and> \<not> locked (ti_primary ti)) s2))))"

text \<open>\<open>_revise_map_indexes_if_mapped\<close>: the new instances, created while the caller consumes them.\<close>

definition revise_map_indexes_if_mapped :: "(task_instance \<Rightarrow> task_instance) \<Rightarrow> dag \<Rightarrow> operator \<Rightarrow> id_str \<Rightarrow> db \<Rightarrow>
    (ti_primary list \<times> db) result" where
  "revise_map_indexes_if_mapped hook d op run_id s =
     (case get_mapped_ti_count (d_dag_id d) op run_id s of
        Inl NotMapped \<Rightarrow> Inr ([], s)
      | Inl (NotFullyPopulated m) \<Rightarrow> Inr ([], s)
      | Inl e \<Rightarrow> Inl e
      | Inr total_length \<Rightarrow>
          let existing = map_indexes_of (d_dag_id d) (op_task_id op) run_id s;
              s1 = remove_indexes (d_dag_id d) (op_task_id op) run_id
                (\<lambda>ti. \<not> (0 \<le> ti_map_index ti \<and> ti_map_index ti < total_length)) s in
          add_expanded hook d run_id op None (filter (\<lambda>i. i \<notin> set existing) (int_range 0 total_length)) s1)"

subsection \<open>What expansion leaves\<close>

text \<open>A hook that leaves the key and the state of the task instance alone.\<close>

definition keeps_identity :: "(task_instance \<Rightarrow> task_instance) \<Rightarrow> bool" where
  "keeps_identity f \<longleftrightarrow> (\<forall>ti. ti_primary (f ti) = ti_primary ti \<and> ti_state (f ti) = ti_state ti)"

lemma create_ti_row:
  "create_ti hook d run_id op i st = Inr ti \<Longrightarrow> keeps_identity hook \<Longrightarrow>
   ti_primary ti = (d_dag_id d, op_task_id op, run_id, i) \<and> ti_state ti = st"
  by (auto simp: create_ti_def insert_mapping_def keeps_identity_def ti_primary_def)

lemma refresh_from_task_row:
  "refresh_from_task d op p ti = Inr ti' \<Longrightarrow> ti_primary ti' = ti_primary ti \<and> ti_state ti' = ti_state ti"
  by (auto simp: refresh_from_task_def ti_primary_def)

lemma add_expanded_rows:
  "add_expanded hook d run_id op st is s = Inr (ks, s') \<Longrightarrow> keeps_identity hook \<Longrightarrow>
   ks = map (\<lambda>i. (d_dag_id d, op_task_id op, run_id, i)) is \<and>
    (\<exists>rows. db_tis s' = db_tis s @ rows \<and> map ti_primary rows = ks \<and> (\<forall>r \<in> set rows. ti_state r = st))"
proof (induction hook d run_id op st "is" s arbitrary: ks s' rule: add_expanded.induct)
  case (2 hook d run_id op st i "is" s)
  from "2.prems"(1) obtain ti ti' ks' where r: "create_ti hook d run_id op i st = Inr ti" "refresh_from_task d op None ti = Inr ti'"
    "add_expanded hook d run_id op st is (add_ti ti' s) = Inr (ks', s')" "ks = ti_primary ti' # ks'"
    by auto
  have key: "ti_primary ti' = (d_dag_id d, op_task_id op, run_id, i)" "ti_state ti' = st"
    using create_ti_row [OF r(1) "2.prems"(2)] refresh_from_task_row [OF r(2)] by auto
  from "2.IH" [OF r(1,2,3) "2.prems"(2)] obtain rows where "ks' = map (\<lambda>i. (d_dag_id d, op_task_id op, run_id, i)) is"
    "db_tis s' = db_tis (add_ti ti' s) @ rows" "map ti_primary rows = ks'" "\<forall>r \<in> set rows. ti_state r = st"
    by blast
  then show ?case using key r(4) by (auto simp: add_ti_def intro!: exI [of _ "ti' # rows"])
qed auto

lemma list_max_Max: "xs \<noteq> [] \<Longrightarrow> list_max xs = Max (set xs)"
  by (cases xs) (simp_all only: list_max.simps Max.set_eq_fold list.distinct)

text \<open>The rows of the task and those of all others, seen as lists.\<close>

definition other_rows :: "id_str \<Rightarrow> id_str \<Rightarrow> id_str \<Rightarrow> db \<Rightarrow> task_instance list" where
  "other_rows dag_id task_id run_id s = filter (\<lambda>ti. \<not> is_task_row dag_id task_id run_id ti) (db_tis s)"

lemma is_task_row_primary:
  "is_task_row dag_id task_id run_id ti \<longleftrightarrow> (\<exists>i. ti_primary ti = (dag_id, task_id, run_id, i))"
  by (auto simp: is_task_row_def ti_primary_def)

lemma remove_indexes_rows:
  "map_indexes_of dag_id task_id run_id (remove_indexes dag_id task_id run_id P s) = map_indexes_of dag_id task_id run_id s"
  "other_rows dag_id task_id run_id (remove_indexes dag_id task_id run_id P s) = other_rows dag_id task_id run_id s"
  "map ti_primary (db_tis (remove_indexes dag_id task_id run_id P s)) = map ti_primary (db_tis s)"
proof -
  let ?f = "\<lambda>ti. if is_task_row dag_id task_id run_id ti \<and> P ti then ti\<lparr>ti_state := Some REMOVED\<rparr> else ti"
  have f: "is_task_row dag_id task_id run_id (?f ti) = is_task_row dag_id task_id run_id ti"
    "ti_map_index (?f ti) = ti_map_index ti" "ti_primary (?f ti) = ti_primary ti" for ti
    by (auto simp: is_task_row_def ti_primary_def)
  have "map ti_map_index (filter (is_task_row dag_id task_id run_id) (map ?f xs)) =
      map ti_map_index (filter (is_task_row dag_id task_id run_id) xs)" for xs
    by (induction xs) (simp_all only: list.map filter.simps f split: if_split, simp_all add: f)
  moreover have "filter (\<lambda>ti. \<not> is_task_row dag_id task_id run_id ti) (map ?f xs) =
      filter (\<lambda>ti. \<not> is_task_row dag_id task_id run_id ti) xs" for xs
    by (induction xs) (auto simp: is_task_row_def)
  moreover have "map ti_primary (map ?f xs) = map ti_primary xs" for xs
    by (simp add: f(3) comp_def)
  ultimately show
    "map_indexes_of dag_id task_id run_id (remove_indexes dag_id task_id run_id P s) = map_indexes_of dag_id task_id run_id s"
    "other_rows dag_id task_id run_id (remove_indexes dag_id task_id run_id P s) = other_rows dag_id task_id run_id s"
    "map ti_primary (db_tis (remove_indexes dag_id task_id run_id P s)) = map ti_primary (db_tis s)"
    by (simp_all add: map_indexes_of_def other_rows_def remove_indexes_def)
qed

lemma remove_indexes_removed:
  "r \<in> set (db_tis (remove_indexes dag_id task_id run_id (\<lambda>ti. n \<le> ti_map_index ti) s)) \<Longrightarrow>
   is_task_row dag_id task_id run_id r \<Longrightarrow> n \<le> ti_map_index r \<Longrightarrow> ti_state r = Some REMOVED"
  by (auto simp: remove_indexes_def split: if_split_asm)

lemma map_indexes_iff:
  "i \<in> set (map_indexes_of dag_id task_id run_id s) \<longleftrightarrow> (dag_id, task_id, run_id, i) \<in> ti_primary ` set (db_tis s)"
  by (auto simp: map_indexes_of_def is_task_row_def ti_primary_def image_iff)

lemma find_ti_None_iff: "find_ti s k = None \<longleftrightarrow> k \<notin> ti_primary ` set (db_tis s)"
  by (auto simp: find_ti_def find_None_iff)

text \<open>The unmapped task instance becomes the first mapped one, or makes room for the one there is.\<close>

lemma expand_unmapped_indexes:
  assumes "expand_unmapped d op run_id (Some n) s = (ks, st, s1)" "0 < n"
    "find_ti s (d_dag_id d, op_task_id op, run_id, -1) = Some ti" "unfinished (ti_state ti)"
    "distinct (map ti_primary (db_tis s))"
    "set (map_indexes_of (d_dag_id d) (op_task_id op) run_id s) = insert (-1) {0..<m}" "0 \<le> m"
  shows "set (map_indexes_of (d_dag_id d) (op_task_id op) run_id s1) = {0..<max 1 m}"
    "distinct (map ti_primary (db_tis s1))" "st = ti_state ti"
    "other_rows (d_dag_id d) (op_task_id op) run_id s1 = other_rows (d_dag_id d) (op_task_id op) run_id s"
    "ks = (if m = 0 then [(d_dag_id d, op_task_id op, run_id, 0)] else [])"
proof -
  let ?k = "(d_dag_id d, op_task_id op, run_id, -1)" and ?first = "(d_dag_id d, op_task_id op, run_id, 0)"
  let ?idx = "\<lambda>s i. i \<in> set (map_indexes_of (d_dag_id d) (op_task_id op) run_id s)"
  have idx: "?idx s i \<longleftrightarrow> i = -1 \<or> 0 \<le> i \<and> i < m" for i using assms(6) by auto
  have k0: "find_ti s ?first = None \<longleftrightarrow> m = 0"
    using idx [of 0] assms(7) by (auto simp: find_ti_None_iff map_indexes_iff)
  have all: "(\<forall>i. ?idx s1 i \<longleftrightarrow> 0 \<le> i \<and> i < max 1 m) \<and> distinct (map ti_primary (db_tis s1)) \<and> st = ti_state ti \<and>
    other_rows (d_dag_id d) (op_task_id op) run_id s1 = other_rows (d_dag_id d) (op_task_id op) run_id s \<and>
    ks = (if m = 0 then [?first] else [])"
  proof (cases "m = 0")
    case True
    then have fresh: "?first \<notin> ti_primary ` set (db_tis s)" using k0 by (simp add: find_ti_None_iff)
    have r: "ks = [?first]" "st = ti_state ti" "s1 = update_ti ?k (\<lambda>r. r\<lparr>ti_map_index := 0\<rparr>) s"
      using assms(1-4) True k0 by (simp_all add: expand_unmapped_def Let_def del: unfinished.simps)
    let ?f = "\<lambda>ti. if ti_primary ti = ?k then ti\<lparr>ti_map_index := 0\<rparr> else ti"
    have prim: "map ti_primary (db_tis s1) = map (\<lambda>p. if p = ?k then ?first else p) (map ti_primary (db_tis s))"
      by (auto simp: r(3) update_ti_def ti_primary_def)
    have "inj_on (\<lambda>p. if p = ?k then ?first else p) (ti_primary ` set (db_tis s))"
      using fresh by (auto simp: inj_on_def) (metis image_eqI)
    then have "distinct (map ti_primary (db_tis s1))"
      using assms(5) unfolding prim by (simp add: distinct_map comp_inj_on)
    moreover have "?idx s1 i \<longleftrightarrow> 0 \<le> i \<and> i < max 1 m" for i
    proof -
      have "set (map ti_primary (db_tis s1)) = (\<lambda>p. if p = ?k then ?first else p) ` set (map ti_primary (db_tis s))"
        unfolding prim by (rule set_map)
      then have "ti_primary ` set (db_tis s1) = (\<lambda>p. if p = ?k then ?first else p) ` ti_primary ` set (db_tis s)"
        by (simp only: set_map)
      moreover have "?k \<in> ti_primary ` set (db_tis s)" using idx [of "-1"] by (simp add: map_indexes_iff)
      ultimately show ?thesis using True idx [of i] by (auto simp: map_indexes_iff)
    qed
    moreover have "other_rows (d_dag_id d) (op_task_id op) run_id s1 = other_rows (d_dag_id d) (op_task_id op) run_id s"
    proof -
      have "filter (\<lambda>ti. \<not> is_task_row (d_dag_id d) (op_task_id op) run_id ti) (map ?f xs) =
          filter (\<lambda>ti. \<not> is_task_row (d_dag_id d) (op_task_id op) run_id ti) xs" for xs
        by (induction xs) (auto simp: is_task_row_def ti_primary_def)
      then show ?thesis by (simp add: other_rows_def r(3) update_ti_def)
    qed
    ultimately show ?thesis using True r(1,2) by simp
  next
    case False
    then have r: "ks = []" "st = ti_state ti" "db_tis s1 = filter (\<lambda>ti. ti_primary ti \<noteq> ?k) (db_tis s)"
      using assms(1-4) k0 by (auto simp: expand_unmapped_def Let_def delete_ti_def simp del: unfinished.simps split: option.splits)
    have "?idx s1 i \<longleftrightarrow> 0 \<le> i \<and> i < max 1 m" for i
      using False assms(7) idx [of i] by (auto simp: map_indexes_iff r(3) image_iff)
    moreover have "distinct (map ti_primary (db_tis s1))"
      using assms(5) by (simp add: r(3) distinct_map_filter)
    moreover have "other_rows (d_dag_id d) (op_task_id op) run_id s1 = other_rows (d_dag_id d) (op_task_id op) run_id s"
      by (auto simp: other_rows_def r(3) is_task_row_def ti_primary_def intro!: filter_cong)
    ultimately show ?thesis using False r(1,2) by simp
  qed
  show "set (map_indexes_of (d_dag_id d) (op_task_id op) run_id s1) = {0..<max 1 m}"
    using all by (intro set_eqI) (simp only: atLeastLessThan_iff)
  show "distinct (map ti_primary (db_tis s1))" "st = ti_state ti"
    "other_rows (d_dag_id d) (op_task_id op) run_id s1 = other_rows (d_dag_id d) (op_task_id op) run_id s"
    "ks = (if m = 0 then [?first] else [])"
    using all by blast+
qed

text \<open>Rows added for the next map indexes: they are new, of this task, and leave the others alone.\<close>

lemma append_expanded:
  assumes "set (map_indexes_of a t r s1) = {0..<b}" "distinct (map ti_primary (db_tis s1))"
    "db_tis s2 = db_tis s1 @ rows" "map ti_primary rows = map (\<lambda>i. (a, t, r, i)) (int_range b n)"
  shows "set (map_indexes_of a t r s2) = {0..<b} \<union> {b..n - 1}" "distinct (map ti_primary (db_tis s2))"
    "other_rows a t r s2 = other_rows a t r s1"
proof -
  have prim: "ti_primary ` set rows = (\<lambda>i. (a, t, r, i)) ` {b..n - 1}"
    using arg_cong [OF assms(4), of set] by (simp add: int_range_def)
  have "i \<in> set (map_indexes_of a t r s2) \<longleftrightarrow> i \<in> {0..<b} \<union> {b..n - 1}" for i
    using assms(1) prim by (auto simp: map_indexes_iff assms(3) image_Un)
  then show "set (map_indexes_of a t r s2) = {0..<b} \<union> {b..n - 1}" by blast
  have "is_task_row a t r x" if "x \<in> set rows" for x
  proof -
    from that have "ti_primary x \<in> (\<lambda>i. (a, t, r, i)) ` {b..n - 1}" by (simp flip: prim)
    then show ?thesis by (auto simp: is_task_row_primary)
  qed
  then show "other_rows a t r s2 = other_rows a t r s1" by (simp add: other_rows_def assms(3))
  have "ti_primary ` set (db_tis s1) \<inter> (\<lambda>i. (a, t, r, i)) ` {b..n - 1} = {}"
  proof (rule equals0I, elim IntE imageE)
    fix p i x assume p: "p = (a, t, r, i)" "i \<in> {b..n - 1}" "p = ti_primary x" "x \<in> set (db_tis s1)"
    then have "i \<in> set (map_indexes_of a t r s1)" unfolding map_indexes_iff by (metis imageI)
    with assms(1) p(2) show False by simp
  qed
  moreover have "distinct (map ti_primary rows)" by (simp add: assms(4) int_range_def distinct_map inj_on_def)
  ultimately show "distinct (map ti_primary (db_tis s2))" using assms(2) by (simp add: assms(3) prim)
qed

text \<open>
  C13. Expanding a mapped task whose unmapped instance has not run yet leaves one instance for every
  map index below the number of instances, creates only the missing ones, marks all instances
  beyond it as removed, leaves no unmapped instance, and touches no other task instance.
\<close>

theorem expansion_exact:
  assumes "expand_mapped_task hook (\<lambda>_. False) d op run_id s = Inr (ks, max_index, s')" "keeps_identity hook"
    "get_mapped_ti_count (d_dag_id d) op run_id s = Inr n" "0 < n"
    "find_ti s (d_dag_id d, op_task_id op, run_id, -1) = Some ti" "unfinished (ti_state ti)"
    "distinct (map ti_primary (db_tis s))"
    "set (map_indexes_of (d_dag_id d) (op_task_id op) run_id s) = insert (-1) {0..<m}" "0 \<le> m"
  shows "set (map_indexes_of (d_dag_id d) (op_task_id op) run_id s') = {0..<max n m} \<and> max_index = n - 1 \<and>
    ks = map (\<lambda>i. (d_dag_id d, op_task_id op, run_id, i)) [m..n - 1] \<and>
    distinct (map ti_primary (db_tis s')) \<and>
    (\<forall>r \<in> set (db_tis s'). is_task_row (d_dag_id d) (op_task_id op) run_id r \<and> n \<le> ti_map_index r \<longrightarrow>
       ti_state r = Some REMOVED) \<and>
    other_rows (d_dag_id d) (op_task_id op) run_id s' = other_rows (d_dag_id d) (op_task_id op) run_id s"
proof -
  let ?d = "d_dag_id d" and ?t = "op_task_id op"
  obtain ks1 st s1 where u: "expand_unmapped d op run_id (Some n) s = (ks1, st, s1)"
    by (metis prod_cases3)
  note e = expand_unmapped_indexes [OF u assms(4-9)]
  have ne: "map_indexes_of ?d ?t run_id s1 \<noteq> []" using e(1) by (metis atLeastLessThan_empty_iff2 empty_set less_max_iff_disj zero_less_one)
  have "Max {0..<max 1 m} = max 1 m - 1" for m :: int
    by (rule Max_eqI) auto
  then have start: "list_max (map_indexes_of ?d ?t run_id s1) + 1 = max 1 m"
    using list_max_Max [OF ne] e(1) by simp
  from assms(1,3,4) ne obtain ks2 s2 where
    a: "add_expanded hook d run_id op st (int_range (max 1 m) n) s1 = Inr (ks2, s2)"
    and r: "ks = ks1 @ ks2" "max_index = n - 1" "s' = remove_indexes ?d ?t run_id (\<lambda>ti. n \<le> ti_map_index ti) s2"
    by (auto simp: expand_mapped_task_def known_total_length_def missing_indexes_def u start)
  from add_expanded_rows [OF a assms(2)] obtain rows where
    rows: "ks2 = map (\<lambda>i. (?d, ?t, run_id, i)) (int_range (max 1 m) n)" "db_tis s2 = db_tis s1 @ rows"
    "map ti_primary rows = ks2" by blast
  note added = append_expanded [OF e(1,2) rows(2) rows(3) [unfolded rows(1)]]
  have "set (map_indexes_of ?d ?t run_id s2) = {0..<max n m}" using added(1) assms(4) by (simp add: set_eq_iff max_def) linarith
  then have "set (map_indexes_of ?d ?t run_id s') = {0..<max n m}" unfolding r(3) remove_indexes_rows .
  moreover have "ks = map (\<lambda>i. (?d, ?t, run_id, i)) [m..n - 1]"
  proof (cases "m = 0")
    case True
    with upto_rec1 [of 0 "n - 1"] assms(4) show ?thesis by (simp add: r(1) e(5) rows(1) int_range_def)
  next
    case False
    then have "max 1 m = m" using assms(9) by simp
    with False show ?thesis by (simp add: r(1) e(5) rows(1) int_range_def)
  qed
  moreover have "\<forall>r \<in> set (db_tis s'). is_task_row ?d ?t run_id r \<and> n \<le> ti_map_index r \<longrightarrow> ti_state r = Some REMOVED"
    unfolding r(3) by (intro ballI impI, elim conjE) (rule remove_indexes_removed)
  ultimately show ?thesis using added(2,3) e(4)
    unfolding r(3) remove_indexes_rows by (simp only: r(2) simp_thms)
qed

definition sample_expand_op :: operator where
  "sample_expand_op = (sample_op ''a'')\<lparr>op_is_mapped := True,
     op_expand_input := DictOfListsExpandInput [(''x'', ListArgument [PInt 1, PInt 2])]\<rparr>"

lemma expansion_exact_witness:
  "\<exists>s'. expand_mapped_task (\<lambda>ti. ti) (\<lambda>_. False) (sample_dag [sample_expand_op]) sample_expand_op ''r''
      (sample_db [sample_ti ''a'' None]) = Inr ([(''d'', ''a'', ''r'', 0), (''d'', ''a'', ''r'', 1)], 1, s') \<and>
    set (map_indexes_of ''d'' ''a'' ''r'' s') = {0, 1}"
proof -
  let ?s = "sample_db [sample_ti ''a'' None]" and ?d = "sample_dag [sample_expand_op]"
  have "case expand_mapped_task (\<lambda>ti. ti) (\<lambda>_. False) ?d sample_expand_op ''r'' ?s of
      Inl _ \<Rightarrow> False | Inr (ks, i, s') \<Rightarrow> ks = [(''d'', ''a'', ''r'', 0), (''d'', ''a'', ''r'', 1)] \<and> i = 1" by code_simp
  then obtain s' where r: "expand_mapped_task (\<lambda>ti. ti) (\<lambda>_. False) ?d sample_expand_op ''r'' ?s =
      Inr ([(''d'', ''a'', ''r'', 0), (''d'', ''a'', ''r'', 1)], 1, s')" by (auto split: sum.splits)
  have i: "keeps_identity (\<lambda>ti. ti)" by (simp add: keeps_identity_def)
  have n: "get_mapped_ti_count (d_dag_id ?d) sample_expand_op ''r'' ?s = Inr 2" by code_simp
  have h: "find_ti ?s (d_dag_id ?d, op_task_id sample_expand_op, ''r'', -1) = Some (sample_ti ''a'' None)"
    "unfinished (ti_state (sample_ti ''a'' None))" "distinct (map ti_primary (db_tis ?s))"
    "set (map_indexes_of (d_dag_id ?d) (op_task_id sample_expand_op) ''r'' ?s) = insert (-1) {0..<0}"
    "d_dag_id ?d = ''d''" "op_task_id sample_expand_op = ''a''"
    by (simp_all add: find_ti_def ti_primary_def map_indexes_of_def is_task_row_def sample_expand_op_def sample_defs)
  have "{0..<2} = {0, 1::int}" by auto
  with expansion_exact [OF r i n _ h(1-4)] r h(5,6) show ?thesis by simp
qed

end
