(* ===== verification/Triggers.thy ===== *)
theory Triggers
  imports Ti_Lifecycle
begin

text \<open>
  The rows of triggers (\<open>models/trigger.py\<close>): events and failures resume the task instances deferred
  on a trigger, triggers nobody waits for are deleted, and unassigned triggers are given to a
  triggerer up to its capacity. A comparison with NULL is not true in SQL: \<open>state != DEFERRED\<close>
  leaves out the task instances without state.
\<close>

definition fetch_triggers :: "int list \<Rightarrow> db \<Rightarrow> (int \<times> trigger_row) list" where
  "fetch_triggers ids s =
     map (\<lambda>t. (tg_id t, t)) (filter (\<lambda>t. tg_id t \<in> set ids) (db_triggers s))"

definition waits_for :: "int \<Rightarrow> task_instance \<Rightarrow> bool" where
  "waits_for trigger_id ti \<longleftrightarrow> ti_trigger_id ti = Some trigger_id \<and> ti_state ti = Some DEFERRED"

definition with_event :: "pyval \<Rightarrow> pyval option \<Rightarrow> pyval" where
  "with_event payload next_kwargs =
     (case next_kwargs of
        Some (PDict d) \<Rightarrow> PDict (dict_set ''event'' payload d)
      | _ \<Rightarrow> PDict [(''event'', payload)])"

definition resume_row :: "pyval \<Rightarrow> task_instance \<Rightarrow> task_instance" where
  "resume_row payload ti = ti\<lparr>ti_next_kwargs := Some (with_event payload (ti_next_kwargs ti)),
     ti_trigger_id := None, ti_state := Some SCHEDULED\<rparr>"

definition submit_event :: "int \<Rightarrow> pyval \<Rightarrow> db \<Rightarrow> db" where
  "submit_event trigger_id payload s =
     s\<lparr>db_tis := map (\<lambda>ti. if waits_for trigger_id ti then resume_row payload ti else ti) (db_tis s)\<rparr>"

text \<open>\<open>traceback\<close> is the formatted exception, if there is one.\<close>

definition fail_resume_row :: "pyval \<Rightarrow> task_instance \<Rightarrow> task_instance" where
  "fail_resume_row traceback ti = ti\<lparr>ti_next_method := Some ''__fail__'',
     ti_next_kwargs := Some (PDict [(''error'', PStr ''Trigger failure''), (''traceback'', traceback)]),
     ti_trigger_id := None, ti_state := Some SCHEDULED\<rparr>"

definition submit_failure :: "int \<Rightarrow> pyval \<Rightarrow> db \<Rightarrow> db" where
  "submit_failure trigger_id traceback s =
     s\<lparr>db_tis := map (\<lambda>ti. if waits_for trigger_id ti then fail_resume_row traceback ti else ti) (db_tis s)\<rparr>"

definition drop_trigger :: "task_instance \<Rightarrow> task_instance" where
  "drop_trigger ti =
     (if ti_state ti \<noteq> None \<and> ti_state ti \<noteq> Some DEFERRED \<and> ti_trigger_id ti \<noteq> None
      then ti\<lparr>ti_trigger_id := None\<rparr> else ti)"

definition clean_unused :: "db \<Rightarrow> db" where
  "clean_unused s =
     (let tis = map drop_trigger (db_tis s) in
      s\<lparr>db_tis := tis,
        db_triggers := filter (\<lambda>t. 0 < count_where (\<lambda>ti. ti_trigger_id ti = Some (tg_id t)) tis)
          (db_triggers s)\<rparr>)"

definition ids_for_triggerer :: "int \<Rightarrow> db \<Rightarrow> int list" where
  "ids_for_triggerer triggerer_id s =
     map tg_id (filter (\<lambda>t. tg_triggerer_id t = Some triggerer_id) (db_triggers s))"

text \<open>The join has a row per task instance of a trigger; \<open>locked\<close> are the trigger rows other
  triggerers have locked, which are skipped. \<open>triggerer_id NOT IN (alive)\<close> is true of a value that is
  not in the list.\<close>

definition get_sorted_triggers :: "(int \<Rightarrow> bool) \<Rightarrow> int \<Rightarrow> int list \<Rightarrow> db \<Rightarrow> int list" where
  "get_sorted_triggers locked capacity alive_triggerer_ids s =
     (let rows = concat (map (\<lambda>t. map (\<lambda>ti. (t, ti))
            (filter (\<lambda>ti. ti_trigger_id ti = Some (tg_id t)) (db_tis s))) (db_triggers s));
          free = filter (\<lambda>(t, ti). (case tg_triggerer_id t of None \<Rightarrow> True
              | Some i \<Rightarrow> i \<notin> set alive_triggerer_ids) \<and> \<not> locked (tg_id t)) rows in
      map (\<lambda>(t, ti). tg_id t) (take (nat capacity)
        (sort_key (\<lambda>(t, ti). - ti_priority_weight ti) (sort_key (\<lambda>(t, ti). tg_created_date t) free))))"

definition alive_triggerers :: "time \<Rightarrow> duration \<Rightarrow> db \<Rightarrow> int list" where
  "alive_triggerers now health_check_threshold s =
     map jb_id (filter (\<lambda>j. jb_end_date j = None \<and> now - health_check_threshold < jb_latest_heartbeat j \<and>
        jb_job_type j = ''TriggererJob'') (db_jobs s))"

definition assign_unassigned :: "time \<Rightarrow> (int \<Rightarrow> bool) \<Rightarrow> int \<Rightarrow> int \<Rightarrow> duration \<Rightarrow> db \<Rightarrow> db" where
  "assign_unassigned now locked triggerer_id capacity health_check_threshold s =
     (let count = int (length (ids_for_triggerer triggerer_id s)); free = capacity - count in
      if free \<le> 0 then s
      else
        let ids = get_sorted_triggers locked free (alive_triggerers now health_check_threshold s) s in
        if ids = [] then s
        else s\<lparr>db_triggers := map (\<lambda>t. if tg_id t \<in> set ids then t\<lparr>tg_triggerer_id := Some triggerer_id\<rparr> else t)
               (db_triggers s)\<rparr>)"

end
