(* ===== verification/Ti_Filter.thy ===== *)
theory Ti_Filter
  imports Metadata
begin

text \<open>
  \<open>TaskInstance.filter_for_tis\<close> (\<open>models/taskinstance.py\<close>): the SQL condition that selects a given
  collection of task instances, built in groups so that it stays short. A condition is a list of
  clauses (their disjunction); a clause lists the values each of the four key columns may take, an
  equation being a singleton list. The theory shows that the condition selects the rows asked for
  and no other.
\<close>

type_synonym ti_clause = "id_str list \<times> id_str list \<times> id_str list \<times> int list"

fun clause_holds :: "ti_clause \<Rightarrow> ti_primary \<Rightarrow> bool" where
  "clause_holds (dag_ids, task_ids, run_ids, map_indices) (d, t, r, m) \<longleftrightarrow>
     d \<in> set dag_ids \<and> t \<in> set task_ids \<and> r \<in> set run_ids \<and> m \<in> set map_indices"

text \<open>\<open>groups[g][k].append(v)\<close> on a dictionary of dictionaries of lists.\<close>

definition group_append ::
  "'g \<Rightarrow> 'k \<Rightarrow> 'v \<Rightarrow> ('g \<times> ('k \<times> 'v list) list) list \<Rightarrow> ('g \<times> ('k \<times> 'v list) list) list" where
  "group_append g k v groups = dict_set g (dict_append k v (dict_get_or groups [] g)) groups"

fun task_id_groups :: "ti_primary list \<Rightarrow> ((id_str \<times> id_str) \<times> (id_str \<times> int list) list) list \<Rightarrow>
    ((id_str \<times> id_str) \<times> (id_str \<times> int list) list) list" where
  "task_id_groups [] groups = groups"
| "task_id_groups ((d, t, r, m) # tis) groups = task_id_groups tis (group_append (d, r) t m groups)"

fun map_index_groups :: "ti_primary list \<Rightarrow> ((id_str \<times> id_str) \<times> (int \<times> id_str list) list) list \<Rightarrow>
    ((id_str \<times> id_str) \<times> (int \<times> id_str list) list) list" where
  "map_index_groups [] groups = groups"
| "map_index_groups ((d, t, r, m) # tis) groups = map_index_groups tis (group_append (d, r) m t groups)"

definition filter_for_tis :: "ti_primary list \<Rightarrow> ti_clause list option" where
  "filter_for_tis tis =
     (case tis of
        [] \<Rightarrow> None
      | (dag_id, first_task_id, run_id, map_index) # _ \<Rightarrow>
          let dag_ids = remdups (map (\<lambda>(d, t, r, m). d) tis);
              run_ids = remdups (map (\<lambda>(d, t, r, m). r) tis);
              map_indices = remdups (map (\<lambda>(d, t, r, m). m) tis);
              task_ids = remdups (map (\<lambda>(d, t, r, m). t) tis) in
          if dag_ids = [dag_id] \<and> run_ids = [run_id] \<and> map_indices = [map_index]
          then Some [([dag_id], task_ids, [run_id], [map_index])]
          else if dag_ids = [dag_id] \<and> task_ids = [first_task_id] \<and> map_indices = [map_index]
          then Some [([dag_id], [first_task_id], run_ids, [map_index])]
          else if dag_ids = [dag_id] \<and> run_ids = [run_id] \<and> task_ids = [first_task_id]
          then Some [([dag_id], [first_task_id], [run_id], map_indices)]
          else
            let tgroups = task_id_groups tis []; mgroups = map_index_groups tis [] in
            Some (concat (map (\<lambda>(cur_dag_id, cur_run_id).
              let dag_task_id_groups = dict_get_or tgroups [] (cur_dag_id, cur_run_id);
                  dag_map_index_groups = dict_get_or mgroups [] (cur_dag_id, cur_run_id) in
              if length dag_task_id_groups \<le> length dag_map_index_groups
              then map (\<lambda>(cur_task_id, cur_map_indices).
                     ([cur_dag_id], [cur_task_id], [cur_run_id], cur_map_indices)) dag_task_id_groups
              else map (\<lambda>(cur_map_index, cur_task_ids).
                     ([cur_dag_id], cur_task_ids, [cur_run_id], [cur_map_index])) dag_map_index_groups)
              (List.product dag_ids run_ids))))"

definition filter_selects :: "ti_clause list option \<Rightarrow> ti_primary \<Rightarrow> bool" where
  "filter_selects f k = (case f of None \<Rightarrow> False | Some cs \<Rightarrow> list_ex (\<lambda>c. clause_holds c k) cs)"

subsection \<open>The groups\<close>

definition lists_of :: "('k \<times> 'v list) list \<Rightarrow> 'k \<Rightarrow> 'v \<Rightarrow> bool" where
  "lists_of d k v \<longleftrightarrow> v \<in> set (dict_get_or d [] k)"

lemma lists_of_Nil: "\<not> lists_of [] k v"
  by (simp add: lists_of_def)

lemma distinct_dict_append [simp]: "distinct (dict_keys d) \<Longrightarrow> distinct (dict_keys (dict_append k v d))"
  by (simp add: dict_append_def)

lemma group_append_get:
  "dict_get_or (group_append g k v groups) [] g' =
   (if g' = g then dict_append k v (dict_get_or groups [] g) else dict_get_or groups [] g')"
  by (simp add: group_append_def store_simps)

lemma task_id_groups_get:
  "lists_of (dict_get_or (task_id_groups tis groups) [] (d, r)) t m \<longleftrightarrow>
     lists_of (dict_get_or groups [] (d, r)) t m \<or> (d, t, r, m) \<in> set tis"
  by (induction tis groups rule: task_id_groups.induct)
    (auto simp: lists_of_def group_append_get store_simps)

lemma map_index_groups_get:
  "lists_of (dict_get_or (map_index_groups tis groups) [] (d, r)) m t \<longleftrightarrow>
     lists_of (dict_get_or groups [] (d, r)) m t \<or> (d, t, r, m) \<in> set tis"
  by (induction tis groups rule: map_index_groups.induct)
    (auto simp: lists_of_def group_append_get store_simps)

lemma task_id_groups_distinct:
  "(\<And>g. distinct (dict_keys (dict_get_or groups [] g))) \<Longrightarrow>
   distinct (dict_keys (dict_get_or (task_id_groups tis groups) [] g))"
  by (induction tis groups rule: task_id_groups.induct) (auto simp: group_append_get)

lemma map_index_groups_distinct:
  "(\<And>g. distinct (dict_keys (dict_get_or groups [] g))) \<Longrightarrow>
   distinct (dict_keys (dict_get_or (map_index_groups tis groups) [] g))"
  by (induction tis groups rule: map_index_groups.induct) (auto simp: group_append_get)

lemma groups_of_keys:
  "lists_of (dict_get_or (task_id_groups tis []) [] (d, r)) t m \<longleftrightarrow> (d, t, r, m) \<in> set tis"
  "lists_of (dict_get_or (map_index_groups tis []) [] (d, r)) m t \<longleftrightarrow> (d, t, r, m) \<in> set tis"
  "distinct (dict_keys (dict_get_or (task_id_groups tis []) [] g))"
  "distinct (dict_keys (dict_get_or (map_index_groups tis []) [] g))"
     apply (simp add: task_id_groups_get lists_of_Nil)
    apply (simp add: map_index_groups_get lists_of_Nil)
   apply (rule task_id_groups_distinct, simp add: dict_keys_def)
  apply (rule map_index_groups_distinct, simp add: dict_keys_def)
  done

lemma lists_of_mem:
  "distinct (dict_keys d) \<Longrightarrow> lists_of d k v \<longleftrightarrow> (\<exists>vs. (k, vs) \<in> set d \<and> v \<in> set vs)"
  by (auto simp: lists_of_def dict_get_or_def dict_keys_def split: option.splits dest: map_of_SomeD)

lemma remdups_singleton: "remdups xs = [x] \<Longrightarrow> y \<in> set xs \<longleftrightarrow> y = x"
  by (metis empty_set list.simps(15) set_remdups singleton_iff)

lemma clauses_of_pair:
  assumes "(d, t, r, m) \<in> set tis \<Longrightarrow> d \<in> set dag_ids \<and> r \<in> set run_ids"
    and tg: "\<And>d r t m. lists_of (tg (d, r)) t m \<longleftrightarrow> (d, t, r, m) \<in> set tis"
    and mg: "\<And>d r t m. lists_of (mg (d, r)) m t \<longleftrightarrow> (d, t, r, m) \<in> set tis"
    and dt: "\<And>g. distinct (dict_keys (tg g))" and dm: "\<And>g. distinct (dict_keys (mg g))"
  shows "list_ex (\<lambda>c. clause_holds c (d, t, r, m))
     (concat (map (\<lambda>(d, r).
        let ts = tg (d, r); ms = mg (d, r) in
        if length ts \<le> length ms then map (\<lambda>(t, is). ([d], [t], [r], is)) ts
        else map (\<lambda>(i, ts). ([d], ts, [r], [i])) ms) (List.product dag_ids run_ids)))
     \<longleftrightarrow> (d, t, r, m) \<in> set tis" (is "?L \<longleftrightarrow> ?R")
proof -
  have "?L \<longleftrightarrow> d \<in> set dag_ids \<and> r \<in> set run_ids \<and>
      (if length (tg (d, r)) \<le> length (mg (d, r)) then lists_of (tg (d, r)) t m
       else lists_of (mg (d, r)) m t)"
    using dt [of "(d, r)"] dm [of "(d, r)"]
    by (auto simp: list_ex_iff Let_def lists_of_mem split: if_splits) fastforce+
  with tg [of d r t m] mg [of d r m t] assms(1) show ?thesis by auto
qed

lemma filter_for_tis_None: "filter_for_tis tis = None \<longleftrightarrow> tis = []"
  by (auto simp: filter_for_tis_def Let_def split: list.splits prod.splits if_splits)

text \<open>The condition with the columns of the keys named.\<close>

lemma filter_for_tis_shape:
  assumes "tis = k1 # rest" and "k1 = (d1, t1, r1, m1)"
  shows "filter_for_tis tis =
    (let ds = remdups (map (\<lambda>(d, t, r, m). d) tis); rs = remdups (map (\<lambda>(d, t, r, m). r) tis);
         ms = remdups (map (\<lambda>(d, t, r, m). m) tis); ts = remdups (map (\<lambda>(d, t, r, m). t) tis) in
     if ds = [d1] \<and> rs = [r1] \<and> ms = [m1] then Some [([d1], ts, [r1], [m1])]
     else if ds = [d1] \<and> ts = [t1] \<and> ms = [m1] then Some [([d1], [t1], rs, [m1])]
     else if ds = [d1] \<and> rs = [r1] \<and> ts = [t1] then Some [([d1], [t1], [r1], ms)]
     else Some (concat (map (\<lambda>(d, r).
        let ts = dict_get_or (task_id_groups tis []) [] (d, r);
            ms = dict_get_or (map_index_groups tis []) [] (d, r) in
        if length ts \<le> length ms then map (\<lambda>(t, is). ([d], [t], [r], is)) ts
        else map (\<lambda>(i, ts). ([d], ts, [r], [i])) ms) (List.product ds rs))))"
  using assms by (simp add: filter_for_tis_def Let_def)

lemma column_const: "remdups (map f tis) = [c] \<Longrightarrow> \<forall>x \<in> set tis. f x = c"
  using remdups_singleton [of "map f tis" c] by auto

text \<open>When the other columns \<open>c\<close> of the keys are constant, membership is membership in the
  remaining column \<open>v\<close>.\<close>

lemma one_column:
  assumes "\<forall>x \<in> set tis. c x = c1" and "inj (\<lambda>x. (c x, v x))"
  shows "x \<in> set tis \<longleftrightarrow> c x = c1 \<and> v x \<in> set (map v tis)"
proof
  assume "c x = c1 \<and> v x \<in> set (map v tis)"
  then obtain y where "y \<in> set tis" "v y = v x" "c y = c x" using assms(1) by auto
  with injD [OF assms(2), of y x] show "x \<in> set tis" by simp
qed (use assms(1) in auto)

lemma one_column_cases:
  fixes tis :: "ti_primary list"
  assumes "\<forall>x \<in> set tis. (\<lambda>(d, t, r, m). d) x = d1"
  shows
    "\<forall>x \<in> set tis. (\<lambda>(d, t, r, m). r) x = r1 \<Longrightarrow> \<forall>x \<in> set tis. (\<lambda>(d, t, r, m). m) x = m1 \<Longrightarrow>
       (d, t, r, m) \<in> set tis \<longleftrightarrow> (d, r, m) = (d1, r1, m1) \<and> t \<in> set (map (\<lambda>(d, t, r, m). t) tis)"
    "\<forall>x \<in> set tis. (\<lambda>(d, t, r, m). t) x = t1 \<Longrightarrow> \<forall>x \<in> set tis. (\<lambda>(d, t, r, m). m) x = m1 \<Longrightarrow>
       (d, t, r, m) \<in> set tis \<longleftrightarrow> (d, t, m) = (d1, t1, m1) \<and> r \<in> set (map (\<lambda>(d, t, r, m). r) tis)"
    "\<forall>x \<in> set tis. (\<lambda>(d, t, r, m). r) x = r1 \<Longrightarrow> \<forall>x \<in> set tis. (\<lambda>(d, t, r, m). t) x = t1 \<Longrightarrow>
       (d, t, r, m) \<in> set tis \<longleftrightarrow> (d, t, r) = (d1, t1, r1) \<and> m \<in> set (map (\<lambda>(d, t, r, m). m) tis)"
  subgoal using assms one_column [of tis "\<lambda>(d, t, r, m). (d, r, m)" "(d1, r1, m1)" "\<lambda>(d, t, r, m). t" "(d, t, r, m)"]
    by (simp add: inj_def split_def prod_eq_iff)
  subgoal using assms one_column [of tis "\<lambda>(d, t, r, m). (d, t, m)" "(d1, t1, m1)" "\<lambda>(d, t, r, m). r" "(d, t, r, m)"]
    by (simp add: inj_def split_def prod_eq_iff)
  subgoal using assms one_column [of tis "\<lambda>(d, t, r, m). (d, t, r)" "(d1, t1, r1)" "\<lambda>(d, t, r, m). m" "(d, t, r, m)"]
    by (simp add: inj_def split_def prod_eq_iff)
  done

lemma filter_for_tis_selects: "filter_selects (filter_for_tis tis) k \<longleftrightarrow> k \<in> set tis"
proof (cases tis)
  case (Cons k1 rest)
  obtain d1 t1 r1 m1 where k1: "k1 = (d1, t1, r1, m1)" by (metis surj_pair)
  obtain d t r m where k: "k = (d, t, r, m)" by (metis surj_pair)
  let ?ds = "remdups (map (\<lambda>(d, t, r, m). d) tis)" and ?rs = "remdups (map (\<lambda>(d, t, r, m). r) tis)"
    and ?ts = "remdups (map (\<lambda>(d, t, r, m). t) tis)" and ?ms = "remdups (map (\<lambda>(d, t, r, m). m) tis)"
  let ?tg = "dict_get_or (task_id_groups tis []) []" and ?mg = "dict_get_or (map_index_groups tis []) []"
  have pair: "list_ex (\<lambda>c. clause_holds c k)
     (concat (map (\<lambda>(d, r).
        let ts = ?tg (d, r); ms = ?mg (d, r) in
        if length ts \<le> length ms then map (\<lambda>(t, is). ([d], [t], [r], is)) ts
        else map (\<lambda>(i, ts). ([d], ts, [r], [i])) ms) (List.product ?ds ?rs))) \<longleftrightarrow> k \<in> set tis"
    unfolding k
    by (rule clauses_of_pair) (force, simp_all add: groups_of_keys)
  show ?thesis
  proof (cases "?ds = [d1] \<and> (?rs = [r1] \<and> ?ms = [m1] \<or> ?ts = [t1] \<and> ?ms = [m1] \<or>
      ?rs = [r1] \<and> ?ts = [t1])")
    case True
    from True consider "?ds = [d1]" "?rs = [r1]" "?ms = [m1]"
      | "?ds = [d1]" "?ts = [t1]" "?ms = [m1]" "\<not> (?rs = [r1] \<and> ?ms = [m1])"
      | "?ds = [d1]" "?rs = [r1]" "?ts = [t1]" "?ms \<noteq> [m1]" by blast
    then have "filter_selects (filter_for_tis tis) k \<longleftrightarrow> k \<in> set tis"
    proof cases
      case 1
      then have eq: "filter_for_tis tis = Some [([d1], ?ts, [r1], [m1])]"
        unfolding filter_for_tis_shape [OF Cons k1] by (simp add: Let_def)
      show ?thesis
        unfolding eq k one_column_cases(1) [OF column_const [OF 1(1)] column_const [OF 1(2)] column_const [OF 1(3)]]
        by (auto simp: filter_selects_def intro: rev_image_eqI)
    next
      case 2
      then have eq: "filter_for_tis tis = Some [([d1], [t1], ?rs, [m1])]"
        unfolding filter_for_tis_shape [OF Cons k1] by (simp add: Let_def)
      show ?thesis
        unfolding eq k one_column_cases(2) [OF column_const [OF 2(1)] column_const [OF 2(2)] column_const [OF 2(3)]]
        by (auto simp: filter_selects_def intro: rev_image_eqI)
    next
      case 3
      then have eq: "filter_for_tis tis = Some [([d1], [t1], [r1], ?ms)]"
        unfolding filter_for_tis_shape [OF Cons k1] by (simp add: Let_def)
      show ?thesis
        unfolding eq k one_column_cases(3) [OF column_const [OF 3(1)] column_const [OF 3(2)] column_const [OF 3(3)]]
        by (auto simp: filter_selects_def intro: rev_image_eqI)
    qed
    then show ?thesis .
  next
    case False
    have not: "\<not> (?ds = [d1] \<and> ?rs = [r1] \<and> ?ms = [m1])" "\<not> (?ds = [d1] \<and> ?ts = [t1] \<and> ?ms = [m1])"
      "\<not> (?ds = [d1] \<and> ?rs = [r1] \<and> ?ts = [t1])" using False by blast+
    have "filter_for_tis tis = Some (concat (map (\<lambda>(d, r).
        let ts = ?tg (d, r); ms = ?mg (d, r) in
        if length ts \<le> length ms then map (\<lambda>(t, is). ([d], [t], [r], is)) ts
        else map (\<lambda>(i, ts). ([d], ts, [r], [i])) ms) (List.product ?ds ?rs)))"
      by (simp only: filter_for_tis_shape [OF Cons k1] Let_def not if_False)
    with pair show ?thesis using Cons by (simp add: filter_selects_def)
  qed
qed (simp add: filter_for_tis_def filter_selects_def)

text \<open>
  The grouped condition is exact: it selects a row if and only if the key of the row is one of
  the keys asked for, whichever of the three shortcuts or groupings the keys lead to; there is no
  condition exactly when no key was given.
\<close>

theorem filter_for_tis_exact:
  "(filter_selects (filter_for_tis tis) k \<longleftrightarrow> k \<in> set tis) \<and>
   (filter_for_tis tis = None \<longleftrightarrow> tis = [])"
  by (simp add: filter_for_tis_selects filter_for_tis_None)

end
