(* ===== verification/Scheduler.thy ===== *)
theory Scheduler
  imports Executor Task_State Ti_Filter "HOL-Library.Product_Lexorder"
begin

text \<open>
  The critical section of the scheduler (\<open>jobs/scheduler_job_runner.py\<close>): the task instances in
  state SCHEDULED that fit into their pools and under the concurrency limits of their DAGs are
  chosen by priority, moved to QUEUED and handed to the executor; and what the executor reports
  back is applied to the database. Parameters: the serialised DAGs (\<open>get_dag\<close>), the rows other
  transactions have locked, the time and the id of the scheduler's job. Logging and metrics are
  left out.
\<close>

subsection \<open>Concurrency maps\<close>

record ConcurrencyMap =
  dag_active_tasks_map :: "(id_str \<times> int) list"
  task_concurrency_map :: "((id_str \<times> id_str) \<times> int) list"
  task_dagrun_concurrency_map :: "((id_str \<times> id_str \<times> id_str) \<times> int) list"

definition from_concurrency_map :: "((id_str \<times> id_str \<times> id_str) \<times> int) list \<Rightarrow> ConcurrencyMap" where
  "from_concurrency_map mapping =
     fold (\<lambda>((d, r, t), c) m. m
         \<lparr>dag_active_tasks_map := counter_add d c (dag_active_tasks_map m),
          task_concurrency_map := counter_add (d, t) c (task_concurrency_map m)\<rparr>)
       mapping \<lparr>dag_active_tasks_map = [], task_concurrency_map = [], task_dagrun_concurrency_map = mapping\<rparr>"

text \<open>The rows of the group-by query: one per task and run with a row in one of the states.\<close>

definition ti_run_task :: "task_instance \<Rightarrow> id_str \<times> id_str \<times> id_str" where
  "ti_run_task ti = (ti_dag_id ti, ti_run_id ti, ti_task_id ti)"

definition get_concurrency_maps :: "ti_state list \<Rightarrow> db \<Rightarrow> ConcurrencyMap" where
  "get_concurrency_maps states s =
     (let rows = filter (\<lambda>ti. ti_state ti \<in> set states) (db_tis s) in
      from_concurrency_map (map (\<lambda>g. (g, count_where (\<lambda>ti. ti_run_task ti = g) rows))
        (remdups (map ti_run_task rows))))"

subsection \<open>Choosing task instances\<close>

text \<open>
  The local variables of \<open>_executable_task_instances_to_queued\<close>: the session, the pool statistics,
  the concurrency map, the four sets of what is starved, and the task instances chosen so far.
\<close>

record crit =
  cr_db :: db
  cr_pools :: "(id_str \<times> PoolStats) list"
  cr_concurrency :: ConcurrencyMap
  cr_starved_pools :: "id_str list"
  cr_starved_dags :: "id_str list"
  cr_starved_tasks :: "(id_str \<times> id_str) list"
  cr_starved_task_dagruns :: "(id_str \<times> id_str \<times> id_str) list"
  cr_executable :: "task_instance list"

text \<open>
  The query: task instances in state SCHEDULED of running dag runs that are no backfill, of DAGs
  that are not paused, with nothing starved; rows locked by others are skipped.
\<close>

definition eligible :: "db \<Rightarrow> task_instance \<Rightarrow> bool" where
  "eligible s ti \<longleftrightarrow> ti_state ti = Some SCHEDULED \<and>
     (case find_dr s (ti_dag_id ti) (ti_run_id ti) of None \<Rightarrow> False
      | Some dr \<Rightarrow> dr_run_type dr \<noteq> BACKFILL_JOB \<and> dr_state dr = DR_RUNNING) \<and>
     (case find_dm s (ti_dag_id ti) of None \<Rightarrow> False | Some dm \<Rightarrow> \<not> dm_is_paused dm)"

definition starved :: "crit \<Rightarrow> task_instance \<Rightarrow> bool" where
  "starved c ti \<longleftrightarrow> ti_pool ti \<in> set (cr_starved_pools c) \<or> ti_dag_id ti \<in> set (cr_starved_dags c) \<or>
     (ti_dag_id ti, ti_task_id ti) \<in> set (cr_starved_tasks c) \<or>
     ti_run_task ti \<in> set (cr_starved_task_dagruns c)"

definition candidates :: "(ti_primary \<Rightarrow> bool) \<Rightarrow> crit \<Rightarrow> task_instance list" where
  "candidates locked c =
     filter (\<lambda>ti. eligible (cr_db c) ti \<and> \<not> starved c ti \<and> \<not> locked (ti_primary ti)) (db_tis (cr_db c))"

definition queue_order :: "db \<Rightarrow> task_instance \<Rightarrow> int \<times> time \<times> int" where
  "queue_order s ti =
     (- ti_priority_weight ti,
      (case find_dr s (ti_dag_id ti) (ti_run_id ti) of None \<Rightarrow> 0 | Some dr \<Rightarrow> dr_execution_date dr),
      ti_map_index ti)"

definition task_instances_to_examine :: "(ti_primary \<Rightarrow> bool) \<Rightarrow> int \<Rightarrow> crit \<Rightarrow> task_instance list" where
  "task_instances_to_examine locked max_tis c =
     take (nat max_tis) (sort_key (queue_order (cr_db c)) (candidates locked c))"

text \<open>The limit of a task that the serialised DAG has; none for a task it does not have.\<close>

definition serialized_limit :: "(operator \<Rightarrow> int option) \<Rightarrow> dag \<Rightarrow> id_str \<Rightarrow> int option" where
  "serialized_limit f d t =
     (if has_task d t then (case get_task d t of Inl _ \<Rightarrow> None | Inr op \<Rightarrow> f op) else None)"

definition limit_reached :: "int option \<Rightarrow> int \<Rightarrow> bool" where
  "limit_reached limit current = (case limit of None \<Rightarrow> False | Some n \<Rightarrow> n \<le> current)"

datatype verdict =
    PoolMissing | PoolFull | TooLarge | DagLimit | DagMissing | TaskLimit | TaskDagrunLimit | Execute

text \<open>The tests of the loop body, in their order. The query joins the row of the DAG, so \<open>find_dm\<close>
  finds it for every task instance examined.\<close>

definition task_verdict :: "dag \<Rightarrow> task_instance \<Rightarrow> crit \<Rightarrow> verdict" where
  "task_verdict serialized_dag ti c =
     (let m = cr_concurrency c in
      if limit_reached (serialized_limit op_max_active_tis_per_dag serialized_dag (ti_task_id ti))
           (dict_get_or (task_concurrency_map m) 0 (ti_dag_id ti, ti_task_id ti)) then TaskLimit
      else if limit_reached (serialized_limit op_max_active_tis_per_dagrun serialized_dag (ti_task_id ti))
           (dict_get_or (task_dagrun_concurrency_map m) 0 (ti_run_task ti)) then TaskDagrunLimit
      else Execute)"

definition examine_verdict :: "(id_str \<Rightarrow> dag option) \<Rightarrow> task_instance \<Rightarrow> crit \<Rightarrow> verdict" where
  "examine_verdict get_dag ti c =
     (case dict_get (cr_pools c) (ti_pool ti) of
        None \<Rightarrow> PoolMissing
      | Some pool_stats \<Rightarrow>
          if ps_open pool_stats \<le> Fin 0 then PoolFull
          else if ps_total pool_stats < Fin (ti_pool_slots ti) then TooLarge
          else if ps_open pool_stats < Fin (ti_pool_slots ti) then TooLarge
          else case find_dm (cr_db c) (ti_dag_id ti) of
            None \<Rightarrow> DagMissing
          | Some dm \<Rightarrow>
              if dm_max_active_tasks dm \<le> dict_get_or (dag_active_tasks_map (cr_concurrency c)) 0 (ti_dag_id ti)
              then DagLimit
              else if dm_has_task_concurrency_limits dm
              then (case get_dag (ti_dag_id ti) of
                      None \<Rightarrow> DagMissing
                    | Some serialized_dag \<Rightarrow> task_verdict serialized_dag ti c)
              else Execute)"

text \<open>The serialised DAG is gone: the scheduled task instances of the DAG fail.\<close>

definition fail_scheduled :: "id_str \<Rightarrow> task_instance \<Rightarrow> task_instance" where
  "fail_scheduled dag_id ti =
     (if ti_dag_id ti = dag_id \<and> ti_state ti = Some SCHEDULED then ti\<lparr>ti_state := Some FAILED\<rparr> else ti)"

definition take_slots :: "int \<Rightarrow> PoolStats \<Rightarrow> PoolStats" where
  "take_slots n pool_stats = pool_stats\<lparr>ps_open := xminus (ps_open pool_stats) n\<rparr>"

definition count_active :: "task_instance \<Rightarrow> ConcurrencyMap \<Rightarrow> ConcurrencyMap" where
  "count_active ti m = m
     \<lparr>dag_active_tasks_map := counter_add (ti_dag_id ti) 1 (dag_active_tasks_map m),
      task_concurrency_map := counter_add (ti_dag_id ti, ti_task_id ti) 1 (task_concurrency_map m),
      task_dagrun_concurrency_map := counter_add (ti_run_task ti) 1 (task_dagrun_concurrency_map m)\<rparr>"

definition examine_one :: "(id_str \<Rightarrow> dag option) \<Rightarrow> task_instance \<Rightarrow> crit \<Rightarrow> crit" where
  "examine_one get_dag ti c =
     (case examine_verdict get_dag ti c of
        PoolMissing \<Rightarrow> c\<lparr>cr_starved_pools := set_add (cr_starved_pools c) (ti_pool ti)\<rparr>
      | PoolFull \<Rightarrow> c\<lparr>cr_starved_pools := set_add (cr_starved_pools c) (ti_pool ti)\<rparr>
      | TooLarge \<Rightarrow> c\<lparr>cr_starved_tasks := set_add (cr_starved_tasks c) (ti_dag_id ti, ti_task_id ti)\<rparr>
      | DagLimit \<Rightarrow> c\<lparr>cr_starved_dags := set_add (cr_starved_dags c) (ti_dag_id ti)\<rparr>
      | DagMissing \<Rightarrow>
          c\<lparr>cr_db := (cr_db c)\<lparr>db_tis := map (fail_scheduled (ti_dag_id ti)) (db_tis (cr_db c))\<rparr>\<rparr>
      | TaskLimit \<Rightarrow> c\<lparr>cr_starved_tasks := set_add (cr_starved_tasks c) (ti_dag_id ti, ti_task_id ti)\<rparr>
      | TaskDagrunLimit \<Rightarrow>
          c\<lparr>cr_starved_task_dagruns := set_add (cr_starved_task_dagruns c) (ti_run_task ti)\<rparr>
      | Execute \<Rightarrow>
          c\<lparr>cr_executable := cr_executable c @ [ti],
            cr_concurrency := count_active ti (cr_concurrency c),
            cr_pools := dict_modify (ti_pool ti) (take_slots (ti_pool_slots ti)) (cr_pools c)\<rparr>)"

definition examine_batch :: "(id_str \<Rightarrow> dag option) \<Rightarrow> task_instance list \<Rightarrow> crit \<Rightarrow> crit" where
  "examine_batch get_dag tis c = fold (examine_one get_dag) tis c"

definition found_new_filters :: "crit \<Rightarrow> crit \<Rightarrow> bool" where
  "found_new_filters c c' \<longleftrightarrow>
     length (cr_starved_pools c) < length (cr_starved_pools c') \<or>
     length (cr_starved_dags c) < length (cr_starved_dags c') \<or>
     length (cr_starved_tasks c) < length (cr_starved_tasks c') \<or>
     length (cr_starved_task_dagruns c) < length (cr_starved_task_dagruns c')"

text \<open>Failing the scheduled task instances of a set of DAGs.\<close>

definition fail_dags :: "id_str set \<Rightarrow> task_instance \<Rightarrow> task_instance" where
  "fail_dags F ti =
     (if ti_dag_id ti \<in> F \<and> ti_state ti = Some SCHEDULED then ti\<lparr>ti_state := Some FAILED\<rparr> else ti)"

definition fail_in :: "id_str set \<Rightarrow> db \<Rightarrow> db" where
  "fail_in F s = s\<lparr>db_tis := map (fail_dags F) (db_tis s)\<rparr>"

lemma fail_in_frame [simp]:
  "db_drs (fail_in F s) = db_drs s" "db_dms (fail_in F s) = db_dms s"
  "db_pools (fail_in F s) = db_pools s" "db_trs (fail_in F s) = db_trs s"
  "db_xcoms (fail_in F s) = db_xcoms s" "db_jobs (fail_in F s) = db_jobs s"
  by (simp_all add: fail_in_def)

lemma tis_fail_in: "db_tis (fail_in F s) = map (fail_dags F) (db_tis s)"
  by (simp add: fail_in_def)

lemma find_fail_in [simp]: "find_dr (fail_in F s) = find_dr s" "find_dm (fail_in F s) = find_dm s"
  by (intro ext, simp add: find_dr_def) (intro ext, simp add: find_dm_def)

lemma eligible_fail_in [simp]: "eligible (fail_in F s) = eligible s"
  by (intro ext) (simp add: eligible_def)

lemma fail_dags_comp [simp]: "fail_dags F (fail_dags G ti) = fail_dags (F \<union> G) ti"
  by (auto simp: fail_dags_def)

lemma fail_in_comp [simp]: "fail_in F (fail_in G s) = fail_in (F \<union> G) s"
  by (simp add: fail_in_def comp_def)

lemma fail_dags_empty [simp]: "fail_dags {} ti = ti" by (simp add: fail_dags_def)

lemma fail_in_empty [simp]: "fail_in {} s = s" by (simp add: fail_in_def map_idI)

lemma eligible_fail_dags: "eligible s (fail_dags F ti) \<Longrightarrow> fail_dags F ti = ti"
  by (auto simp: fail_dags_def eligible_def)

lemma primary_fail_dags [simp]: "ti_primary (fail_dags F ti) = ti_primary ti"
  by (simp add: fail_dags_def ti_primary_def)

definition filters :: "crit \<Rightarrow> id_str list \<times> id_str list \<times> (id_str \<times> id_str) list \<times> (id_str \<times> id_str \<times> id_str) list" where
  "filters c = (cr_starved_pools c, cr_starved_dags c, cr_starved_tasks c, cr_starved_task_dagruns c)"

lemma examine_one_db:
  "\<exists>F. cr_db (examine_one get_dag ti c) = fail_in F (cr_db c) \<and> F \<subseteq> {ti_dag_id ti} \<and>
     (F \<noteq> {} \<longrightarrow> examine_verdict get_dag ti c = DagMissing)"
proof (cases "examine_verdict get_dag ti c = DagMissing")
  case True
  have "fail_scheduled d = fail_dags {d}" for d
    by (intro ext) (simp add: fail_scheduled_def fail_dags_def)
  with True show ?thesis by (intro exI [of _ "{ti_dag_id ti}"]) (simp add: examine_one_def fail_in_def)
next
  case False
  then show ?thesis
    by (intro exI [of _ "{}"]) (auto simp: examine_one_def split: verdict.splits)
qed

lemma starved_mono: "starved c x \<Longrightarrow> starved (examine_one get_dag ti c) x"
  by (auto simp: starved_def examine_one_def split: verdict.splits)

lemma unstarved_filters:
  "\<not> starved (examine_one get_dag ti c) ti \<Longrightarrow> filters (examine_one get_dag ti c) = filters c"
  by (auto simp: starved_def filters_def examine_one_def split: verdict.splits)

lemma batch_mono: "starved c x \<Longrightarrow> starved (examine_batch get_dag tis c) x"
  by (induction tis arbitrary: c) (simp_all add: examine_batch_def starved_mono)

lemma batch_filters:
  "(\<And>x. x \<in> set tis \<Longrightarrow> \<not> starved (examine_batch get_dag tis c) x) \<Longrightarrow>
   filters (examine_batch get_dag tis c) = filters c"
proof (induction tis arbitrary: c)
  case (Cons ti tis)
  let ?c = "examine_one get_dag ti c"
  have eq: "examine_batch get_dag (ti # tis) c = examine_batch get_dag tis ?c"
    by (simp add: examine_batch_def)
  with Cons.prems [of ti] batch_mono [of ?c ti get_dag tis] have "\<not> starved ?c ti" by auto
  then have "filters ?c = filters c" by (rule unstarved_filters)
  with Cons.IH [of ?c] Cons.prems eq show ?case by simp
qed (simp add: examine_batch_def)

lemma batch_db: "\<exists>F. cr_db (examine_batch get_dag tis c) = fail_in F (cr_db c)"
proof (induction tis arbitrary: c)
  case Nil
  then show ?case by (intro exI [of _ "{}"]) (simp add: examine_batch_def)
next
  case (Cons ti tis)
  from examine_one_db [of get_dag ti c] Cons.IH [of "examine_one get_dag ti c"]
  show ?case by (auto simp: examine_batch_def)
qed

lemma filter_map_shorter:
  assumes "\<And>x. x \<in> set xs \<Longrightarrow> Q (f x) \<Longrightarrow> P x" and "x \<in> set xs" "P x" "\<not> Q (f x)"
  shows "length (filter Q (map f xs)) < length (filter P xs)"
proof -
  have le: "\<lbrakk>\<And>x. x \<in> set ys \<Longrightarrow> Q (f x) \<Longrightarrow> P x\<rbrakk> \<Longrightarrow> length (filter Q (map f ys)) \<le> length (filter P ys)" for ys
    by (induction ys) (auto simp: le_SucI)
  show ?thesis using assms
  proof (induction xs)
    case (Cons y ys)
    then show ?case using le [of ys] by (cases "x = y") (auto simp: le_imp_less_Suc less_SucI)
  qed simp
qed

text \<open>A batch that starves something leaves fewer candidates.\<close>

lemma examine_set: "set (task_instances_to_examine locked n c) \<subseteq> set (candidates locked c)"
  by (auto simp: task_instances_to_examine_def dest: in_set_takeD)

lemma batch_fewer_candidates:
  assumes "set tis \<subseteq> set (candidates locked c)"
    and "found_new_filters c (examine_batch get_dag tis c)"
  shows "length (candidates locked (examine_batch get_dag tis c)) < length (candidates locked c)"
proof -
  let ?c = "examine_batch get_dag tis c"
  have "filters ?c \<noteq> filters c" using assms(2) by (auto simp: found_new_filters_def filters_def)
  then obtain x where x: "x \<in> set tis" "starved ?c x" using batch_filters by blast
  then have xc: "x \<in> set (candidates locked c)" using assms(1) by blast
  obtain F where F: "cr_db ?c = fail_in F (cr_db c)" using batch_db by blast
  show ?thesis
    unfolding candidates_def F tis_fail_in eligible_fail_in
  proof (rule filter_map_shorter [of _ _ _ _ x])
    fix y
    assume y: "eligible (cr_db c) (fail_dags F y) \<and> \<not> starved ?c (fail_dags F y) \<and>
      \<not> locked (ti_primary (fail_dags F y))"
    then have "fail_dags F y = y" using eligible_fail_dags by blast
    with y batch_mono [of c y get_dag tis]
    show "eligible (cr_db c) y \<and> \<not> starved c y \<and> \<not> locked (ti_primary y)" by auto
  next
    have "ti_dag_id (fail_dags F x) = ti_dag_id x" "ti_task_id (fail_dags F x) = ti_task_id x"
      "ti_pool (fail_dags F x) = ti_pool x" "ti_run_task (fail_dags F x) = ti_run_task x"
      by (simp_all add: fail_dags_def ti_run_task_def)
    with x(2) show "\<not> (eligible (cr_db c) (fail_dags F x) \<and>
      \<not> starved ?c (fail_dags F x) \<and> \<not> locked (ti_primary (fail_dags F x)))"
      by (simp add: starved_def)
  qed (use xc in \<open>auto simp: candidates_def\<close>)
qed

text \<open>
  The outer loop. Each further iteration has starved something, which takes at least one task
  instance out of the query, so the number of candidates decreases.
\<close>

function critical_loop :: "(id_str \<Rightarrow> dag option) \<Rightarrow> (ti_primary \<Rightarrow> bool) \<Rightarrow> int \<Rightarrow> crit \<Rightarrow> crit" where
  "critical_loop get_dag locked max_tis c =
     (let tis = task_instances_to_examine locked max_tis c in
      if tis = [] then c
      else
        let c' = examine_batch get_dag tis c;
            is_done = (cr_executable c' \<noteq> [] \<or> int (length tis) < max_tis) in
        if is_done \<or> \<not> found_new_filters c c' then c' else critical_loop get_dag locked max_tis c')"
  by pat_completeness auto
termination
  by (relation "measure (\<lambda>(get_dag, locked, max_tis, c). length (candidates locked c))")
    (auto intro!: batch_fewer_candidates dest: subsetD [OF examine_set])

declare critical_loop.simps [simp del]

record critical_env =
  ce_get_dag :: "id_str \<Rightarrow> dag option"
  ce_postgres :: bool
  ce_lock_acquired :: bool
  ce_pools_locked :: bool
  ce_row_locked :: "ti_primary \<Rightarrow> bool"
  ce_now :: time
  ce_job_id :: "int option"

definition set_queued :: "critical_env \<Rightarrow> task_instance \<Rightarrow> task_instance" where
  "set_queued env ti = ti\<lparr>ti_state := Some QUEUED, ti_queued_dttm := Some (ce_now env),
     ti_queued_by_job_id := ce_job_id env\<rparr>"

definition queue_rows :: "critical_env \<Rightarrow> task_instance list \<Rightarrow> db \<Rightarrow> db" where
  "queue_rows env executable_tis s =
     (let filter_tis = filter_for_tis (map ti_primary executable_tis) in
      s\<lparr>db_tis := map (\<lambda>ti. if filter_selects filter_tis (ti_primary ti) then set_queued env ti else ti)
          (db_tis s)\<rparr>)"

definition pool_slots_free :: "(id_str \<times> PoolStats) list \<Rightarrow> xint" where
  "pool_slots_free pools = xsum (map (\<lambda>(_, ps). max (Fin 0) (ps_open ps)) pools)"

definition initial_crit :: "(id_str \<times> PoolStats) list \<Rightarrow> db \<Rightarrow> crit" where
  "initial_crit pools s = \<lparr>cr_db = s, cr_pools = pools,
     cr_concurrency = get_concurrency_maps EXECUTION_STATES s,
     cr_starved_pools = map fst (filter (\<lambda>(_, ps). ps_open ps \<le> Fin 0) pools),
     cr_starved_dags = [], cr_starved_tasks = [], cr_starved_task_dagruns = [], cr_executable = []\<rparr>"

definition executable_task_instances_to_queued ::
  "critical_env \<Rightarrow> int \<Rightarrow> db \<Rightarrow> (task_instance list \<times> db) result" where
  "executable_task_instances_to_queued env max_tis s =
     (if ce_postgres env \<and> \<not> ce_lock_acquired env
      then Inl (OperationalError ''Failed to acquire advisory lock'')
      else bind_err (slots_stats True (ce_pools_locked env) s) (\<lambda>pools.
        let free = pool_slots_free pools in
        if free = Fin 0 then Inr ([], s)
        else
          let max_tis' = (case free of Fin n \<Rightarrow> min max_tis n | PInf \<Rightarrow> max_tis);
              c = critical_loop (ce_get_dag env) (ce_row_locked env) max_tis' (initial_crit pools s);
              executable_tis = cr_executable c in
          Inr (executable_tis,
               if executable_tis = [] then cr_db c else queue_rows env executable_tis (cr_db c))))"

subsection \<open>What the concurrency maps count\<close>

text \<open>The task instances with key \<open>k\<close> that run or are queued.\<close>

definition active_count :: "(task_instance \<Rightarrow> 'k) \<Rightarrow> 'k \<Rightarrow> db \<Rightarrow> int" where
  "active_count f k s =
     count_where (\<lambda>ti. f ti = k \<and> ti_state ti \<in> set EXECUTION_STATES) (db_tis s)"

definition ti_task :: "task_instance \<Rightarrow> id_str \<times> id_str" where
  "ti_task ti = (ti_dag_id ti, ti_task_id ti)"

lemma key_parts [simp]:
  "fst (ti_task ti) = ti_dag_id ti" "snd (ti_task ti) = ti_task_id ti"
  "fst (ti_run_task ti) = ti_dag_id ti" "snd (snd (ti_run_task ti)) = ti_task_id ti"
  by (simp_all add: ti_task_def ti_run_task_def)

lemma sum_where_add: "sum_where (\<lambda>x. f x + g x) P xs = sum_where f P xs + sum_where g P xs"
  by (induction xs) auto

lemma sum_where_single:
  "distinct gs \<Longrightarrow> sum_where (\<lambda>g. if y = g then 1 else 0) P gs = (if y \<in> set gs \<and> P y then 1 else 0)"
  by (induction gs) auto

lemma sum_of_groups:
  assumes "distinct gs" and "f ` set rows \<subseteq> set gs"
  shows "sum_where (\<lambda>g. count_where (\<lambda>x. f x = g) rows) P gs = count_where (\<lambda>x. P (f x)) rows"
  using assms(2)
proof (induction rows)
  case Nil
  show ?case by (induction gs) auto
next
  case (Cons x rows)
  have "sum_where (\<lambda>g. count_where (\<lambda>x. f x = g) (x # rows)) P gs =
      sum_where (\<lambda>g. if f x = g then 1 else 0) P gs + sum_where (\<lambda>g. count_where (\<lambda>x. f x = g) rows) P gs"
    by (simp add: sum_where_add)
  with Cons show ?case by (simp add: sum_where_single [OF assms(1)])
qed

lemma from_concurrency_map_get:
  "dict_get_or (dag_active_tasks_map (from_concurrency_map m)) 0 d = sum_where snd (\<lambda>((d', r, t), c). d' = d) m"
  "dict_get_or (task_concurrency_map (from_concurrency_map m)) 0 dt =
     sum_where snd (\<lambda>((d', r, t'), c). (d', t') = dt) m"
  "task_dagrun_concurrency_map (from_concurrency_map m) = m"
proof -
  let ?step = "\<lambda>((d, r, t), c) m. m
         \<lparr>dag_active_tasks_map := counter_add d c (dag_active_tasks_map m),
          task_concurrency_map := counter_add (d, t) c (task_concurrency_map m)\<rparr>"
  have "dict_get_or (dag_active_tasks_map (fold ?step m m0)) 0 d =
        dict_get_or (dag_active_tasks_map m0) 0 d + sum_where snd (\<lambda>((d', r, t), c). d' = d) m \<and>
      dict_get_or (task_concurrency_map (fold ?step m m0)) 0 dt =
        dict_get_or (task_concurrency_map m0) 0 dt + sum_where snd (\<lambda>((d', r, t'), c). (d', t') = dt) m \<and>
      task_dagrun_concurrency_map (fold ?step m m0) = task_dagrun_concurrency_map m0" for m0 :: ConcurrencyMap
    by (induction m arbitrary: m0) (auto simp: store_simps)
  then show "dict_get_or (dag_active_tasks_map (from_concurrency_map m)) 0 d =
      sum_where snd (\<lambda>((d', r, t), c). d' = d) m"
    "dict_get_or (task_concurrency_map (from_concurrency_map m)) 0 dt =
      sum_where snd (\<lambda>((d', r, t'), c). (d', t') = dt) m"
    "task_dagrun_concurrency_map (from_concurrency_map m) = m"
    by (simp_all add: from_concurrency_map_def)
qed

text \<open>The maps agree with counting the rows.\<close>

lemma get_concurrency_maps_count:
  "dict_get_or (dag_active_tasks_map (get_concurrency_maps EXECUTION_STATES s)) 0 d = active_count ti_dag_id d s"
  "dict_get_or (task_concurrency_map (get_concurrency_maps EXECUTION_STATES s)) 0 dt = active_count ti_task dt s"
  "dict_get_or (task_dagrun_concurrency_map (get_concurrency_maps EXECUTION_STATES s)) 0 drt =
     active_count ti_run_task drt s"
proof -
  define rows where "rows = filter (\<lambda>ti. ti_state ti \<in> set EXECUTION_STATES) (db_tis s)"
  define gs where "gs = remdups (map ti_run_task rows)"
  define m where "m = map (\<lambda>g. (g, count_where (\<lambda>ti. ti_run_task ti = g) rows)) gs"
  have eq: "get_concurrency_maps EXECUTION_STATES s = from_concurrency_map m"
    by (simp add: get_concurrency_maps_def rows_def gs_def m_def Let_def)
  have gs: "distinct gs" "ti_run_task ` set rows \<subseteq> set gs" by (simp_all add: gs_def)
  have active: "active_count f k s = count_where (\<lambda>ti. f ti = k) rows" for f :: "task_instance \<Rightarrow> 'z" and k
    by (simp add: active_count_def rows_def count_where_filter)
  have sums: "sum_where snd (\<lambda>(g, c). P g) m = count_where (\<lambda>ti. P (ti_run_task ti)) rows" for P
    using sum_of_groups [OF gs, of P] by (simp add: m_def sum_where_map)
  show "dict_get_or (dag_active_tasks_map (get_concurrency_maps EXECUTION_STATES s)) 0 d = active_count ti_dag_id d s"
    using sums [of "\<lambda>(d', r, t). d' = d"]
    by (simp add: eq from_concurrency_map_get active split_def ti_run_task_def)
  show "dict_get_or (task_concurrency_map (get_concurrency_maps EXECUTION_STATES s)) 0 dt = active_count ti_task dt s"
    using sums [of "\<lambda>(d', r, t). (d', t) = dt"]
    by (simp add: eq from_concurrency_map_get active split_def ti_run_task_def ti_task_def)
  have "dict_get_or m 0 drt = count_where (\<lambda>ti. ti_run_task ti = drt) rows"
  proof (cases "drt \<in> set gs")
    case True
    then show ?thesis using gs(1)
      by (intro dict_get_or_mem) (auto simp: m_def dict_keys_def comp_def)
  next
    case False
    then have "count_where (\<lambda>ti. ti_run_task ti = drt) rows = 0"
      using gs(2) by (auto simp: count_where_zero_iff)
    moreover have "dict_get m drt = None" using False by (auto simp: m_def map_of_eq_None_iff)
    ultimately show ?thesis by (simp add: dict_get_or_def)
  qed
  then show "dict_get_or (task_dagrun_concurrency_map (get_concurrency_maps EXECUTION_STATES s)) 0 drt =
     active_count ti_run_task drt s"
    by (simp add: eq from_concurrency_map_get active)
qed

subsection \<open>The limits\<close>

text \<open>The limits that bind, by DAG, task, and task of a run; a task has none of its own unless the
  row of its DAG announces task limits and the serialised DAG is there.\<close>

definition dag_limit :: "db \<Rightarrow> id_str \<Rightarrow> int option" where
  "dag_limit s d = map_option dm_max_active_tasks (find_dm s d)"

definition checked_dag :: "(id_str \<Rightarrow> dag option) \<Rightarrow> db \<Rightarrow> id_str \<Rightarrow> dag option" where
  "checked_dag get_dag s d =
     (case find_dm s d of None \<Rightarrow> None
      | Some dm \<Rightarrow> if dm_has_task_concurrency_limits dm then get_dag d else None)"

definition task_limit :: "(id_str \<Rightarrow> dag option) \<Rightarrow> db \<Rightarrow> id_str \<times> id_str \<Rightarrow> int option" where
  "task_limit get_dag s k =
     (case checked_dag get_dag s (fst k) of None \<Rightarrow> None
      | Some d \<Rightarrow> serialized_limit op_max_active_tis_per_dag d (snd k))"

definition task_dagrun_limit :: "(id_str \<Rightarrow> dag option) \<Rightarrow> db \<Rightarrow> id_str \<times> id_str \<times> id_str \<Rightarrow> int option" where
  "task_dagrun_limit get_dag s k =
     (case checked_dag get_dag s (fst k) of None \<Rightarrow> None
      | Some d \<Rightarrow> serialized_limit op_max_active_tis_per_dagrun d (snd (snd k)))"

text \<open>With the task instances \<open>xs\<close> on top, no key one of them has is over its limit.\<close>

definition within :: "('k \<Rightarrow> int option) \<Rightarrow> (task_instance \<Rightarrow> 'k) \<Rightarrow> db \<Rightarrow> task_instance list \<Rightarrow> bool" where
  "within lim f s xs \<longleftrightarrow> (\<forall>k n. lim k = Some n \<longrightarrow> (\<exists>x \<in> set xs. f x = k) \<longrightarrow>
     active_count f k s + count_where (\<lambda>ti. f ti = k) xs \<le> n)"

lemma within_Nil [simp]: "within lim f s []"
  by (simp add: within_def)

lemma within_snoc:
  "within lim f s xs \<Longrightarrow>
   \<not> limit_reached (lim (f ti)) (active_count f (f ti) s + count_where (\<lambda>x. f x = f ti) xs) \<Longrightarrow>
   within lim f s (xs @ [ti])"
  by (auto simp: within_def limit_reached_def split: option.splits)

subsection \<open>The invariant of the loop\<close>

text \<open>The DAGs whose scheduled task instances the loop may fail, and the slots a list of task
  instances takes of a pool.\<close>

definition dag_missing :: "(id_str \<Rightarrow> dag option) \<Rightarrow> db \<Rightarrow> id_str \<Rightarrow> bool" where
  "dag_missing get_dag s d \<longleftrightarrow> get_dag d = None \<and>
     (case find_dm s d of None \<Rightarrow> False | Some dm \<Rightarrow> dm_has_task_concurrency_limits dm)"

definition slots_in :: "id_str \<Rightarrow> task_instance list \<Rightarrow> int" where
  "slots_in p xs = sum_where ti_pool_slots (\<lambda>ti. ti_pool ti = p) xs"

lemma slots_in_simps [simp]:
  "slots_in p [] = 0" "slots_in p (xs @ [ti]) = slots_in p xs + (if ti_pool ti = p then ti_pool_slots ti else 0)"
  by (simp_all add: slots_in_def)

definition rows_inv :: "(id_str \<Rightarrow> dag option) \<Rightarrow> (ti_primary \<Rightarrow> bool) \<Rightarrow> db \<Rightarrow> crit \<Rightarrow> bool" where
  "rows_inv get_dag locked s c \<longleftrightarrow>
     (\<exists>F. cr_db c = fail_in F s \<and> (\<forall>d \<in> F. dag_missing get_dag s d)) \<and> distinct (cr_executable c) \<and>
     (\<forall>ti \<in> set (cr_executable c). ti \<in> set (db_tis s) \<and> eligible s ti \<and> \<not> locked (ti_primary ti) \<and>
        \<not> dag_missing get_dag s (ti_dag_id ti))"

definition counts_inv :: "db \<Rightarrow> crit \<Rightarrow> bool" where
  "counts_inv s c \<longleftrightarrow>
     (\<forall>d. dict_get_or (dag_active_tasks_map (cr_concurrency c)) 0 d =
        active_count ti_dag_id d s + count_where (\<lambda>ti. ti_dag_id ti = d) (cr_executable c)) \<and>
     (\<forall>k. dict_get_or (task_concurrency_map (cr_concurrency c)) 0 k =
        active_count ti_task k s + count_where (\<lambda>ti. ti_task ti = k) (cr_executable c)) \<and>
     (\<forall>k. dict_get_or (task_dagrun_concurrency_map (cr_concurrency c)) 0 k =
        active_count ti_run_task k s + count_where (\<lambda>ti. ti_run_task ti = k) (cr_executable c))"

definition limits_inv :: "(id_str \<Rightarrow> dag option) \<Rightarrow> db \<Rightarrow> crit \<Rightarrow> bool" where
  "limits_inv get_dag s c \<longleftrightarrow>
     within (dag_limit s) ti_dag_id s (cr_executable c) \<and>
     within (task_limit get_dag s) ti_task s (cr_executable c) \<and>
     within (task_dagrun_limit get_dag s) ti_run_task s (cr_executable c)"

definition pools_inv :: "(id_str \<times> PoolStats) list \<Rightarrow> crit \<Rightarrow> bool" where
  "pools_inv pools c \<longleftrightarrow> (\<forall>name.
     dict_get (cr_pools c) name = map_option (take_slots (slots_in name (cr_executable c))) (dict_get pools name) \<and>
     ((\<exists>ti \<in> set (cr_executable c). ti_pool ti = name) \<longrightarrow>
        (\<exists>ps. dict_get pools name = Some ps \<and> Fin (slots_in name (cr_executable c)) \<le> ps_open ps)))"

definition crit_inv where
  "crit_inv get_dag locked s pools c \<longleftrightarrow> rows_inv get_dag locked s c \<and> counts_inv s c \<and>
     limits_inv get_dag s c \<and> pools_inv pools c"

lemma take_slots_0 [simp]: "take_slots 0 ps = ps" by (simp add: take_slots_def)

lemma take_slots_comp [simp]: "take_slots a (take_slots b ps) = take_slots (b + a) ps"
  by (simp add: take_slots_def)

lemma crit_inv_initial: "crit_inv get_dag locked s pools (initial_crit pools s)"
proof -
  have "\<exists>F. s = fail_in F s \<and> (\<forall>d \<in> F. dag_missing get_dag s d)"
    by (intro exI [of _ "{}"]) simp
  moreover have "map_option (take_slots 0) x = x" for x by (cases x) simp_all
  ultimately show ?thesis
    by (simp add: crit_inv_def rows_inv_def counts_inv_def limits_inv_def pools_inv_def
        initial_crit_def get_concurrency_maps_count)
qed

lemma verdict_Execute:
  "examine_verdict get_dag ti c = Execute \<longleftrightarrow>
   (\<exists>ps dm. dict_get (cr_pools c) (ti_pool ti) = Some ps \<and> Fin 0 < ps_open ps \<and>
      Fin (ti_pool_slots ti) \<le> ps_open ps \<and> Fin (ti_pool_slots ti) \<le> ps_total ps \<and>
      find_dm (cr_db c) (ti_dag_id ti) = Some dm \<and>
      dict_get_or (dag_active_tasks_map (cr_concurrency c)) 0 (ti_dag_id ti) < dm_max_active_tasks dm \<and>
      (dm_has_task_concurrency_limits dm \<longrightarrow>
         (\<exists>d. get_dag (ti_dag_id ti) = Some d \<and> task_verdict d ti c = Execute)))"
  by (auto simp: examine_verdict_def not_le not_less split: option.splits)

lemma task_verdict_Execute:
  "task_verdict d ti c = Execute \<longleftrightarrow>
   \<not> limit_reached (serialized_limit op_max_active_tis_per_dag d (ti_task_id ti))
      (dict_get_or (task_concurrency_map (cr_concurrency c)) 0 (ti_task ti)) \<and>
   \<not> limit_reached (serialized_limit op_max_active_tis_per_dagrun d (ti_task_id ti))
      (dict_get_or (task_dagrun_concurrency_map (cr_concurrency c)) 0 (ti_run_task ti))"
  by (simp add: task_verdict_def Let_def ti_task_def)

text \<open>A verdict that the DAG is missing is right.\<close>

lemma verdict_DagMissing:
  assumes "examine_verdict get_dag ti c = DagMissing" and "find_dm (cr_db c) (ti_dag_id ti) = Some dm"
  shows "dm_has_task_concurrency_limits dm \<and> get_dag (ti_dag_id ti) = None"
  using assms
  by (simp add: examine_verdict_def task_verdict_def Let_def split: option.splits if_splits)

lemma examine_other:
  assumes "examine_verdict get_dag ti c \<noteq> Execute"
  shows "cr_executable (examine_one get_dag ti c) = cr_executable c \<and>
    cr_pools (examine_one get_dag ti c) = cr_pools c \<and>
    cr_concurrency (examine_one get_dag ti c) = cr_concurrency c"
  using assms by (simp add: examine_one_def split: verdict.splits)

lemma examine_execute:
  assumes "examine_verdict get_dag ti c = Execute"
  shows "cr_executable (examine_one get_dag ti c) = cr_executable c @ [ti] \<and>
    cr_db (examine_one get_dag ti c) = cr_db c \<and> filters (examine_one get_dag ti c) = filters c \<and>
    cr_pools (examine_one get_dag ti c) = dict_modify (ti_pool ti) (take_slots (ti_pool_slots ti)) (cr_pools c) \<and>
    cr_concurrency (examine_one get_dag ti c) = count_active ti (cr_concurrency c)"
  using assms by (simp add: examine_one_def filters_def)

lemma rows_inv_step:
  assumes "rows_inv get_dag locked s c" and "ti \<in> set (db_tis s)" "eligible s ti"
    and "\<not> locked (ti_primary ti)" "ti \<notin> set (cr_executable c)"
  shows "rows_inv get_dag locked s (examine_one get_dag ti c)"
proof -
  obtain dm where dm: "find_dm s (ti_dag_id ti) = Some dm"
    using assms(3) by (auto simp: eligible_def split: option.splits)
  from assms(1) obtain F where F: "cr_db c = fail_in F s" "\<forall>d \<in> F. dag_missing get_dag s d"
    by (auto simp: rows_inv_def)
  show ?thesis
  proof (cases "examine_verdict get_dag ti c = Execute")
    case True
    then have "\<not> dag_missing get_dag s (ti_dag_id ti)"
      using dm F(1) by (auto simp: verdict_Execute dag_missing_def)
    with examine_execute [OF True] assms show ?thesis by (auto simp: rows_inv_def)
  next
    case False
    from examine_one_db [of get_dag ti c] obtain G where G: "cr_db (examine_one get_dag ti c) = fail_in G (cr_db c)"
      "G \<subseteq> {ti_dag_id ti}" "G \<noteq> {} \<longrightarrow> examine_verdict get_dag ti c = DagMissing" by blast
    have "dag_missing get_dag s d" if "d \<in> G" for d
      using that G(2,3) verdict_DagMissing [of get_dag ti c dm] dm F(1) by (auto simp: dag_missing_def)
    then have "\<exists>H. cr_db (examine_one get_dag ti c) = fail_in H s \<and> (\<forall>d \<in> H. dag_missing get_dag s d)"
      using F G(1) by (intro exI [of _ "G \<union> F"]) auto
    with examine_other [OF False] assms(1) show ?thesis by (simp add: rows_inv_def)
  qed
qed

lemma counts_inv_step: "counts_inv s c \<Longrightarrow> counts_inv s (examine_one get_dag ti c)"
  using examine_other [of get_dag ti c] examine_execute [of get_dag ti c]
  by (cases "examine_verdict get_dag ti c = Execute")
    (auto simp: counts_inv_def count_active_def store_simps ti_task_def)

lemma limits_inv_step:
  assumes "limits_inv get_dag s c" "counts_inv s c" "rows_inv get_dag locked s c"
  shows "limits_inv get_dag s (examine_one get_dag ti c)"
proof (cases "examine_verdict get_dag ti c = Execute")
  case True
  have db: "find_dm (cr_db c) = find_dm s" using assms(3) by (auto simp: rows_inv_def)
  from True [unfolded verdict_Execute] obtain dm where dm: "find_dm s (ti_dag_id ti) = Some dm"
    "dict_get_or (dag_active_tasks_map (cr_concurrency c)) 0 (ti_dag_id ti) < dm_max_active_tasks dm"
    "dm_has_task_concurrency_limits dm \<longrightarrow>
       (\<exists>d. get_dag (ti_dag_id ti) = Some d \<and> task_verdict d ti c = Execute)"
    unfolding db by blast
  show ?thesis
    using assms(1,2) dm examine_execute [OF True]
    by (cases "dm_has_task_concurrency_limits dm")
      (auto simp del: split_paired_All simp: limits_inv_def counts_inv_def dag_limit_def task_limit_def task_dagrun_limit_def
        checked_dag_def task_verdict_Execute limit_reached_def intro!: within_snoc)
qed (use assms(1) examine_other in \<open>simp add: limits_inv_def\<close>)

lemma pools_inv_step:
  assumes "pools_inv pools c" shows "pools_inv pools (examine_one get_dag ti c)"
proof (cases "examine_verdict get_dag ti c = Execute")
  case True
  from True [unfolded verdict_Execute] obtain ps where ps: "dict_get (cr_pools c) (ti_pool ti) = Some ps"
    "Fin (ti_pool_slots ti) \<le> ps_open ps" by blast
  from assms ps(1) obtain ps0 where ps0: "dict_get pools (ti_pool ti) = Some ps0"
    "ps = take_slots (slots_in (ti_pool ti) (cr_executable c)) ps0"
    by (force simp: pools_inv_def)
  have fit: "Fin (slots_in (ti_pool ti) (cr_executable c) + ti_pool_slots ti) \<le> ps_open ps0"
    using ps(2) by (cases "ps_open ps0") (simp_all add: ps0(2) take_slots_def)
  show ?thesis
    using assms ps0(1) fit examine_execute [OF True]
    by (auto simp: pools_inv_def store_simps option.map_comp comp_def)
qed (use assms examine_other in \<open>simp add: pools_inv_def\<close>)

lemma crit_inv_step:
  assumes "crit_inv get_dag locked s pools c" and "ti \<in> set (db_tis s)" "eligible s ti"
    and "\<not> locked (ti_primary ti)" "ti \<notin> set (cr_executable c)"
  shows "crit_inv get_dag locked s pools (examine_one get_dag ti c)"
  using assms unfolding crit_inv_def
  by (blast intro: rows_inv_step counts_inv_step limits_inv_step pools_inv_step)

lemma executable_step: "set (cr_executable (examine_one get_dag ti c)) \<subseteq> insert ti (set (cr_executable c))"
  and executable_length: "length (cr_executable (examine_one get_dag ti c)) \<le> Suc (length (cr_executable c))"
  by (auto simp: examine_one_def split: verdict.splits)

lemma batch_executable:
  "set (cr_executable (examine_batch get_dag tis c)) \<subseteq> set (cr_executable c) \<union> set tis \<and>
   length (cr_executable (examine_batch get_dag tis c)) \<le> length (cr_executable c) + length tis"
proof (induction tis arbitrary: c)
  case (Cons ti tis)
  from Cons.IH [of "examine_one get_dag ti c"] executable_step [of get_dag ti c]
    executable_length [of get_dag ti c]
  show ?case by (auto simp: examine_batch_def)
qed (simp add: examine_batch_def)

lemma crit_inv_batch:
  assumes "crit_inv get_dag locked s pools c" and "distinct tis" "set tis \<inter> set (cr_executable c) = {}"
    and "\<And>ti. ti \<in> set tis \<Longrightarrow> ti \<in> set (db_tis s) \<and> eligible s ti \<and> \<not> locked (ti_primary ti)"
  shows "crit_inv get_dag locked s pools (examine_batch get_dag tis c)"
  using assms
proof (induction tis arbitrary: c)
  case (Cons ti tis)
  have "crit_inv get_dag locked s pools (examine_one get_dag ti c)"
    using Cons.prems by (intro crit_inv_step) auto
  moreover have "set tis \<inter> set (cr_executable (examine_one get_dag ti c)) = {}"
    using Cons.prems executable_step [of get_dag ti c] by auto
  ultimately show ?case using Cons.IH [of "examine_one get_dag ti c"] Cons.prems by (simp add: examine_batch_def)
qed (simp add: examine_batch_def)

lemma wf_db_distinct: "wf_db s \<Longrightarrow> distinct (db_tis s)"
  by (auto simp: wf_db_def distinct_map)

lemma candidates_rows:
  assumes "cr_db c = fail_in F s" and "ti \<in> set (candidates locked c)"
  shows "ti \<in> set (db_tis s) \<and> eligible s ti \<and> \<not> locked (ti_primary ti) \<and> \<not> starved c ti"
proof -
  from assms obtain x where x: "x \<in> set (db_tis s)" "ti = fail_dags F x" "eligible s ti"
    "\<not> starved c ti" "\<not> locked (ti_primary ti)" by (auto simp: candidates_def tis_fail_in)
  with eligible_fail_dags [of s F x] show ?thesis by simp
qed

lemma distinct_fail_in: "wf_db s \<Longrightarrow> distinct (db_tis (fail_in F s))"
proof -
  assume "wf_db s"
  then have "distinct (map ti_primary (map (fail_dags F) (db_tis s)))" by (simp add: wf_db_def comp_def)
  then show ?thesis unfolding tis_fail_in distinct_map by blast
qed

lemma distinct_examined:
  "wf_db s \<Longrightarrow> cr_db c = fail_in F s \<Longrightarrow> distinct (task_instances_to_examine locked n c)"
  using distinct_fail_in [of s F] by (simp add: task_instances_to_examine_def candidates_def)

lemma examined_length: "int (length (task_instances_to_examine locked n c)) \<le> max 0 n"
  by (simp add: task_instances_to_examine_def)

lemma critical_loop_inv:
  assumes "wf_db s" and "crit_inv get_dag locked s pools c" and "cr_executable c = []"
  shows "crit_inv get_dag locked s pools (critical_loop get_dag locked n c) \<and>
    int (length (cr_executable (critical_loop get_dag locked n c))) \<le> max 0 n"
  using assms
proof (induction get_dag locked n c rule: critical_loop.induct)
  case (1 get_dag locked n c)
  let ?tis = "task_instances_to_examine locked n c"
  let ?c = "examine_batch get_dag ?tis c"
  from "1.prems"(2) obtain F where F: "cr_db c = fail_in F s" by (auto simp: crit_inv_def rows_inv_def)
  have inv: "crit_inv get_dag locked s pools ?c"
    using "1.prems" candidates_rows [OF F] examine_set [of locked n c]
    by (intro crit_inv_batch) (auto intro: distinct_examined [OF _ F])
  have len: "int (length (cr_executable ?c)) \<le> max 0 n"
    using batch_executable [of get_dag ?tis c] "1.prems"(3) examined_length [of locked n c] by simp
  consider "?tis = []" | "?tis \<noteq> []" "(cr_executable ?c \<noteq> [] \<or> int (length ?tis) < n) \<or> \<not> found_new_filters c ?c"
    | "?tis \<noteq> []" "\<not> ((cr_executable ?c \<noteq> [] \<or> int (length ?tis) < n) \<or> \<not> found_new_filters c ?c)" by blast
  then show ?case
  proof cases
    case 3
    from "1.IH" [OF refl 3(1) refl refl 3(2) "1.prems"(1) inv] 3 show ?thesis
      by (simp add: critical_loop.simps [of get_dag locked n c] Let_def)
  qed (use inv len "1.prems" in \<open>simp_all add: critical_loop.simps [of get_dag locked n c] Let_def\<close>)
qed

subsection \<open>The rows after the critical section\<close>

lemma tis_queue_rows:
  "db_tis (queue_rows env tis s) =
   map (\<lambda>ti. if ti_primary ti \<in> ti_primary ` set tis then set_queued env ti else ti) (db_tis s)"
  by (simp add: queue_rows_def Let_def filter_for_tis_selects)

lemma queue_rows_none: "queue_rows env [] s = s"
  by (simp add: queue_rows_def filter_for_tis_selects)

definition critical_outcome :: "critical_env \<Rightarrow> int \<Rightarrow> db \<Rightarrow> task_instance list \<Rightarrow> id_str set \<Rightarrow> bool" where
  "critical_outcome env n s tis F \<longleftrightarrow>
     (\<forall>d \<in> F. dag_missing (ce_get_dag env) s d) \<and> distinct tis \<and> int (length tis) \<le> max 0 n \<and>
     (\<forall>ti \<in> set tis. ti \<in> set (db_tis s) \<and> eligible s ti \<and> \<not> ce_row_locked env (ti_primary ti) \<and>
        \<not> dag_missing (ce_get_dag env) s (ti_dag_id ti) \<and> ti_pool ti \<in> set (map pl_pool (db_pools s))) \<and>
     within (dag_limit s) ti_dag_id s tis \<and> within (task_limit (ce_get_dag env) s) ti_task s tis \<and>
     within (task_dagrun_limit (ce_get_dag env) s) ti_run_task s tis \<and>
     (\<forall>p \<in> set (db_pools s). (\<exists>ti \<in> set tis. ti_pool ti = pl_pool p) \<longrightarrow>
        Fin (slots_in (pl_pool p) tis) \<le> open_slots s p)"

lemma critical_result:
  assumes "wf_db s" and "executable_task_instances_to_queued env n s = Inr (tis, s')"
  obtains F where "critical_outcome env n s tis F" and "s' = queue_rows env tis (fail_in F s)"
proof -
  have none: "critical_outcome env n s [] {}" by (simp add: critical_outcome_def)
  from assms(2) obtain pools where pools: "slots_stats True (ce_pools_locked env) s = Inr pools"
    by (auto simp: executable_task_instances_to_queued_def split: if_splits)
  with slots_stats_result [OF assms(1), of True] have stats:
    "dict_keys pools = map pl_pool (db_pools s)"
    "\<forall>p \<in> set (db_pools s). \<exists>ps. dict_get pools (pl_pool p) = Some ps \<and> ps_open ps = open_slots s p"
    by (auto simp: slots_stats_def split: if_splits)
  show thesis
  proof (cases "pool_slots_free pools = Fin 0")
    case True
    with assms(2) pools have "tis = []" "s' = s"
      by (auto simp: executable_task_instances_to_queued_def split: if_splits)
    with none that [of "{}"] show thesis by (simp add: queue_rows_none)
  next
    case False
    define m where "m = (case pool_slots_free pools of Fin k \<Rightarrow> min n k | PInf \<Rightarrow> n)"
    define c where "c = critical_loop (ce_get_dag env) (ce_row_locked env) m (initial_crit pools s)"
    have m: "max 0 m \<le> max 0 n" by (auto simp: m_def split: xint.splits)
    have res: "tis = cr_executable c" "s' = (if tis = [] then cr_db c else queue_rows env tis (cr_db c))"
      using assms(2) pools False
      by (auto simp: executable_task_instances_to_queued_def Let_def c_def m_def split: if_splits)
    have inv: "crit_inv (ce_get_dag env) (ce_row_locked env) s pools c"
      and len: "int (length tis) \<le> max 0 m"
      using critical_loop_inv [OF assms(1) crit_inv_initial, of pools "ce_get_dag env" "ce_row_locked env" m]
      unfolding res(1) by (simp_all add: c_def initial_crit_def)
    from inv obtain F where F: "cr_db c = fail_in F s" "\<forall>d \<in> F. dag_missing (ce_get_dag env) s d"
      by (auto simp: crit_inv_def rows_inv_def)
    have pool: "\<exists>ps. dict_get pools (ti_pool ti) = Some ps \<and> Fin (slots_in (ti_pool ti) tis) \<le> ps_open ps"
      if "ti \<in> set tis" for ti
      using inv that res(1) by (auto simp: crit_inv_def pools_inv_def)
    have "critical_outcome env n s tis F"
      using inv F(2) len m pool stats(2) unfolding critical_outcome_def
      by (auto simp: crit_inv_def rows_inv_def limits_inv_def res(1) stats(1) [symmetric] in_dict_keys_iff
          simp del: set_map) fastforce+
    moreover have "s' = queue_rows env tis (fail_in F s)" using res(2) F(1) by (simp add: queue_rows_none)
    ultimately show thesis using that by blast
  qed
qed

text \<open>How the critical section changes a sum over the rows in states that hold slots: the chosen
  task instances are added.\<close>

lemma tis_after:
  assumes "s' = queue_rows env tis (fail_in F s)" and "wf_db s" and "critical_outcome env n s tis F"
  shows "db_tis s' = map (\<lambda>ti. if ti \<in> set tis then set_queued env ti else fail_dags F ti) (db_tis s)"
proof -
  have "fail_dags F ti = ti" if "ti \<in> set tis" for ti
    using that assms(3) by (auto simp: critical_outcome_def fail_dags_def)
  moreover have "ti_primary ti \<in> ti_primary ` set tis \<longleftrightarrow> ti \<in> set tis" if "ti \<in> set (db_tis s)" for ti
    using that assms(2,3) unfolding critical_outcome_def wf_db_def distinct_map
    by (auto dest: inj_onD)
  ultimately show ?thesis unfolding assms(1) tis_queue_rows tis_fail_in by auto
qed

lemma sum_after:
  assumes "s' = queue_rows env tis (fail_in F s)" and "wf_db s" and "critical_outcome env n s tis F"
    and "Some QUEUED \<in> S" "Some SCHEDULED \<notin> S" "Some FAILED \<notin> S"
    and "\<And>ti. Q (set_queued env ti) = Q ti" "\<And>ti. Q (fail_dags F ti) = Q ti"
    and "\<And>ti. f (set_queued env ti) = f ti" "\<And>ti. f (fail_dags F ti) = f ti"
  shows "sum_where f (\<lambda>ti. Q ti \<and> ti_state ti \<in> S) (db_tis s') =
    sum_where f (\<lambda>ti. Q ti \<and> ti_state ti \<in> S) (db_tis s) + sum_where f Q tis"
proof -
  have sched: "ti_state ti = Some SCHEDULED" if "ti \<in> set tis" for ti
    using that assms(3) by (auto simp: critical_outcome_def eligible_def)
  have failed: "ti_state (fail_dags F ti) \<in> S \<longleftrightarrow> ti_state ti \<in> S" for ti
    using assms(5,6) by (auto simp: fail_dags_def)
  have q: "ti_state (set_queued env ti) \<in> S" for ti using assms(4) by (simp add: set_queued_def)
  have "sum_where f (\<lambda>ti. Q ti \<and> ti_state ti \<in> S) (db_tis s') =
      sum_where f (\<lambda>ti. (Q ti \<and> ti_state ti \<in> S) \<or> (Q ti \<and> ti \<in> set tis)) (db_tis s)"
    unfolding tis_after [OF assms(1-3)] sum_where_map
    using failed q assms(7-10) by (intro arg_cong2 [where f = "\<lambda>g P. sum_where g P (db_tis s)"] ext) auto
  also have "\<dots> = sum_where f (\<lambda>ti. Q ti \<and> ti_state ti \<in> S) (db_tis s) +
      sum_where f (\<lambda>ti. Q ti \<and> ti \<in> set tis) (db_tis s)"
    using sched assms(5) by (intro sum_where_disj) auto
  also have "sum_where f (\<lambda>ti. Q ti \<and> ti \<in> set tis) (db_tis s) = sum_where f Q tis"
    using assms(2,3) by (intro sum_where_sublist) (auto simp: wf_db_distinct critical_outcome_def)
  finally show ?thesis .
qed

lemma active_after:
  assumes "s' = queue_rows env tis (fail_in F s)" and "wf_db s" and "critical_outcome env n s tis F"
    and "\<And>ti. f (set_queued env ti) = f ti" "\<And>ti. f (fail_dags F ti) = f ti"
  shows "active_count f k s' = active_count f k s + count_where (\<lambda>ti. f ti = k) tis"
  unfolding active_count_def count_where_sum
  by (rule sum_after [OF assms(1-3)]) (simp_all add: assms(4,5) EXECUTION_STATES_def)

lemma within_after:
  assumes "within lim f s tis" and "lim k = Some n"
    and "active_count f k s' = active_count f k s + count_where (\<lambda>ti. f ti = k) tis"
  shows "active_count f k s' \<le> max (active_count f k s) n"
proof (cases "\<exists>ti \<in> set tis. f ti = k")
  case True
  with assms(1,2) have "active_count f k s + count_where (\<lambda>ti. f ti = k) tis \<le> n"
    unfolding within_def by blast
  with assms(3) show ?thesis by simp
next
  case False
  then have "count_where (\<lambda>ti. f ti = k) tis = 0" by (simp add: count_where_zero_iff)
  with assms(3) show ?thesis by simp
qed

lemma keys_after [simp]:
  "ti_dag_id (set_queued env ti) = ti_dag_id ti" "ti_dag_id (fail_dags F ti) = ti_dag_id ti"
  "ti_task (set_queued env ti) = ti_task ti" "ti_task (fail_dags F ti) = ti_task ti"
  "ti_run_task (set_queued env ti) = ti_run_task ti" "ti_run_task (fail_dags F ti) = ti_run_task ti"
  "ti_pool (set_queued env ti) = ti_pool ti" "ti_pool (fail_dags F ti) = ti_pool ti"
  "ti_pool_slots (set_queued env ti) = ti_pool_slots ti" "ti_pool_slots (fail_dags F ti) = ti_pool_slots ti"
  "ti_primary (set_queued env ti) = ti_primary ti"
  by (simp_all add: set_queued_def fail_dags_def ti_task_def ti_run_task_def ti_primary_def)

lemma open_slots_after:
  assumes "s' = queue_rows env tis (fail_in F s)" and "wf_db s" and "critical_outcome env n s tis F"
  shows "open_slots s' p = xminus (open_slots s p) (slots_in (pl_pool p) tis)"
proof -
  have "occupied_slots s' p = occupied_slots s p + slots_in (pl_pool p) tis"
    unfolding occupied_slots_def sum_slots_def slots_in_def
    by (rule sum_after [OF assms]) (simp_all add: get_occupied_states_def EXECUTION_STATES_def)
  then show ?thesis by (simp add: open_slots_def)
qed

subsection \<open>Why a task instance was passed over\<close>

text \<open>\<open>c\<close> is a moment of the loop over the database \<open>s\<close>: what is starved then is starved for the
  reason the loop found, and that reason still holds.\<close>

definition no_room :: "crit \<Rightarrow> task_instance \<Rightarrow> bool" where
  "no_room c x \<longleftrightarrow> (\<exists>ps. dict_get (cr_pools c) (ti_pool x) = Some ps \<and>
     (ps_open ps < Fin (ti_pool_slots x) \<or> ps_total ps < Fin (ti_pool_slots x)))"

definition pool_closed :: "crit \<Rightarrow> id_str \<Rightarrow> bool" where
  "pool_closed c p \<longleftrightarrow> (case dict_get (cr_pools c) p of None \<Rightarrow> True | Some ps \<Rightarrow> ps_open ps \<le> Fin 0)"

definition at_limit :: "('k \<Rightarrow> int option) \<Rightarrow> (task_instance \<Rightarrow> 'k) \<Rightarrow> db \<Rightarrow> task_instance list \<Rightarrow> 'k \<Rightarrow> bool" where
  "at_limit lim f s xs k \<longleftrightarrow>
     limit_reached (lim k) (active_count f k s + count_where (\<lambda>ti. f ti = k) xs)"

definition starve_inv :: "(id_str \<Rightarrow> dag option) \<Rightarrow> db \<Rightarrow> crit \<Rightarrow> bool" where
  "starve_inv get_dag s c \<longleftrightarrow>
     (\<forall>p \<in> set (cr_starved_pools c). pool_closed c p) \<and>
     (\<forall>d \<in> set (cr_starved_dags c). at_limit (dag_limit s) ti_dag_id s (cr_executable c) d) \<and>
     (\<forall>k \<in> set (cr_starved_tasks c). at_limit (task_limit get_dag s) ti_task s (cr_executable c) k \<or>
        (\<exists>x \<in> set (db_tis s). eligible s x \<and> ti_task x = k \<and> no_room c x)) \<and>
     (\<forall>k \<in> set (cr_starved_task_dagruns c).
        at_limit (task_dagrun_limit get_dag s) ti_run_task s (cr_executable c) k)"

lemma limit_reached_mono: "limit_reached lim a \<Longrightarrow> a \<le> b \<Longrightarrow> limit_reached lim b"
  by (auto simp: limit_reached_def split: option.splits)

lemma at_limit_snoc: "at_limit lim f s xs k \<Longrightarrow> at_limit lim f s (xs @ [ti]) k"
  unfolding at_limit_def by (erule limit_reached_mono) simp

lemma xminus_le: "0 \<le> n \<Longrightarrow> x \<le> y \<Longrightarrow> xminus x n \<le> y"
  by (cases x; cases y) auto

lemma xminus_less: "0 \<le> n \<Longrightarrow> x < y \<Longrightarrow> xminus x n < y"
  by (cases x; cases y) auto

lemma pool_closed_execute:
  "pool_closed c p \<Longrightarrow> 0 \<le> ti_pool_slots ti \<Longrightarrow> pool_closed (examine_one get_dag ti c) p"
  by (auto simp: pool_closed_def examine_one_def store_simps take_slots_def intro: xminus_le
      split: verdict.splits option.splits)

lemma no_room_execute:
  "no_room c x \<Longrightarrow> 0 \<le> ti_pool_slots ti \<Longrightarrow> no_room (examine_one get_dag ti c) x"
  by (auto simp: no_room_def examine_one_def store_simps take_slots_def intro: xminus_less
      split: verdict.splits)

text \<open>The reasons for the verdicts other than \<open>Execute\<close>.\<close>

lemma verdict_reasons:
  assumes "crit_inv get_dag locked s pools c" and "eligible s ti"
  shows "examine_verdict get_dag ti c \<in> {PoolMissing, PoolFull} \<Longrightarrow> pool_closed c (ti_pool ti)"
    "examine_verdict get_dag ti c = TooLarge \<Longrightarrow> no_room c ti"
    "examine_verdict get_dag ti c = DagLimit \<Longrightarrow>
       at_limit (dag_limit s) ti_dag_id s (cr_executable c) (ti_dag_id ti)"
    "examine_verdict get_dag ti c = DagMissing \<Longrightarrow> dag_missing get_dag s (ti_dag_id ti)"
    "examine_verdict get_dag ti c = TaskLimit \<Longrightarrow>
       at_limit (task_limit get_dag s) ti_task s (cr_executable c) (ti_task ti)"
    "examine_verdict get_dag ti c = TaskDagrunLimit \<Longrightarrow>
       at_limit (task_dagrun_limit get_dag s) ti_run_task s (cr_executable c) (ti_run_task ti)"
proof -
  obtain dm where dm: "find_dm s (ti_dag_id ti) = Some dm"
    using assms(2) by (auto simp: eligible_def split: option.splits)
  have db: "find_dm (cr_db c) = find_dm s" using assms(1) by (auto simp: crit_inv_def rows_inv_def)
  have counts: "dict_get_or (dag_active_tasks_map (cr_concurrency c)) 0 (ti_dag_id ti) =
        active_count ti_dag_id (ti_dag_id ti) s + count_where (\<lambda>x. ti_dag_id x = ti_dag_id ti) (cr_executable c)"
    "dict_get_or (task_concurrency_map (cr_concurrency c)) 0 (ti_dag_id ti, ti_task_id ti) =
        active_count ti_task (ti_task ti) s + count_where (\<lambda>x. ti_task x = ti_task ti) (cr_executable c)"
    "dict_get_or (task_dagrun_concurrency_map (cr_concurrency c)) 0 (ti_run_task ti) =
        active_count ti_run_task (ti_run_task ti) s + count_where (\<lambda>x. ti_run_task x = ti_run_task ti) (cr_executable c)"
    using assms(1) unfolding crit_inv_def counts_inv_def ti_task_def by metis+
  note cases = examine_verdict_def task_verdict_def Let_def db dm counts
  show "examine_verdict get_dag ti c \<in> {PoolMissing, PoolFull} \<Longrightarrow> pool_closed c (ti_pool ti)"
    by (auto simp: cases pool_closed_def split: option.splits if_splits)
  show "examine_verdict get_dag ti c = TooLarge \<Longrightarrow> no_room c ti"
    by (auto simp: cases no_room_def split: option.splits if_splits)
  show "examine_verdict get_dag ti c = DagLimit \<Longrightarrow>
       at_limit (dag_limit s) ti_dag_id s (cr_executable c) (ti_dag_id ti)"
    by (auto simp: cases at_limit_def dag_limit_def limit_reached_def split: option.splits if_splits)
  show "examine_verdict get_dag ti c = DagMissing \<Longrightarrow> dag_missing get_dag s (ti_dag_id ti)"
    by (auto simp: cases dag_missing_def split: option.splits if_splits)
  show "examine_verdict get_dag ti c = TaskLimit \<Longrightarrow>
       at_limit (task_limit get_dag s) ti_task s (cr_executable c) (ti_task ti)"
    by (auto simp: cases at_limit_def task_limit_def checked_dag_def split: option.splits if_splits)
  show "examine_verdict get_dag ti c = TaskDagrunLimit \<Longrightarrow>
       at_limit (task_dagrun_limit get_dag s) ti_run_task s (cr_executable c) (ti_run_task ti)"
    by (auto simp: cases at_limit_def task_dagrun_limit_def checked_dag_def split: option.splits if_splits)
qed

lemma starve_inv_step:
  assumes "crit_inv get_dag locked s pools c" "starve_inv get_dag s c"
    and "ti \<in> set (db_tis s)" "eligible s ti" "0 \<le> ti_pool_slots ti"
  shows "starve_inv get_dag s (examine_one get_dag ti c)"
proof (cases "examine_verdict get_dag ti c = Execute")
  case True
  then have "cr_starved_pools (examine_one get_dag ti c) = cr_starved_pools c"
    "cr_starved_dags (examine_one get_dag ti c) = cr_starved_dags c"
    "cr_starved_tasks (examine_one get_dag ti c) = cr_starved_tasks c"
    "cr_starved_task_dagruns (examine_one get_dag ti c) = cr_starved_task_dagruns c"
    using examine_execute [OF True] by (simp_all add: filters_def)
  moreover have "cr_executable (examine_one get_dag ti c) = cr_executable c @ [ti]"
    using examine_execute [OF True] by simp
  ultimately show ?thesis
    using assms(2) pool_closed_execute [OF _ assms(5)] no_room_execute [OF _ assms(5)]
    unfolding starve_inv_def by (metis at_limit_snoc)
next
  case False
  note same = examine_other [OF False]
  have "pool_closed (examine_one get_dag ti c) = pool_closed c" "no_room (examine_one get_dag ti c) = no_room c"
    using same by (intro ext, simp add: pool_closed_def) (intro ext, use same in \<open>simp add: no_room_def\<close>)
  moreover have "starve_inv get_dag s (examine_one get_dag ti c) \<longleftrightarrow>
     (\<forall>p \<in> set (cr_starved_pools (examine_one get_dag ti c)). pool_closed c p) \<and>
     (\<forall>d \<in> set (cr_starved_dags (examine_one get_dag ti c)). at_limit (dag_limit s) ti_dag_id s (cr_executable c) d) \<and>
     (\<forall>k \<in> set (cr_starved_tasks (examine_one get_dag ti c)). at_limit (task_limit get_dag s) ti_task s (cr_executable c) k \<or>
        (\<exists>x \<in> set (db_tis s). eligible s x \<and> ti_task x = k \<and> no_room c x)) \<and>
     (\<forall>k \<in> set (cr_starved_task_dagruns (examine_one get_dag ti c)).
        at_limit (task_dagrun_limit get_dag s) ti_run_task s (cr_executable c) k)"
    using same calculation by (simp add: starve_inv_def)
  ultimately show ?thesis
    using assms(2-4) verdict_reasons [OF assms(1,4)] False unfolding starve_inv_def
    by (cases "examine_verdict get_dag ti c") (auto simp: examine_one_def ti_task_def [symmetric])
qed

definition passed_over :: "(id_str \<Rightarrow> dag option) \<Rightarrow> db \<Rightarrow> crit \<Rightarrow> task_instance \<Rightarrow> bool" where
  "passed_over get_dag s c ti \<longleftrightarrow>
     ti \<in> set (cr_executable c) \<or> starved c ti \<or> dag_missing get_dag s (ti_dag_id ti)"

lemma executable_mono: "set (cr_executable c) \<subseteq> set (cr_executable (examine_one get_dag ti c))"
  by (auto simp: examine_one_def split: verdict.splits)

lemma passed_over_step: "passed_over get_dag s c x \<Longrightarrow> passed_over get_dag s (examine_one get_dag ti c) x"
  using executable_mono [of c get_dag ti] starved_mono [of c x get_dag ti]
  by (auto simp: passed_over_def)

lemma passed_over_batch: "passed_over get_dag s c x \<Longrightarrow> passed_over get_dag s (examine_batch get_dag tis c) x"
  by (induction tis arbitrary: c) (simp_all add: examine_batch_def passed_over_step)

lemma examined_passed_over:
  assumes "crit_inv get_dag locked s pools c" and "eligible s ti"
  shows "passed_over get_dag s (examine_one get_dag ti c) ti"
  using verdict_reasons(4) [OF assms]
  by (cases "examine_verdict get_dag ti c") (auto simp: passed_over_def starved_def examine_one_def)

lemma batch_starve_inv:
  assumes "crit_inv get_dag locked s pools c" "starve_inv get_dag s c" and "distinct tis" "set tis \<inter> set (cr_executable c) = {}"
    and "\<And>ti. ti \<in> set tis \<Longrightarrow> ti \<in> set (db_tis s) \<and> eligible s ti \<and> \<not> locked (ti_primary ti)"
    and "\<And>ti. ti \<in> set (db_tis s) \<Longrightarrow> 0 \<le> ti_pool_slots ti"
  shows "starve_inv get_dag s (examine_batch get_dag tis c) \<and>
    (\<forall>x \<in> set tis. passed_over get_dag s (examine_batch get_dag tis c) x)"
  using assms(1-5)
proof (induction tis arbitrary: c)
  case (Cons ti tis)
  let ?c = "examine_one get_dag ti c"
  have "crit_inv get_dag locked s pools ?c" using Cons.prems by (intro crit_inv_step) auto
  moreover have "starve_inv get_dag s ?c" using Cons.prems assms(6) by (intro starve_inv_step) auto
  moreover have "set tis \<inter> set (cr_executable ?c) = {}"
    using Cons.prems executable_step [of get_dag ti c] by auto
  moreover have "passed_over get_dag s ?c ti" using Cons.prems by (intro examined_passed_over) auto
  ultimately show ?case
    using Cons.IH [of ?c] Cons.prems(3,5) passed_over_batch [of get_dag s ?c ti tis]
    by (simp add: examine_batch_def)
qed (simp add: examine_batch_def)

lemma sorted_take_below:
  assumes "sorted (map f xs)" "x \<in> set (take n xs)" "y \<in> set xs" "f y < f x"
  shows "y \<in> set (take n xs)"
proof (rule ccontr)
  assume "y \<notin> set (take n xs)"
  with assms(3) have "y \<in> set (drop n xs)" by (metis append_take_drop_id Un_iff set_append)
  moreover have "\<forall>a \<in> set (take n xs). \<forall>b \<in> set (drop n xs). f a \<le> f b"
  proof -
    have "sorted (map f (take n xs) @ map f (drop n xs))" using assms(1) by (simp flip: map_append)
    then show ?thesis by (auto simp: sorted_append)
  qed
  ultimately show False using assms(2,4) by fastforce
qed

text \<open>Every row that was up for execution and comes before a chosen one was examined, or starved
  before.\<close>

lemma critical_loop_priority:
  assumes "wf_db s" and "\<And>ti. ti \<in> set (db_tis s) \<Longrightarrow> 0 \<le> ti_pool_slots ti"
    and "crit_inv get_dag locked s pools c" "starve_inv get_dag s c" "cr_executable c = []"
    and "x \<in> set (db_tis s)" "eligible s x" "\<not> locked (ti_primary x)"
  shows "starve_inv get_dag s (critical_loop get_dag locked n c) \<and>
    (\<forall>ti \<in> set (cr_executable (critical_loop get_dag locked n c)). queue_order s x < queue_order s ti \<longrightarrow>
       passed_over get_dag s (critical_loop get_dag locked n c) x)"
  using assms(1-5) assms(8)
proof (induction get_dag locked n c rule: critical_loop.induct)
  case (1 get_dag locked n c)
  let ?tis = "task_instances_to_examine locked n c"
  let ?c = "examine_batch get_dag ?tis c"
  from "1.prems"(3) obtain F where F: "cr_db c = fail_in F s" "\<forall>d \<in> F. dag_missing get_dag s d"
    by (auto simp: crit_inv_def rows_inv_def)
  have order: "queue_order (cr_db c) = queue_order s" by (intro ext) (simp add: queue_order_def F(1))
  have pre: "distinct ?tis" "set ?tis \<inter> set (cr_executable c) = {}"
    "\<And>ti. ti \<in> set ?tis \<Longrightarrow> ti \<in> set (db_tis s) \<and> eligible s ti \<and> \<not> locked (ti_primary ti)"
    using "1.prems" candidates_rows [OF F(1)] examine_set [of locked n c]
    by (auto intro: distinct_examined [OF _ F(1)])
  have inv: "crit_inv get_dag locked s pools ?c"
    using crit_inv_batch [OF "1.prems"(3) pre] .
  have starve: "starve_inv get_dag s ?c" "\<forall>y \<in> set ?tis. passed_over get_dag s ?c y"
    using batch_starve_inv [OF "1.prems"(3,4) pre "1.prems"(2)] by auto
  have over: "passed_over get_dag s ?c x" if ti: "ti \<in> set (cr_executable ?c)"
      and less: "queue_order s x < queue_order s ti" for ti
  proof (cases "x \<in> set (candidates locked c)")
    case True
    have "ti \<in> set ?tis" using ti batch_executable [of get_dag ?tis c] "1.prems"(5) by auto
    moreover have tis: "?tis = take (nat n) (sort_key (queue_order s) (candidates locked c))"
      by (simp add: task_instances_to_examine_def order)
    ultimately have "x \<in> set (take (nat n) (sort_key (queue_order s) (candidates locked c)))"
      using sorted_take_below [of "queue_order s", OF sorted_sort_key, of ti _ _ x] less True
      by (metis set_sort)
    then have "x \<in> set ?tis" unfolding tis .
    with starve(2) show ?thesis by blast
  next
    case False
    show ?thesis
    proof (cases "ti_dag_id x \<in> F")
      case True
      with F(2) show ?thesis by (simp add: passed_over_def)
    next
      case notF: False
      then have "fail_dags F x = x" by (simp add: fail_dags_def)
      then have "x \<in> set (db_tis (cr_db c))" using assms(6) by (force simp: F(1) tis_fail_in)
      with False assms(7) "1.prems"(6) have "starved c x" by (auto simp: candidates_def F(1))
      then show ?thesis using batch_mono by (auto simp: passed_over_def)
    qed
  qed
  consider "?tis = []" | "?tis \<noteq> []" "(cr_executable ?c \<noteq> [] \<or> int (length ?tis) < n) \<or> \<not> found_new_filters c ?c"
    | "?tis \<noteq> []" "\<not> ((cr_executable ?c \<noteq> [] \<or> int (length ?tis) < n) \<or> \<not> found_new_filters c ?c)" by blast
  then show ?case
  proof cases
    case 3
    from "1.IH" [OF refl 3(1) refl refl 3(2) "1.prems"(1,2) inv starve(1)] 3 "1.prems"(6) show ?thesis
      by (simp add: critical_loop.simps [of get_dag locked n c] Let_def)
  qed (use starve(1) over "1.prems" in \<open>auto simp: critical_loop.simps [of get_dag locked n c] Let_def\<close>)
qed

text \<open>Why \<open>x\<close> had to wait, in terms of the database after the critical section.\<close>

definition held_back :: "(id_str \<Rightarrow> dag option) \<Rightarrow> db \<Rightarrow> db \<Rightarrow> task_instance \<Rightarrow> bool" where
  "held_back get_dag s s' x \<longleftrightarrow>
     (case get_pool s (ti_pool x) of None \<Rightarrow> True | Some p \<Rightarrow> open_slots s' p \<le> Fin 0) \<or>
     limit_reached (dag_limit s (ti_dag_id x)) (active_count ti_dag_id (ti_dag_id x) s') \<or>
     limit_reached (task_limit get_dag s (ti_task x)) (active_count ti_task (ti_task x) s') \<or>
     limit_reached (task_dagrun_limit get_dag s (ti_run_task x)) (active_count ti_run_task (ti_run_task x) s') \<or>
     dag_missing get_dag s (ti_dag_id x) \<or>
     list_ex (\<lambda>y. eligible s y \<and> ti_task y = ti_task x \<and>
        (case get_pool s (ti_pool y) of None \<Rightarrow> False
         | Some p \<Rightarrow> open_slots s' p < Fin (ti_pool_slots y) \<or>
                     (pl_slots p \<noteq> -1 \<and> pl_slots p < ti_pool_slots y))) (db_tis s)"

text \<open>The entry of a pool in the statistics, by its row.\<close>

definition stats_for :: "db \<Rightarrow> (id_str \<times> PoolStats) list \<Rightarrow> bool" where
  "stats_for s pools \<longleftrightarrow> (\<forall>name. case get_pool s name of
       None \<Rightarrow> dict_get pools name = None
     | Some p \<Rightarrow> pl_pool p = name \<and> (\<exists>ps. dict_get pools name = Some ps \<and> ps_open ps = open_slots s p \<and>
         ps_total ps = (if pl_slots p = -1 then PInf else Fin (pl_slots p))))"

lemma slots_stats_for:
  assumes "wf_db s" and "slots_stats True locked s = Inr pools"
  shows "stats_for s pools \<and> distinct (dict_keys pools)"
proof -
  from assms slots_stats_result [OF assms(1), of True] have stats:
    "dict_keys pools = map pl_pool (db_pools s)"
    "\<forall>p \<in> set (db_pools s). \<exists>ps. dict_get pools (pl_pool p) = Some ps \<and> ps_open ps = open_slots s p \<and>
       ps_total ps = (if pl_slots p = -1 then PInf else Fin (pl_slots p))"
    by (auto simp: slots_stats_def split: if_splits)
  have "case get_pool s name of None \<Rightarrow> dict_get pools name = None
     | Some p \<Rightarrow> pl_pool p = name \<and> (\<exists>ps. dict_get pools name = Some ps \<and> ps_open ps = open_slots s p \<and>
         ps_total ps = (if pl_slots p = -1 then PInf else Fin (pl_slots p)))" for name
  proof (cases "get_pool s name")
    case None
    then have "name \<notin> set (dict_keys pools)" by (auto simp: stats(1) get_pool_def find_None_iff)
    with None show ?thesis by (simp add: in_dict_keys_iff)
  next
    case (Some p)
    then have "p \<in> set (db_pools s)" "pl_pool p = name" by (auto simp: get_pool_def find_Some_iff)
    with stats(2) Some show ?thesis by auto
  qed
  with stats(1) assms(1) show ?thesis by (simp add: stats_for_def wf_db_def)
qed

lemma starve_inv_initial: "distinct (dict_keys pools) \<Longrightarrow> starve_inv get_dag s (initial_crit pools s)"
  by (auto simp: starve_inv_def initial_crit_def pool_closed_def dict_keys_def map_of_is_SomeI)

lemma stats_forD:
  assumes "stats_for s pools"
  shows "get_pool s name = None \<Longrightarrow> dict_get pools name = None"
    "get_pool s name = Some p \<Longrightarrow> pl_pool p = name \<and> (\<exists>ps. dict_get pools name = Some ps \<and>
       ps_open ps = open_slots s p \<and> ps_total ps = (if pl_slots p = -1 then PInf else Fin (pl_slots p)))"
  using assms [unfolded stats_for_def, rule_format, of name] by simp_all

lemma held_back_after:
  assumes "stats_for s pools" and inv: "crit_inv get_dag locked s pools c" and "starve_inv get_dag s c"
    and "passed_over get_dag s c x" "x \<notin> set (cr_executable c)" "cr_executable c = tis"
    and slots: "\<And>p. open_slots s' p = xminus (open_slots s p) (slots_in (pl_pool p) tis)"
    and counts: "\<And>k. active_count ti_dag_id k s' = active_count ti_dag_id k s + count_where (\<lambda>ti. ti_dag_id ti = k) tis"
      "\<And>k. active_count ti_task k s' = active_count ti_task k s + count_where (\<lambda>ti. ti_task ti = k) tis"
      "\<And>k. active_count ti_run_task k s' = active_count ti_run_task k s + count_where (\<lambda>ti. ti_run_task ti = k) tis"
  shows "held_back get_dag s s' x"
proof -
  have entry: "dict_get (cr_pools c) name = map_option (take_slots (slots_in name tis)) (dict_get pools name)" for name
    using inv assms(6) by (simp add: crit_inv_def pools_inv_def)
  note dict = stats_forD [OF assms(1)]
  have closed: "case get_pool s p of None \<Rightarrow> True | Some q \<Rightarrow> open_slots s' q \<le> Fin 0" if "pool_closed c p" for p
  proof (cases "get_pool s p")
    case (Some q)
    with dict(2) [OF Some] that entry [of p] slots [of q] show ?thesis
      by (auto simp: pool_closed_def take_slots_def)
  qed simp
  have room: "case get_pool s (ti_pool y) of None \<Rightarrow> False
      | Some p \<Rightarrow> open_slots s' p < Fin (ti_pool_slots y) \<or> (pl_slots p \<noteq> -1 \<and> pl_slots p < ti_pool_slots y)"
    if "no_room c y" for y
  proof (cases "get_pool s (ti_pool y)")
    case None
    with dict(1) [OF None] that entry [of "ti_pool y"] show ?thesis by (simp add: no_room_def)
  next
    case (Some q)
    with dict(2) [OF Some] that entry [of "ti_pool y"] slots [of q] show ?thesis
      by (auto simp: no_room_def take_slots_def split: if_splits)
  qed
  from assms(4,5) consider "starved c x" | "dag_missing get_dag s (ti_dag_id x)" by (auto simp: passed_over_def)
  then show ?thesis
  proof cases
    case 1
    with assms(3) consider "pool_closed c (ti_pool x)"
      | "at_limit (dag_limit s) ti_dag_id s tis (ti_dag_id x)"
      | "at_limit (task_limit get_dag s) ti_task s tis (ti_task x)"
      | y where "y \<in> set (db_tis s)" "eligible s y" "ti_task y = ti_task x" "no_room c y"
      | "at_limit (task_dagrun_limit get_dag s) ti_run_task s tis (ti_run_task x)"
      unfolding starved_def starve_inv_def assms(6) ti_task_def [symmetric] by blast
    then show ?thesis
    proof cases
      case 4
      with room [of y] show ?thesis by (auto simp: held_back_def list_ex_iff)
    qed (use closed [of "ti_pool x"] counts in \<open>auto simp: held_back_def at_limit_def\<close>)
  qed (simp add: held_back_def)
qed

subsection \<open>Properties of the critical section\<close>

definition sample_env_crit :: critical_env where
  "sample_env_crit = \<lparr>ce_get_dag = (\<lambda>_. None), ce_postgres = True, ce_lock_acquired = True,
     ce_pools_locked = False, ce_row_locked = (\<lambda>_. False), ce_now = 7, ce_job_id = Some 1\<rparr>"

definition sample_scheduled :: db where
  "sample_scheduled = sample_db [sample_ti ''a'' (Some RUNNING),
     (sample_ti ''b'' (Some SCHEDULED))\<lparr>ti_pool_slots := 2\<rparr>,
     (sample_ti ''c'' (Some SCHEDULED))\<lparr>ti_priority_weight := 5, ti_pool_slots := 2\<rparr>]"

lemma wf_sample_scheduled: "wf_db sample_scheduled"
  by (simp add: sample_scheduled_def wf_db_def ti_primary_def sample_defs)

lemma sample_scheduled_run:
  "\<exists>c s'. executable_task_instances_to_queued sample_env_crit 3 sample_scheduled = Inr ([c], s') \<and>
     ti_task_id c = ''c'' \<and> ti_dag_id c = ''d'' \<and> ti_pool c = ''p'' \<and> ti_pool_slots c = 2"
proof -
  have "(case executable_task_instances_to_queued sample_env_crit 3 sample_scheduled of
      Inl _ \<Rightarrow> False | Inr (tis, s') \<Rightarrow> map ti_task_id tis = [''c''] \<and> map ti_dag_id tis = [''d''] \<and>
        map ti_pool tis = [''p''] \<and> map ti_pool_slots tis = [2])" by code_simp
  then show ?thesis by (auto split: sum.splits)
qed

text \<open>
  C1. No pool is overbooked: the open slots of every pool go down by exactly the slots of the task
  instances moved to QUEUED in it, and stay non-negative in every pool that received one (a pool
  that was overbooked before is left as it is).
\<close>

theorem pools_never_overbooked:
  assumes "wf_db s" and "executable_task_instances_to_queued env n s = Inr (tis, s')"
  shows "(\<forall>p. open_slots s' p = xminus (open_slots s p) (slots_in (pl_pool p) tis)) \<and>
    (\<forall>ti \<in> set tis. \<exists>p \<in> set (get_pools s). pl_pool p = ti_pool ti \<and> Fin 0 \<le> open_slots s' p) \<and>
    get_pools s' = get_pools s"
proof -
  obtain F where F: "critical_outcome env n s tis F" "s' = queue_rows env tis (fail_in F s)"
    using critical_result [OF assms] .
  have "open_slots s' p = xminus (open_slots s p) (slots_in (pl_pool p) tis)" for p
    using open_slots_after [OF F(2) assms(1) F(1)] .
  moreover have "\<exists>p \<in> set (db_pools s). pl_pool p = ti_pool ti \<and> Fin (slots_in (pl_pool p) tis) \<le> open_slots s p"
    if "ti \<in> set tis" for ti
    using that F(1) by (fastforce simp: critical_outcome_def)
  moreover have "get_pools s' = get_pools s" by (simp add: F(2) get_pools_def queue_rows_def Let_def)
  ultimately show ?thesis by (fastforce simp: get_pools_def xminus_nonneg_iff)
qed

lemma pools_never_overbooked_witness:
  "\<exists>c s'. executable_task_instances_to_queued sample_env_crit 3 sample_scheduled = Inr ([c], s') \<and>
     open_slots s' (sample_pool ''p'' 4) = Fin 1 \<and> get_pools s' = [sample_pool ''p'' 4]"
proof -
  obtain c s' where run: "executable_task_instances_to_queued sample_env_crit 3 sample_scheduled = Inr ([c], s')"
    "ti_pool c = ''p''" "ti_pool_slots c = 2" using sample_scheduled_run by blast
  from pools_never_overbooked [OF wf_sample_scheduled run(1)]
  have "open_slots s' (sample_pool ''p'' 4) =
      xminus (open_slots sample_scheduled (sample_pool ''p'' 4)) (slots_in ''p'' [c])"
    "get_pools s' = get_pools sample_scheduled" by (auto simp: sample_pool_def)
  moreover have "open_slots sample_scheduled (sample_pool ''p'' 4) = Fin 3" by code_simp
  moreover have "get_pools sample_scheduled = [sample_pool ''p'' 4]"
    by (simp add: get_pools_def sample_scheduled_def sample_db_def)
  ultimately show ?thesis using run by (auto simp: slots_in_def)
qed

text \<open>
  C2. The concurrency limits hold: the critical section never takes the number of running and
  queued task instances of a DAG over \<open>max_active_tasks\<close>, of a task over
  \<open>max_active_tis_per_dag\<close>, or of a task within a dag run over \<open>max_active_tis_per_dagrun\<close>; what
  was over a limit before does not grow.
\<close>

theorem concurrency_limits_respected:
  assumes "wf_db s" and "executable_task_instances_to_queued env n s = Inr (tis, s')"
  shows "(\<forall>d l. dag_limit s d = Some l \<longrightarrow>
        active_count ti_dag_id d s' \<le> max (active_count ti_dag_id d s) l) \<and>
    (\<forall>k l. task_limit (ce_get_dag env) s k = Some l \<longrightarrow>
        active_count ti_task k s' \<le> max (active_count ti_task k s) l) \<and>
    (\<forall>k l. task_dagrun_limit (ce_get_dag env) s k = Some l \<longrightarrow>
        active_count ti_run_task k s' \<le> max (active_count ti_run_task k s) l)"
proof -
  obtain F where F: "critical_outcome env n s tis F" "s' = queue_rows env tis (fail_in F s)"
    using critical_result [OF assms] .
  have w: "within (dag_limit s) ti_dag_id s tis" "within (task_limit (ce_get_dag env) s) ti_task s tis"
    "within (task_dagrun_limit (ce_get_dag env) s) ti_run_task s tis"
    using F(1) by (simp_all add: critical_outcome_def)
  note after = active_after [OF F(2) assms(1) F(1)]
  show ?thesis
    using within_after [OF w(1) _ after] within_after [OF w(2) _ after] within_after [OF w(3) _ after]
    by simp
qed

definition sample_limited :: "critical_env \<times> db" where
  "sample_limited =
     (sample_env_crit\<lparr>ce_get_dag := (\<lambda>_. Some (sample_dag [(sample_op ''c'')\<lparr>op_max_active_tis_per_dag := Some 0\<rparr>]))\<rparr>,
      sample_scheduled\<lparr>db_dms := [sample_dm\<lparr>dm_has_task_concurrency_limits := True\<rparr>]\<rparr>)"

lemma concurrency_limits_respected_witness:
  "\<exists>tis s'. executable_task_instances_to_queued (fst sample_limited) 3 (snd sample_limited) = Inr (tis, s') \<and>
     map ti_task_id tis = [''b''] \<and> active_count ti_dag_id ''d'' s' \<le> 16 \<and>
     active_count ti_task (''d'', ''c'') s' \<le> 0"
proof -
  have "(case executable_task_instances_to_queued (fst sample_limited) 3 (snd sample_limited) of
      Inl _ \<Rightarrow> False | Inr (tis, s') \<Rightarrow> map ti_task_id tis = [''b''])" by code_simp
  then obtain tis s' where run:
    "executable_task_instances_to_queued (fst sample_limited) 3 (snd sample_limited) = Inr (tis, s')"
    "map ti_task_id tis = [''b'']" by (auto split: sum.splits)
  have "wf_db (snd sample_limited)"
    using wf_sample_scheduled by (simp add: sample_limited_def wf_db_def)
  note lim = concurrency_limits_respected [OF this run(1)]
  have "dag_limit (snd sample_limited) ''d'' = Some 16"
    "task_limit (ce_get_dag (fst sample_limited)) (snd sample_limited) (''d'', ''c'') = Some 0"
    "active_count ti_dag_id ''d'' (snd sample_limited) = 1"
    "active_count ti_task (''d'', ''c'') (snd sample_limited) = 0" by code_simp+
  with lim run show ?thesis by fastforce
qed

text \<open>
  C19. What the critical section does to the task instances: it chooses at most \<open>max_tis\<close>, each one
  SCHEDULED, of a running dag run that is no backfill, of a DAG that is not paused, and not locked
  by another scheduler; exactly the chosen rows become QUEUED with the time and the job noted; any
  other row stays as it is, unless it was SCHEDULED in a DAG whose serialised form is missing, in
  which case it may be FAILED.
\<close>

theorem queues_exactly_the_chosen:
  assumes "wf_db s" and "executable_task_instances_to_queued env n s = Inr (tis, s')"
  shows "int (length tis) \<le> max 0 n \<and> distinct tis \<and>
    (\<forall>ti \<in> set tis. ti \<in> set (db_tis s) \<and> eligible s ti \<and> \<not> ce_row_locked env (ti_primary ti)) \<and>
    (\<exists>F. (\<forall>d \<in> F. dag_missing (ce_get_dag env) s d) \<and>
      s' = s\<lparr>db_tis := map (\<lambda>ti. if ti \<in> set tis then set_queued env ti
         else if ti_dag_id ti \<in> F \<and> ti_state ti = Some SCHEDULED then ti\<lparr>ti_state := Some FAILED\<rparr>
         else ti) (db_tis s)\<rparr>)"
proof -
  obtain F where F: "critical_outcome env n s tis F" "s' = queue_rows env tis (fail_in F s)"
    using critical_result [OF assms] .
  have "s' = s\<lparr>db_tis := db_tis s'\<rparr>"
    by (simp add: F(2) queue_rows_def Let_def fail_in_def)
  with F(1) tis_after [OF F(2) assms(1) F(1)] show ?thesis
    by (auto simp: critical_outcome_def fail_dags_def)
qed

lemma queues_exactly_the_chosen_witness:
  "\<exists>c s'. executable_task_instances_to_queued sample_env_crit 3 sample_scheduled = Inr ([c], s') \<and>
     eligible sample_scheduled c \<and> c \<in> set (db_tis sample_scheduled)"
  using sample_scheduled_run queues_exactly_the_chosen [OF wf_sample_scheduled, of sample_env_crit 3]
  by (metis list.set_intros(1))

text \<open>
  C20. Priority is only passed over for a reason: when a task instance is queued, every eligible one
  that sorts before it (by priority weight, then execution date, then map index) and is not queued
  itself is held back by something that still holds afterwards: its pool does not exist or has no
  open slot, a limit of its DAG, its task or its task in the run is reached, its serialised DAG is
  missing, or an eligible instance of the same task does not fit into its pool.
\<close>

theorem passed_over_for_a_reason:
  assumes "wf_db s" and "executable_task_instances_to_queued env n s = Inr (tis, s')"
    and slots: "\<forall>ti \<in> set (db_tis s). 0 \<le> ti_pool_slots ti"
    and "ti \<in> set tis" and x: "x \<in> set (db_tis s)" "eligible s x" "\<not> ce_row_locked env (ti_primary x)"
    and "x \<notin> set tis" and "queue_order s x < queue_order s ti"
  shows "held_back (ce_get_dag env) s s' x"
proof -
  obtain F where F: "critical_outcome env n s tis F" "s' = queue_rows env tis (fail_in F s)"
    using critical_result [OF assms(1,2)] .
  obtain pools m where run: "slots_stats True (ce_pools_locked env) s = Inr pools"
    "tis = cr_executable (critical_loop (ce_get_dag env) (ce_row_locked env) m (initial_crit pools s))"
    using assms(2,4) by (auto simp: executable_task_instances_to_queued_def Let_def split: if_splits)
  let ?c = "critical_loop (ce_get_dag env) (ce_row_locked env) m (initial_crit pools s)"
  note stats = slots_stats_for [OF assms(1) run(1)]
  have start: "cr_executable (initial_crit pools s) = []" by (simp add: initial_crit_def)
  have "crit_inv (ce_get_dag env) (ce_row_locked env) s pools ?c"
    using critical_loop_inv [OF assms(1) crit_inv_initial start] by simp
  moreover have "starve_inv (ce_get_dag env) s ?c \<and>
      (\<forall>ti \<in> set (cr_executable ?c). queue_order s x < queue_order s ti \<longrightarrow> passed_over (ce_get_dag env) s ?c x)"
    by (rule critical_loop_priority [where s = s and locked = "ce_row_locked env", OF assms(1) _ crit_inv_initial _ start x])
      (use slots stats starve_inv_initial in auto)
  with assms(4,9) run(2) have "starve_inv (ce_get_dag env) s ?c" "passed_over (ce_get_dag env) s ?c x"
    by blast+
  moreover note after = active_after [OF F(2) assms(1) F(1)]
  have "active_count ti_dag_id k s' = active_count ti_dag_id k s + count_where (\<lambda>ti. ti_dag_id ti = k) tis"
    "active_count ti_task k' s' = active_count ti_task k' s + count_where (\<lambda>ti. ti_task ti = k') tis"
    "active_count ti_run_task k'' s' = active_count ti_run_task k'' s + count_where (\<lambda>ti. ti_run_task ti = k'') tis"
    for k k' k'' by (rule after; simp)+
  ultimately show ?thesis
    using held_back_after [OF conjunct1 [OF stats]] assms(8) run(2)
      open_slots_after [OF F(2) assms(1) F(1)] by metis
qed

lemma passed_over_for_a_reason_witness:
  "\<exists>tis s' x. executable_task_instances_to_queued (fst sample_limited) 3 (snd sample_limited) = Inr (tis, s') \<and>
     ti_task_id x = ''c'' \<and> held_back (ce_get_dag (fst sample_limited)) (snd sample_limited) s' x"
proof -
  let ?x = "db_tis (snd sample_limited) ! 2"
  have "(case executable_task_instances_to_queued (fst sample_limited) 3 (snd sample_limited) of
      Inl _ \<Rightarrow> False | Inr (tis, s') \<Rightarrow> tis = [db_tis (snd sample_limited) ! 1])" by code_simp
  then obtain s' where run: "executable_task_instances_to_queued (fst sample_limited) 3 (snd sample_limited) =
      Inr ([db_tis (snd sample_limited) ! 1], s')" by (auto split: sum.splits)
  have wf: "wf_db (snd sample_limited)"
    using wf_sample_scheduled by (simp add: sample_limited_def wf_db_def)
  have facts: "\<forall>ti \<in> set (db_tis (snd sample_limited)). 0 \<le> ti_pool_slots ti"
    "?x \<in> set (db_tis (snd sample_limited))" "eligible (snd sample_limited) ?x"
    "?x \<notin> set [db_tis (snd sample_limited) ! 1]" "\<not> ce_row_locked (fst sample_limited) (ti_primary ?x)"
    "queue_order (snd sample_limited) ?x < queue_order (snd sample_limited) (db_tis (snd sample_limited) ! 1)"
    by code_simp+
  have "held_back (ce_get_dag (fst sample_limited)) (snd sample_limited) s' ?x"
    by (rule passed_over_for_a_reason [OF wf run facts(1) _ facts(2,3,5,4,6)]) simp
  moreover have "ti_task_id ?x = ''c''" by code_simp
  ultimately show ?thesis using run by blast
qed

end
