(* ===== verification/Ti_Laws.thy ===== *)
theory Ti_Laws
  imports Triggers Scheduler
begin

text \<open>
  What the operations on task instances guarantee together: the attempt counter across starts,
  deferrals, reschedules, failures and retries; what clearing resets; and the laws of triggers.
\<close>

subsection \<open>The rows after each operation\<close>

lemma keeps_primary_rows [simp]:
  "keeps_primary (take_job h j p)" "keeps_primary (running_row x)" "keeps_primary (requeued_row now)"
  "keeps_primary (done_row now st)" "keeps_primary (fail_row now)" "keeps_primary (retry_row now)"
  "keeps_primary (defer_row i t d)" "keeps_primary (reschedule_row now)"
  "keeps_primary clear_next_method_args" "keeps_primary (set_ti_state st')" "keeps_primary (set_queued env)"
  "keeps_primary (resume_row p')" "keeps_primary (fail_resume_row p')"
  by (simp_all add: keeps_primary_def ti_primary_def take_job_def running_row_def requeued_row_def
      done_row_def fail_row_def retry_row_def defer_row_def reschedule_row_def ended_row_def
      set_duration_def clear_next_method_args_def set_ti_state_def set_queued_def resume_row_def
      fail_resume_row_def)

lemma keeps_primary_start [simp]: "keeps_primary (\<lambda>r. r\<lparr>ti_start_date := d\<rparr>)"
  by (simp add: keeps_primary_def ti_primary_def)

lemmas row_defs = take_job_def running_row_def requeued_row_def done_row_def fail_row_def
  retry_row_def defer_row_def reschedule_row_def ended_row_def set_duration_def
  clear_next_method_args_def set_ti_state_def resume_row_def fail_resume_row_def

lemma find_ti_tables [simp]:
  "find_ti (s\<lparr>db_triggers := a\<rparr>) k = find_ti s k" "find_ti (s\<lparr>db_trs := b\<rparr>) k = find_ti s k"
  "find_ti (s\<lparr>db_dataset_events := c\<rparr>) k = find_ti s k" "find_ti (s\<lparr>db_dataset_queue := e\<rparr>) k = find_ti s k"
  "find_ti (s\<lparr>db_xcoms := f\<rparr>) k = find_ti s k" "find_ti (s\<lparr>db_drs := g\<rparr>) k = find_ti s k"
  "find_ti (s\<lparr>db_jobs := h\<rparr>) k = find_ti s k"
  by (simp_all add: find_ti_def)

lemma find_queue_dagruns [simp]: "find_ti (queue_dagruns now dt s) k = find_ti s k"
proof -
  have "find_ti (fold (queue_dagrun now i) ds t) k = find_ti t k" for i ds t
    by (induction ds arbitrary: t) (simp_all add: queue_dagrun_def)
  then show ?thesis by (simp add: queue_dagruns_def)
qed

lemma find_register [simp]: "find_ti (register_dataset_changes now new_id ti outlets s) k = find_ti s k"
proof -
  have "find_ti (register_dataset_change now new_id ti uri t) k = find_ti t k" for uri t
    by (simp add: register_dataset_change_def split: option.splits)
  then show ?thesis by (induction outlets arbitrary: s) (simp_all add: register_dataset_changes_def)
qed

text \<open>Stopping the other tasks of a run leaves the failing task alone.\<close>

lemma stop_remaining_frame:
  "stop_remaining_tasks now d t tis s = Inr s' \<Longrightarrow> fst (snd k) = t \<Longrightarrow> find_ti s' k = find_ti s k"
proof (induction now d t tis s arbitrary: s' rule: stop_remaining_tasks.induct)
  case (2 now d t ti tis s)
  have other: "ti_primary ti \<noteq> k" if "ti_task_id ti \<noteq> t"
    using that "2.prems"(2) by (auto simp: ti_primary_def)
  show ?case
    using 2 other
    by (auto simp: ti_error_def set_state_db store_simps split: if_split_asm option.split_asm)
qed simp

lemma settles_row:
  assumes "settles_ti k s s'" "find_ti s k = Some ti"
  shows "\<exists>ti'. find_ti s' k = Some ti' \<and> ti__try_number ti' = ti__try_number ti \<and>
    ti_max_tries ti' = ti_max_tries ti \<and> (ti_state ti' = ti_state ti \<or> settled_state (ti_state ti'))"
proof -
  from assms(1) obtain f where f: "lifecycle_update f"
    "\<forall>ti. ti_state (f ti) = ti_state ti \<or> settled_state (ti_state (f ti))"
    "s' = (update_ti k f s)\<lparr>db_xcoms := db_xcoms s'\<rparr>"
    unfolding settles_ti_def by blast
  have "find_ti s' k = find_ti (update_ti k f s) k" by (subst f(3)) simp
  then have "find_ti s' k = Some (f ti)"
    using assms(2) by (simp add: store_simps lifecycle_keeps_primary [OF f(1)])
  moreover have "ti__try_number (f ti) = ti__try_number ti" "ti_max_tries (f ti) = ti_max_tries ti"
    using arg_cong [OF spec [OF f(1) [unfolded lifecycle_update_def], of ti], of ti__try_number]
      arg_cong [OF spec [OF f(1) [unfolded lifecycle_update_def], of ti], of ti_max_tries] by simp_all
  ultimately show ?thesis using f(2) by blast
qed

text \<open>The effect of a failure on the row.\<close>

lemma handle_failure_row:
  assumes "handle_failure now task force k s = Inr (cb, s')" "find_ti s k = Some ti"
  shows "find_ti s' k = Some (if force \<or> \<not> is_eligible_to_retry (map_option snd task) (ended_row now ti)
    then fail_row now ti else retry_row now ti)"
proof -
  have "fst (snd k) = ti_task_id ti" using find_ti_Some [OF assms(2)] by (auto simp: ti_primary_def)
  with assms show ?thesis
    by (auto simp: handle_failure_def Let_def store_simps split: if_split_asm option.split_asm prod.split_asm
        dest!: stop_remaining_frame [where k = k])
qed

subsection \<open>Starting\<close>

definition plain_run :: "run_options \<Rightarrow> bool" where
  "plain_run opts \<longleftrightarrow> \<not> ro_mark_success opts \<and> \<not> ro_ignore_all_deps opts \<and> \<not> ro_ignore_ti_state opts"

lemma NON_REQUEUEABLE: "NON_REQUEUEABLE_DEPS = [RunnableExecDateDep, ValidStateDep RUNNABLE_STATES, TaskNotRunningDep]"
  by (simp add: NON_REQUEUEABLE_DEPS_def RUNNING_DEPS_def REQUEUEABLE_DEPS_def)

lemma failed_loop_Nil:
  "failed_statuses_loop (dep # deps) env op k cxt s = Inr ([], cxt', s') \<longleftrightarrow>
   (\<exists>sts cxt1 s1. get_dep_statuses dep env op k cxt s = Inr (sts, cxt1, s1) \<and> (\<forall>st \<in> set sts. ds_passed st) \<and>
      failed_statuses_loop deps env op k cxt1 s1 = Inr ([], cxt', s'))"
  by (auto simp: filter_empty_conv)

text \<open>A met check of the non-requeueable dependencies finds the task instance in a runnable state.\<close>

lemma runnable_if_met:
  assumes "are_dependencies_met env op k (running_dep_context NON_REQUEUEABLE_DEPS opts) s = Inr (True, cxt', s')"
    and "plain_run opts" "find_ti s k = Some ti"
  shows "ti_state ti \<in> set RUNNABLE_STATES"
proof -
  obtain deps where deps: "set_update NON_REQUEUEABLE_DEPS (op_deps op) =
      RunnableExecDateDep # ValidStateDep RUNNABLE_STATES # deps"
    by (simp add: set_update_def NON_REQUEUEABLE)
  let ?cxt = "running_dep_context NON_REQUEUEABLE_DEPS opts"
  have "failed_statuses_loop (RunnableExecDateDep # ValidStateDep RUNNABLE_STATES # deps) env op k ?cxt s = Inr ([], cxt', s')"
    using assms(1) by (auto simp: are_dependencies_met_def get_failed_dep_statuses_def running_dep_context_def deps)
  then obtain sts1 c1 s1 sts2 c2 s2 where st: "get_dep_statuses RunnableExecDateDep env op k ?cxt s = Inr (sts1, c1, s1)"
    "get_dep_statuses (ValidStateDep RUNNABLE_STATES) env op k c1 s1 = Inr (sts2, c2, s2)" "\<forall>st \<in> set sts2. ds_passed st"
    unfolding failed_loop_Nil by blast
  have cxt: "\<not> dc_ignore_all_deps ?cxt" "\<not> dc_ignore_ti_state ?cxt"
    using assms(2) by (simp_all add: running_dep_context_def plain_run_def)
  from st(1) cxt(1) have "c1 = ?cxt" "s1 = s"
    by (auto simp: get_dep_statuses_def split: if_split_asm option.split_asm)
  with st(2,3) cxt assms(3) show ?thesis
    by (auto simp: get_dep_statuses_def valid_state_statuses_def Let_def split: if_split_asm)
qed

text \<open>What a call of the check did: nothing but settle the row, put it back to no state, or start it.\<close>

lemma check_before_execution_cases:
  assumes "check_and_change_state_before_execution env op opts h j x k s = Inr (b, s')"
    and "find_ti s k = Some ti" "plain_run opts"
  obtains ti' where "find_ti s' k = Some ti'" "\<not> b" "ti__try_number ti' = ti__try_number ti"
      "ti_max_tries ti' = ti_max_tries ti" "ti_state ti' = ti_state ti \<or> settled_state (ti_state ti')"
    | ti' where "find_ti s' k = Some ti'" "\<not> b" "ti__try_number ti' = ti__try_number ti"
      "ti_max_tries ti' = ti_max_tries ti" "ti_state ti \<in> set RUNNABLE_STATES" "ti_state ti' = None"
    | ti' where "find_ti s' k = Some ti'" "b" "ti__try_number ti' = ti__try_number ti + 1"
      "ti_max_tries ti' = ti_max_tries ti" "ti_state ti \<in> set RUNNABLE_STATES" "ti_state ti' = Some RUNNING"
proof -
  let ?s1 = "update_ti k (take_job h j None) s"
  have ms: "\<not> ro_mark_success opts" using assms(3) by (simp add: plain_run_def)
  have f1: "find_ti ?s1 k = Some (take_job h j None ti)" using assms(2) by (simp add: store_simps)
  from assms(1,2) ms obtain met cxt s2 where
    met: "are_dependencies_met env op k (running_dep_context NON_REQUEUEABLE_DEPS opts) ?s1 = Inr (met, cxt, s2)"
    by (auto simp: check_and_change_state_before_execution_def Let_def simp del: bind_err_Inr_iff elim!: bind_err_InrE)
  from settles_row [OF settles_dependencies [OF met] f1] obtain ti2 where ti2: "find_ti s2 k = Some ti2"
    "ti__try_number ti2 = ti__try_number ti" "ti_max_tries ti2 = ti_max_tries ti"
    "ti_state ti2 = ti_state ti \<or> settled_state (ti_state ti2)" by (auto simp: take_job_def)
  show thesis
  proof (cases met)
    case False
    with assms(1,2) met ms have "s' = s2" "\<not> b"
      by (auto simp: check_and_change_state_before_execution_def Let_def)
    with ti2 that(1) show thesis by blast
  next
    case True
    have run: "ti_state ti \<in> set RUNNABLE_STATES"
      using runnable_if_met [OF _ assms(3) f1] met True by (simp add: take_job_def)
    let ?s3 = "update_ti k (\<lambda>r. r\<lparr>ti_start_date := try_start_date (de_now env) ti2 s2\<rparr>) s2"
    have f3: "find_ti ?s3 k = Some (ti2\<lparr>ti_start_date := try_start_date (de_now env) ti2 s2\<rparr>)"
      using ti2(1) by (simp add: store_simps)
    from assms(1,2) met ms True ti2(1) obtain met' cxt' s4 where
      met': "are_dependencies_met env op k (running_dep_context REQUEUEABLE_DEPS opts) ?s3 = Inr (met', cxt', s4)"
      by (auto simp: check_and_change_state_before_execution_def Let_def simp del: bind_err_Inr_iff elim!: bind_err_InrE)
    from settles_row [OF settles_dependencies [OF met'] f3] obtain ti4 where ti4: "find_ti s4 k = Some ti4"
      "ti__try_number ti4 = ti__try_number ti" "ti_max_tries ti4 = ti_max_tries ti"
      using ti2 by auto
    have "b = met'" "s' = update_ti k (if met' then running_row x else requeued_row (de_now env)) s4"
      using assms(1,2) met ms True ti2(1) met'
      by (auto simp: check_and_change_state_before_execution_def Let_def split: if_split_asm)
    with ti4 run that(2,3) show thesis by (cases met') (auto simp: store_simps row_defs)
  qed
qed

subsection \<open>Ending\<close>

lemma finish_raw_task_row:
  assumes "finish_raw_task now new_id d op asd outcome k s = Inr (r, s')"
    and "find_ti s k = Some ti" "ti_state ti = Some RUNNING"
  shows "\<exists>f. find_ti s' k = Some (f ti) \<and> f \<in> {done_row now SUCCESS, done_row now SKIPPED,
      reschedule_row now, fail_row now} \<union> {defer_row i t df | i t df. True} \<union>
      (if is_eligible_to_retry (Some op) (ended_row now ti) then {retry_row now} else {})"
proof (cases outcome)
  case (RaisedDeferred df)
  with assms obtain t where "find_ti s' k = Some (defer_row (new_id s) t df ti)"
    by (auto simp: finish_raw_task_def defer_task_def Let_def store_simps)
  then show ?thesis by blast
next
  case (RaisedReschedule dt)
  with assms show ?thesis
    by (auto simp: finish_raw_task_def handle_reschedule_def Let_def store_simps)
next
  case RaisedFail
  with assms handle_failure_row [of now "Some (d, op)" True k s _ s'] show ?thesis
    by (fastforce simp: finish_raw_task_def)
next
  case RaisedAirflowException
  with assms handle_failure_row [of now "Some (d, op)" False k s _ s'] show ?thesis
    by (fastforce simp: finish_raw_task_def current_state_def)
next
  case RaisedOther
  with assms handle_failure_row [of now "Some (d, op)" False k s _ s'] show ?thesis
    by (fastforce simp: finish_raw_task_def)
qed (use assms in \<open>auto simp: finish_raw_task_def store_simps\<close>)

subsection \<open>The life of a task instance\<close>

text \<open>
  What can happen to the task instance \<open>k\<close> with the task \<open>op\<close> in the DAG \<open>d\<close> between two clearings:
  a worker starts it, its execution ends, the executor or the scheduler reports it lost, the
  scheduler moves it to SCHEDULED and QUEUED, a trigger fires or fails, a dependency check settles
  it, or something else changes. The flag marks the steps that make it wait for a retry.
\<close>

inductive life_step :: "dag \<Rightarrow> operator \<Rightarrow> ti_primary \<Rightarrow> db \<Rightarrow> bool \<Rightarrow> db \<Rightarrow> bool" for d op k where
  ls_start: "plain_run opts \<Longrightarrow>
    check_and_change_state_before_execution env op opts hostname job_id ext k s = Inr (b, s') \<Longrightarrow>
    life_step d op k s False s'"
| ls_end: "current_state k s = Some RUNNING \<Longrightarrow>
    finish_raw_task now new_id d op start outcome k s = Inr (r, s') \<Longrightarrow>
    life_step d op k s (current_state k s' = Some UP_FOR_RETRY) s'"
| ls_lost: "current_state k s \<in> {Some RUNNING, Some QUEUED} \<Longrightarrow>
    handle_failure now (Some (d, op)) force k s = Inr (cb, s') \<Longrightarrow>
    life_step d op k s (current_state k s' = Some UP_FOR_RETRY) s'"
| ls_schedule: "current_state k s \<in> set SCHEDULEABLE_STATES \<Longrightarrow>
    life_step d op k s False (update_ti k (set_ti_state (Some SCHEDULED)) s)"
| ls_queue: "current_state k s = Some SCHEDULED \<Longrightarrow>
    life_step d op k s False (update_ti k (set_queued cenv) s)"
| ls_event: "life_step d op k s False (submit_event i payload s)"
| ls_trigger_failure: "life_step d op k s False (submit_failure i payload s)"
| ls_settle: "settles_ti k s s' \<Longrightarrow> life_step d op k s False s'"
| ls_other: "find_ti s' k = find_ti s k \<Longrightarrow> life_step d op k s False s'"

inductive_cases life_stepE: "life_step d op k s b s'"

inductive life :: "dag \<Rightarrow> operator \<Rightarrow> ti_primary \<Rightarrow> db \<Rightarrow> nat \<Rightarrow> db \<Rightarrow> bool" for d op k s0 where
  life_begin: "life d op k s0 0 s0"
| life_next: "life d op k s0 n s \<Longrightarrow> life_step d op k s b s' \<Longrightarrow>
    life d op k s0 (if b then Suc n else n) s'"

text \<open>With \<open>n\<close> tries failed, a running task instance is at try \<open>n + 1\<close> and an unfinished one that
  does not run counts \<open>n\<close> tries; at most \<open>max_tries\<close> tries have been retried.\<close>

definition try_inv :: "nat \<Rightarrow> task_instance \<Rightarrow> bool" where
  "try_inv n ti \<longleftrightarrow> int n \<le> ti_max_tries ti \<and>
     (if ti_state ti = Some RUNNING then ti__try_number ti = int n + 1
      else if finished (ti_state ti) then ti__try_number ti \<in> {int n, int n + 1}
      else ti__try_number ti = int n \<and> ti_state ti \<notin> {Some RESTARTING, Some SHUTDOWN})"

lemma try_inv_moves:
  "try_inv n ti \<Longrightarrow> ti_state ti = Some RUNNING \<Longrightarrow>
     try_inv n (done_row now SUCCESS ti) \<and> try_inv n (done_row now SKIPPED ti) \<and> try_inv n (fail_row now ti) \<and>
     try_inv n (reschedule_row now ti) \<and> try_inv n (defer_row i t df ti)"
  "try_inv n ti \<Longrightarrow> ti_state ti = Some QUEUED \<Longrightarrow> try_inv n (fail_row now ti)"
  "try_inv n ti \<Longrightarrow> ti_state ti \<in> {Some RUNNING, Some QUEUED} \<Longrightarrow>
     is_eligible_to_retry (Some op) (ended_row now ti) \<Longrightarrow> try_inv (Suc n) (retry_row now ti)"
  by (auto simp: try_inv_def row_defs is_eligible_to_retry_def get_try_number_def split: if_split_asm)

lemma try_inv_settled: "try_inv n ti \<Longrightarrow> ti__try_number ti' = ti__try_number ti \<Longrightarrow>
   ti_max_tries ti' = ti_max_tries ti \<Longrightarrow> ti_state ti' = ti_state ti \<or> settled_state (ti_state ti') \<Longrightarrow> try_inv n ti'"
  by (auto simp: try_inv_def settled_state_def split: if_split_asm)

lemma retry_states [simp]:
  "ti_state (retry_row now ti) = Some UP_FOR_RETRY" "ti_state (fail_row now ti) = Some FAILED"
  "ti_state (done_row now st ti) = Some st" "ti_state (reschedule_row now ti) = Some UP_FOR_RESCHEDULE"
  "ti_state (defer_row i t df ti) = Some DEFERRED"
  by (simp_all add: row_defs)

lemma find_ti_map:
  "(\<And>ti. ti_primary (f ti) = ti_primary ti) \<Longrightarrow>
   find_ti (s\<lparr>db_tis := map f (db_tis s)\<rparr>) k = map_option f (find_ti s k)"
proof -
  assume f: "\<And>ti. ti_primary (f ti) = ti_primary ti"
  have "find (\<lambda>ti. ti_primary ti = k) (map f xs) = map_option f (find (\<lambda>ti. ti_primary ti = k) xs)" for xs
    by (induction xs) (simp_all add: f)
  then show ?thesis by (simp add: find_ti_def)
qed

lemma life_step_inv:
  assumes "life_step d op k s b s'" "find_ti s k = Some ti" "try_inv n ti"
  shows "\<exists>ti'. find_ti s' k = Some ti' \<and> ti_max_tries ti' = ti_max_tries ti \<and>
    try_inv (if b then Suc n else n) ti'"
  using assms(1)
proof (cases rule: life_step.cases)
  case (ls_start opts env h j x b')
  from ls_start(3) assms(2) ls_start(2) show ?thesis
  proof (cases rule: check_before_execution_cases)
    case (1 ti')
    have "try_inv n ti'" by (rule try_inv_settled [OF assms(3) 1(3-5)])
    with 1 ls_start(1) show ?thesis by simp
  next
    case (2 ti')
    with assms(3) ls_start(1) show ?thesis by (auto simp: try_inv_def RUNNABLE_STATES_def)
  next
    case (3 ti')
    with assms(3) ls_start(1) show ?thesis by (auto simp: try_inv_def RUNNABLE_STATES_def)
  qed
next
  case (ls_end now new_id start outcome r)
  have run: "ti_state ti = Some RUNNING" using ls_end(2) assms(2) by (simp add: current_state_def)
  from finish_raw_task_row [OF ls_end(3) assms(2) run] obtain f where f: "find_ti s' k = Some (f ti)"
    "f \<in> {done_row now SUCCESS, done_row now SKIPPED, reschedule_row now, fail_row now} \<union> {defer_row i t df | i t df. True} \<union>
      (if is_eligible_to_retry (Some op) (ended_row now ti) then {retry_row now} else {})" by blast
  have "ti_max_tries (f ti) = ti_max_tries ti" using f(2) by (auto simp: row_defs split: if_split_asm)
  with f run try_inv_moves(1) [OF assms(3) run, of now] try_inv_moves(3) [OF assms(3), of op now]
  show ?thesis by (auto simp: ls_end(1) current_state_def split: if_split_asm)
next
  case (ls_lost now force cb)
  have run: "ti_state ti \<in> {Some RUNNING, Some QUEUED}" using ls_lost(2) assms(2) by (simp add: current_state_def)
  from handle_failure_row [OF ls_lost(3) assms(2)] run try_inv_moves [OF assms(3)]
  show ?thesis by (auto simp: ls_lost(1) current_state_def row_defs)
next
  case ls_schedule
  with assms(2,3) show ?thesis
    by (auto simp: store_simps current_state_def SCHEDULEABLE_STATES_def try_inv_def set_ti_state_def)
next
  case (ls_queue cenv)
  with assms(2,3) show ?thesis by (auto simp: store_simps current_state_def try_inv_def set_queued_def)
next
  case (ls_event i payload)
  have "find_ti s' k = Some (if waits_for i ti then resume_row payload ti else ti)"
    unfolding ls_event submit_event_def using assms(2)
    by (subst find_ti_map) (simp_all add: resume_row_def ti_primary_def)
  with assms(3) show ?thesis by (auto simp: ls_event try_inv_def waits_for_def resume_row_def)
next
  case (ls_trigger_failure i payload)
  have "find_ti s' k = Some (if waits_for i ti then fail_resume_row payload ti else ti)"
    unfolding ls_trigger_failure submit_failure_def using assms(2)
    by (subst find_ti_map) (simp_all add: fail_resume_row_def ti_primary_def)
  with assms(3) show ?thesis by (auto simp: ls_trigger_failure try_inv_def waits_for_def fail_resume_row_def)
next
  case ls_settle
  with settles_row [OF _ assms(2)] try_inv_settled [OF assms(3)] show ?thesis by metis
next
  case ls_other
  with assms(2,3) show ?thesis by simp
qed

lemma life_inv:
  "life d op k s0 n s \<Longrightarrow> find_ti s0 k = Some ti0 \<Longrightarrow> try_inv 0 ti0 \<Longrightarrow>
   \<exists>ti. find_ti s k = Some ti \<and> ti_max_tries ti = ti_max_tries ti0 \<and> try_inv n ti"
proof (induction rule: life.induct)
  case (life_next n s b s')
  then obtain ti where "find_ti s k = Some ti" "ti_max_tries ti = ti_max_tries ti0" "try_inv n ti" by blast
  with life_step_inv [OF life_next(2)] show ?case by metis
qed auto


definition sample_retry_db :: db where
  "sample_retry_db = sample_db [(sample_ti ''a'' None)\<lparr>ti_max_tries := 1\<rparr>]"


subsection \<open>Clearing\<close>

definition task_of :: "(id_str \<Rightarrow> dag option) \<Rightarrow> task_instance \<Rightarrow> operator option" where
  "task_of get_dag ti = (case get_dag (ti_dag_id ti) of None \<Rightarrow> None
     | Some d \<Rightarrow> dict_get (d_task_dict d) (ti_task_id ti))"

lemma find_replace:
  assumes "ti_primary ti' = k"
  shows "find_ti (update_ti k (\<lambda>_. ti') s) k' = (if k' = k then map_option (\<lambda>_. ti') (find_ti s k) else find_ti s k')"
proof -
  have "find (\<lambda>x. ti_primary x = k') (map (\<lambda>x. if ti_primary x = k then ti' else x) xs) =
      (if k' = k then map_option (\<lambda>_. ti') (find (\<lambda>x. ti_primary x = k) xs) else find (\<lambda>x. ti_primary x = k') xs)" for xs
    using assms by (induction xs) auto
  then show ?thesis by (simp add: find_ti_def update_ti_def)
qed

lemma clear_one_row:
  assumes "clear_one get_dag ti = Inr ti'"
  shows "ti_primary ti' = ti_primary ti \<and> ti__try_number ti' = ti__try_number ti \<and>
    (if ti_state ti = Some RUNNING
     then ti' = (if restarted_job ti = None then ti else ti\<lparr>ti_state := Some RESTARTING\<rparr>)
     else ti_state ti' = None \<and> ti_next_method ti' = None \<and> ti_external_executor_id ti' = None \<and>
       (case task_of get_dag ti of Some op \<Rightarrow> ti_max_tries ti' = ti__try_number ti + op_retries op
        | None \<Rightarrow> ti_max_tries ti' = max (ti_max_tries ti) (ti__try_number ti)))"
  using assms
  by (auto simp: clear_one_def clear_row_def restarted_job_def task_of_def get_task_def Let_def ti_primary_def
      cleared_max_tries_def get_try_number_def prev_attempted_tries_def refresh_from_task_def
      clear_next_method_args_def split: if_split_asm option.split_asm option.splits)

lemma clear_loop_rows:
  "clear_loop get_dag ks s = Inr (tries, jobs, s1) \<Longrightarrow> distinct ks \<Longrightarrow>
   db_drs s1 = db_drs s \<and> db_trs s1 = db_trs s \<and> (\<forall>k. k \<notin> set ks \<longrightarrow> find_ti s1 k = find_ti s k) \<and>
   (\<forall>k \<in> set ks. \<exists>ti ti'. find_ti s k = Some ti \<and> clear_one get_dag ti = Inr ti' \<and> find_ti s1 k = Some ti' \<and>
      (k, get_try_number ti') \<in> set tries)"
proof (induction get_dag ks s arbitrary: tries jobs s1 rule: clear_loop.induct)
  case (2 get_dag k ks s)
  from "2.prems"(1) obtain ti where ti: "find_ti s k = Some ti" by (auto split: option.split_asm)
  with "2.prems"(1) obtain ti' tries' jobs' where l: "clear_one get_dag ti = Inr ti'"
    "clear_loop get_dag ks (update_ti k (\<lambda>_. ti') s) = Inr (tries', jobs', s1)"
    "tries = (k, get_try_number ti') # tries'" by auto
  have p: "ti_primary ti' = k" using clear_one_row [OF l(1)] find_ti_Some [OF ti] by simp
  let ?s = "update_ti k (\<lambda>_. ti') s"
  have f: "find_ti ?s k = Some ti'" "find_ti ?s k' = find_ti s k'" if "k' \<noteq> k" for k'
    using ti that by (simp_all add: find_replace [OF p])
  from "2.IH" [OF ti l(1) l(2)] "2.prems"(2) have ih: "db_drs s1 = db_drs s" "db_trs s1 = db_trs s"
    "\<forall>k. k \<notin> set ks \<longrightarrow> find_ti s1 k = find_ti ?s k"
    "\<forall>k \<in> set ks. \<exists>ti ti'. find_ti ?s k = Some ti \<and> clear_one get_dag ti = Inr ti' \<and> find_ti s1 k = Some ti' \<and>
      (k, get_try_number ti') \<in> set tries'" by auto
  have "find_ti s1 k = Some ti'" using spec [OF ih(3), of k] "2.prems"(2) ti by (simp add: find_replace [OF p])
  moreover have "\<exists>ti ti'. find_ti s k' = Some ti \<and> clear_one get_dag ti = Inr ti' \<and> find_ti s1 k' = Some ti' \<and>
      (k', get_try_number ti') \<in> set tries" if "k' \<in> set ks" for k'
  proof -
    have "k' \<noteq> k" using that "2.prems"(2) by auto
    with ih(4) that l(3) f(2) show ?thesis by (metis list.set_intros(2))
  qed
  ultimately show ?case using ih(1-3) ti l(1,3) f(2) by auto
qed simp

text \<open>
  Clearing: a cleared task instance that runs under a job is told to restart (without a job it
  is left alone); any other is put back to no state with its try counter kept and its maximum
  raised, so that it has all the retries of its task ahead of it again; no reschedule of the try to
  come survives; the finished dag runs concerned are queued anew without start date and the
  unfinished ones are left as they are; and no other task instance changes.
\<close>

theorem clear_resets:
  assumes "clear_task_instances now get_dag (Some DR_QUEUED) ks s = Inr s'" and "distinct ks"
  shows "(\<forall>k. k \<notin> set ks \<longrightarrow> find_ti s' k = find_ti s k) \<and>
    (\<forall>k \<in> set ks. \<exists>ti ti'. find_ti s k = Some ti \<and> find_ti s' k = Some ti' \<and>
      ti__try_number ti' = ti__try_number ti \<and>
      (if ti_state ti = Some RUNNING
       then ti' = (if restarted_job ti = None then ti else ti\<lparr>ti_state := Some RESTARTING\<rparr>)
       else ti_state ti' = None \<and> ti_next_method ti' = None \<and>
         (case task_of get_dag ti of None \<Rightarrow> ti_max_tries ti' = max (ti_max_tries ti) (ti__try_number ti)
          | Some op \<Rightarrow> ti_max_tries ti' - ti__try_number ti' = op_retries op)) \<and>
      (\<forall>tr \<in> set (db_trs s'). tr_primary tr \<noteq> k \<or> tr_try_number tr \<noteq> get_try_number ti')) \<and>
    db_drs s' = map (\<lambda>dr.
      if (dr_dag_id dr, dr_run_id dr) \<in> (\<lambda>(d, t, r, m). (d, r)) ` set ks \<and> dr_state dr \<in> set finished_dr_states
      then dr\<lparr>dr_state := DR_QUEUED, dr_queued_at := Some now, dr_start_date := None, dr_end_date := None,
              dr_last_scheduling_decision := None, dr_clear_number := dr_clear_number dr + 1\<rparr>
      else dr) (db_drs s)"
proof -
  from assms(1) obtain tries jobs s1 where l: "clear_loop get_dag ks s = Inr (tries, jobs, s1)"
    and s': "db_tis s' = db_tis s1" "db_trs s' = filter (\<lambda>tr. (tr_primary tr, tr_try_number tr) \<notin> set tries) (db_trs s1)"
      "db_drs s' = map (\<lambda>dr. if (dr_dag_id dr, dr_run_id dr) \<in> (\<lambda>(d, t, r, m). (d, r)) ` set ks
          then clear_dag_run now DR_QUEUED dr else dr) (db_drs s1)"
    by (auto simp: clear_task_instances_def Let_def)
  note loop = clear_loop_rows [OF l assms(2)]
  have find: "find_ti s' k = find_ti s1 k" for k by (simp add: find_ti_def s'(1))
  have "\<exists>ti ti'. find_ti s k = Some ti \<and> find_ti s' k = Some ti' \<and>
      ti__try_number ti' = ti__try_number ti \<and>
      (if ti_state ti = Some RUNNING
       then ti' = (if restarted_job ti = None then ti else ti\<lparr>ti_state := Some RESTARTING\<rparr>)
       else ti_state ti' = None \<and> ti_next_method ti' = None \<and>
         (case task_of get_dag ti of None \<Rightarrow> ti_max_tries ti' = max (ti_max_tries ti) (ti__try_number ti)
          | Some op \<Rightarrow> ti_max_tries ti' - ti__try_number ti' = op_retries op)) \<and>
      (\<forall>tr \<in> set (db_trs s'). tr_primary tr \<noteq> k \<or> tr_try_number tr \<noteq> get_try_number ti')" if "k \<in> set ks" for k
  proof -
    from loop that obtain ti ti' where ti: "find_ti s k = Some ti" "clear_one get_dag ti = Inr ti'"
      "find_ti s1 k = Some ti'" "(k, get_try_number ti') \<in> set tries" by blast
    from clear_one_row [OF ti(2)] ti(1,3,4) show ?thesis
      by (auto simp: find s'(2) split: option.splits)
  qed
  moreover have "db_drs s' = map (\<lambda>dr.
      if (dr_dag_id dr, dr_run_id dr) \<in> (\<lambda>(d, t, r, m). (d, r)) ` set ks \<and> dr_state dr \<in> set finished_dr_states
      then dr\<lparr>dr_state := DR_QUEUED, dr_queued_at := Some now, dr_start_date := None, dr_end_date := None,
              dr_last_scheduling_decision := None, dr_clear_number := dr_clear_number dr + 1\<rparr>
      else dr) (db_drs s)"
    using loop by (auto simp: s'(3) clear_dag_run_def set_dr_state_def finished_dr_states_def Let_def)
  ultimately show ?thesis using loop find by auto
qed

lemma clear_resets_witness:
  "\<exists>s' ti'. clear_task_instances 7 (\<lambda>_. Some (sample_dag [(sample_op ''a'')\<lparr>op_retries := 2\<rparr>])) (Some DR_QUEUED)
      [(''d'', ''a'', ''r'', -1)] (sample_db [(sample_ti ''a'' (Some FAILED))\<lparr>ti__try_number := 3\<rparr>]) = Inr s' \<and>
    find_ti s' (''d'', ''a'', ''r'', -1) = Some ti' \<and> ti_state ti' = None \<and> ti_max_tries ti' = 5"
proof -
  let ?g = "\<lambda>_::id_str. Some (sample_dag [(sample_op ''a'')\<lparr>op_retries := 2\<rparr>])" and ?k = "(''d'', ''a'', ''r'', -1::int)"
    and ?ti = "(sample_ti ''a'' (Some FAILED))\<lparr>ti__try_number := 3\<rparr>"
  have "case clear_task_instances 7 ?g (Some DR_QUEUED) [?k] (sample_db [?ti]) of Inl _ \<Rightarrow> False | Inr _ \<Rightarrow> True"
    by code_simp
  then obtain s' where s': "clear_task_instances 7 ?g (Some DR_QUEUED) [?k] (sample_db [?ti]) = Inr s'"
    by (auto split: sum.splits)
  have ti: "find_ti (sample_db [?ti]) ?k = Some ?ti"
    by (simp add: find_ti_def ti_primary_def sample_defs)
  have op: "task_of ?g ?ti = Some ((sample_op ''a'')\<lparr>op_retries := 2\<rparr>)" "ti_state ?ti = Some FAILED"
    "ti__try_number ?ti = 3" by (simp_all add: task_of_def sample_defs)
  from clear_resets [OF s'] ti obtain ti' where "find_ti s' ?k = Some ti'" "ti__try_number ti' = 3"
    "ti_state ti' = None" "ti_max_tries ti' - ti__try_number ti' = 2"
    by (auto simp: op)
  with s' show ?thesis by auto
qed

subsection \<open>Triggers\<close>

lemma length_take_le: "length (take n xs) \<le> n"
  by simp

lemma distinct_ids_count:
  assumes "distinct (map f xs)" shows "count_where (\<lambda>x. f x \<in> set ids) xs \<le> int (length ids)"
proof -
  have "distinct (map f (filter (\<lambda>x. f x \<in> set ids) xs))" using assms by (simp add: distinct_map_filter)
  then have "length (filter (\<lambda>x. f x \<in> set ids) xs) = card (f ` set (filter (\<lambda>x. f x \<in> set ids) xs))"
    by (metis distinct_card length_map set_map)
  also have "\<dots> \<le> card (set ids)" by (intro card_mono) auto
  also have "\<dots> \<le> length ids" by (rule card_length)
  finally show ?thesis by (simp add: count_where_def)
qed

text \<open>
  A triggerer never takes on more triggers than its capacity: after \<open>assign_unassigned\<close> it has
  at most as many as the capacity, or as many as it had; a trigger of a triggerer that is alive
  is not taken away from it, and no trigger appears, disappears or changes otherwise.
\<close>

theorem trigger_capacity_respected:
  assumes "distinct (map tg_id (db_triggers s))"
  shows "int (length (ids_for_triggerer i (assign_unassigned now locked i cap h s))) \<le>
      max cap (int (length (ids_for_triggerer i s))) \<and>
    list_all2 (\<lambda>t t'. t' = t \<or> t' = t\<lparr>tg_triggerer_id := Some i\<rparr> \<and>
        tg_triggerer_id t \<notin> Some ` set (alive_triggerers now h s))
      (db_triggers s) (db_triggers (assign_unassigned now locked i cap h s))"
proof -
  let ?free = "cap - int (length (ids_for_triggerer i s))"
  define ids where "ids = get_sorted_triggers locked ?free (alive_triggerers now h s) s"
  have count: "int (length (ids_for_triggerer i s)) = count_where (\<lambda>t. tg_triggerer_id t = Some i) (db_triggers s)" for s
    by (simp add: ids_for_triggerer_def count_where_def)
  show ?thesis
  proof (cases "?free \<le> 0 \<or> ids = []")
    case True
    then show ?thesis by (auto simp: assign_unassigned_def ids_def Let_def list_all2_same)
  next
    case False
    then have eq: "db_triggers (assign_unassigned now locked i cap h s) =
        map (\<lambda>t. if tg_id t \<in> set ids then t\<lparr>tg_triggerer_id := Some i\<rparr> else t) (db_triggers s)"
      by (simp add: assign_unassigned_def ids_def Let_def)
    have "length ids \<le> nat ?free" unfolding ids_def get_sorted_triggers_def Let_def length_map
      by (rule length_take_le)
    then have len: "int (length ids) \<le> ?free" using False by linarith
    have split: "count_where P (map (\<lambda>t. if Q t then g t else t) ts) \<le>
        count_where P ts + count_where Q ts" for P :: "trigger_row \<Rightarrow> bool" and Q g ts
      by (induction ts) auto
    have "count_where (\<lambda>t. tg_triggerer_id t = Some i) (db_triggers (assign_unassigned now locked i cap h s))
        \<le> count_where (\<lambda>t. tg_triggerer_id t = Some i) (db_triggers s) + int (length ids)"
      unfolding eq using split [of "\<lambda>t. tg_triggerer_id t = Some i" "\<lambda>t. tg_id t \<in> set ids"]
        distinct_ids_count [OF assms, of ids] by (meson add_left_mono order_trans)
    moreover have "tg_triggerer_id t \<notin> Some ` set (alive_triggerers now h s)"
      if "t \<in> set (db_triggers s)" "tg_id t \<in> set ids" for t
    proof -
      from that(2) obtain t' where t': "t' \<in> set (db_triggers s)" "tg_id t' = tg_id t"
        "case tg_triggerer_id t' of None \<Rightarrow> True | Some j \<Rightarrow> j \<notin> set (alive_triggerers now h s)"
        by (auto simp: ids_def get_sorted_triggers_def Let_def dest!: in_set_takeD)
      with that(1) assms have "t' = t" by (auto simp: distinct_map dest: inj_onD)
      with t'(3) show ?thesis by (auto split: option.splits)
    qed
    ultimately show ?thesis using len count [of s] count [of "assign_unassigned now locked i cap h s"]
      by (auto simp: eq list_all2_conv_all_nth)
  qed
qed

definition sample_triggers :: db where
  "sample_triggers = (sample_db [(sample_ti ''a'' (Some DEFERRED))\<lparr>ti_trigger_id := Some 1\<rparr>,
       (sample_ti ''b'' (Some DEFERRED))\<lparr>ti_trigger_id := Some 2\<rparr>])
     \<lparr>db_triggers := map (\<lambda>i. \<lparr>tg_id = i, tg_classpath = ''c'', tg_kwargs = PNone, tg_created_date = - i,
        tg_triggerer_id = None\<rparr>) [1, 2]\<rparr>"

lemma trigger_capacity_respected_witness:
  "int (length (ids_for_triggerer 7 (assign_unassigned 9 (\<lambda>_. False) 7 1 3 sample_triggers))) \<le> 1 \<and>
   ids_for_triggerer 7 (assign_unassigned 9 (\<lambda>_. False) 7 1 3 sample_triggers) = [2]"
proof -
  have "distinct (map tg_id (db_triggers sample_triggers))" "ids_for_triggerer 7 sample_triggers = []"
    "ids_for_triggerer 7 (assign_unassigned 9 (\<lambda>_. False) 7 1 3 sample_triggers) = [2]" by code_simp+
  with trigger_capacity_respected [of sample_triggers 7 9 "\<lambda>_. False" 1 3] show ?thesis by simp
qed

text \<open>
  Deleting unused triggers is safe, and as complete as the comparison with NULL allows: a
  trigger survives exactly when a task instance with that trigger is deferred or has no state at
  all (as one that was cleared while it was deferred), and no task instance loses a trigger it is
  deferred on.
\<close>

theorem clean_unused_keeps_awaited:
  "set (db_triggers (clean_unused s)) =
     {t \<in> set (db_triggers s). \<exists>ti \<in> set (db_tis s). ti_trigger_id ti = Some (tg_id t) \<and>
        ti_state ti \<in> {None, Some DEFERRED}} \<and>
   list_all2 (\<lambda>ti ti'. if ti_state ti \<in> {None, Some DEFERRED} then ti' = ti else ti' = ti\<lparr>ti_trigger_id := None\<rparr>)
     (db_tis s) (db_tis (clean_unused s))"
proof -
  have drop: "ti_trigger_id (drop_trigger ti) = Some i \<longleftrightarrow> ti_trigger_id ti = Some i \<and> ti_state ti \<in> {None, Some DEFERRED}"
    for ti i by (auto simp: drop_trigger_def)
  have "drop_trigger ti = ti\<lparr>ti_trigger_id := None\<rparr>" if "ti_state ti \<notin> {None, Some DEFERRED}" for ti
    using that by (auto simp: drop_trigger_def)
  moreover have "drop_trigger ti = ti" if "ti_state ti \<in> {None, Some DEFERRED}" for ti
    using that by (auto simp: drop_trigger_def)
  ultimately show ?thesis
    by (auto simp: clean_unused_def Let_def count_where_pos_iff drop list_all2_conv_all_nth)
qed

end
