(* ===== verification/Scheduler_Events.thy ===== *)
theory Scheduler_Events
  imports Ti_Laws
begin

text \<open>
  The scheduler and its executor (\<open>jobs/scheduler_job_runner.py\<close>): the task instances the critical
  section chose are handed to the executor, and what the executor reports back is applied to the
  rows. A callback request is the key of the task instance it is about.
\<close>

declare split_paired_All [simp del] split_paired_Ex [simp del]

subsection \<open>Handing over to the executor\<close>

text \<open>\<open>fileloc\<close> is the path of a DAG's file relative to the DAGs folder, with whether it is absolute.\<close>

definition enqueue_command :: "(id_str \<Rightarrow> (string \<times> bool) option) \<Rightarrow> task_instance \<Rightarrow> db \<Rightarrow> command" where
  "enqueue_command fileloc ti s =
     command_as_list ti (fileloc (ti_dag_id ti))
       (default_run_options\<lparr>ro_local := True,
          ro_pickle_id := (case find_dm s (ti_dag_id ti) of None \<Rightarrow> None | Some dm \<Rightarrow> dm_pickle_id dm)\<rparr>)"

fun enqueue_task_instances_with_queued_state :: "time \<Rightarrow> (id_str \<Rightarrow> (string \<times> bool) option) \<Rightarrow>
    task_instance list \<Rightarrow> 'z executor_scheme \<Rightarrow> db \<Rightarrow> 'z executor_scheme \<times> db" where
  "enqueue_task_instances_with_queued_state now fileloc [] e s = (e, s)"
| "enqueue_task_instances_with_queued_state now fileloc (ti # tis) e s =
     (if (case find_dr s (ti_dag_id ti) (ti_run_id ti) of None \<Rightarrow> False
          | Some dr \<Rightarrow> dr_state dr \<in> set finished_dr_states)
      then enqueue_task_instances_with_queued_state now fileloc tis e
             (update_ti (ti_primary ti) (\<lambda>_. set_state_row now None ti) s)
      else enqueue_task_instances_with_queued_state now fileloc tis
             (queue_command ti (enqueue_command fileloc ti s) (ti_priority_weight ti) (Some (ti_queue ti)) e) s)"

definition critical_section_enqueue_task_instances :: "critical_env \<Rightarrow> (id_str \<Rightarrow> (string \<times> bool) option) \<Rightarrow>
    int \<Rightarrow> 'z executor_scheme \<Rightarrow> db \<Rightarrow> (int \<times> 'z executor_scheme \<times> db) result" where
  "critical_section_enqueue_task_instances env fileloc max_tis_per_query e s =
     (let max_tis = (if max_tis_per_query = 0 then slots_available e
                     else min max_tis_per_query (slots_available e)) in
      bind_err (executable_task_instances_to_queued env max_tis s) (\<lambda>(queued_tis, s1).
        let (e', s2) = enqueue_task_instances_with_queued_state (ce_now env) fileloc queued_tis e s1 in
        Inr (int (length queued_tis), e', s2)))"

subsection \<open>Executor events\<close>

definition right_state :: "ti_state \<Rightarrow> bool" where
  "right_state st \<longleftrightarrow> st \<in> {Some FAILED, Some SUCCESS, Some QUEUED}"

definition try_number_map :: "(TaskInstanceKey \<times> event) list \<Rightarrow> (ti_primary \<times> int) list" where
  "try_number_map event_buffer =
     fold (\<lambda>(key, _) m. dict_set (key_primary key) (k_try_number key) m) event_buffer []"

record event_env =
  ee_now :: time
  ee_get_dag :: "id_str \<Rightarrow> dag option"
  ee_job_id :: "int option"

text \<open>The executor reports the end of a task instance that the database has queued for that try,
  by this scheduler, and that the executor does not hold again.\<close>

definition killed_externally :: "event_env \<Rightarrow> int \<Rightarrow> 'z executor_scheme \<Rightarrow> task_instance \<Rightarrow> bool" where
  "killed_externally env try_number e ti \<longleftrightarrow>
     (get_try_number ti = try_number \<and> ti_state ti = Some QUEUED) \<and>
     \<not> (ti_queued_by_job_id ti \<noteq> ee_job_id env \<or> executor_has_task ti e)"

definition event_task :: "event_env \<Rightarrow> task_instance \<Rightarrow> (dag \<times> operator) option" where
  "event_task env ti =
     (case ee_get_dag env (ti_dag_id ti) of None \<Rightarrow> None
      | Some d \<Rightarrow> (case get_task d (ti_task_id ti) of Inl _ \<Rightarrow> None | Inr op \<Rightarrow> Some (d, op)))"

text \<open>One event with the row it is about. The result is the callback requests sent.\<close>

definition apply_event :: "event_env \<Rightarrow> 'z executor_scheme \<Rightarrow> int \<Rightarrow> event \<Rightarrow> task_instance \<Rightarrow> db \<Rightarrow>
    (TaskInstanceKey list \<times> db) result" where
  "apply_event env e try_number event ti s =
     (let (state, info) = event; k = ti_primary ti in
      if state = Some QUEUED
      then Inr ([], update_ti k (\<lambda>r. r\<lparr>ti_external_executor_id := info\<rparr>) s)
      else if killed_externally env try_number e ti
      then (case event_task env ti of
          None \<Rightarrow> Inr ([], snd (set_state (ee_now env) k state s))
        | Some (d, op) \<Rightarrow>
            if op_on_retry_callback op \<or> op_on_failure_callback op
            then Inr ([ti_key ti], s)
            else bind_err (handle_failure (ee_now env) (Some (d, op)) False k s) (\<lambda>(_, s'). Inr ([], s')))
      else Inr ([], s))"

text \<open>The loop over the rows found; popping an event that is not in the buffer raises.\<close>

fun event_loop :: "event_env \<Rightarrow> 'z executor_scheme \<Rightarrow> (ti_primary \<times> int) list \<Rightarrow> ti_primary list \<Rightarrow>
    (TaskInstanceKey \<times> event) list \<Rightarrow> db \<Rightarrow>
    (TaskInstanceKey list \<times> (TaskInstanceKey \<times> event) list \<times> db) result" where
  "event_loop env e tries [] event_buffer s = Inr ([], event_buffer, s)"
| "event_loop env e tries (k # ks) event_buffer s =
     (case find_ti s k of
        None \<Rightarrow> Inl (KeyError ''task instance'')
      | Some ti \<Rightarrow>
          (case dict_get tries (key_primary (ti_key ti)) of
             None \<Rightarrow> Inl (KeyError ''primary'')
           | Some try_number \<Rightarrow>
               let buffer_key = with_try_number (ti_key ti) try_number in
               (case dict_get event_buffer buffer_key of
                  None \<Rightarrow> Inl (KeyError ''event'')
                | Some event \<Rightarrow>
                    bind_err (apply_event env e try_number event ti s) (\<lambda>(requests, s1).
                    bind_err (event_loop env e tries ks (dict_del buffer_key event_buffer) s1)
                      (\<lambda>(requests', buffer', s2). Inr (requests @ requests', buffer', s2))))))"

definition process_executor_events :: "event_env \<Rightarrow> (ti_primary \<Rightarrow> bool) \<Rightarrow> 'z executor_scheme \<Rightarrow> db \<Rightarrow>
    (int \<times> TaskInstanceKey list \<times> 'z executor_scheme \<times> db) result" where
  "process_executor_events env locked e s =
     (let (event_buffer, e1) = get_event_buffer None e;
          tis_with_right_state = map fst (filter (\<lambda>(_, (state, _)). right_state state) event_buffer) in
      if tis_with_right_state = [] then Inr (int (length event_buffer), [], e1, s)
      else
        let selected = filter_for_tis (map key_primary tis_with_right_state);
            rows = filter (\<lambda>ti. filter_selects selected (ti_primary ti) \<and> \<not> locked (ti_primary ti)) (db_tis s) in
        bind_err (event_loop env e1 (try_number_map event_buffer) (map ti_primary rows) event_buffer s)
          (\<lambda>(requests, buffer', s'). Inr (int (length buffer'), requests, e1, s')))"

subsection \<open>The hand-over loses nothing and does not overfill the executor\<close>

lemma queue_command_tasks:
  "set (dict_keys (ex_queued_tasks (queue_command ti c p q e))) = insert (ti_key ti) (set (dict_keys (ex_queued_tasks e)))"
  "length (ex_queued_tasks (queue_command ti c p q e)) \<le> Suc (length (ex_queued_tasks e))"
  "ex_running (queue_command ti c p q e) = ex_running e" "ex_parallelism (queue_command ti c p q e) = ex_parallelism e"
proof -
  have "length (dict_set k v d) \<le> Suc (length d)" for k v and d :: "(TaskInstanceKey \<times> queued_task) list"
    by (induction d) auto
  then show "length (ex_queued_tasks (queue_command ti c p q e)) \<le> Suc (length (ex_queued_tasks e))"
    by (simp add: queue_command_def)
  have "dict_has k d \<longleftrightarrow> k \<in> set (dict_keys d)" for k and d :: "(TaskInstanceKey \<times> queued_task) list"
    by (simp add: dict_has_def dict_keys_def)
  then show "set (dict_keys (ex_queued_tasks (queue_command ti c p q e))) =
      insert (ti_key ti) (set (dict_keys (ex_queued_tasks e)))"
    by (auto simp: queue_command_def keys_dict_set)
qed (simp_all add: queue_command_def)

lemma enqueue_all:
  assumes "enqueue_task_instances_with_queued_state now fileloc tis e s = (e', s')"
    and "\<forall>ti \<in> set tis. \<exists>dr. find_dr s (ti_dag_id ti) (ti_run_id ti) = Some dr \<and> dr_state dr \<notin> set finished_dr_states"
  shows "s' = s \<and> ex_running e' = ex_running e \<and> ex_parallelism e' = ex_parallelism e \<and>
    length (ex_queued_tasks e') \<le> length (ex_queued_tasks e) + length tis \<and>
    set (dict_keys (ex_queued_tasks e')) = ti_key ` set tis \<union> set (dict_keys (ex_queued_tasks e))"
  using assms
proof (induction now fileloc tis e s rule: enqueue_task_instances_with_queued_state.induct)
  case (2 now fileloc ti tis e s)
  let ?e = "queue_command ti (enqueue_command fileloc ti s) (ti_priority_weight ti) (Some (ti_queue ti)) e"
  have c: "\<not> (case find_dr s (ti_dag_id ti) (ti_run_id ti) of None \<Rightarrow> False
          | Some dr \<Rightarrow> dr_state dr \<in> set finished_dr_states)" using "2.prems"(2) by auto
  let ?c = "enqueue_command fileloc ti s"
  note q = queue_command_tasks [of ti ?c "ti_priority_weight ti" "Some (ti_queue ti)" e]
  have "enqueue_task_instances_with_queued_state now fileloc tis ?e s = (e', s')"
    using "2.prems"(1) c by simp
  with "2.IH"(2) [OF c this] "2.prems"(2) q show ?case by auto
qed auto

lemma eligible_running:
  "eligible s ti \<Longrightarrow> \<exists>dr. find_dr s (ti_dag_id ti) (ti_run_id ti) = Some dr \<and> dr_state dr = DR_RUNNING"
  by (auto simp: eligible_def split: option.splits)

text \<open>
  C37. The critical section hands over exactly what it queues, and does not overfill the executor:
  every task instance it moved to QUEUED is in the executor's queue afterwards (and nothing else is
  added to the queue), the number it returns is how many it chose, and an executor of bounded
  parallelism that had free slots (counting its queue) is not left with less than none.
\<close>

theorem critical_section_hands_over:
  assumes "wf_db s" and "critical_section_enqueue_task_instances env fileloc q e s = Inr (n, e', s')"
    and "ex_parallelism e \<noteq> 0" "0 \<le> slots_available e" "0 \<le> q"
  shows "\<exists>tis. n = int (length tis) \<and> distinct tis \<and> set tis \<subseteq> set (db_tis s) \<and>
    (\<forall>ti \<in> set tis. find_ti s' (ti_primary ti) = Some (set_queued env ti)) \<and>
    set (dict_keys (ex_queued_tasks e')) = ti_key ` set tis \<union> set (dict_keys (ex_queued_tasks e)) \<and>
    0 \<le> slots_available e' \<and> (if q > 0 then n \<le> q else True)"
proof -
  let ?m = "if q = 0 then slots_available e else min q (slots_available e)"
  from assms(2) obtain tis s1 where run: "executable_task_instances_to_queued env ?m s = Inr (tis, s1)"
    "enqueue_task_instances_with_queued_state (ce_now env) fileloc tis e s1 = (e', s')" "n = int (length tis)"
    by (auto simp: critical_section_enqueue_task_instances_def Let_def simp del: bind_err_Inr_iff
        elim!: bind_err_InrE split: prod.splits if_splits)
  obtain F where F: "critical_outcome env ?m s tis F" "s1 = queue_rows env tis (fail_in F s)"
    using critical_result [OF assms(1) run(1)] .
  have drs: "find_dr s1 = find_dr s"
    by (intro ext) (simp add: F(2) queue_rows_def Let_def find_dr_def)
  have elig: "eligible s ti" "ti \<in> set (db_tis s)" if "ti \<in> set tis" for ti
    using that F(1) by (auto simp: critical_outcome_def)
  have running: "\<forall>ti \<in> set tis. \<exists>dr. find_dr s1 (ti_dag_id ti) (ti_run_id ti) = Some dr \<and> dr_state dr \<notin> set finished_dr_states"
    using eligible_running elig(1) by (fastforce simp: drs finished_dr_states_def)
  note hand = enqueue_all [OF run(2) running]
  have len: "int (length tis) \<le> ?m" using F(1) assms(4,5) by (auto simp: critical_outcome_def split: if_splits)
  then have "0 \<le> slots_available e'"
    using hand assms(3) by (auto simp: slots_available_def split: if_splits)
  moreover have "find_ti s' (ti_primary ti) = Some (set_queued env ti)" if "ti \<in> set tis" for ti
  proof -
    have eq: "s' = s\<lparr>db_tis := map (\<lambda>x. if x \<in> set tis then set_queued env x else fail_dags F x) (db_tis s)\<rparr>"
      using tis_after [OF F(2) assms(1) F(1)] hand F(2) by (simp add: queue_rows_def Let_def fail_in_def)
    have "find_ti s' (ti_primary ti) =
        map_option (\<lambda>x. if x \<in> set tis then set_queued env x else fail_dags F x) (find_ti s (ti_primary ti))"
      unfolding eq by (rule find_ti_map) simp
    with that find_ti_in [OF assms(1) elig(2) [OF that]] show ?thesis by simp
  qed
  ultimately show ?thesis
    using run(3) len hand F(1) elig by (intro exI [of _ tis]) (auto simp: critical_outcome_def)
qed

lemma critical_section_hands_over_witness:
  "\<exists>n e' s'. critical_section_enqueue_task_instances sample_env_crit (\<lambda>_. None) 0
      \<lparr>ex_parallelism = 3, ex_queued_tasks = [], ex_running = [], ex_event_buffer = [], ex_attempts = []\<rparr>
      sample_scheduled = Inr (n, e' :: executor, s') \<and>
    n = 1 \<and> 0 \<le> slots_available e'"
proof -
  let ?e = "\<lparr>ex_parallelism = 3, ex_queued_tasks = [], ex_running = [], ex_event_buffer = [], ex_attempts = []\<rparr> :: executor"
  have "case critical_section_enqueue_task_instances sample_env_crit (\<lambda>_. None) 0 ?e sample_scheduled of
      Inl _ \<Rightarrow> False | Inr (n, e', s') \<Rightarrow> n = 1" by code_simp
  then obtain e' s' where run: "critical_section_enqueue_task_instances sample_env_crit (\<lambda>_. None) 0 ?e sample_scheduled =
      Inr (1, e', s')" by (auto split: sum.splits)
  have "ex_parallelism ?e \<noteq> 0" "0 \<le> slots_available ?e" "0 \<le> (0::int)" by (simp_all add: slots_available_def)
  from critical_section_hands_over [OF wf_sample_scheduled run this] run show ?thesis by auto
qed

subsection \<open>What events may change\<close>

definition no_fail_stop :: "event_env \<Rightarrow> bool" where
  "no_fail_stop env \<longleftrightarrow> (\<forall>i d. ee_get_dag env i = Some d \<longrightarrow> \<not> d_fail_stop d)"

text \<open>The row of an event's task instance: unchanged, its external id noted, or lost.\<close>

definition event_row :: "event_env \<Rightarrow> 'z executor_scheme \<Rightarrow> (TaskInstanceKey \<times> event) list \<Rightarrow>
    task_instance \<Rightarrow> task_instance \<Rightarrow> bool" where
  "event_row env e buf ti ti' \<longleftrightarrow> ti' = ti \<or> (\<exists>x. ti' = ti\<lparr>ti_external_executor_id := x\<rparr>) \<or>
     (ti_state ti = Some QUEUED \<and> ti_queued_by_job_id ti = ee_job_id env \<and> \<not> executor_has_task ti e \<and>
      (\<exists>st info. (ti_key ti, st, info) \<in> set buf \<and> st \<noteq> Some QUEUED))"

lemma handle_failure_frame:
  assumes "handle_failure now (Some (d, op)) force k s = Inr (cb, s')" "\<not> d_fail_stop d" "k' \<noteq> k"
  shows "find_ti s' k' = find_ti s k'"
  using assms by (auto simp: handle_failure_def Let_def store_simps split: option.split_asm if_split_asm)

lemma apply_event_effect:
  assumes "apply_event env e n (st, info) ti s = Inr (reqs, s')" "find_ti s (ti_primary ti) = Some ti"
    and "no_fail_stop env" "(with_try_number (ti_key ti) n, st, info) \<in> set buf"
  shows "(\<forall>k'. k' \<noteq> ti_primary ti \<longrightarrow> find_ti s' k' = find_ti s k') \<and>
    (\<exists>ti'. find_ti s' (ti_primary ti) = Some ti' \<and> event_row env e buf ti ti')"
proof -
  have ext: "keeps_primary (\<lambda>r. r\<lparr>ti_external_executor_id := info\<rparr>)"
    by (simp add: keeps_primary_def ti_primary_def)
  consider "st = Some QUEUED" | "st \<noteq> Some QUEUED" "\<not> killed_externally env n e ti"
    | "st \<noteq> Some QUEUED" "killed_externally env n e ti" by blast
  then show ?thesis
  proof cases
    case 1
    with assms(1,2) ext show ?thesis by (auto simp: apply_event_def event_row_def store_simps)
  next
    case 2
    with assms(1,2) show ?thesis by (auto simp: apply_event_def event_row_def)
  next
    case 3
    then have "n = get_try_number ti" by (simp add: killed_externally_def)
    then have key: "with_try_number (ti_key ti) n = ti_key ti"
      by (simp add: with_try_number_def ti_key_def)
    have row: "event_row env e buf ti ti'" for ti'
      using 3 assms(4) key by (auto simp: event_row_def killed_externally_def)
    show ?thesis
    proof (cases "event_task env ti")
      case None
      with 3 assms(1,2) row show ?thesis
        by (auto simp: apply_event_def find_set_state)
    next
      case (Some dop)
      obtain d op where dop: "dop = (d, op)" by (cases dop)
      have nfs: "\<not> d_fail_stop d" using Some dop assms(3)
        by (auto simp: event_task_def no_fail_stop_def split: option.split_asm sum.split_asm)
      show ?thesis
      proof (cases "op_on_retry_callback op \<or> op_on_failure_callback op")
        case True
        with 3 Some dop assms(1,2) row show ?thesis by (auto simp: apply_event_def)
      next
        case False
        with 3 Some dop assms(1) obtain cb where
          "handle_failure (ee_now env) (Some (d, op)) False (ti_primary ti) s = Inr (cb, s')"
          by (auto simp: apply_event_def)
        with handle_failure_frame [OF this nfs] handle_failure_row [OF this assms(2)] row show ?thesis by blast
      qed
    qed
  qed
qed

lemma event_loop_effect:
  assumes "event_loop env e tries ks buf s = Inr (reqs, buf', s')" "distinct ks" "no_fail_stop env"
    and "set buf \<subseteq> set buf0"
  shows "(\<forall>k. k \<notin> set ks \<longrightarrow> find_ti s' k = find_ti s k) \<and>
    (\<forall>k \<in> set ks. \<exists>ti ti'. find_ti s k = Some ti \<and> find_ti s' k = Some ti' \<and> event_row env e buf0 ti ti')"
  using assms
proof (induction env e tries ks buf s arbitrary: reqs buf' s' rule: event_loop.induct)
  case (2 env e tries k ks buf s)
  from "2.prems"(1) obtain ti n st info where ti: "find_ti s k = Some ti"
    "dict_get tries (key_primary (ti_key ti)) = Some n"
    "dict_get buf (with_try_number (ti_key ti) n) = Some (st, info)"
    by (auto simp: Let_def split: option.split_asm)
  with "2.prems"(1) obtain r1 s1 r2 where step: "apply_event env e n (st, info) ti s = Inr (r1, s1)"
    "event_loop env e tries ks (dict_del (with_try_number (ti_key ti) n) buf) s1 = Inr (r2, buf', s')"
    by (auto simp: Let_def)
  have p: "ti_primary ti = k" using find_ti_Some [OF ti(1)] by simp
  have mem: "(with_try_number (ti_key ti) n, st, info) \<in> set buf0"
    using map_of_SomeD [OF ti(3)] "2.prems"(4) by auto
  note eff = apply_event_effect [OF step(1) _ "2.prems"(3) mem]
  have del: "set (dict_del (with_try_number (ti_key ti) n) buf) \<subseteq> set buf0"
    using "2.prems"(4) by (auto simp: dict_del_def)
  have ih: "(\<forall>k. k \<notin> set ks \<longrightarrow> find_ti s' k = find_ti s1 k) \<and>
    (\<forall>k \<in> set ks. \<exists>ti ti'. find_ti s1 k = Some ti \<and> find_ti s' k = Some ti' \<and> event_row env e buf0 ti ti')"
    using "2.IH" [OF ti(1,2) refl ti(3) step(1) refl step(2)] "2.prems"(2,3) del by simp
  show ?case
  proof (intro conjI allI impI ballI)
    fix k' assume "k' \<notin> set (k # ks)"
    with ih eff ti(1) p show "find_ti s' k' = find_ti s k'" by auto
  next
    fix k' assume k': "k' \<in> set (k # ks)"
    show "\<exists>ti ti'. find_ti s k' = Some ti \<and> find_ti s' k' = Some ti' \<and> event_row env e buf0 ti ti'"
    proof (cases "k' = k")
      case True
      with ih eff ti(1) p "2.prems"(2) show ?thesis by auto
    next
      case False
      then have "find_ti s1 k' = find_ti s k'" "k' \<in> set ks" using eff ti(1) p k' by auto
      with ih show ?thesis by metis
    qed
  qed
qed simp

text \<open>
  C39. Executor events fail only what was lost. Processing the events of an executor (of DAGs without
  \<open>fail_stop\<close>) empties its buffer and touches a task instance in two ways only: its external
  executor id is noted, or it was QUEUED by this very scheduler, the executor reported the end of
  its current try and does not hold it again; every other row stays as it is.
\<close>

theorem events_fail_only_lost:
  assumes "wf_db s" and "process_executor_events env locked e s = Inr (n, requests, e', s')"
    and "no_fail_stop env"
  shows "ex_event_buffer e' = [] \<and> ex_queued_tasks e' = ex_queued_tasks e \<and> ex_running e' = ex_running e \<and>
    (\<forall>ti \<in> set (db_tis s). \<exists>ti'. find_ti s' (ti_primary ti) = Some ti' \<and>
       (ti' = ti \<or> (\<exists>x. ti' = ti\<lparr>ti_external_executor_id := x\<rparr>) \<or>
        (ti_state ti = Some QUEUED \<and> ti_queued_by_job_id ti = ee_job_id env \<and> \<not> executor_has_task ti e \<and>
         (\<exists>st info. (ti_key ti, st, info) \<in> set (ex_event_buffer e) \<and> st \<noteq> Some QUEUED))))"
proof -
  let ?e = "e\<lparr>ex_event_buffer := []\<rparr>" and ?buf = "ex_event_buffer e"
  have has: "executor_has_task ti ?e = executor_has_task ti e" for ti by (simp add: executor_has_task_def)
  have e': "e' = ?e" using assms(2)
    by (auto simp: process_executor_events_def get_event_buffer_def Let_def split: if_splits)
  have rows: "find_ti s (ti_primary ti) = Some ti" if "ti \<in> set (db_tis s)" for ti
    using find_ti_in [OF assms(1) that] .
  have "\<exists>ti'. find_ti s' (ti_primary ti) = Some ti' \<and> event_row env ?e ?buf ti ti'" if "ti \<in> set (db_tis s)" for ti
  proof (cases "s' = s")
    case True
    with rows [OF that] show ?thesis by (auto simp: event_row_def)
  next
    case False
    with assms(2) have "\<exists>P tries reqs buf'. event_loop env ?e tries (map ti_primary (filter P (db_tis s))) ?buf s = Inr (reqs, buf', s')"
      by (auto simp: process_executor_events_def get_event_buffer_def Let_def split: if_splits)
    then obtain P tries reqs buf' where
      l: "event_loop env ?e tries (map ti_primary (filter P (db_tis s))) ?buf s = Inr (reqs, buf', s')" by blast
    have "distinct (map ti_primary (filter P (db_tis s)))" using assms(1) by (simp add: wf_db_def distinct_map_filter)
    note effect = event_loop_effect [OF l this assms(3) subset_refl]
    show ?thesis
    proof (cases "ti_primary ti \<in> set (map ti_primary (filter P (db_tis s)))")
      case True
      with effect rows [OF that] show ?thesis by (metis option.inject)
    next
      case False
      with effect rows [OF that] have "find_ti s' (ti_primary ti) = Some ti" by metis
      then show ?thesis by (auto simp: event_row_def)
    qed
  qed
  with e' show ?thesis unfolding event_row_def has by auto
qed

definition sample_lost :: db where
  "sample_lost = sample_db [(sample_ti ''a'' (Some QUEUED))\<lparr>ti_queued_by_job_id := Some 1\<rparr>, sample_ti ''b'' (Some RUNNING)]"

definition sample_event_env :: event_env where
  "sample_event_env = \<lparr>ee_now = 7, ee_get_dag = (\<lambda>_. None), ee_job_id = Some 1\<rparr>"

definition sample_reporting :: executor where
  "sample_reporting = \<lparr>ex_parallelism = 3, ex_queued_tasks = [], ex_running = [],
     ex_event_buffer = [(ti_key (sample_ti ''a'' (Some QUEUED)), (Some FAILED, None)),
       (ti_key (sample_ti ''b'' (Some RUNNING)), (Some FAILED, None))], ex_attempts = []\<rparr>"

lemma events_fail_only_lost_witness:
  "\<exists>n requests e' s'. process_executor_events sample_event_env (\<lambda>_. False) sample_reporting sample_lost =
      Inr (n, requests, e' :: executor, s') \<and> map ti_state (db_tis s') = [Some FAILED, Some RUNNING] \<and>
    (\<exists>x. find_ti s' (''d'', ''b'', ''r'', -1) = Some ((sample_ti ''b'' (Some RUNNING))\<lparr>ti_external_executor_id := x\<rparr>))"
proof -
  have "case process_executor_events sample_event_env (\<lambda>_. False) sample_reporting sample_lost of
      Inl _ \<Rightarrow> False | Inr (n, requests, e', s') \<Rightarrow> map ti_state (db_tis s') = [Some FAILED, Some RUNNING]"
    by code_simp
  then obtain n requests e' s' where run: "process_executor_events sample_event_env (\<lambda>_. False) sample_reporting
      sample_lost = Inr (n, requests, e' :: executor, s')" "map ti_state (db_tis s') = [Some FAILED, Some RUNNING]"
    by (auto split: sum.splits)
  let ?b = "sample_ti ''b'' (Some RUNNING)"
  have wf: "wf_db sample_lost" by (simp add: sample_lost_def wf_db_def ti_primary_def sample_defs)
  have nfs: "no_fail_stop sample_event_env" by (simp add: no_fail_stop_def sample_event_env_def)
  have "?b \<in> set (db_tis sample_lost)" "ti_state ?b \<noteq> Some QUEUED" "ti_primary ?b = (''d'', ''b'', ''r'', -1)"
    "?b = ?b\<lparr>ti_external_executor_id := None\<rparr>"
    by (simp_all add: sample_lost_def sample_defs ti_primary_def)
  with events_fail_only_lost [OF wf run(1) nfs] run show ?thesis by metis
qed

end
