(* ===== verification/Dag_Runs.thy ===== *)
theory Dag_Runs
  imports Task_Expansion Scheduler_Events
begin

text \<open>
  Dag runs (\<open>models/dagrun.py\<close>): creating a run, which runs the scheduler looks at next, the task
  instances of a run that are ready, the state of a run as it follows from its task instances,
  creating the task instances of a run and keeping them in step with the DAG, and moving ready task
  instances to SCHEDULED. Metrics, listeners and logs are left out; a callback the code runs or
  requests is returned.
\<close>

subsection \<open>Creating a run\<close>

text \<open>
  \<open>DagRun.__init__\<close> with the defaults of the columns. \<open>queued_at\<close> is \<open>None\<close> when the argument is not
  given; \<open>state\<close> is \<open>None\<close> when no state is given, and the column then defaults to QUEUED.
\<close>

definition new_dag_run :: "time \<Rightarrow> int \<Rightarrow> id_str \<Rightarrow> id_str \<Rightarrow> time option option \<Rightarrow> time \<Rightarrow> time option \<Rightarrow> bool \<Rightarrow>
    DagRunState option \<Rightarrow> DagRunType \<Rightarrow> string option \<Rightarrow> int option \<Rightarrow> (time \<times> time) option \<Rightarrow> dag_run" where
  "new_dag_run now new_id dag_id run_id queued_at execution_date start_date external_trigger state run_type
       dag_hash creating_job_id data_interval =
     \<lparr>dr_id = new_id, dr_dag_id = dag_id,
      dr_queued_at = (case queued_at of Some q \<Rightarrow> q | None \<Rightarrow> if state = Some DR_QUEUED then Some now else None),
      dr_execution_date = execution_date, dr_start_date = start_date,
      dr_end_date = (case state of Some st \<Rightarrow> if st \<in> set finished_dr_states then Some now else None | None \<Rightarrow> None),
      dr_state = (case state of Some st \<Rightarrow> st | None \<Rightarrow> DR_QUEUED), dr_run_id = run_id,
      dr_creating_job_id = creating_job_id, dr_external_trigger = external_trigger, dr_run_type = run_type,
      dr_data_interval = data_interval, dr_last_scheduling_decision = None, dr_dag_hash = dag_hash,
      dr_clear_number = 0\<rparr>"

text \<open>The run id must match the configured pattern or that of the generated ids; both are regular
  expressions, \<open>allowed\<close> and \<open>generated\<close>.\<close>

definition validate_run_id :: "(string \<Rightarrow> bool) \<Rightarrow> (string \<Rightarrow> bool) \<Rightarrow> string \<Rightarrow> string option result" where
  "validate_run_id allowed generated run_id =
     (if run_id = [] then Inr None
      else if \<not> allowed run_id \<and> \<not> generated run_id then Inl (ValueError ''run_id'')
      else Inr (Some run_id))"

subsection \<open>Which runs to look at\<close>

definition active_runs_of_dags :: "id_str list option \<Rightarrow> bool \<Rightarrow> db \<Rightarrow> (id_str \<times> int) list" where
  "active_runs_of_dags dag_ids only_running s =
     (let counted = filter (\<lambda>dr. (case dag_ids of None \<Rightarrow> True | Some ids \<Rightarrow> dr_dag_id dr \<in> set ids) \<and>
            (if only_running then dr_state dr = DR_RUNNING else dr_state dr \<in> {DR_RUNNING, DR_QUEUED})) (db_drs s) in
      map (\<lambda>d. (d, count_where (\<lambda>dr. dr_dag_id dr = d) counted)) (remdups (map dr_dag_id counted)))"

text \<open>Runs never decided on come first, then the longest undecided, then the earliest.\<close>

definition examine_key :: "dag_run \<Rightarrow> int \<times> int \<times> int" where
  "examine_key dr = (case dr_last_scheduling_decision dr of None \<Rightarrow> (0, 0, dr_execution_date dr)
     | Some t \<Rightarrow> (1, t, dr_execution_date dr))"

definition num_running :: "id_str \<Rightarrow> db \<Rightarrow> int" where
  "num_running dag_id s = count_where (\<lambda>dr. dr_dag_id dr = dag_id \<and> dr_state dr = DR_RUNNING) (db_drs s)"

text \<open>\<open>allow_future\<close> is \<open>ALLOW_FUTURE_EXEC_DATES\<close>; a NULL \<open>max_active_runs\<close> compares as unknown.\<close>

definition examinable :: "DagRunState \<Rightarrow> time \<Rightarrow> bool \<Rightarrow> db \<Rightarrow> dag_run \<Rightarrow> bool" where
  "examinable state now allow_future s dr \<longleftrightarrow>
     dr_state dr = state \<and> dr_run_type dr \<noteq> BACKFILL_JOB \<and>
     (case find_dm s (dr_dag_id dr) of
        None \<Rightarrow> False
      | Some dm \<Rightarrow> \<not> dm_is_paused dm \<and> dm_is_active dm \<and>
          (state = DR_QUEUED \<longrightarrow>
             (case dm_max_active_runs dm of None \<Rightarrow> False | Some m \<Rightarrow> num_running (dr_dag_id dr) s < m))) \<and>
     (allow_future \<or> dr_execution_date dr \<le> now)"

definition next_dagruns_to_examine :: "DagRunState \<Rightarrow> time \<Rightarrow> bool \<Rightarrow> (dag_run \<Rightarrow> bool) \<Rightarrow> nat \<Rightarrow> db \<Rightarrow> dag_run list" where
  "next_dagruns_to_examine state now allow_future locked max_number s =
     take max_number (filter (\<lambda>dr. \<not> locked dr)
       (sort_key examine_key (filter (examinable state now allow_future s) (db_drs s))))"

subsection \<open>Which task instances of a run are ready\<close>

text \<open>
  The environment of a decision: that of the dependency checks (with the clock and the DAG of the
  run), the mutation hook and the rows locked by other sessions.
\<close>

record run_env =
  re_dep :: dep_env
  re_hook :: "task_instance \<Rightarrow> task_instance"
  re_locked :: "ti_primary \<Rightarrow> bool"

definition re_dag :: "run_env \<Rightarrow> dag" where
  "re_dag env = de_dag (re_dep env)"

text \<open>A task instance object that expansion deleted keeps its attributes; every other is its row.\<close>

datatype ti_obj = Stored ti_primary | Deleted task_instance

definition obj_state :: "db \<Rightarrow> ti_obj \<Rightarrow> ti_state" where
  "obj_state s obj = (case obj of Stored k \<Rightarrow> current_state k s | Deleted ti \<Rightarrow> ti_state ti)"

definition obj_task_id :: "ti_obj \<Rightarrow> id_str" where
  "obj_task_id obj = (case obj of Stored (d, t, r, i) \<Rightarrow> t | Deleted ti \<Rightarrow> ti_task_id ti)"

text \<open>
  What the loop over the schedulable task instances accumulates: the ready ones, the states before
  the check of those that are not, whether something was expanded, the tasks whose map indexes were
  revised, and what became of the objects that expansion renamed or deleted.
\<close>

record ready_acc =
  ra_ready :: "ti_primary list"
  ra_old_states :: "(ti_primary \<times> ti_state) list"
  ra_expanded :: bool
  ra_revised :: "id_str list"
  ra_moved :: "(ti_primary \<times> ti_obj) list"

text \<open>\<open>_expand_mapped_task_if_needed\<close>; the result is \<open>None\<close> when nothing had to be expanded.\<close>

definition expand_mapped_task_if_needed :: "run_env \<Rightarrow> ti_primary \<Rightarrow> db \<Rightarrow> (ti_primary list option \<times> db) result" where
  "expand_mapped_task_if_needed env k s =
     (let (dag_id, task_id, run_id, map_index) = k in
      if 0 \<le> map_index then Inr (None, s)
      else
        bind_err (get_task (re_dag env) task_id) (\<lambda>op.
          let s1 = (if op_is_mapped op then clear_db_references k s else s) in
          case expand_mapped_task (re_hook env) (re_locked env) (re_dag env) op run_id s1 of
            Inl NotMapped \<Rightarrow> Inr (None, s1)
          | Inl e \<Rightarrow> Inl e
          | Inr (expanded, _, s2) \<Rightarrow> Inr (Some expanded, s2)))"

definition moved_to :: "ti_primary \<Rightarrow> db \<Rightarrow> db \<Rightarrow> ti_obj" where
  "moved_to k s s' =
     (case (find_ti s' k, find_ti s k, k) of
        (None, Some ti, (d, t, r, i)) \<Rightarrow> if find_ti s (d, t, r, 0) = None then Stored (d, t, r, 0) else Deleted ti
      | _ \<Rightarrow> Stored k)"

text \<open>One turn of the loop: the new task instances to go through later.\<close>

definition ready_step :: "run_env \<Rightarrow> ti_primary \<Rightarrow> ready_acc \<Rightarrow> dep_context \<Rightarrow> db \<Rightarrow>
    (ti_primary list \<times> ready_acc \<times> dep_context \<times> db) result" where
  "ready_step env k acc cxt s =
     bind_err (get_task (re_dag env) (fst (snd k))) (\<lambda>op.
     bind_err (are_dependencies_met (re_dep env) op k cxt s) (\<lambda>(met, cxt1, s1).
       if \<not> met
       then Inr ([], acc\<lparr>ra_old_states := dict_set k (current_state k s) (ra_old_states acc)\<rparr>, cxt1, s1)
       else bind_err (expand_mapped_task_if_needed env k s1) (\<lambda>(new_tis, s2).
         case new_tis of
           Some expanded \<Rightarrow>
             Inr (expanded, acc\<lparr>ra_expanded := True, ra_moved := (k, moved_to k s1 s2) # ra_moved acc\<rparr>, cxt1, s2)
         | None \<Rightarrow>
             if current_state k s2 \<notin> set SCHEDULEABLE_STATES then Inr ([], acc, cxt1, s2)
             else if op_task_id op \<in> set (ra_revised acc)
             then Inr ([], acc\<lparr>ra_ready := ra_ready acc @ [k]\<rparr>, cxt1, s2)
             else bind_err (revise_map_indexes_if_mapped (re_hook env) (re_dag env) op (fst (snd (snd k))) s2)
               (\<lambda>(revised, s3).
                 Inr ([], acc\<lparr>ra_ready := ra_ready acc @ revised @ [k],
                           ra_revised := op_task_id op # ra_revised acc\<rparr>, cxt1, s3)))))"

text \<open>
  The loop goes over \<open>itertools.chain(schedulable_tis, additional_tis)\<close>: new task instances are
  appended to what it still has to visit. Whether it ends depends on what the hook does to new task
  instances, so a loop without end is \<open>None\<close>.
\<close>

partial_function (option) ready_loop :: "run_env \<Rightarrow> ti_primary list \<Rightarrow> ready_acc \<Rightarrow> dep_context \<Rightarrow> db \<Rightarrow>
    (ready_acc \<times> dep_context \<times> db) result option" where
  "ready_loop env queue acc cxt s =
     (case queue of
        [] \<Rightarrow> Some (Inr (acc, cxt, s))
      | k # ks \<Rightarrow>
          (case ready_step env k acc cxt s of
             Inl e \<Rightarrow> Some (Inl e)
           | Inr (new_tis, acc', cxt', s') \<Rightarrow> ready_loop env (ks @ new_tis) acc' cxt' s'))"

declare ready_loop.simps [code]

definition empty_ready :: ready_acc where
  "empty_ready = \<lparr>ra_ready = [], ra_old_states = [], ra_expanded = False, ra_revised = [], ra_moved = []\<rparr>"

definition ready_context :: "ti_primary list \<Rightarrow> dep_context" where
  "ready_context finished_tis = default_dep_context\<lparr>dc_flag_upstream_failed := True,
     dc_ignore_unmapped_tasks := True, dc_finished_tis := Some finished_tis\<rparr>"

text \<open>Some task instance that is not ready has another state than before its check.\<close>

definition any_changed :: "(ti_primary \<times> ti_state) list \<Rightarrow> db \<Rightarrow> bool" where
  "any_changed old_states s =
     (let tis_filter = filter_for_tis (dict_keys old_states) in
      list_ex (\<lambda>ti. filter_selects tis_filter (ti_primary ti) \<and>
        dict_get old_states (ti_primary ti) \<noteq> Some (ti_state ti)) (db_tis s))"

definition get_ready_tis :: "run_env \<Rightarrow> ti_primary list \<Rightarrow> ti_primary list \<Rightarrow> db \<Rightarrow>
    (ti_primary list \<times> bool \<times> bool \<times> (ti_primary \<times> ti_obj) list \<times> db) result option" where
  "get_ready_tis env schedulable_tis finished_tis s =
     (if schedulable_tis = [] then Some (Inr ([], False, False, [], s))
      else bind_run (ready_loop env schedulable_tis empty_ready (ready_context finished_tis) s)
        (\<lambda>(acc, cxt, s'). Some (Inr (ra_ready acc, any_changed (ra_old_states acc) s', ra_expanded acc, ra_moved acc, s'))))"

subsection \<open>Scheduling decisions of a run\<close>

record scheduling_decision =
  sd_tis :: "ti_obj list"
  sd_schedulable_tis :: "ti_primary list"
  sd_changed_tis :: bool
  sd_unfinished_tis :: "ti_obj list"
  sd_finished_tis :: "ti_obj list"

text \<open>\<open>_filter_tis_and_exclude_removed\<close>: a task instance whose task is gone becomes REMOVED.\<close>

fun exclude_removed :: "dag \<Rightarrow> ti_primary list \<Rightarrow> db \<Rightarrow> ti_primary list \<times> db" where
  "exclude_removed d [] s = ([], s)"
| "exclude_removed d (k # ks) s =
     (if has_task d (fst (snd k)) then let (kept, s') = exclude_removed d ks s in (k # kept, s')
      else exclude_removed d ks
        (if current_state k s = Some REMOVED then s else update_ti k (set_ti_state (Some REMOVED)) s))"

definition follow :: "(ti_primary \<times> ti_obj) list \<Rightarrow> ti_primary \<Rightarrow> ti_obj" where
  "follow moved k = dict_get_or moved (Stored k) k"

definition task_instance_scheduling_decisions :: "run_env \<Rightarrow> dag_run \<Rightarrow> db \<Rightarrow> (scheduling_decision \<times> db) result option" where
  "task_instance_scheduling_decisions env dr s =
     (let (tis, s1) = exclude_removed (re_dag env) (map ti_primary (get_task_instances (re_dag env) dr (\<lambda>_. True) s)) s;
          unfinished_tis = filter (\<lambda>k. unfinished (current_state k s1)) tis;
          finished_tis = filter (\<lambda>k. finished (current_state k s1)) tis in
      if unfinished_tis = []
      then Some (Inr (\<lparr>sd_tis = map Stored tis, sd_schedulable_tis = [], sd_changed_tis = False,
             sd_unfinished_tis = [], sd_finished_tis = map Stored finished_tis\<rparr>, s1))
      else bind_run (get_ready_tis env
             (filter (\<lambda>k. current_state k s1 \<in> set SCHEDULEABLE_STATES) unfinished_tis) finished_tis s1)
           (\<lambda>(ready, changed, expanded, moved, s2).
             let tis' = map (follow moved) tis; unfinished' = map (follow moved) unfinished_tis;
                 finished' = map (follow moved) finished_tis in
             Some (Inr (\<lparr>sd_tis = tis', sd_schedulable_tis = ready, sd_changed_tis = expanded \<or> changed,
               sd_unfinished_tis = (if expanded then filter (\<lambda>ti. unfinished (obj_state s2 ti)) unfinished' else unfinished'),
               sd_finished_tis = (if expanded then finished' @ filter (\<lambda>ti. finished (obj_state s2 ti)) unfinished'
                                  else finished')\<rparr>, s2))))"

subsection \<open>The state of a run\<close>

text \<open>\<open>is_effective_leaf\<close>: no downstream task counts, and the task itself does.\<close>

definition counts_for_state :: "operator \<Rightarrow> bool" where
  "counts_for_state op \<longleftrightarrow> \<not> op_is_teardown op \<or> op_on_failure_fail_dagrun op"

fun no_counting_task :: "dag \<Rightarrow> id_str list \<Rightarrow> bool result" where
  "no_counting_task d [] = Inr True"
| "no_counting_task d (t # ts) =
     bind_err (get_task d t) (\<lambda>op. if counts_for_state op then Inr False else no_counting_task d ts)"

definition is_effective_leaf :: "dag \<Rightarrow> operator \<Rightarrow> bool result" where
  "is_effective_leaf d op =
     bind_err (no_counting_task d (op_downstream_task_ids op)) (\<lambda>b. Inr (b \<and> counts_for_state op))"

definition tis_for_dagrun_state :: "dag \<Rightarrow> ti_obj list \<Rightarrow> db \<Rightarrow> ti_obj list result" where
  "tis_for_dagrun_state d tis s =
     bind_err (filter_err (is_effective_leaf d) (dag_tasks d)) (\<lambda>leaves.
       let leaf_tasks = (if leaves = [] then filter (\<lambda>op. op_downstream_task_ids op = []) (dag_tasks d) else leaves);
           leaf_task_ids = map op_task_id leaf_tasks in
       Inr (filter (\<lambda>ti. obj_task_id ti \<in> set leaf_task_ids \<and> obj_state s ti \<noteq> Some REMOVED) tis))"

definition should_schedule :: "dag \<Rightarrow> ti_obj list \<Rightarrow> db \<Rightarrow> bool" where
  "should_schedule d tis s \<longleftrightarrow> tis \<noteq> [] \<and>
     list_all (\<lambda>ti. let op = dag_op d (obj_task_id ti) in
       \<not> op_depends_on_past op \<and> op_max_active_tis_per_dag op = None \<and> op_max_active_tis_per_dagrun op = None \<and>
       obj_state s ti \<noteq> Some DEFERRED) tis"

text \<open>\<open>_are_premature_tis\<close>: the first task instance whose dependencies are met ends the search. It is
  called only when nothing was expanded, so no object was deleted.\<close>

fun any_dependencies_met :: "run_env \<Rightarrow> ti_obj list \<Rightarrow> dep_context \<Rightarrow> db \<Rightarrow> (bool \<times> dep_context \<times> db) result" where
  "any_dependencies_met env [] cxt s = Inr (False, cxt, s)"
| "any_dependencies_met env (Deleted ti # tis) cxt s = any_dependencies_met env tis cxt s"
| "any_dependencies_met env (Stored k # tis) cxt s =
     bind_err (are_dependencies_met (re_dep env) (dag_op (re_dag env) (fst (snd k))) k cxt s) (\<lambda>(met, cxt', s').
       if met then Inr (True, cxt', s') else any_dependencies_met env tis cxt' s')"

fun obj_keys :: "ti_obj list \<Rightarrow> ti_primary list" where
  "obj_keys [] = []"
| "obj_keys (Stored k # tis) = k # obj_keys tis"
| "obj_keys (Deleted ti # tis) = obj_keys tis"

definition premature_context :: "ti_primary list \<Rightarrow> dep_context" where
  "premature_context finished_tis = default_dep_context\<lparr>dc_flag_upstream_failed := True,
     dc_ignore_in_retry_period := True, dc_ignore_in_reschedule_period := True, dc_finished_tis := Some finished_tis\<rparr>"

definition are_premature_tis :: "run_env \<Rightarrow> ti_obj list \<Rightarrow> ti_obj list \<Rightarrow> db \<Rightarrow> (bool \<times> bool \<times> db) result" where
  "are_premature_tis env unfinished_tis finished_tis s =
     bind_err (any_dependencies_met env unfinished_tis (premature_context (obj_keys finished_tis)) s)
       (\<lambda>(met, cxt, s'). Inr (met, dc_have_changed_ti_states cxt, s'))"

text \<open>The verdict on a run from whether task instances are unfinished, the states that count, and
  whether all of them are stuck.\<close>

datatype run_verdict = TaskFailure | RunSuccess | AllTasksDeadlocked | StillRunning

definition run_verdict :: "bool \<Rightarrow> ti_state list \<Rightarrow> bool \<Rightarrow> run_verdict" where
  "run_verdict any_unfinished states deadlocked =
     (if \<not> any_unfinished \<and> list_ex failed_states states then TaskFailure
      else if \<not> any_unfinished \<and> list_all success_states states then RunSuccess
      else if deadlocked then AllTasksDeadlocked
      else StillRunning)"

fun verdict_state :: "run_verdict \<Rightarrow> DagRunState" where
  "verdict_state TaskFailure = DR_FAILED"
| "verdict_state RunSuccess = DR_SUCCESS"
| "verdict_state AllTasksDeadlocked = DR_FAILED"
| "verdict_state StillRunning = DR_RUNNING"

record dag_callback_request =
  cb_full_filepath :: string
  cb_dag_id :: id_str
  cb_run_id :: id_str
  cb_is_failure_callback :: bool
  cb_processor_subdir :: "string option"
  cb_msg :: string

datatype run_callback = HandleCallback bool string | RequestCallback dag_callback_request

definition verdict_callback :: "dag \<Rightarrow> dag_run \<Rightarrow> bool \<Rightarrow> run_verdict \<Rightarrow> db \<Rightarrow> run_callback option" where
  "verdict_callback d dr execute_callbacks verdict s =
     (let msg = (case verdict of TaskFailure \<Rightarrow> ''task_failure'' | RunSuccess \<Rightarrow> ''success'' | _ \<Rightarrow> ''all_tasks_deadlocked'');
          success = (verdict = RunSuccess) in
      if verdict = StillRunning then None
      else if execute_callbacks then Some (HandleCallback success msg)
      else if (if success then d_has_on_success_callback d else d_has_on_failure_callback d)
      then Some (RequestCallback \<lparr>cb_full_filepath = d_fileloc d, cb_dag_id = dr_dag_id dr, cb_run_id = dr_run_id dr,
             cb_is_failure_callback = \<not> success,
             cb_processor_subdir = (case find_dm s (d_dag_id d) of None \<Rightarrow> None | Some dm \<Rightarrow> dm_processor_subdir dm),
             cb_msg = msg\<rparr>)
      else None)"

text \<open>
  The unfinished task instances and whether any of them can run, as \<open>update_state\<close> finds them: when
  nothing is ready and nothing changed, it looks again without retry and reschedule delays.
\<close>

definition find_runnable :: "run_env \<Rightarrow> scheduling_decision \<Rightarrow> db \<Rightarrow> (ti_obj list \<times> bool \<times> db) result" where
  "find_runnable env info s =
     (let unfinished_tis = sd_unfinished_tis info in
      if \<not> should_schedule (re_dag env) unfinished_tis s then Inr (unfinished_tis, False, s)
      else if sd_schedulable_tis info \<noteq> [] \<or> sd_changed_tis info then Inr (unfinished_tis, True, s)
      else bind_err (are_premature_tis env unfinished_tis (sd_finished_tis info) s) (\<lambda>(runnable, changed, s').
        Inr (if changed then filter (\<lambda>ti. unfinished (obj_state s' ti)) unfinished_tis else unfinished_tis, runnable, s')))"

definition update_state :: "run_env \<Rightarrow> bool \<Rightarrow> id_str \<Rightarrow> id_str \<Rightarrow> db \<Rightarrow>
    (ti_primary list \<times> run_callback option \<times> db) result option" where
  "update_state env execute_callbacks dag_id run_id s =
     (let d = re_dag env; now = de_now (re_dep env) in
      case find_dr s dag_id run_id of
        None \<Rightarrow> Some (Inl (KeyError run_id))
      | Some dr \<Rightarrow>
          let s0 = update_dr dag_id run_id (\<lambda>r. r\<lparr>dr_last_scheduling_decision := Some now\<rparr>) s in
          bind_run (task_instance_scheduling_decisions env dr s0) (\<lambda>(info, s1).
          bind_run (Some (find_runnable env info s1)) (\<lambda>(unfinished_tis, runnable, s2).
          bind_run (Some (tis_for_dagrun_state d (sd_tis info) s2)) (\<lambda>leaves.
            let verdict = run_verdict (unfinished_tis \<noteq> []) (map (obj_state s2) leaves)
                  (should_schedule d unfinished_tis s2 \<and> \<not> runnable);
                s3 = update_dr dag_id run_id (set_dr_state now (verdict_state verdict)) s2 in
            Some (Inr (sd_schedulable_tis info, verdict_callback d dr execute_callbacks verdict s3, s3))))))"

end
