(* ===== verification/Run_Laws.thy ===== *)
theory Run_Laws
  imports Dag_Runs
begin

text \<open>
  What the operations on dag runs guarantee: the search for ready task instances ends, and a run is
  decided only when its task instances allow it.
\<close>

subsection \<open>The search for ready task instances ends\<close>

definition unexpanded :: "ti_primary \<Rightarrow> bool" where
  "unexpanded k \<longleftrightarrow> (case k of (d, t, r, i) \<Rightarrow> i < 0)"

definition indexes_ok :: "db \<Rightarrow> bool" where
  "indexes_ok s \<longleftrightarrow> (\<forall>ti \<in> set (db_tis s). -1 \<le> ti_map_index ti)"

lemma indexes_ok_primary: "indexes_ok s \<longleftrightarrow> (\<forall>(d, t, r, i) \<in> ti_primary ` set (db_tis s). -1 \<le> i)"
  by (auto simp: indexes_ok_def ti_primary_def)

lemma indexes_ok_cong: "map ti_primary (db_tis s') = map ti_primary (db_tis s) \<Longrightarrow> indexes_ok s' = indexes_ok s"
  unfolding indexes_ok_primary by (metis set_map)

lemma settles_primaries: "settles_ti k s s' \<Longrightarrow> map ti_primary (db_tis s') = map ti_primary (db_tis s)"
  unfolding settles_ti_def
  by (metis db.ext_inject db.surjective db.update_convs(6) lifecycle_keeps_primary map_primary_update_ti)

lemma add_expanded_indexes:
  assumes "add_expanded hook d run_id op st is s = Inr (ks, s')" "keeps_identity hook" "indexes_ok s" "\<forall>i \<in> set is. 0 \<le> i"
  shows "indexes_ok s'" "list_all (\<lambda>k. \<not> unexpanded k) ks"
proof -
  from add_expanded_rows [OF assms(1,2)] obtain rows where
    r: "ks = map (\<lambda>i. (d_dag_id d, op_task_id op, run_id, i)) is" "db_tis s' = db_tis s @ rows" "map ti_primary rows = ks"
    by blast
  show keys: "list_all (\<lambda>k. \<not> unexpanded k) ks" using assms(4) by (auto simp: r(1) list_all_iff unexpanded_def)
  have "ti_primary x \<in> set ks" if "x \<in> set rows" for x using that r(3) by (metis image_eqI list.set_map)
  with keys have "0 \<le> ti_map_index x" if "x \<in> set rows" for x
    using that by (fastforce simp: list_all_iff unexpanded_def ti_primary_def)
  then show "indexes_ok s'" using assms(3) by (fastforce simp: indexes_ok_def r(2))
qed

lemma indexes_ok_remove [simp]: "indexes_ok (remove_indexes a b c P s) = indexes_ok s"
  by (rule indexes_ok_cong) (rule remove_indexes_rows)

lemma indexes_ok_references [simp]: "indexes_ok (clear_db_references k s) = indexes_ok s"
  by (simp add: indexes_ok_def clear_db_references_def)

lemma expand_unmapped_ok:
  "expand_unmapped d op run_id n s = (ks, st, s') \<Longrightarrow> indexes_ok s \<Longrightarrow> indexes_ok s' \<and> list_all (\<lambda>k. \<not> unexpanded k) ks"
  by (auto simp: expand_unmapped_def Let_def indexes_ok_def delete_ti_def clear_db_references_def update_ti_def
      set_ti_state_def unexpanded_def simp del: unfinished.simps split: option.splits if_split_asm)

lemma expand_mapped_task_ok:
  assumes "expand_mapped_task hook locked d op run_id s = Inr (ks, n, s')" "keeps_identity hook" "indexes_ok s"
  shows "indexes_ok s' \<and> list_all (\<lambda>k. \<not> unexpanded k) ks"
proof -
  from assms(1) obtain total_length ks1 st s1 indexes ks2 s2 where
    u: "expand_unmapped d op run_id total_length s = (ks1, st, s1)" and
    i: "missing_indexes total_length (map_indexes_of (d_dag_id d) (op_task_id op) run_id s1) = Inr indexes" and
    a: "add_expanded hook d run_id op st indexes s1 = Inr (ks2, s2)" and
    r: "ks = ks1 @ ks2" "indexes_ok s' = indexes_ok s2"
    unfolding expand_mapped_task_def Let_def
    by (auto simp del: bind_err_Inr_iff elim!: bind_err_InrE split: prod.split_asm)
  note e = expand_unmapped_ok [OF u assms(3)]
  have "-1 \<le> list_max (map_indexes_of a b c s1)" if "map_indexes_of a b c s1 \<noteq> []" for a b c
    unfolding list_max_Max [OF that] using e that by (subst Max_ge_iff) (auto simp: map_indexes_of_def indexes_ok_def filter_empty_conv)
  then have "\<forall>i \<in> set indexes. 0 \<le> i"
    using i by (fastforce simp: missing_indexes_def int_range_def split: option.splits if_split_asm)
  from add_expanded_indexes [OF a assms(2) _ this] e r show ?thesis by auto
qed

lemma revise_ok:
  assumes "revise_map_indexes_if_mapped hook d op run_id s = Inr (ks, s')" "keeps_identity hook" "indexes_ok s"
  shows "indexes_ok s'"
  using assms
  by (auto simp: revise_map_indexes_if_mapped_def Let_def int_range_def split: sum.split_asm error.split_asm
      dest!: add_expanded_indexes(1))

lemma expand_if_needed_ok:
  assumes "expand_mapped_task_if_needed env k s = Inr (new_tis, s')" "keeps_identity (re_hook env)" "indexes_ok s"
  shows "indexes_ok s' \<and> (case new_tis of None \<Rightarrow> True | Some ks \<Rightarrow> unexpanded k \<and> list_all (\<lambda>k. \<not> unexpanded k) ks)"
  using assms
  by (auto simp: expand_mapped_task_if_needed_def unexpanded_def Let_def simp del: bind_err_Inr_iff elim!: bind_err_InrE
      split: prod.split_asm if_split_asm sum.split_asm error.split_asm dest!: expand_mapped_task_ok)

lemma ready_step_ok:
  assumes "ready_step env k acc cxt s = Inr (new_tis, acc', cxt', s')" "keeps_identity (re_hook env)" "indexes_ok s"
  shows "indexes_ok s' \<and> (new_tis = [] \<or> unexpanded k) \<and> list_all (\<lambda>k. \<not> unexpanded k) new_tis"
proof -
  from assms(1) obtain op met cxt1 s1 where d: "are_dependencies_met (re_dep env) op k cxt s = Inr (met, cxt1, s1)"
    and r: "(if \<not> met then Inr ([], acc\<lparr>ra_old_states := dict_set k (current_state k s) (ra_old_states acc)\<rparr>, cxt1, s1)
       else bind_err (expand_mapped_task_if_needed env k s1) (\<lambda>(new_tis, s2).
         case new_tis of
           Some expanded \<Rightarrow>
             Inr (expanded, acc\<lparr>ra_expanded := True, ra_moved := (k, moved_to k s1 s2) # ra_moved acc\<rparr>, cxt1, s2)
         | None \<Rightarrow>
             if current_state k s2 \<notin> set SCHEDULEABLE_STATES then Inr ([], acc, cxt1, s2)
             else if op_task_id op \<in> set (ra_revised acc)
             then Inr ([], acc\<lparr>ra_ready := ra_ready acc @ [k]\<rparr>, cxt1, s2)
             else bind_err (revise_map_indexes_if_mapped (re_hook env) (re_dag env) op (fst (snd (snd k))) s2)
               (\<lambda>(revised, s3).
                 Inr ([], acc\<lparr>ra_ready := ra_ready acc @ revised @ [k],
                           ra_revised := op_task_id op # ra_revised acc\<rparr>, cxt1, s3)))) = Inr (new_tis, acc', cxt', s')"
    by (auto simp: ready_step_def simp del: bind_err_Inr_iff elim!: bind_err_InrE split: prod.split_asm)
  have ok: "indexes_ok s1" using indexes_ok_cong [OF settles_primaries [OF settles_dependencies [OF d]]] assms(3) by simp
  show ?thesis
  proof (cases met)
    case False
    with r ok show ?thesis by auto
  next
    case True
    with r obtain new s2 where n: "expand_mapped_task_if_needed env k s1 = Inr (new, s2)"
      by (cases "expand_mapped_task_if_needed env k s1") auto
    note e = expand_if_needed_ok [OF n assms(2) ok]
    with r True n show ?thesis
      by (cases new) (auto simp del: bind_err_Inr_iff elim!: bind_err_InrE split: if_split_asm prod.split_asm
          dest!: revise_ok [OF _ assms(2)])
  qed
qed

lemma ready_loop_returns:
  "keeps_identity (re_hook env) \<Longrightarrow> indexes_ok s \<Longrightarrow> ready_loop env queue acc cxt s \<noteq> None"
proof (induction "(length (filter unexpanded queue), length queue)" arbitrary: queue acc cxt s
    rule: wf_induct_rule [OF wf_lex_prod [OF wf_less_than wf_less_than]])
  case 1
  show ?case
  proof (cases queue)
    case (Cons k ks)
    show ?thesis
    proof (cases "ready_step env k acc cxt s")
      case (Inl e)
      then show ?thesis by (subst ready_loop.simps) (simp add: Cons)
    next
      case (Inr r)
      obtain new_tis acc' cxt' s' where r: "r = (new_tis, acc', cxt', s')" by (cases r)
      note ok = ready_step_ok [OF Inr [unfolded r] "1.prems"]
      have "filter unexpanded new_tis = []" using ok by (simp add: list_all_iff filter_empty_conv)
      moreover have "new_tis = [] \<or> unexpanded k" using ok by blast
      ultimately have "((length (filter unexpanded (ks @ new_tis)), length (ks @ new_tis)),
          (length (filter unexpanded queue), length queue)) \<in> less_than <*lex*> less_than"
        by (auto simp: Cons)
      from "1.hyps" [OF this] ok "1.prems"(1) have "ready_loop env (ks @ new_tis) acc' cxt' s' \<noteq> None" by blast
      then show ?thesis by (subst ready_loop.simps) (simp add: Cons Inr r)
    qed
  qed (subst ready_loop.simps, simp)
qed

lemma bind_run_None_iff: "bind_run r f = None \<longleftrightarrow> r = None \<or> (\<exists>x. r = Some (Inr x) \<and> f x = None)"
  by (auto simp: bind_run_def split: option.splits sum.splits)

lemma exclude_removed_primaries:
  "exclude_removed d ks s = (kept, s') \<Longrightarrow> map ti_primary (db_tis s') = map ti_primary (db_tis s)"
proof (induction d ks s arbitrary: kept s' rule: exclude_removed.induct)
  case (2 d k ks s)
  have "keeps_primary (set_ti_state st)" for st by (simp add: keeps_primary_def ti_primary_def set_ti_state_def)
  with 2 show ?case by (auto simp: map_primary_update_ti split: if_split_asm prod.split_asm)
qed simp

lemma decisions_return:
  assumes "keeps_identity (re_hook env)" "indexes_ok s"
  shows "task_instance_scheduling_decisions env dr s \<noteq> None"
proof -
  obtain tis s1 where e: "exclude_removed (re_dag env) (map ti_primary (get_task_instances (re_dag env) dr (\<lambda>_. True) s)) s = (tis, s1)"
    by fastforce
  have "indexes_ok s1" using indexes_ok_cong [OF exclude_removed_primaries [OF e]] assms(2) by simp
  then have "get_ready_tis env ks fin s1 \<noteq> None" for ks fin
    using ready_loop_returns [OF assms(1)]
    by (auto simp: get_ready_tis_def bind_run_None_iff simp del: not_None_eq)
  then show ?thesis
    by (auto simp: task_instance_scheduling_decisions_def e Let_def bind_run_None_iff simp del: not_None_eq)
qed

text \<open>
  C18. Deciding on a dag run always ends, although the loop over the schedulable task instances also
  visits the ones it creates by expanding mapped tasks: if the mutation hook keeps the identity of a
  task instance, \<open>update_state\<close> returns a result or an exception.
\<close>

theorem update_state_returns:
  assumes "keeps_identity (re_hook env)" "indexes_ok s"
  shows "update_state env execute_callbacks dag_id run_id s \<noteq> None"
proof (cases "find_dr s dag_id run_id")
  case (Some dr)
  have "indexes_ok (update_dr dag_id run_id f s)" for f using assms(2) by (simp add: indexes_ok_def)
  with decisions_return [OF assms(1)] Some show ?thesis
    by (auto simp: update_state_def Let_def bind_run_None_iff simp del: not_None_eq)
qed (simp add: update_state_def Let_def)

definition sample_run_env :: "dag \<Rightarrow> run_env" where
  "sample_run_env d = \<lparr>re_dep = sample_env d, re_hook = (\<lambda>ti. ti), re_locked = (\<lambda>_. False)\<rparr>"

lemma update_state_returns_witness:
  "update_state (sample_run_env (sample_dag [sample_expand_op])) False ''d'' ''r'' (sample_db [sample_ti ''a'' None]) \<noteq> None"
  by (rule update_state_returns) (simp_all add: sample_run_env_def keeps_identity_def indexes_ok_def sample_defs)

subsection \<open>When a run is decided\<close>

text \<open>
  A DAG without dynamic mapping. For such a DAG nothing is expanded, and checking the task instances
  changes no more of the database than their states and dates, the new state being a final one.
\<close>

definition unmapped_dag :: "dag \<Rightarrow> bool" where
  "unmapped_dag d \<longleftrightarrow> list_all (\<lambda>op. \<not> needs_expansion op) (dag_tasks d)"

definition evolves :: "db \<Rightarrow> db \<Rightarrow> bool" where
  "evolves s s' \<longleftrightarrow> map ti_primary (db_tis s') = map ti_primary (db_tis s) \<and> db_drs s' = db_drs s \<and> db_dms s' = db_dms s \<and>
     (\<forall>k. current_state k s' = current_state k s \<or> settled_state (current_state k s'))"

lemma evolves_refl [simp]: "evolves s s"
  by (simp add: evolves_def)

lemma evolves_trans: "evolves s1 s2 \<Longrightarrow> evolves s2 s3 \<Longrightarrow> evolves s1 s3"
  unfolding evolves_def by metis

lemma settles_evolves:
  assumes "settles_ti k s s'"
  shows "evolves s s'"
proof -
  have "current_state k' s' = current_state k' s \<or> settled_state (current_state k' s')" for k'
  proof (cases "k' = k")
    case False
    with settles_find_other [OF assms] show ?thesis by (simp add: current_state_def)
  next
    case True
    show ?thesis
    proof (cases "find_ti s k")
      case None
      then have "find_ti s' k = None"
        using settles_primaries [OF assms] by (metis find_ti_None_iff list.set_map)
      with None True show ?thesis by (simp add: current_state_def)
    next
      case (Some ti)
      from settles_row [OF assms this] True Some show ?thesis by (auto simp: current_state_def)
    qed
  qed
  with settles_primaries [OF assms] settles_tables [OF assms] show ?thesis by (simp add: evolves_def)
qed

lemma get_task_unmapped:
  "unmapped_dag d \<Longrightarrow> get_task d t = Inr op \<Longrightarrow> \<not> op_is_mapped op \<and> op_mapped_task_groups op = []"
  by (auto simp: unmapped_dag_def dag_tasks_def get_task_def list_all_iff needs_expansion_def
      split: option.splits dest!: map_of_SomeD)

lemma unmapped_count: "\<not> op_is_mapped op \<Longrightarrow> op_mapped_task_groups op = [] \<Longrightarrow> get_mapped_ti_count a op r s = Inl NotMapped"
  by (simp add: get_mapped_ti_count_def group_ti_count_def)

lemma ready_step_unmapped:
  assumes "ready_step env k acc cxt s = Inr (new_tis, acc', cxt', s')" "unmapped_dag (re_dag env)"
  shows "new_tis = [] \<and> ra_expanded acc' = ra_expanded acc \<and> ra_moved acc' = ra_moved acc \<and> settles_ti k s s' \<and>
    (ra_ready acc' = ra_ready acc \<or>
     ra_ready acc' = ra_ready acc @ [k] \<and> current_state k s' \<in> set SCHEDULEABLE_STATES \<and>
       (\<exists>op cxt''. get_task (re_dag env) (fst (snd k)) = Inr op \<and>
          are_dependencies_met (re_dep env) op k cxt s = Inr (True, cxt'', s')))"
proof -
  from assms(1) obtain op met cxt1 s1 where op: "get_task (re_dag env) (fst (snd k)) = Inr op"
    and d: "are_dependencies_met (re_dep env) op k cxt s = Inr (met, cxt1, s1)"
    by (auto simp: ready_step_def simp del: bind_err_Inr_iff elim!: bind_err_InrE split: prod.split_asm)
  note m = get_task_unmapped [OF assms(2) op]
  have n: "expand_mapped_task_if_needed env k s1 = Inr (None, s1)"
    using m op by (cases k) (auto simp: expand_mapped_task_if_needed_def expand_mapped_task_def known_total_length_def unmapped_count)
  have v: "revise_map_indexes_if_mapped (re_hook env) (re_dag env) op r s1 = Inr ([], s1)" for r
    using m by (simp add: revise_map_indexes_if_mapped_def unmapped_count)
  from assms(1) op d n v settles_dependencies [OF d] show ?thesis
    by (auto simp: ready_step_def split: if_split_asm)
qed

lemma ready_loop_unmapped:
  assumes "ready_loop env queue acc cxt s = Some (Inr (acc', cxt', s'))" "unmapped_dag (re_dag env)"
  shows "ra_expanded acc' = ra_expanded acc \<and> ra_moved acc' = ra_moved acc \<and> evolves s s' \<and>
    set (ra_ready acc') \<subseteq> set (ra_ready acc) \<union> set queue"
  using assms(1)
proof (induction queue arbitrary: acc cxt s)
  case Nil
  then show ?case by (subst (asm) ready_loop.simps) simp
next
  case (Cons k ks)
  from Cons.prems obtain new_tis acc1 cxt1 s1 where st: "ready_step env k acc cxt s = Inr (new_tis, acc1, cxt1, s1)"
    and l: "ready_loop env (ks @ new_tis) acc1 cxt1 s1 = Some (Inr (acc', cxt', s'))"
    by (subst (asm) ready_loop.simps) (auto split: sum.split_asm)
  note u = ready_step_unmapped [OF st assms(2)]
  with l have "ready_loop env ks acc1 cxt1 s1 = Some (Inr (acc', cxt', s'))" by simp
  from Cons.IH [OF this] u settles_evolves [of k s s1] show ?case by (auto intro: evolves_trans)
qed

lemma exclude_removed_spec:
  "exclude_removed d ks s = (kept, s') \<Longrightarrow> kept = filter (\<lambda>k. has_task d (fst (snd k))) ks \<and>
     map ti_primary (db_tis s') = map ti_primary (db_tis s) \<and> db_drs s' = db_drs s \<and> db_dms s' = db_dms s \<and>
     (\<forall>k. has_task d (fst (snd k)) \<longrightarrow> find_ti s' k = find_ti s k)"
proof (induction d ks s arbitrary: kept s' rule: exclude_removed.induct)
  case (2 d k ks s)
  have kp: "keeps_primary (set_ti_state st)" for st by (simp add: keeps_primary_def ti_primary_def set_ti_state_def)
  show ?case
  proof (cases "has_task d (fst (snd k))")
    case True
    obtain kept1 where "exclude_removed d ks s = (kept1, s')" "kept = k # kept1"
      using "2.prems" True by (auto split: prod.split_asm)
    with "2.IH"(1) [OF True] True show ?thesis by simp
  next
    case False
    let ?s = "if current_state k s = Some REMOVED then s else update_ti k (set_ti_state (Some REMOVED)) s"
    have "exclude_removed d ks ?s = (kept, s')" using "2.prems" False by simp
    from "2.IH"(2) [OF False this] False show ?thesis
      by (auto simp: map_primary_update_ti [OF kp] find_ti_update [OF kp])
  qed
qed simp

text \<open>The task instances of a run whose task is in the DAG, and the tasks that decide on its state.\<close>

definition run_rows :: "dag \<Rightarrow> id_str \<Rightarrow> id_str \<Rightarrow> db \<Rightarrow> task_instance list" where
  "run_rows d dag_id run_id s =
     filter (\<lambda>ti. ti_dag_id ti = dag_id \<and> ti_run_id ti = run_id \<and> has_task d (ti_task_id ti)) (db_tis s)"

definition effective_leaf :: "dag \<Rightarrow> operator \<Rightarrow> bool" where
  "effective_leaf d op \<longleftrightarrow> counts_for_state op \<and> (\<forall>t \<in> set (op_downstream_task_ids op). \<not> counts_for_state (dag_op d t))"

definition decides_run :: "dag \<Rightarrow> task_instance \<Rightarrow> bool" where
  "decides_run d ti \<longleftrightarrow> ti_state ti \<noteq> Some REMOVED \<and>
     (\<exists>op \<in> set (dag_tasks d). op_task_id op = ti_task_id ti \<and>
        (if \<exists>op' \<in> set (dag_tasks d). effective_leaf d op' then effective_leaf d op else op_downstream_task_ids op = []))"

lemma no_counting_task_iff:
  "no_counting_task d ts = Inr b \<Longrightarrow> b \<longleftrightarrow> (\<forall>t \<in> set ts. \<not> counts_for_state (dag_op d t))"
  by (induction ts) (auto simp: get_task_def dag_op_def split: option.split_asm if_split_asm)

lemma filter_err_Inr: "filter_err P xs = Inr ys \<Longrightarrow> ys = filter (\<lambda>x. P x = Inr True) xs \<and> (\<forall>x \<in> set xs. \<exists>b. P x = Inr b)"
  by (induction xs arbitrary: ys) auto

lemma tis_for_dagrun_state_spec:
  assumes "tis_for_dagrun_state d (map Stored ks) s = Inr objs" "\<forall>k \<in> set ks. find_ti s k \<noteq> None"
  shows "\<exists>ls. objs = map Stored ls \<and> set ls = {k \<in> set ks. \<exists>ti. find_ti s k = Some ti \<and> decides_run d ti}"
proof -
  from assms(1) obtain leaves where l: "filter_err (is_effective_leaf d) (dag_tasks d) = Inr leaves"
    by (auto simp: tis_for_dagrun_state_def)
  note f = filter_err_Inr [OF l]
  have eff: "is_effective_leaf d op = Inr True \<longleftrightarrow> effective_leaf d op" if "op \<in> set (dag_tasks d)" for op
  proof -
    from f that obtain b where "is_effective_leaf d op = Inr b" by blast
    then obtain b' where b': "no_counting_task d (op_downstream_task_ids op) = Inr b'"
      by (auto simp: is_effective_leaf_def)
    with no_counting_task_iff [OF b'] show ?thesis by (auto simp: is_effective_leaf_def effective_leaf_def)
  qed
  then have leaves: "set leaves = {op \<in> set (dag_tasks d). effective_leaf d op}" using f by auto
  let ?ids = "map op_task_id (if leaves = [] then filter (\<lambda>op. op_downstream_task_ids op = []) (dag_tasks d) else leaves)"
  have "leaves = [] \<longleftrightarrow> \<not> (\<exists>op \<in> set (dag_tasks d). effective_leaf d op)"
    using leaves by (metis (mono_tags, lifting) empty_iff empty_set mem_Collect_eq set_empty equals0I)
  then have ids: "t \<in> set ?ids \<longleftrightarrow> (\<exists>op \<in> set (dag_tasks d). op_task_id op = t \<and>
      (if \<exists>op' \<in> set (dag_tasks d). effective_leaf d op' then effective_leaf d op else op_downstream_task_ids op = []))" for t
    using leaves by auto
  define keep where "keep = (\<lambda>k. obj_task_id (Stored k) \<in> set ?ids \<and> obj_state s (Stored k) \<noteq> Some REMOVED)"
  have "objs = map Stored (filter keep ks)"
    using assms(1) l by (simp add: tis_for_dagrun_state_def Let_def filter_map comp_def keep_def)
  moreover have "keep k \<longleftrightarrow> (\<exists>ti. find_ti s k = Some ti \<and> decides_run d ti)" if "k \<in> set ks" for k
  proof -
    from that assms(2) obtain ti where ti: "find_ti s k = Some ti" by auto
    then have "obj_task_id (Stored k) = ti_task_id ti" "obj_state s (Stored k) = ti_state ti"
      by (auto simp: obj_task_id_def obj_state_def current_state_def ti_primary_def dest!: find_ti_Some)
    with ti ids [of "ti_task_id ti"] show ?thesis by (simp add: keep_def decides_run_def del: set_map) blast
  qed
  then have "set (filter keep ks) = {k \<in> set ks. \<exists>ti. find_ti s k = Some ti \<and> decides_run d ti}"
    by (simp only: set_filter) blast
  ultimately show ?thesis by (intro exI [of _ "filter keep ks"] conjI)
qed

text \<open>What the decisions on a run without mapping are based on: the rows of the run, seen twice.\<close>

lemma decisions_unmapped:
  assumes "task_instance_scheduling_decisions env dr s = Some (Inr (info, s'))" "unmapped_dag (re_dag env)"
  shows "\<exists>ks s1. set ks = {k \<in> ti_primary ` set (db_tis s). fst k = dr_dag_id dr \<and> fst (snd (snd k)) = dr_run_id dr \<and>
        has_task (re_dag env) (fst (snd k))} \<and>
    (\<forall>k \<in> set ks. current_state k s1 = current_state k s) \<and> evolves s1 s' \<and>
    map ti_primary (db_tis s1) = map ti_primary (db_tis s) \<and> db_drs s1 = db_drs s \<and>
    sd_tis info = map Stored ks \<and> sd_unfinished_tis info = map Stored (filter (\<lambda>k. unfinished (current_state k s1)) ks) \<and>
    (sd_unfinished_tis info = [] \<longrightarrow> s' = s1)"
proof -
  let ?d = "re_dag env"
  let ?keys = "map ti_primary (get_task_instances ?d dr (\<lambda>_. True) s)"
  obtain ks s1 where e: "exclude_removed ?d ?keys s = (ks, s1)" by fastforce
  note x = exclude_removed_spec [OF e]
  have "set ks = {k \<in> ti_primary ` set (db_tis s). fst k = dr_dag_id dr \<and> fst (snd (snd k)) = dr_run_id dr \<and>
        has_task ?d (fst (snd k))}"
  proof -
    have "fst (ti_primary ti) = ti_dag_id ti" "fst (snd (ti_primary ti)) = ti_task_id ti"
      "fst (snd (snd (ti_primary ti))) = ti_run_id ti" for ti by (simp_all add: ti_primary_def)
    then show ?thesis using x by (auto simp: get_task_instances_def simp del: split_paired_All split_paired_Ex)
  qed
  moreover have "\<forall>k \<in> set ks. current_state k s1 = current_state k s"
    using x by (auto simp: current_state_def)
  moreover have "evolves s1 s' \<and> sd_tis info = map Stored ks \<and>
      sd_unfinished_tis info = map Stored (filter (\<lambda>k. unfinished (current_state k s1)) ks) \<and>
      (sd_unfinished_tis info = [] \<longrightarrow> s' = s1)"
  proof (cases "filter (\<lambda>k. unfinished (current_state k s1)) ks = []")
    case True
    with assms(1) e show ?thesis by (auto simp: task_instance_scheduling_decisions_def simp del: unfinished.simps)
  next
    case False
    let ?sched = "filter (\<lambda>k. current_state k s1 \<in> set SCHEDULEABLE_STATES) (filter (\<lambda>k. unfinished (current_state k s1)) ks)"
    let ?fin = "filter (\<lambda>k. finished (current_state k s1)) ks"
    from assms(1) e False obtain ready changed expanded moved where
      g: "get_ready_tis env ?sched ?fin s1 = Some (Inr (ready, changed, expanded, moved, s'))"
      and i: "sd_tis info = map (follow moved) ks"
        "sd_unfinished_tis info = (if expanded
           then filter (\<lambda>ti. unfinished (obj_state s' ti)) (map (follow moved) (filter (\<lambda>k. unfinished (current_state k s1)) ks))
           else map (follow moved) (filter (\<lambda>k. unfinished (current_state k s1)) ks))"
      by (auto simp: task_instance_scheduling_decisions_def Let_def simp del: unfinished.simps finished.simps
          elim!: bind_run_InrE split: prod.split_asm)
    have "\<not> expanded \<and> moved = [] \<and> evolves s1 s'"
    proof (cases "?sched = []")
      case True
      with g show ?thesis by (simp add: get_ready_tis_def del: unfinished.simps finished.simps)
    next
      case False
      with g obtain acc cxt where "ready_loop env ?sched empty_ready (ready_context ?fin) s1 = Some (Inr (acc, cxt, s'))"
        "expanded = ra_expanded acc" "moved = ra_moved acc"
        by (auto simp: get_ready_tis_def simp del: unfinished.simps finished.simps elim!: bind_run_InrE split: prod.split_asm)
      with ready_loop_unmapped [OF this(1) assms(2)] show ?thesis by (simp add: empty_ready_def)
    qed
    moreover from this have "follow moved = Stored" by (auto simp: follow_def)
    ultimately show ?thesis using i False by (simp del: unfinished.simps)
  qed
  ultimately show ?thesis using x by blast
qed

lemma any_met_evolves: "any_dependencies_met env tis cxt s = Inr (b, cxt', s') \<Longrightarrow> evolves s s'"
proof (induction env tis cxt s rule: any_dependencies_met.induct)
  case (3 env k tis cxt s)
  from "3.prems" obtain met cxt1 s1 where
    d: "are_dependencies_met (re_dep env) (dag_op (re_dag env) (fst (snd k))) k cxt s = Inr (met, cxt1, s1)"
    and r: "(if met then Inr (True, cxt1, s1) else any_dependencies_met env tis cxt1 s1) = Inr (b, cxt', s')"
    by (auto split: prod.split_asm)
  note e = settles_evolves [OF settles_dependencies [OF d]]
  show ?case
  proof (cases met)
    case False
    with r have "any_dependencies_met env tis cxt1 s1 = Inr (b, cxt', s')" by simp
    from "3.IH" [OF d refl refl False this] e show ?thesis by (rule evolves_trans [rotated])
  qed (use r e in simp)
qed simp_all

lemma find_runnable_spec:
  assumes "find_runnable env info s = Inr (left, runnable, s')"
  shows "evolves s s' \<and> (left = sd_unfinished_tis info \<or> left = filter (\<lambda>ti. unfinished (obj_state s' ti)) (sd_unfinished_tis info)) \<and>
    (should_schedule (re_dag env) left s' \<and> \<not> runnable \<longrightarrow> sd_schedulable_tis info = []) \<and>
    (sd_unfinished_tis info = [] \<longrightarrow> s' = s)"
proof -
  have "should_schedule (re_dag env) [] t = False" for t by (simp add: should_schedule_def)
  with assms show ?thesis
    by (auto simp: find_runnable_def are_premature_tis_def Let_def simp del: unfinished.simps bind_err_Inr_iff
        elim!: bind_err_InrE split: if_split_asm prod.split_asm dest: any_met_evolves)
qed

lemma run_rows_states:
  assumes "distinct (map ti_primary (db_tis s))" "ti \<in> set (db_tis s)"
  shows "current_state (ti_primary ti) s = ti_state ti" "find_ti s (ti_primary ti) = Some ti"
proof -
  have "distinct (map ti_primary xs) \<Longrightarrow> ti \<in> set xs \<Longrightarrow> find (\<lambda>x. ti_primary x = ti_primary ti) xs = Some ti" for xs
    by (induction xs) auto
  with assms show "find_ti s (ti_primary ti) = Some ti" by (simp add: find_ti_def)
  then show "current_state (ti_primary ti) s = ti_state ti" by (simp add: current_state_def)
qed

text \<open>
  What an update of a run works on: the keys of the run's task instances whose task the DAG has, and
  later tables \<open>s2\<close> that have the same task instances.
\<close>

definition run_view :: "dag \<Rightarrow> id_str \<Rightarrow> id_str \<Rightarrow> db \<Rightarrow> ti_primary list \<Rightarrow> db \<Rightarrow> bool" where
  "run_view d dag_id run_id s ks s2 \<longleftrightarrow>
     set ks = {k \<in> ti_primary ` set (db_tis s). fst k = dag_id \<and> fst (snd (snd k)) = run_id \<and> has_task d (fst (snd k))} \<and>
     map ti_primary (db_tis s2) = map ti_primary (db_tis s) \<and> distinct (map ti_primary (db_tis s))"

lemma run_view_row:
  assumes "run_view d dag_id run_id s ks s2" "ti \<in> set (run_rows d dag_id run_id s2)"
  shows "ti_primary ti \<in> set ks" "current_state (ti_primary ti) s2 = ti_state ti" "find_ti s2 (ti_primary ti) = Some ti"
proof -
  from assms(2) have ti: "ti \<in> set (db_tis s2)" "ti_dag_id ti = dag_id" "ti_run_id ti = run_id" "has_task d (ti_task_id ti)"
    by (auto simp: run_rows_def)
  have "ti_primary ti \<in> set (map ti_primary (db_tis s2))" using ti(1) by simp
  then have "ti_primary ti \<in> ti_primary ` set (db_tis s)" using assms(1) unfolding run_view_def by (metis list.set_map)
  with assms(1) ti(2-4) show "ti_primary ti \<in> set ks" by (simp add: run_view_def ti_primary_def)
  have "distinct (map ti_primary (db_tis s2))" using assms(1) by (simp add: run_view_def)
  from run_rows_states [OF this ti(1)]
  show "current_state (ti_primary ti) s2 = ti_state ti" "find_ti s2 (ti_primary ti) = Some ti" .
qed

lemma run_view_key:
  assumes "run_view d dag_id run_id s ks s2" "k \<in> set ks"
  shows "\<exists>ti \<in> set (run_rows d dag_id run_id s2). ti_primary ti = k \<and> find_ti s2 k = Some ti"
proof -
  have "k \<in> set (map ti_primary (db_tis s2))" using assms by (simp add: run_view_def)
  then obtain ti where ti: "ti \<in> set (db_tis s2)" "ti_primary ti = k" by auto
  then have "ti \<in> set (run_rows d dag_id run_id s2)" using assms by (auto simp: run_view_def run_rows_def ti_primary_def)
  with run_view_row(3) [OF assms(1) this] ti(2) show ?thesis by blast
qed

lemma run_view_leaves:
  assumes v: "run_view d dag_id run_id s ks s2" and l: "tis_for_dagrun_state d (map Stored ks) s2 = Inr leaves"
  shows "set (map (obj_state s2) leaves) = ti_state ` {ti \<in> set (run_rows d dag_id run_id s2). decides_run d ti}"
proof -
  let ?rows = "set (run_rows d dag_id run_id s2)"
  have "\<forall>k \<in> set ks. find_ti s2 k \<noteq> None" using run_view_key [OF v] by fastforce
  from tis_for_dagrun_state_spec [OF l this] obtain ls where
    ls: "leaves = map Stored ls" "set ls = {k \<in> set ks. \<exists>ti. find_ti s2 k = Some ti \<and> decides_run d ti}" by blast
  have "set ls = ti_primary ` {ti \<in> ?rows. decides_run d ti}"
  proof (intro equalityI subsetI)
    fix k assume "k \<in> set ls"
    then obtain ti where ti: "k \<in> set ks" "find_ti s2 k = Some ti" "decides_run d ti" using ls(2) by blast
    from run_view_key [OF v ti(1)] ti(2) have "ti \<in> ?rows" "ti_primary ti = k" by auto
    with ti(3) show "k \<in> ti_primary ` {ti \<in> ?rows. decides_run d ti}" by blast
  next
    fix k assume "k \<in> ti_primary ` {ti \<in> ?rows. decides_run d ti}"
    then obtain ti where "k = ti_primary ti" "ti \<in> ?rows" "decides_run d ti" by blast
    with run_view_row [OF v] ls(2) show "k \<in> set ls" by blast
  qed
  moreover have "set (map (obj_state s2) leaves) = (\<lambda>k. current_state k s2) ` set ls"
    by (simp add: ls(1) obj_state_def image_image)
  ultimately show ?thesis using run_view_row(2) [OF v] by (simp add: image_image cong: image_cong_simp)
qed

text \<open>A run that is updated: what was looked at (\<open>ks\<close>, unchanged until \<open>sx\<close>), what was left, the verdict.\<close>

lemma update_state_steps:
  assumes "update_state env execute_callbacks dag_id run_id s = Some (Inr (ready, cb, s'))"
    "unmapped_dag (re_dag env)" "distinct (map ti_primary (db_tis s))"
  shows "\<exists>ks sx s2 todo left runnable leaves dr verdict.
    run_view (re_dag env) dag_id run_id s ks s2 \<and> db_tis s' = db_tis s2 \<and>
    todo = map Stored (filter (\<lambda>k. unfinished (current_state k sx)) ks) \<and>
    (\<forall>k \<in> set ks. current_state k sx = current_state k s) \<and> evolves sx s2 \<and> (todo = [] \<longrightarrow> s2 = sx) \<and>
    (left = todo \<or> left = filter (\<lambda>ti. unfinished (obj_state s2 ti)) todo) \<and>
    (should_schedule (re_dag env) left s2 \<and> \<not> runnable \<longrightarrow> ready = []) \<and>
    tis_for_dagrun_state (re_dag env) (map Stored ks) s2 = Inr leaves \<and>
    verdict = run_verdict (left \<noteq> []) (map (obj_state s2) leaves) (should_schedule (re_dag env) left s2 \<and> \<not> runnable) \<and>
    find_dr s' dag_id run_id = Some (set_dr_state (de_now (re_dep env)) (verdict_state verdict) dr)"
proof -
  let ?d = "re_dag env" and ?now = "de_now (re_dep env)"
  from assms(1) obtain dr where dr: "find_dr s dag_id run_id = Some dr"
    by (auto simp: update_state_def Let_def split: option.split_asm)
  define s0 where "s0 = update_dr dag_id run_id (\<lambda>r. r\<lparr>dr_last_scheduling_decision := Some ?now\<rparr>) s"
  from assms(1) dr obtain info s1 left runnable s2 leaves where
    i: "task_instance_scheduling_decisions env dr s0 = Some (Inr (info, s1))" and
    f: "find_runnable env info s1 = Inr (left, runnable, s2)" and
    l: "tis_for_dagrun_state ?d (sd_tis info) s2 = Inr leaves" and
    r: "ready = sd_schedulable_tis info"
      "s' = update_dr dag_id run_id (set_dr_state ?now (verdict_state (run_verdict (left \<noteq> []) (map (obj_state s2) leaves)
            (should_schedule ?d left s2 \<and> \<not> runnable)))) s2"
    by (auto simp: update_state_def Let_def simp flip: s0_def elim!: bind_run_InrE split: prod.split_asm)
  note run = find_dr_Some [OF dr]
  from decisions_unmapped [OF i assms(2)] obtain ks sx where
    ks: "set ks = {k \<in> ti_primary ` set (db_tis s0). fst k = dag_id \<and> fst (snd (snd k)) = run_id \<and> has_task ?d (fst (snd k))}"
    and same: "\<forall>k \<in> set ks. current_state k sx = current_state k s0" and e1: "evolves sx s1"
    and sx: "map ti_primary (db_tis sx) = map ti_primary (db_tis s0)" "db_drs sx = db_drs s0"
    and info: "sd_tis info = map Stored ks" "sd_unfinished_tis info = map Stored (filter (\<lambda>k. unfinished (current_state k sx)) ks)"
      "sd_unfinished_tis info = [] \<longrightarrow> s1 = sx"
    unfolding run [THEN conjunct1] run [THEN conjunct2] by (elim exE conjE) (rule that; assumption)
  note fr = find_runnable_spec [OF f]
  have e2: "evolves sx s2" using e1 fr by (blast intro: evolves_trans)
  have view: "run_view ?d dag_id run_id s ks s2"
    using e2 sx(1) ks assms(3) by (simp add: run_view_def evolves_def s0_def)
  have "find_dr s2 dag_id run_id = find_dr s0 dag_id run_id" using e2 sx(2) by (simp add: find_dr_def evolves_def)
  then have find: "find_dr s' dag_id run_id = Some (set_dr_state ?now (verdict_state (run_verdict (left \<noteq> []) (map (obj_state s2) leaves)
            (should_schedule ?d left s2 \<and> \<not> runnable))) (dr\<lparr>dr_last_scheduling_decision := Some ?now\<rparr>))"
    using dr by (simp add: r(2) find_dr_update_dr s0_def)
  have same': "\<forall>k \<in> set ks. current_state k sx = current_state k s" using same by (simp add: current_state_def s0_def)
  have idle: "sd_unfinished_tis info = [] \<longrightarrow> s2 = sx" using fr info(3) by blast
  have tis: "db_tis s' = db_tis s2" by (simp add: r(2))
  show ?thesis unfolding r(1)
    by (rule exI)+ (rule conjI, rule view, rule conjI, rule tis, rule conjI, rule info(2), rule conjI, rule same', rule conjI, rule e2,
      rule conjI, rule idle, rule conjI, rule fr [THEN conjunct2, THEN conjunct1], rule conjI,
      rule fr [THEN conjunct2, THEN conjunct2, THEN conjunct1], rule conjI, rule l [unfolded info(1)], rule conjI, rule refl, rule find)
qed

lemma verdict_success: "verdict_state (run_verdict left states stuck) = DR_SUCCESS \<Longrightarrow> \<not> left \<and> (\<forall>x \<in> set states. success_states x)"
  by (auto simp: run_verdict_def list_all_iff simp del: success_states.simps split: if_split_asm)

lemma verdict_failed: "verdict_state (run_verdict left states stuck) = DR_FAILED \<Longrightarrow>
    \<not> left \<and> (\<exists>x \<in> set states. failed_states x) \<or> stuck"
  by (auto simp: run_verdict_def list_ex_iff simp del: failed_states.simps split: if_split_asm)

lemma verdict_decided: "\<forall>x \<in> set states. failed_states x \<or> success_states x \<Longrightarrow>
    verdict_state (run_verdict False states stuck) \<noteq> DR_RUNNING"
  by (auto simp: run_verdict_def list_ex_iff list_all_iff simp del: failed_states.simps success_states.simps)

lemma run_view_left:
  assumes v: "run_view d dag_id run_id s ks s2" and e: "evolves sx s2"
    and left: "left = map Stored (filter (\<lambda>k. unfinished (current_state k sx)) ks) \<or>
      left = filter (\<lambda>ti. unfinished (obj_state s2 ti)) (map Stored (filter (\<lambda>k. unfinished (current_state k sx)) ks))"
    and ti: "ti \<in> set (run_rows d dag_id run_id s2)" "unfinished (ti_state ti)"
  shows "Stored (ti_primary ti) \<in> set left"
proof -
  note row = run_view_row [OF v ti(1)]
  have "\<not> settled_state (ti_state ti)" using ti(2) by (auto simp: settled_state_def)
  with e row ti(2) have "unfinished (current_state (ti_primary ti) sx)" unfolding evolves_def by metis
  moreover have "unfinished (obj_state s2 (Stored (ti_primary ti)))" using row ti(2) by (simp add: obj_state_def)
  ultimately show ?thesis using left row(1) by (elim disjE) (simp_all del: unfinished.simps)
qed

lemma run_view_finished:
  assumes v: "run_view d dag_id run_id s ks s2" and fin: "\<forall>ti \<in> set (run_rows d dag_id run_id s). finished (ti_state ti)"
    and k: "k \<in> set ks"
  shows "finished (current_state k s)"
proof -
  have "run_view d dag_id run_id s ks s" using v by (simp add: run_view_def)
  from run_view_key [OF this k] run_view_row(2) [OF this] fin show ?thesis by metis
qed



end
