(* ===== verification/Run_Integrity.thy ===== *)
theory Run_Integrity
  imports Run_Laws
begin

text \<open>
  Keeping the task instances of a run in step with its DAG (\<open>verify_integrity\<close> of \<open>models/dagrun.py\<close>)
  and moving ready task instances on (\<open>schedule_tis\<close>). Another scheduler may insert the same rows at
  the same time; the code then rolls back, which is not modelled.
\<close>

subsection \<open>Removed and restored task instances\<close>

text \<open>Whether a task instance of a task of the DAG does not belong to the mapping of the task.\<close>

definition misplaced :: "dag \<Rightarrow> operator \<Rightarrow> id_str \<Rightarrow> int \<Rightarrow> db \<Rightarrow> bool result" where
  "misplaced d op run_id map_index s =
     (case get_parse_time_mapped_ti_count op of
        Inr num_mapped_tis \<Rightarrow> Inr (num_mapped_tis \<le> map_index \<or> map_index < 0)
      | Inl NotMapped \<Rightarrow> Inr False
      | Inl (NotFullyPopulated _) \<Rightarrow>
          (case get_mapped_ti_count (d_dag_id d) op run_id s of
             Inr total_length \<Rightarrow> Inr (total_length \<le> map_index)
           | Inl (NotFullyPopulated _) \<Rightarrow> Inr (0 \<le> map_index)
           | Inl e \<Rightarrow> Inl e)
      | Inl e \<Rightarrow> Inl e)"

text \<open>One turn of the loop on a row that went through the hook; a restored row has no state.\<close>

definition check_row :: "dag \<Rightarrow> dag_run \<Rightarrow> db \<Rightarrow> task_instance \<Rightarrow> task_instance result" where
  "check_row d dr s ti =
     (case get_task d (ti_task_id ti) of
        Inl _ \<Rightarrow>
          Inr (if ti_state ti \<noteq> Some REMOVED \<and> dr_state dr \<noteq> DR_RUNNING \<and> \<not> d_partial d
               then set_ti_state (Some REMOVED) ti else ti)
      | Inr op \<Rightarrow>
          bind_err (misplaced d op (dr_run_id dr) (ti_map_index ti) s) (\<lambda>wrong.
            let ti' = (if ti_state ti = Some REMOVED then set_ti_state None ti else ti) in
            Inr (if wrong then set_ti_state (Some REMOVED) ti' else ti')))"

fun check_for_removed_or_restored_tasks :: "(task_instance \<Rightarrow> task_instance) \<Rightarrow> dag \<Rightarrow> dag_run \<Rightarrow> ti_primary list \<Rightarrow> db \<Rightarrow>
    (id_str list \<times> db) result" where
  "check_for_removed_or_restored_tasks hook d dr [] s = Inr ([], s)"
| "check_for_removed_or_restored_tasks hook d dr (k # ks) s =
     (case find_ti s k of
        None \<Rightarrow> Inl (KeyError ''task instance'')
      | Some ti \<Rightarrow>
          bind_err (check_row d dr s (hook ti)) (\<lambda>ti'.
          bind_err (check_for_removed_or_restored_tasks hook d dr ks (update_ti k (\<lambda>_. ti') s)) (\<lambda>(task_ids, s').
            Inr (set_add task_ids (ti_task_id ti'), s'))))"

subsection \<open>Missing task instances\<close>

definition is_backfill :: "dag_run \<Rightarrow> bool" where
  "is_backfill dr \<longleftrightarrow> dr_run_type dr = BACKFILL_JOB"

definition task_filter :: "dag_run \<Rightarrow> id_str list \<Rightarrow> operator \<Rightarrow> bool" where
  "task_filter dr task_ids task \<longleftrightarrow> op_task_id task \<notin> set task_ids \<and>
     (is_backfill dr \<or>
      (case op_start_date task of None \<Rightarrow> True | Some t \<Rightarrow> t \<le> dr_execution_date dr) \<and>
      (case op_end_date task of None \<Rightarrow> True | Some t \<Rightarrow> dr_execution_date dr \<le> t))"

definition map_indexes_to_create :: "dag \<Rightarrow> id_str \<Rightarrow> db \<Rightarrow> operator \<Rightarrow> int list result" where
  "map_indexes_to_create d run_id s task =
     (case get_mapped_ti_count (d_dag_id d) task run_id s of
        Inl NotMapped \<Rightarrow> Inr [-1]
      | Inl (NotFullyPopulated _) \<Rightarrow> Inr [-1]
      | Inl e \<Rightarrow> Inl e
      | Inr n \<Rightarrow> Inr (if n \<noteq> 0 then int_range 0 n else [-1]))"

definition create_tasks :: "(task_instance \<Rightarrow> task_instance) \<Rightarrow> dag \<Rightarrow> id_str \<Rightarrow> db \<Rightarrow> operator list \<Rightarrow>
    task_instance list result" where
  "create_tasks hook d run_id s tasks =
     bind_err (map_err (\<lambda>task.
         bind_err (map_indexes_to_create d run_id s task) (\<lambda>indexes.
           map_err (\<lambda>i. create_ti hook d run_id task i None) indexes)) tasks)
       (\<lambda>tis. Inr (concat tis))"

definition verify_integrity :: "(task_instance \<Rightarrow> task_instance) \<Rightarrow> dag \<Rightarrow> dag_run \<Rightarrow> db \<Rightarrow> db result" where
  "verify_integrity hook d dr s =
     bind_err (check_for_removed_or_restored_tasks hook d dr
         (map ti_primary (get_task_instances d dr (\<lambda>_. True) s)) s) (\<lambda>(task_ids, s1).
     bind_err (create_tasks hook d (dr_run_id dr) s1 (filter (task_filter dr task_ids) (dag_tasks d))) (\<lambda>tis.
       Inr (s1\<lparr>db_tis := db_tis s1 @ tis\<rparr>)))"

subsection \<open>Moving ready task instances on\<close>

text \<open>\<open>chunks\<close> of \<open>utils/helpers.py\<close>.\<close>

function chunk_loop :: "'a list \<Rightarrow> nat \<Rightarrow> 'a list list" where
  "chunk_loop items n = (if n = 0 \<or> items = [] then [] else take n items # chunk_loop (drop n items) n)"
  by pat_completeness auto
termination by (relation "measure (\<lambda>(items, n). length items)") auto

declare chunk_loop.simps [simp del]

definition chunks :: "'a list \<Rightarrow> int \<Rightarrow> 'a list list result" where
  "chunks items chunk_size =
     (if chunk_size \<le> 0 then Inl (ValueError ''Chunk size must be a positive integer'')
      else Inr (chunk_loop items (nat chunk_size)))"

text \<open>A task that does nothing and calls nothing back is not executed.\<close>

definition is_dummy :: "operator \<Rightarrow> bool" where
  "is_dummy task \<longleftrightarrow> op_inherits_from_empty_operator task \<and> \<not> op_on_execute_callback task \<and>
     \<not> op_on_success_callback task \<and> \<not> op_has_outlets task"

definition in_chunk :: "dag_run \<Rightarrow> (id_str \<times> int) list \<Rightarrow> task_instance \<Rightarrow> bool" where
  "in_chunk dr ids ti \<longleftrightarrow> ti_dag_id ti = dr_dag_id dr \<and> ti_run_id ti = dr_run_id dr \<and>
     (ti_task_id ti, ti_map_index ti) \<in> set ids"

text \<open>\<open>update(TI).where(...).values(...)\<close> with its row count.\<close>

definition update_rows :: "(task_instance \<Rightarrow> bool) \<Rightarrow> (task_instance \<Rightarrow> task_instance) \<Rightarrow> db \<Rightarrow> int \<times> db" where
  "update_rows P f s =
     (count_where P (db_tis s), s\<lparr>db_tis := map (\<lambda>ti. if P ti then f ti else ti) (db_tis s)\<rparr>)"

fun update_chunks :: "dag_run \<Rightarrow> (task_instance \<Rightarrow> task_instance) \<Rightarrow> (id_str \<times> int) list list \<Rightarrow> db \<Rightarrow> int \<times> db" where
  "update_chunks dr f [] s = (0, s)"
| "update_chunks dr f (c # cs) s =
     (let (n, s1) = update_rows (in_chunk dr c) f s; (m, s2) = update_chunks dr f cs s1 in (n + m, s2))"

definition dummy_row :: "time \<Rightarrow> task_instance \<Rightarrow> task_instance" where
  "dummy_row now ti = ti\<lparr>ti_state := Some SUCCESS, ti_start_date := Some now, ti_end_date := Some now,
     ti_duration := Some 0\<rparr>"

text \<open>\<open>max_tis_per_query\<close> of 0 (or none given) means one query.\<close>

definition update_in_chunks :: "dag_run \<Rightarrow> (task_instance \<Rightarrow> task_instance) \<Rightarrow> int \<Rightarrow> (id_str \<times> int) list \<Rightarrow> db \<Rightarrow>
    (int \<times> db) result" where
  "update_in_chunks dr f max_tis_per_query ids s =
     (if ids = [] then Inr (0, s)
      else bind_err (chunks ids (if max_tis_per_query = 0 then int (length ids) else max_tis_per_query))
        (\<lambda>cs. Inr (update_chunks dr f cs s)))"

definition ids_of :: "dag \<Rightarrow> bool \<Rightarrow> ti_primary list \<Rightarrow> (id_str \<times> int) list" where
  "ids_of d dummy tis =
     map (\<lambda>(dag_id, t, r, i). (t, i)) (filter (\<lambda>(dag_id, t, r, i). is_dummy (dag_op d t) = dummy) tis)"

definition schedule_tis :: "time \<Rightarrow> dag \<Rightarrow> dag_run \<Rightarrow> int \<Rightarrow> ti_primary list \<Rightarrow> db \<Rightarrow> (int \<times> db) result" where
  "schedule_tis now d dr max_tis_per_query schedulable_tis s =
     bind_err (update_in_chunks dr (set_ti_state (Some SCHEDULED)) max_tis_per_query (ids_of d False schedulable_tis) s)
       (\<lambda>(n, s1).
     bind_err (update_in_chunks dr (dummy_row now) max_tis_per_query (ids_of d True schedulable_tis) s1)
       (\<lambda>(m, s2). Inr (n + m, s2)))"

subsection \<open>What moves on\<close>

lemma concat_chunk_loop: "n \<noteq> 0 \<Longrightarrow> concat (chunk_loop items n) = items"
  by (induction items n rule: chunk_loop.induct) (subst chunk_loop.simps, simp)

lemma in_chunk_keep:
  "in_chunk dr c (set_ti_state st ti) = in_chunk dr c ti" "in_chunk dr c (dummy_row now ti) = in_chunk dr c ti"
  by (simp_all add: in_chunk_def set_ti_state_def dummy_row_def)

lemma in_chunk_append: "in_chunk dr (c @ c') ti \<longleftrightarrow> in_chunk dr c ti \<or> in_chunk dr c' ti"
  by (auto simp: in_chunk_def)

lemma update_chunks_spec:
  assumes "\<And>c ti. in_chunk dr c (f ti) = in_chunk dr c ti" "\<And>ti. f (f ti) = f ti"
  shows "snd (update_chunks dr f cs s) =
      s\<lparr>db_tis := map (\<lambda>ti. if in_chunk dr (concat cs) ti then f ti else ti) (db_tis s)\<rparr>"
    and "distinct (concat cs) \<Longrightarrow> fst (update_chunks dr f cs s) = count_where (in_chunk dr (concat cs)) (db_tis s)"
proof (induction cs arbitrary: s)
  case Nil
  {
    case 1
    then show ?case by (simp add: in_chunk_def)
  next
    case 2
    then show ?case by (simp add: in_chunk_def count_where_def)
  }
next
  case (Cons c cs)
  {
    case 1
    let ?s1 = "s\<lparr>db_tis := map (\<lambda>ti. if in_chunk dr c ti then f ti else ti) (db_tis s)\<rparr>"
    have "snd (update_chunks dr f (c # cs) s) = snd (update_chunks dr f cs ?s1)"
      by (simp add: update_rows_def case_prod_beta' Let_def)
    then show ?case unfolding Cons(1) by (auto simp: in_chunk_append assms)
  next
    case 2
    let ?s1 = "s\<lparr>db_tis := map (\<lambda>ti. if in_chunk dr c ti then f ti else ti) (db_tis s)\<rparr>"
    from 2 have d: "distinct (concat cs)" "set c \<inter> set (concat cs) = {}" by auto
    have "fst (update_chunks dr f (c # cs) s) = count_where (in_chunk dr c) (db_tis s) + fst (update_chunks dr f cs ?s1)"
      by (simp add: update_rows_def case_prod_beta' Let_def)
    also have "fst (update_chunks dr f cs ?s1) = count_where (in_chunk dr (concat cs)) (db_tis ?s1)"
      by (rule Cons(2) [OF d(1)])
    also have "\<dots> = count_where (in_chunk dr (concat cs)) (db_tis s)"
      by (simp add: count_where_def filter_map comp_def if_distrib [of "in_chunk dr (concat cs)"] assms cong: if_cong)
    also have "count_where (in_chunk dr c) (db_tis s) + count_where (in_chunk dr (concat cs)) (db_tis s) =
        count_where (in_chunk dr (concat (c # cs))) (db_tis s)"
    proof -
      have "\<not> (in_chunk dr c ti \<and> in_chunk dr (concat cs) ti)" for ti using d(2) by (auto simp: in_chunk_def)
      then have "count_where (in_chunk dr c) (db_tis s) + count_where (in_chunk dr (concat cs)) (db_tis s) =
          count_where (\<lambda>ti. in_chunk dr c ti \<or> in_chunk dr (concat cs) ti) (db_tis s)"
        by (intro count_where_disj) blast
      also have "\<dots> = count_where (in_chunk dr (concat (c # cs))) (db_tis s)"
        by (rule count_where_cong) (simp add: in_chunk_append)
      finally show ?thesis .
    qed
    finally show ?case .
  }
qed

lemma update_in_chunks_spec:
  assumes "update_in_chunks dr f mx ids s = Inr (n, s')" "distinct ids"
    "\<And>c ti. in_chunk dr c (f ti) = in_chunk dr c ti" "\<And>ti. f (f ti) = f ti"
  shows "n = count_where (in_chunk dr ids) (db_tis s) \<and>
    s' = s\<lparr>db_tis := map (\<lambda>ti. if in_chunk dr ids ti then f ti else ti) (db_tis s)\<rparr>"
proof (cases "ids = []")
  case True
  with assms(1) show ?thesis by (simp add: update_in_chunks_def in_chunk_def count_where_def)
next
  case False
  with assms(1) obtain cs where cs: "concat cs = ids" "(n, s') = update_chunks dr f cs s"
  proof -
    let ?size = "if mx = 0 then int (length ids) else mx"
    from assms(1) False have size: "0 < ?size" "(n, s') = update_chunks dr f (chunk_loop ids (nat ?size)) s"
      by (auto simp: update_in_chunks_def chunks_def split: if_split_asm)
    then show thesis using that [of "chunk_loop ids (nat ?size)"] concat_chunk_loop [of "nat ?size" ids] by simp
  qed
  from update_chunks_spec [where f = f and dr = dr and cs = cs and s = s, OF assms(3,4)] cs assms(2) show ?thesis
    by (metis fst_conv snd_conv)
qed

text \<open>
  \<open>schedule_tis\<close> moves exactly the given task instances of a run: to SCHEDULED, or straight to
  SUCCESS when their task does nothing; it counts them, and touches no other row, however the query
  is split into chunks.
\<close>

theorem schedule_tis_exact:
  assumes "schedule_tis now d dr mx ks s = Inr (n, s')" "distinct ks"
    "\<forall>k \<in> set ks. fst k = dr_dag_id dr \<and> fst (snd (snd k)) = dr_run_id dr"
  shows "n = count_where (\<lambda>ti. ti_primary ti \<in> set ks) (db_tis s) \<and>
    s' = s\<lparr>db_tis := map (\<lambda>ti. if ti_primary ti \<notin> set ks then ti
       else if is_dummy (dag_op d (ti_task_id ti)) then dummy_row now ti
       else set_ti_state (Some SCHEDULED) ti) (db_tis s)\<rparr>"
proof -
  have dist: "distinct (ids_of d b ks)" for b
  proof -
    have "inj_on (\<lambda>(dag_id, t, r, i). (t, i)) (set ks)" using assms(3) by (intro inj_onI) (auto, metis fst_conv snd_conv, metis fst_conv snd_conv)
    then show ?thesis using assms(2)
      by (simp add: ids_of_def distinct_map inj_on_subset [of _ "set ks"])
  qed
  have mem: "in_chunk dr (ids_of d b ks) ti \<longleftrightarrow> ti_primary ti \<in> set ks \<and> is_dummy (dag_op d (ti_task_id ti)) = b" for b ti
  proof -
    have "(ti_task_id ti, ti_map_index ti) \<in> set (ids_of d b ks) \<longleftrightarrow>
        (dr_dag_id dr, ti_task_id ti, dr_run_id dr, ti_map_index ti) \<in> set ks \<and> is_dummy (dag_op d (ti_task_id ti)) = b"
      using assms(3) by (force simp: ids_of_def)
    then show ?thesis using assms(3) by (auto simp: in_chunk_def ti_primary_def)
  qed
  from assms(1) obtain n1 s1 n2 where
    a: "update_in_chunks dr (set_ti_state (Some SCHEDULED)) mx (ids_of d False ks) s = Inr (n1, s1)" and
    b: "update_in_chunks dr (dummy_row now) mx (ids_of d True ks) s1 = Inr (n2, s')" and n: "n = n1 + n2"
    by (auto simp: schedule_tis_def simp del: bind_err_Inr_iff elim!: bind_err_InrE split: prod.split_asm)
  have "set_ti_state st (set_ti_state st ti) = set_ti_state st ti" "dummy_row now (dummy_row now ti) = dummy_row now ti" for st ti
    by (simp_all add: set_ti_state_def dummy_row_def)
  note a' = update_in_chunks_spec [OF a dist in_chunk_keep(1) this(1)]
    and b' = update_in_chunks_spec [OF b dist in_chunk_keep(2) this(2)]
  have keep: "ti_primary (set_ti_state st ti) = ti_primary ti" "ti_task_id (set_ti_state st ti) = ti_task_id ti" for st ti
    by (simp_all add: set_ti_state_def ti_primary_def)
  have "n2 = count_where (in_chunk dr (ids_of d True ks)) (db_tis s)"
    using a' b' by (simp add: count_where_def filter_map comp_def
        if_distrib [of "in_chunk dr (ids_of d True ks)"] in_chunk_keep cong: if_cong)
  then have "n = count_where (\<lambda>ti. ti_primary ti \<in> set ks) (db_tis s)"
    using a' unfolding n mem by (simp add: count_where_disj) (rule count_where_cong, blast)
  moreover have "s' = s\<lparr>db_tis := map (\<lambda>ti. if ti_primary ti \<notin> set ks then ti
       else if is_dummy (dag_op d (ti_task_id ti)) then dummy_row now ti
       else set_ti_state (Some SCHEDULED) ti) (db_tis s)\<rparr>"
    using a' b' by (auto simp: mem keep)
  ultimately show ?thesis by blast
qed

lemma schedule_tis_exact_witness:
  "\<exists>s'. schedule_tis 9 (sample_dag [sample_op ''a'', sample_op ''b'']) (sample_dr ''r'' 1 DR_RUNNING) 1
      [(''d'', ''a'', ''r'', -1), (''d'', ''b'', ''r'', -1)] (sample_db [sample_ti ''a'' None, sample_ti ''b'' None, sample_ti ''c'' None]) =
      Inr (2, s') \<and> map ti_state (db_tis s') = [Some SCHEDULED, Some SCHEDULED, None]"
proof -
  let ?d = "sample_dag [sample_op ''a'', sample_op ''b'']" and ?dr = "sample_dr ''r'' 1 DR_RUNNING"
    and ?ks = "[(''d'', ''a'', ''r'', -1::int), (''d'', ''b'', ''r'', -1)]"
    and ?s = "sample_db [sample_ti ''a'' None, sample_ti ''b'' None, sample_ti ''c'' None]"
  have "case schedule_tis 9 ?d ?dr 1 ?ks ?s of Inl _ \<Rightarrow> False | Inr _ \<Rightarrow> True" by code_simp
  then obtain n s' where r: "schedule_tis 9 ?d ?dr 1 ?ks ?s = Inr (n, s')" by (auto split: sum.splits)
  have h: "distinct ?ks" "\<forall>k \<in> set ?ks. fst k = dr_dag_id ?dr \<and> fst (snd (snd k)) = dr_run_id ?dr"
    by (simp_all add: sample_defs)
  have c: "count_where (\<lambda>ti. ti_primary ti \<in> set ?ks) (db_tis ?s) = 2"
    "map (\<lambda>ti. ti_state (if ti_primary ti \<notin> set ?ks then ti
       else if is_dummy (dag_op ?d (ti_task_id ti)) then dummy_row 9 ti
       else set_ti_state (Some SCHEDULED) ti)) (db_tis ?s) = [Some SCHEDULED, Some SCHEDULED, None]" by code_simp+
  let ?f = "\<lambda>ti. if ti_primary ti \<notin> set ?ks then ti
     else if is_dummy (dag_op ?d (ti_task_id ti)) then dummy_row 9 ti else set_ti_state (Some SCHEDULED) ti"
  have states: "map ti_state (db_tis (s\<lparr>db_tis := map f xs\<rparr>)) = map (\<lambda>ti. ti_state (f ti)) xs" for s :: db and f xs
    by (simp add: comp_def)
  from schedule_tis_exact [OF r h] have n: "n = 2" and s': "s' = ?s\<lparr>db_tis := map ?f (db_tis ?s)\<rparr>"
    unfolding c(1) by (rule conjunct1, rule conjunct2)
  have "map ti_state (db_tis s') = map (\<lambda>ti. ti_state (?f ti)) (db_tis ?s)"
    unfolding s' by (rule states)
  then have "map ti_state (db_tis s') = [Some SCHEDULED, Some SCHEDULED, None]" unfolding c(2) .
  moreover have "schedule_tis 9 ?d ?dr 1 ?ks ?s = Inr (2, s')" using r unfolding n .
  ultimately show ?thesis by (intro exI conjI)
qed

subsection \<open>The task instances a run has\<close>

lemma get_task_map_length_nonneg:
  "\<forall>m \<in> set (db_task_maps s). 0 \<le> tm_length m \<Longrightarrow> get_task_map_length dag_id run_id s arg = Some n \<Longrightarrow> 0 \<le> n"
proof (induction arg arbitrary: n)
  case (PlainXComArg t mapped key)
  then show ?case
    by (auto simp: plain_map_length_def find_Some_iff split: if_split_asm)
next
  case (ZipXComArg args fillvalue)
  then obtain ls where ls: "those (map (get_task_map_length dag_id run_id s) args) = Some ls"
    "n = (if fillvalue = None then list_min ls else list_max ls)" by (auto split: option.split_asm)
  have those: "those (map f xs) = Some ys \<Longrightarrow> y \<in> set ys \<Longrightarrow> \<exists>x \<in> set xs. f x = Some y" for f :: "xcom_arg \<Rightarrow> int option" and xs ys y
    by (induction xs arbitrary: ys) (auto split: option.split_asm)
  have all: "0 \<le> x" if "x \<in> set ls" for x using those [OF ls(1) that] ZipXComArg by blast
  have fold: "0 \<le> (x::int) \<Longrightarrow> (\<And>y. y \<in> set xs \<Longrightarrow> 0 \<le> y) \<Longrightarrow> 0 \<le> fold min xs x \<and> 0 \<le> fold max xs x" for x xs
    by (induction xs arbitrary: x) auto
  show ?case using all fold ls(2) by (cases ls) auto
qed auto

lemma prod_list_nonneg: "(\<And>x. x \<in> set xs \<Longrightarrow> 0 \<le> x) \<Longrightarrow> 0 \<le> prod_list (xs :: int list)"
  by (induction xs) auto

lemma total_map_length_nonneg:
  assumes "\<forall>m \<in> set (db_task_maps s). 0 \<le> tm_length m" "get_total_map_length dag_id run_id s i = Inr n"
  shows "0 \<le> n"
proof (cases i)
  case (DictOfListsExpandInput arguments)
  have len: "argument_length dag_id run_id s v = Inr (Some l) \<Longrightarrow> 0 \<le> l" for v l
    by (cases v) (auto dest: get_task_map_length_nonneg [OF assms(1)])
  have in_map: "map_err f xs = Inr ys \<Longrightarrow> y \<in> set ys \<Longrightarrow> \<exists>x \<in> set xs. f x = Inr y" for f :: "string \<times> expand_argument \<Rightarrow> (string \<times> int option) result" and xs ys y
    by (induction xs arbitrary: ys) auto
  have "0 \<le> snd x" if "get_map_lengths dag_id run_id s arguments = Inr ls" "x \<in> set ls" for ls x
  proof -
    from that(1) obtain raw where raw: "map_err (\<lambda>(k, v). bind_err (argument_length dag_id run_id s v) (\<lambda>l. Inr (k, l))) arguments = Inr raw"
      "filter (\<lambda>(k, l). l = None) raw = []" "ls = map (\<lambda>(k, l). (k, the l)) raw"
      by (auto simp: get_map_lengths_def Let_def split: if_split_asm)
    with that(2) obtain k l where kl: "(k, Some l) \<in> set raw" "x = (k, l)"
      by (auto simp: filter_empty_conv)
    from in_map [OF raw(1) kl(1)] obtain v where "argument_length dag_id run_id s v = Inr (Some l)" by auto
    with len kl(2) show ?thesis by simp
  qed
  then show ?thesis using assms(2) DictOfListsExpandInput
    by (auto split: if_split_asm intro!: prod_list_nonneg)
next
  case (ListOfDictsExpandInput e)
  then show ?thesis using assms(2) by (cases e) (auto split: option.split_asm dest: get_task_map_length_nonneg [OF assms(1)])
qed

lemma mapped_ti_count_nonneg:
  assumes "\<forall>m \<in> set (db_task_maps s). 0 \<le> tm_length m" "get_mapped_ti_count dag_id op run_id s = Inr n"
  shows "0 \<le> n"
proof -
  have group: "0 \<le> p" if "group_ti_count dag_id run_id s gs = Inr p" for gs p
  proof -
    from that obtain ns where ns: "map_err (\<lambda>(g, i). get_total_map_length dag_id run_id s i) gs = Inr ns" "p = prod_list ns"
      by (auto simp: group_ti_count_def split: if_split_asm)
    have "\<forall>x \<in> set ns. 0 \<le> x" using ns(1)
      by (induction gs arbitrary: ns) (auto dest: total_map_length_nonneg [OF assms(1)])
    with ns(2) show ?thesis by (auto intro: prod_list_nonneg)
  qed
  have times: "times_parent c p = Inr n \<Longrightarrow> \<exists>m. c = Inr m \<and> (n = m \<or> (\<exists>q. p = Inr q \<and> n = q * m))" for c p
  proof (cases p)
    case (Inl e)
    assume "times_parent c p = Inr n"
    with Inl show ?thesis by (cases e) (auto simp: times_parent_def)
  qed (auto simp: times_parent_def)
  show ?thesis
  proof (cases "op_is_mapped op")
    case False
    with assms(2) group show ?thesis by (simp add: get_mapped_ti_count_def)
  next
    case True
    with assms(2) obtain m where m: "get_total_map_length dag_id run_id s (op_expand_input op) = Inr m"
      "n = m \<or> (\<exists>q. group_ti_count dag_id run_id s (op_mapped_task_groups op) = Inr q \<and> n = q * m)"
      using times [of "get_total_map_length dag_id run_id s (op_expand_input op)"
          "group_ti_count dag_id run_id s (op_mapped_task_groups op)"] True
      by (auto simp: get_mapped_ti_count_def)
    have "0 \<le> m" by (rule total_map_length_nonneg [OF assms(1) m(1)])
    with m(2) group show ?thesis by auto
  qed
qed

lemma check_row_row:
  assumes "check_row d dr s ti = Inr ti'"
  shows "ti_primary ti' = ti_primary ti \<and> (has_task d (ti_task_id ti) \<or> ti_state ti' =
     (if dr_state dr \<noteq> DR_RUNNING \<and> \<not> d_partial d then Some REMOVED else ti_state ti))"
proof -
  have "ti_primary (set_ti_state st x) = ti_primary x" "ti_state (set_ti_state st x) = st" for st x
    by (simp_all add: set_ti_state_def ti_primary_def)
  moreover have "get_task d t = Inr op \<Longrightarrow> has_task d t" for t op
    by (auto simp: get_task_def has_task_def dict_has_iff split: option.split_asm)
  ultimately show ?thesis using assms
    by (auto simp: check_row_def Let_def split: sum.split_asm if_split_asm)
qed

lemma check_loop_spec:
  assumes "keeps_identity hook"
  shows "check_for_removed_or_restored_tasks hook d dr ks s = Inr (task_ids, s') \<Longrightarrow> distinct ks \<Longrightarrow>
    map ti_primary (db_tis s') = map ti_primary (db_tis s) \<and> db_task_maps s' = db_task_maps s \<and>
    set task_ids = (\<lambda>k. fst (snd k)) ` set ks \<and> (\<forall>k. k \<notin> set ks \<longrightarrow> find_ti s' k = find_ti s k) \<and>
    (\<forall>k \<in> set ks. has_task d (fst (snd k)) \<or> current_state k s' =
       (if dr_state dr \<noteq> DR_RUNNING \<and> \<not> d_partial d then Some REMOVED else current_state k s))"
proof (induction ks arbitrary: s task_ids s')
  case (Cons k ks)
  from Cons.prems(1) obtain ti ti' ids where ti: "find_ti s k = Some ti" "check_row d dr s (hook ti) = Inr ti'"
    and l: "check_for_removed_or_restored_tasks hook d dr ks (update_ti k (\<lambda>_. ti') s) = Inr (ids, s')"
    and ids: "task_ids = set_add ids (ti_task_id ti')"
    by (auto simp del: bind_err_Inr_iff elim!: bind_err_InrE split: option.split_asm prod.split_asm)
  have hook: "ti_primary (hook ti) = k" "ti_state (hook ti) = ti_state ti"
    using assms find_ti_Some [OF ti(1)] by (auto simp: keeps_identity_def)
  note row = check_row_row [OF ti(2), unfolded hook]
  then have key: "ti_primary ti' = k" by blast
  have task: "fst (snd k) = ti_task_id ti'" "fst (snd k) = ti_task_id (hook ti)"
    using key hook(1) by (auto simp: ti_primary_def)
  let ?s = "update_ti k (\<lambda>_. ti') s"
  have prim: "map ti_primary (db_tis ?s) = map ti_primary (db_tis s)"
    using key by (simp add: update_ti_def)
  note find = find_replace [OF key]
  from Cons.IH [OF l] Cons.prems(2) have ih: "map ti_primary (db_tis s') = map ti_primary (db_tis ?s)"
    "db_task_maps s' = db_task_maps ?s" "set ids = (\<lambda>k. fst (snd k)) ` set ks" "\<forall>k. k \<notin> set ks \<longrightarrow> find_ti s' k = find_ti ?s k"
    "\<forall>k \<in> set ks. has_task d (fst (snd k)) \<or> current_state k s' =
       (if dr_state dr \<noteq> DR_RUNNING \<and> \<not> d_partial d then Some REMOVED else current_state k ?s)"
    by auto
  have k': "k \<notin> set ks" using Cons.prems(2) by simp
  have "find_ti s' k = Some ti'" using ih(4) [rule_format, OF k'] find [of s k] ti(1) by simp
  then have here: "has_task d (fst (snd k)) \<or> current_state k s' =
      (if dr_state dr \<noteq> DR_RUNNING \<and> \<not> d_partial d then Some REMOVED else current_state k s)"
    using row ti(1) hook(2) task(2) by (auto simp: current_state_def)
  have same: "current_state k'' ?s = current_state k'' s" if "k'' \<in> set ks" for k''
    using that k' find by (auto simp: current_state_def)
  have "\<forall>k'' \<in> set (k # ks). has_task d (fst (snd k'')) \<or> current_state k'' s' =
       (if dr_state dr \<noteq> DR_RUNNING \<and> \<not> d_partial d then Some REMOVED else current_state k'' s)"
  proof
    fix k'' assume "k'' \<in> set (k # ks)"
    then consider "k'' = k" | "k'' \<in> set ks" by auto
    then show "has_task d (fst (snd k'')) \<or> current_state k'' s' =
        (if dr_state dr \<noteq> DR_RUNNING \<and> \<not> d_partial d then Some REMOVED else current_state k'' s)"
      by cases (use here in blast, use ih(5) same in metis)
  qed
  moreover have "set task_ids = (\<lambda>k. fst (snd k)) ` set (k # ks)" using ids ih(3) task(1) by simp
  moreover have "\<forall>k''. k'' \<notin> set (k # ks) \<longrightarrow> find_ti s' k'' = find_ti s k''" using ih(4) find by auto
  moreover have "map ti_primary (db_tis s') = map ti_primary (db_tis s)" "db_task_maps s' = db_task_maps s"
    using ih(1,2) prim by simp_all
  ultimately show ?case by (intro conjI)
qed simp

lemma primary_parts [simp]:
  "fst (ti_primary ti) = ti_dag_id ti" "fst (snd (ti_primary ti)) = ti_task_id ti"
  "fst (snd (snd (ti_primary ti))) = ti_run_id ti" "snd (snd (snd (ti_primary ti))) = ti_map_index ti"
  by (simp_all add: ti_primary_def)

lemma distinct_task_keys:
  "distinct (map op_task_id ops) \<Longrightarrow> \<forall>op \<in> set ops. distinct (f op) \<Longrightarrow>
   distinct (concat (map (\<lambda>op. map (\<lambda>i. (a, op_task_id op, r, i)) (f op)) ops))"
  by (induction ops) (auto simp: distinct_map inj_on_def)

lemma create_tasks_keys:
  assumes "keeps_identity hook"
  shows "create_tasks hook d run_id s ops = Inr tis \<Longrightarrow>
    \<exists>f. map ti_primary tis = concat (map (\<lambda>op. map (\<lambda>i. (d_dag_id d, op_task_id op, run_id, i)) (f op)) ops) \<and>
      (\<forall>op \<in> set ops. map_indexes_to_create d run_id s op = Inr (f op))"
proof (induction ops arbitrary: tis)
  case (Cons op ops)
  from Cons.prems obtain ixs rows tis' where i: "map_indexes_to_create d run_id s op = Inr ixs"
    and r: "map_err (\<lambda>i. create_ti hook d run_id op i None) ixs = Inr rows"
    and t: "create_tasks hook d run_id s ops = Inr tis'" "tis = rows @ tis'"
    by (auto simp: create_tasks_def)
  have rows: "map ti_primary rows = map (\<lambda>i. (d_dag_id d, op_task_id op, run_id, i)) ixs"
    using r by (induction ixs arbitrary: rows) (auto dest!: create_ti_row [OF _ assms])
  from Cons.IH [OF t(1)] obtain f where
    f: "map ti_primary tis' = concat (map (\<lambda>op. map (\<lambda>i. (d_dag_id d, op_task_id op, run_id, i)) (f op)) ops)"
      "\<forall>op \<in> set ops. map_indexes_to_create d run_id s op = Inr (f op)" by blast
  let ?f = "\<lambda>op'. case map_indexes_to_create d run_id s op' of Inl _ \<Rightarrow> [] | Inr ixs \<Rightarrow> ixs"
  have "map (\<lambda>op. map (\<lambda>i. (d_dag_id d, op_task_id op, run_id, i)) (f op)) ops =
      map (\<lambda>op. map (\<lambda>i. (d_dag_id d, op_task_id op, run_id, i)) (?f op)) ops"
    using f(2) by (intro map_cong) auto
  with f i rows t(2) show ?case by (intro exI [of _ ?f]) auto
qed (simp add: create_tasks_def)

lemma indexes_to_create:
  assumes "map_indexes_to_create d run_id s op = Inr ixs" "\<forall>m \<in> set (db_task_maps s). 0 \<le> tm_length m"
  shows "distinct ixs \<and> ixs \<noteq> []"
proof (cases "get_mapped_ti_count (d_dag_id d) op run_id s")
  case (Inr n)
  with mapped_ti_count_nonneg [OF assms(2) Inr] assms(1) show ?thesis
    by (auto simp: map_indexes_to_create_def int_range_def split: if_split_asm)
next
  case (Inl e)
  with assms(1) show ?thesis by (cases e) (auto simp: map_indexes_to_create_def)
qed

definition in_dates :: "dag_run \<Rightarrow> operator \<Rightarrow> bool" where
  "in_dates dr op \<longleftrightarrow> task_filter dr [] op"

text \<open>
  What a successful check did: \<open>ks\<close> are the run's task instances it looked at, \<open>s1\<close> the tables with
  their new states, \<open>ops\<close> the tasks without one, for which it added \<open>tis\<close>.
\<close>

definition integrity_steps :: "dag \<Rightarrow> dag_run \<Rightarrow> db \<Rightarrow> ti_primary list \<Rightarrow> db \<Rightarrow> operator list \<Rightarrow> task_instance list \<Rightarrow> db \<Rightarrow> bool" where
  "integrity_steps d dr s ks s1 ops tis s' \<longleftrightarrow>
     (\<forall>k. k \<in> set ks \<longleftrightarrow> k \<in> ti_primary ` set (db_tis s) \<and> fst k = d_dag_id d \<and> fst (snd (snd k)) = dr_run_id dr \<and>
        (d_partial d \<longrightarrow> has_task d (fst (snd k)))) \<and>
     map ti_primary (db_tis s1) = map ti_primary (db_tis s) \<and> (\<forall>k. k \<notin> set ks \<longrightarrow> find_ti s1 k = find_ti s k) \<and>
     (\<forall>k \<in> set ks. has_task d (fst (snd k)) \<or> current_state k s1 =
        (if dr_state dr \<noteq> DR_RUNNING \<and> \<not> d_partial d then Some REMOVED else current_state k s)) \<and>
     ops = filter (\<lambda>op. in_dates dr op \<and> op_task_id op \<notin> (\<lambda>k. fst (snd k)) ` set ks) (dag_tasks d) \<and>
     (\<exists>f. map ti_primary tis = concat (map (\<lambda>op. map (\<lambda>i. (d_dag_id d, op_task_id op, dr_run_id dr, i)) (f op)) ops) \<and>
        (\<forall>op \<in> set ops. distinct (f op) \<and> f op \<noteq> [])) \<and>
     s' = s1\<lparr>db_tis := db_tis s1 @ tis\<rparr>"

lemma verify_integrity_steps:
  assumes "verify_integrity hook d dr s = Inr s'" "keeps_identity hook" "dr_dag_id dr = d_dag_id d"
    "distinct (map ti_primary (db_tis s))" "\<forall>m \<in> set (db_task_maps s). 0 \<le> tm_length m"
  shows "\<exists>ks s1 ops tis. integrity_steps d dr s ks s1 ops tis s'"
proof -
  define ks where "ks = map ti_primary (get_task_instances d dr (\<lambda>_. True) s)"
  from assms(1) obtain task_ids s1 tis where
    l: "check_for_removed_or_restored_tasks hook d dr ks s = Inr (task_ids, s1)" and
    t: "create_tasks hook d (dr_run_id dr) s1 (filter (task_filter dr task_ids) (dag_tasks d)) = Inr tis" and
    s': "s' = s1\<lparr>db_tis := db_tis s1 @ tis\<rparr>"
    by (auto simp: verify_integrity_def ks_def)
  have "distinct ks" using assms(4) by (simp add: ks_def get_task_instances_def distinct_map_filter)
  note c = check_loop_spec [OF assms(2) l this]
  let ?ops = "filter (task_filter dr task_ids) (dag_tasks d)"
  have ops: "?ops = filter (\<lambda>op. in_dates dr op \<and> op_task_id op \<notin> (\<lambda>k. fst (snd k)) ` set ks) (dag_tasks d)"
    using c by (intro filter_cong) (auto simp: in_dates_def task_filter_def)
  have ks: "\<forall>k. k \<in> set ks \<longleftrightarrow> k \<in> ti_primary ` set (db_tis s) \<and> fst k = d_dag_id d \<and> fst (snd (snd k)) = dr_run_id dr \<and>
      (d_partial d \<longrightarrow> has_task d (fst (snd k)))"
    by (auto simp: ks_def get_task_instances_def assms(3) simp del: split_paired_All split_paired_Ex)
  from create_tasks_keys [OF assms(2) t] obtain f where
    f: "map ti_primary tis = concat (map (\<lambda>op. map (\<lambda>i. (d_dag_id d, op_task_id op, dr_run_id dr, i)) (f op)) ?ops)"
      "\<forall>op \<in> set ?ops. map_indexes_to_create d (dr_run_id dr) s1 op = Inr (f op)" by blast
  have "\<forall>op \<in> set ?ops. distinct (f op) \<and> f op \<noteq> []"
    using indexes_to_create f(2) c assms(5) by fastforce
  with f(1) ks c s' have "integrity_steps d dr s ks s1 ?ops tis s'"
    unfolding integrity_steps_def by (intro conjI ops) blast+
  then show ?thesis by blast
qed

lemma wf_dag_tasks:
  assumes "wf_dag d"
  shows "op \<in> set (dag_tasks d) \<Longrightarrow> dict_get (d_task_dict d) (op_task_id op) = Some op"
    and "op \<in> set (dag_tasks d) \<Longrightarrow> has_task d (op_task_id op)" and "distinct (map op_task_id (dag_tasks d))"
proof -
  show *: "dict_get (d_task_dict d) (op_task_id op) = Some op" if "op \<in> set (dag_tasks d)" for op
    using that assms by (auto simp: dag_tasks_def wf_dag_def list_all_iff dict_keys_def)
  then show "op \<in> set (dag_tasks d) \<Longrightarrow> has_task d (op_task_id op)" by (auto simp: has_task_def dict_has_iff)
  have "map op_task_id (dag_tasks d) = dict_keys (d_task_dict d)"
    using assms by (auto simp: dag_tasks_def dict_keys_def wf_dag_def list_all_iff)
  then show "distinct (map op_task_id (dag_tasks d))" using assms by (simp add: wf_dag_def)
qed

lemma integrity_stepsE:
  assumes "integrity_steps d dr s ks s1 ops tis s'"
  obtains f where "\<And>k. k \<in> set ks \<longleftrightarrow> k \<in> ti_primary ` set (db_tis s) \<and> fst k = d_dag_id d \<and> fst (snd (snd k)) = dr_run_id dr \<and>
        (d_partial d \<longrightarrow> has_task d (fst (snd k)))"
    "map ti_primary (db_tis s1) = map ti_primary (db_tis s)" "\<And>k. k \<notin> set ks \<Longrightarrow> find_ti s1 k = find_ti s k"
    "\<And>k. k \<in> set ks \<Longrightarrow> has_task d (fst (snd k)) \<or> current_state k s1 =
        (if dr_state dr \<noteq> DR_RUNNING \<and> \<not> d_partial d then Some REMOVED else current_state k s)"
    "ops = filter (\<lambda>op. in_dates dr op \<and> op_task_id op \<notin> (\<lambda>k. fst (snd k)) ` set ks) (dag_tasks d)"
    "map ti_primary tis = concat (map (\<lambda>op. map (\<lambda>i. (d_dag_id d, op_task_id op, dr_run_id dr, i)) (f op)) ops)"
    "\<And>op. op \<in> set ops \<Longrightarrow> distinct (f op) \<and> f op \<noteq> []"
    "\<And>k. k \<in> ti_primary ` set tis \<longleftrightarrow> (\<exists>op \<in> set ops. \<exists>i \<in> set (f op). k = (d_dag_id d, op_task_id op, dr_run_id dr, i))"
    "db_tis s' = db_tis s1 @ tis" "map ti_primary (db_tis s') = map ti_primary (db_tis s) @ map ti_primary tis"
proof -
  from assms [unfolded integrity_steps_def] obtain f where
    f: "map ti_primary tis = concat (map (\<lambda>op. map (\<lambda>i. (d_dag_id d, op_task_id op, dr_run_id dr, i)) (f op)) ops)"
      "\<forall>op \<in> set ops. distinct (f op) \<and> f op \<noteq> []" by blast
  have "k \<in> ti_primary ` set tis \<longleftrightarrow> (\<exists>op \<in> set ops. \<exists>i \<in> set (f op). k = (d_dag_id d, op_task_id op, dr_run_id dr, i))" for k
    unfolding set_map [symmetric] f(1) by auto
  moreover have "db_tis s' = db_tis s1 @ tis" "map ti_primary (db_tis s') = map ti_primary (db_tis s) @ map ti_primary tis"
    using assms by (simp_all add: integrity_steps_def)
  ultimately show thesis using assms f(2)
    by (intro that [OF _ _ _ _ _ f(1)]) (simp_all only: integrity_steps_def, blast+)
qed

lemma integrity_present:
  assumes "integrity_steps d dr s ks s1 ops tis s'" "op \<in> set (dag_tasks d)" "in_dates dr op"
  shows "\<exists>ti \<in> set (db_tis s'). is_task_row (d_dag_id d) (op_task_id op) (dr_run_id dr) ti"
proof -
  from assms(1) obtain f where f: "\<And>k. k \<in> set ks \<longleftrightarrow> k \<in> ti_primary ` set (db_tis s) \<and> fst k = d_dag_id d \<and> fst (snd (snd k)) = dr_run_id dr \<and>
        (d_partial d \<longrightarrow> has_task d (fst (snd k)))"
    "ops = filter (\<lambda>op. in_dates dr op \<and> op_task_id op \<notin> (\<lambda>k. fst (snd k)) ` set ks) (dag_tasks d)"
    "\<And>op. op \<in> set ops \<Longrightarrow> distinct (f op) \<and> f op \<noteq> []"
    "\<And>k. k \<in> ti_primary ` set tis \<longleftrightarrow> (\<exists>op \<in> set ops. \<exists>i \<in> set (f op). k = (d_dag_id d, op_task_id op, dr_run_id dr, i))"
    "db_tis s' = db_tis s1 @ tis" "map ti_primary (db_tis s') = map ti_primary (db_tis s) @ map ti_primary tis"
    by (rule integrity_stepsE) blast
  have "\<exists>k \<in> set (map ti_primary (db_tis s')). fst k = d_dag_id d \<and> fst (snd k) = op_task_id op \<and> fst (snd (snd k)) = dr_run_id dr"
  proof (cases "op_task_id op \<in> (\<lambda>k. fst (snd k)) ` set ks")
    case True
    then obtain k where "k \<in> set ks" "fst (snd k) = op_task_id op" by auto
    with f(1) [of k] show ?thesis unfolding f(6) set_append set_map by blast
  next
    case False
    with assms(2,3) have op: "op \<in> set ops" by (simp add: f(2))
    with f(3) obtain i where "i \<in> set (f op)" by (meson ex_in_conv set_empty)
    with op have "(d_dag_id d, op_task_id op, dr_run_id dr, i) \<in> ti_primary ` set tis" unfolding f(4) by blast
    then have "(d_dag_id d, op_task_id op, dr_run_id dr, i) \<in> set (map ti_primary (db_tis s'))" by (simp add: f(5))
    then show ?thesis by (rule bexI [rotated]) simp
  qed
  then obtain k where k: "k \<in> ti_primary ` set (db_tis s')" "fst k = d_dag_id d" "fst (snd k) = op_task_id op"
    "fst (snd (snd k)) = dr_run_id dr" unfolding set_map by blast
  from k(1) obtain ti where "ti \<in> set (db_tis s')" "k = ti_primary ti" by (elim imageE)
  with k(2-4) show ?thesis by (auto simp: is_task_row_def)
qed

lemma integrity_distinct:
  assumes "integrity_steps d dr s ks s1 ops tis s'" "wf_dag d" "distinct (map ti_primary (db_tis s))"
  shows "distinct (map ti_primary (db_tis s'))"
proof -
  from assms(1) obtain f where f: "\<And>k. k \<in> set ks \<longleftrightarrow> k \<in> ti_primary ` set (db_tis s) \<and> fst k = d_dag_id d \<and> fst (snd (snd k)) = dr_run_id dr \<and>
        (d_partial d \<longrightarrow> has_task d (fst (snd k)))"
    "ops = filter (\<lambda>op. in_dates dr op \<and> op_task_id op \<notin> (\<lambda>k. fst (snd k)) ` set ks) (dag_tasks d)"
    "map ti_primary tis = concat (map (\<lambda>op. map (\<lambda>i. (d_dag_id d, op_task_id op, dr_run_id dr, i)) (f op)) ops)"
    "\<And>op. op \<in> set ops \<Longrightarrow> distinct (f op) \<and> f op \<noteq> []"
    "\<And>k. k \<in> ti_primary ` set tis \<longleftrightarrow> (\<exists>op \<in> set ops. \<exists>i \<in> set (f op). k = (d_dag_id d, op_task_id op, dr_run_id dr, i))"
    "map ti_primary (db_tis s') = map ti_primary (db_tis s) @ map ti_primary tis"
    by (rule integrity_stepsE) blast
  have "distinct (map op_task_id ops)" unfolding f(2) by (rule distinct_map_filter [OF wf_dag_tasks(3) [OF assms(2)]])
  then have "distinct (map ti_primary tis)" unfolding f(3) by (rule distinct_task_keys) (use f(4) in blast)
  moreover have "ti_primary ` set (db_tis s) \<inter> ti_primary ` set tis = {}"
  proof (rule equals0I, elim IntE)
    fix k assume k: "k \<in> ti_primary ` set (db_tis s)" "k \<in> ti_primary ` set tis"
    from k(2) obtain op i where op: "op \<in> set ops" "k = (d_dag_id d, op_task_id op, dr_run_id dr, i)"
      unfolding f(5) by (elim bexE)
    then have "has_task d (op_task_id op)" using wf_dag_tasks(2) [OF assms(2)] by (simp add: f(2))
    with k(1) op(2) have "k \<in> set ks" by (simp add: f(1))
    then have "fst (snd k) \<in> (\<lambda>k. fst (snd k)) ` set ks" by (rule imageI)
    with op show False by (simp add: f(2))
  qed
  ultimately show ?thesis using assms(3) by (simp add: f(6))
qed

lemma integrity_removed:
  assumes "integrity_steps d dr s ks s1 ops tis s'" "wf_dag d" "distinct (map ti_primary (db_tis s))"
    "dr_state dr \<noteq> DR_RUNNING" "\<not> d_partial d"
    and ti: "ti \<in> set (db_tis s')" "(ti_dag_id ti, ti_run_id ti) = (d_dag_id d, dr_run_id dr)" "\<not> has_task d (ti_task_id ti)"
  shows "ti_state ti = Some REMOVED"
proof -
  from assms(1) obtain f where f: "\<And>k. k \<in> set ks \<longleftrightarrow> k \<in> ti_primary ` set (db_tis s) \<and> fst k = d_dag_id d \<and> fst (snd (snd k)) = dr_run_id dr \<and>
        (d_partial d \<longrightarrow> has_task d (fst (snd k)))"
    "map ti_primary (db_tis s1) = map ti_primary (db_tis s)"
    "\<And>k. k \<in> set ks \<Longrightarrow> has_task d (fst (snd k)) \<or> current_state k s1 =
        (if dr_state dr \<noteq> DR_RUNNING \<and> \<not> d_partial d then Some REMOVED else current_state k s)"
    "ops = filter (\<lambda>op. in_dates dr op \<and> op_task_id op \<notin> (\<lambda>k. fst (snd k)) ` set ks) (dag_tasks d)"
    "\<And>k. k \<in> ti_primary ` set tis \<longleftrightarrow> (\<exists>op \<in> set ops. \<exists>i \<in> set (f op). k = (d_dag_id d, op_task_id op, dr_run_id dr, i))"
    "db_tis s' = db_tis s1 @ tis"
    by (rule integrity_stepsE) blast
  have "ti_primary ti \<notin> ti_primary ` set tis"
  proof
    assume "ti_primary ti \<in> ti_primary ` set tis"
    then obtain op i where "op \<in> set ops" "ti_primary ti = (d_dag_id d, op_task_id op, dr_run_id dr, i)"
      unfolding f(5) by (elim bexE)
    then have "op \<in> set (dag_tasks d)" "ti_task_id ti = op_task_id op" by (auto simp: ti_primary_def f(4))
    with wf_dag_tasks(2) [OF assms(2)] ti(3) show False by metis
  qed
  then have in1: "ti \<in> set (db_tis s1)" using ti(1) by (auto simp: f(6))
  then have "ti_primary ti \<in> set (map ti_primary (db_tis s1))" by simp
  then have "ti_primary ti \<in> set ks" using ti(2) assms(5) by (simp add: f(1,2))
  then have "current_state (ti_primary ti) s1 = Some REMOVED" using f(3) [of "ti_primary ti"] assms(4,5) ti(3) by simp
  moreover have "distinct (map ti_primary (db_tis s1))" using f(2) assms(3) by simp
  ultimately show ?thesis using run_rows_states(1) [OF _ in1] by simp
qed

text \<open>
  C12. \<open>verify_integrity\<close> leaves every task of the DAG whose dates include the run with a task
  instance, never two with the same key; every task instance there was keeps its key, those of
  other runs stay as they are, and unless the run is running or the DAG partial, one whose task is
  gone is marked as removed.
\<close>

theorem integrity_complete:
  assumes "verify_integrity hook d dr s = Inr s'" "keeps_identity hook" "wf_dag d" "dr_dag_id dr = d_dag_id d"
    "distinct (map ti_primary (db_tis s))" "\<forall>m \<in> set (db_task_maps s). 0 \<le> tm_length m"
  shows "(\<forall>op \<in> set (dag_tasks d). in_dates dr op \<longrightarrow>
      (\<exists>ti \<in> set (db_tis s'). is_task_row (d_dag_id d) (op_task_id op) (dr_run_id dr) ti)) \<and>
    distinct (map ti_primary (db_tis s')) \<and>
    (\<exists>new. map ti_primary (db_tis s') = map ti_primary (db_tis s) @ new) \<and>
    (\<forall>ti \<in> set (db_tis s). (ti_dag_id ti, ti_run_id ti) \<noteq> (dr_dag_id dr, dr_run_id dr) \<longrightarrow> ti \<in> set (db_tis s')) \<and>
    (dr_state dr \<noteq> DR_RUNNING \<and> \<not> d_partial d \<longrightarrow> (\<forall>ti \<in> set (db_tis s').
       (ti_dag_id ti, ti_run_id ti) = (dr_dag_id dr, dr_run_id dr) \<and> \<not> has_task d (ti_task_id ti) \<longrightarrow>
         ti_state ti = Some REMOVED))"
proof -
  from verify_integrity_steps [OF assms(1,2,4-6)] obtain ks s1 ops tis where
    i: "integrity_steps d dr s ks s1 ops tis s'" by blast
  have others: "ti \<in> set (db_tis s')" if ti: "ti \<in> set (db_tis s)" "(ti_dag_id ti, ti_run_id ti) \<noteq> (dr_dag_id dr, dr_run_id dr)" for ti
  proof -
    have "ti_primary ti \<in> set ks \<Longrightarrow> ti_dag_id ti = d_dag_id d \<and> ti_run_id ti = dr_run_id dr"
      using i [THEN integrity_stepsE] primary_parts(1,3) [of ti] by metis
    then have "ti_primary ti \<notin> set ks" using ti(2) assms(4) by auto
    with i run_rows_states(2) [OF assms(5) ti(1)] have "find_ti s1 (ti_primary ti) = Some ti"
      unfolding integrity_steps_def by metis
    then show ?thesis using i by (auto simp: integrity_steps_def dest: find_ti_Some)
  qed
  have kept: "map ti_primary (db_tis s') = map ti_primary (db_tis s) @ map ti_primary tis" using i by (simp add: integrity_steps_def)
  show ?thesis unfolding assms(4)
    using integrity_present [OF i] integrity_distinct [OF i assms(3,5)] kept others [unfolded assms(4)]
      integrity_removed [OF i assms(3,5)]
    by (intro conjI impI ballI exI) blast+
qed

lemma integrity_complete_witness:
  "\<exists>s'. verify_integrity (\<lambda>ti. ti) (sample_dag [sample_op ''a'']) (sample_dr ''r'' 1 DR_QUEUED)
      (sample_db [sample_ti ''z'' None]) = Inr s' \<and>
    (\<exists>ti \<in> set (db_tis s'). is_task_row ''d'' ''a'' ''r'' ti)"
proof -
  let ?d = "sample_dag [sample_op ''a'']" and ?dr = "sample_dr ''r'' 1 DR_QUEUED" and ?s = "sample_db [sample_ti ''z'' None]"
  have "case verify_integrity (\<lambda>ti. ti) ?d ?dr ?s of Inl _ \<Rightarrow> False | Inr _ \<Rightarrow> True" by code_simp
  then obtain s' where r: "verify_integrity (\<lambda>ti. ti) ?d ?dr ?s = Inr s'" by (auto split: sum.splits)
  have h: "keeps_identity (\<lambda>ti. ti)" "dr_dag_id ?dr = d_dag_id ?d" "distinct (map ti_primary (db_tis ?s))"
    "\<forall>m \<in> set (db_task_maps ?s). 0 \<le> tm_length m" "d_dag_id ?d = ''d''" "dr_run_id ?dr = ''r''"
    "sample_op ''a'' \<in> set (dag_tasks ?d)" "in_dates ?dr (sample_op ''a'')" "op_task_id (sample_op ''a'') = ''a''"
    by (simp_all add: keeps_identity_def in_dates_def task_filter_def dag_tasks_def sample_defs)
  have w: "wf_dag ?d" by code_simp
  from integrity_complete [OF r h(1) w h(2-4)] h(5-9) r show ?thesis by fastforce
qed

end
