(* ===== verification/Timetables.thy ===== *)
theory Timetables
  imports Metadata
begin

text \<open>
  The timetables (\<open>timetables/*.py\<close>): when a DAG runs next and over which data interval. What lies
  outside the program is a parameter: the cron library \<open>croniter\<close> on wall clock times, the timezone
  database, and calendar arithmetic with a \<open>relativedelta\<close>. Clocks are arguments too (one instant per
  call). Summaries and descriptions for the web interface are not modelled.
\<close>

type_synonym data_interval = "time \<times> time"

record calendar =
  cal_parses :: "string \<Rightarrow> bool"
  cal_get_next :: "string \<Rightarrow> time \<Rightarrow> time result"
  cal_get_prev :: "string \<Rightarrow> time \<Rightarrow> time result"
  cal_covers_every_hour :: "string \<Rightarrow> bool"
  cal_make_naive :: "string \<Rightarrow> time \<Rightarrow> time"
  cal_make_aware :: "string \<Rightarrow> time \<Rightarrow> time"
  cal_add :: "relativedelta \<Rightarrow> time \<Rightarrow> time"
  cal_sub :: "relativedelta \<Rightarrow> time \<Rightarrow> time"

subsection \<open>The protocol\<close>

record time_restriction =
  rs_earliest :: "time option"
  rs_latest :: "time option"
  rs_catchup :: bool

record dag_run_info =
  ri_run_after :: time
  ri_data_interval :: data_interval

definition exact_interval :: "time \<Rightarrow> data_interval" where
  "exact_interval at_time = (at_time, at_time)"

definition info_exact :: "time \<Rightarrow> dag_run_info" where
  "info_exact at_time = \<lparr>ri_run_after = at_time, ri_data_interval = exact_interval at_time\<rparr>"

definition info_interval :: "time \<Rightarrow> time \<Rightarrow> dag_run_info" where
  "info_interval start_time end_time = \<lparr>ri_run_after = end_time, ri_data_interval = (start_time, end_time)\<rparr>"

definition ri_logical_date :: "dag_run_info \<Rightarrow> time" where
  "ri_logical_date info = fst (ri_data_interval info)"

fun periodic :: "timetable \<Rightarrow> bool" where
  "periodic (CronDataIntervalTimetable _ _) = True"
| "periodic (DeltaDataIntervalTimetable _) = True"
| "periodic (CronTriggerTimetable _ _ _) = True"
| "periodic (EventsTimetable _ _) = True"
| "periodic _ = False"

fun can_be_scheduled :: "timetable \<Rightarrow> bool" where
  "can_be_scheduled NullTimetable = False"
| "can_be_scheduled _ = True"

fun active_runs_limit :: "timetable \<Rightarrow> int option" where
  "active_runs_limit ContinuousTimetable = Some 1"
| "active_runs_limit _ = None"

subsection \<open>Cron schedules\<close>

definition cron_presets :: "(string \<times> string) list" where
  "cron_presets = [(''@hourly'', ''0 * * * *''), (''@daily'', ''0 0 * * *''), (''@weekly'', ''0 0 * * 0''),
     (''@monthly'', ''0 0 1 * *''), (''@quarterly'', ''0 0 1 */3 *''), (''@yearly'', ''0 0 1 1 *'')]"

definition cron_expression :: "string \<Rightarrow> string" where
  "cron_expression cron = dict_get_or cron_presets cron cron"

text \<open>A schedule that runs every hour moves by the elapsed time, any other by the wall clock.\<close>

definition cron_get_next :: "calendar \<Rightarrow> string \<Rightarrow> string \<Rightarrow> time \<Rightarrow> time result" where
  "cron_get_next cal expression tz current =
     (let naive = cal_make_naive cal tz current in
      bind_err (cal_get_next cal expression naive) (\<lambda>scheduled.
        Inr (if \<not> cal_covers_every_hour cal expression then cal_make_aware cal tz scheduled
             else current + (scheduled - naive))))"

definition cron_get_prev :: "calendar \<Rightarrow> string \<Rightarrow> string \<Rightarrow> time \<Rightarrow> time result" where
  "cron_get_prev cal expression tz current =
     (let naive = cal_make_naive cal tz current in
      bind_err (cal_get_prev cal expression naive) (\<lambda>scheduled.
        Inr (if \<not> cal_covers_every_hour cal expression then cal_make_aware cal tz scheduled
             else current - (naive - scheduled))))"

definition cron_align_to_next :: "calendar \<Rightarrow> string \<Rightarrow> string \<Rightarrow> time \<Rightarrow> time result" where
  "cron_align_to_next cal expression tz current =
     bind_err (cron_get_next cal expression tz current) (\<lambda>next_time.
     bind_err (cron_get_prev cal expression tz next_time) (\<lambda>prev.
       Inr (if prev \<noteq> current then next_time else current)))"

definition cron_align_to_prev :: "calendar \<Rightarrow> string \<Rightarrow> string \<Rightarrow> time \<Rightarrow> time result" where
  "cron_align_to_prev cal expression tz current =
     bind_err (cron_get_prev cal expression tz current) (\<lambda>prev_time.
     bind_err (cron_get_next cal expression tz prev_time) (\<lambda>n.
       Inr (if n \<noteq> current then prev_time else current)))"

definition cron_skip_to_latest :: "calendar \<Rightarrow> string \<Rightarrow> string \<Rightarrow> time \<Rightarrow> time option \<Rightarrow> time result" where
  "cron_skip_to_latest cal expression tz current_time earliest =
     bind_err (cron_get_prev cal expression tz current_time) (\<lambda>last_start.
     bind_err (cron_get_next cal expression tz last_start) (\<lambda>next_start.
     bind_err (if next_start = current_time then Inr last_start
               else if current_time < next_start then cron_get_prev cal expression tz last_start
               else Inl (AssertionError ''next schedule shouldn't be earlier'')) (\<lambda>new_start.
       case earliest of
         None \<Rightarrow> Inr new_start
       | Some e \<Rightarrow> bind_err (cron_align_to_next cal expression tz e) (\<lambda>a. Inr (max new_start a)))))"

subsection \<open>Delta schedules\<close>

definition add_delta :: "calendar \<Rightarrow> delta \<Rightarrow> time \<Rightarrow> time" where
  "add_delta cal d t = (case d of Timedelta n \<Rightarrow> t + n | Relativedelta r \<Rightarrow> cal_add cal r t)"

definition sub_delta :: "calendar \<Rightarrow> delta \<Rightarrow> time \<Rightarrow> time" where
  "sub_delta cal d t = (case d of Timedelta n \<Rightarrow> t - n | Relativedelta r \<Rightarrow> cal_sub cal r t)"

definition relativedelta_in_seconds :: "relativedelta \<Rightarrow> int" where
  "relativedelta_in_seconds d = rd_years d * 365 * 24 * 60 * 60 + rd_months d * 30 * 24 * 60 * 60 +
     rd_days d * 24 * 60 * 60 + rd_hours d * 60 * 60 + rd_minutes d * 60 + rd_seconds d"

definition round_delta :: "delta \<Rightarrow> time \<Rightarrow> time result" where
  "round_delta d dt =
     (let delta_usec = (case d of Timedelta n \<Rightarrow> n | Relativedelta r \<Rightarrow> relativedelta_in_seconds r * usec_per_sec) in
      if delta_usec = 0 then Inl ZeroDivisionError else Inr (dt - dt mod delta_usec))"

definition delta_skip_to_latest :: "calendar \<Rightarrow> delta \<Rightarrow> time \<Rightarrow> time option \<Rightarrow> time result" where
  "delta_skip_to_latest cal d current_time earliest =
     bind_err (round_delta d current_time) (\<lambda>round_current_time.
       let new_start = sub_delta cal d round_current_time in
       Inr (case earliest of None \<Rightarrow> new_start | Some e \<Rightarrow> max new_start e))"

subsection \<open>Data intervals\<close>

text \<open>
  \<open>_DataIntervalTimetable.next_dagrun_info\<close> over the methods of its subclasses: \<open>_skip_to_latest\<close>,
  \<open>_align_to_next\<close>, \<open>_align_to_prev\<close> and \<open>_get_next\<close>.
\<close>

definition next_interval :: "(time option \<Rightarrow> time result) \<Rightarrow> (time \<Rightarrow> time result) \<Rightarrow> (time \<Rightarrow> time result) \<Rightarrow>
    (time \<Rightarrow> time result) \<Rightarrow> data_interval option \<Rightarrow> time_restriction \<Rightarrow> dag_run_info option result" where
  "next_interval skip_to_latest align_to_next align_to_prev get_next last_automated_data_interval restriction =
     bind_err (if \<not> rs_catchup restriction
               then bind_err (skip_to_latest (rs_earliest restriction)) (\<lambda>t. Inr (Some t))
               else case rs_earliest restriction of
                 None \<Rightarrow> Inr None
               | Some e \<Rightarrow> bind_err (align_to_next e) (\<lambda>t. Inr (Some t))) (\<lambda>earliest.
     bind_err (case last_automated_data_interval of
                 None \<Rightarrow> Inr earliest
               | Some (_, last_end) \<Rightarrow> bind_err (align_to_prev last_end) (\<lambda>aligned.
                   Inr (Some (case earliest of None \<Rightarrow> aligned | Some e \<Rightarrow> max aligned e)))) (\<lambda>start.
       case start of
         None \<Rightarrow> Inr None
       | Some start_time \<Rightarrow>
           if (case rs_latest restriction of None \<Rightarrow> False | Some l \<Rightarrow> l < start_time) then Inr None
           else bind_err (get_next start_time) (\<lambda>end_time. Inr (Some (info_interval start_time end_time)))))"

definition cron_next_dagrun_info :: "calendar \<Rightarrow> time \<Rightarrow> string \<Rightarrow> string \<Rightarrow> data_interval option \<Rightarrow>
    time_restriction \<Rightarrow> dag_run_info option result" where
  "cron_next_dagrun_info cal now expression tz =
     next_interval (cron_skip_to_latest cal expression tz now) (cron_align_to_next cal expression tz)
       (cron_align_to_prev cal expression tz) (cron_get_next cal expression tz)"

definition delta_next_dagrun_info :: "calendar \<Rightarrow> time \<Rightarrow> delta \<Rightarrow> data_interval option \<Rightarrow> time_restriction \<Rightarrow>
    dag_run_info option result" where
  "delta_next_dagrun_info cal now d =
     next_interval (delta_skip_to_latest cal d now) Inr Inr (\<lambda>t. Inr (add_delta cal d t))"

subsection \<open>The other timetables\<close>

text \<open>Two bounds hold of nothing: \<open>None\<close> is no bound.\<close>

definition later_than :: "time \<Rightarrow> time option \<Rightarrow> bool" where
  "later_than t bound \<longleftrightarrow> (case bound of None \<Rightarrow> False | Some l \<Rightarrow> l < t)"

definition once_next_dagrun_info :: "data_interval option \<Rightarrow> time_restriction \<Rightarrow> dag_run_info option" where
  "once_next_dagrun_info last_automated_data_interval restriction =
     (if last_automated_data_interval \<noteq> None then None
      else case rs_earliest restriction of
        None \<Rightarrow> None
      | Some run_after \<Rightarrow> if later_than run_after (rs_latest restriction) then None else Some (info_exact run_after))"

definition continuous_next_dagrun_info :: "time \<Rightarrow> data_interval option \<Rightarrow> time_restriction \<Rightarrow> dag_run_info option" where
  "continuous_next_dagrun_info now last_automated_data_interval restriction =
     (case rs_earliest restriction of
        None \<Rightarrow> None
      | Some earliest \<Rightarrow>
          let (start_time, end_time) = (case last_automated_data_interval of
                Some (_, last_end) \<Rightarrow> (last_end, now)
              | None \<Rightarrow> (earliest, max earliest now)) in
          if later_than end_time (rs_latest restriction) then None else Some (info_interval start_time end_time))"

definition trigger_next_dagrun_info :: "calendar \<Rightarrow> time \<Rightarrow> string \<Rightarrow> string \<Rightarrow> delta \<Rightarrow> data_interval option \<Rightarrow>
    time_restriction \<Rightarrow> dag_run_info option result" where
  "trigger_next_dagrun_info cal now expression tz interval last_automated_data_interval restriction =
     bind_err
       (if rs_catchup restriction
        then case last_automated_data_interval of
               Some (_, last_end) \<Rightarrow> bind_err (cron_get_next cal expression tz last_end) (\<lambda>t. Inr (Some t))
             | None \<Rightarrow> (case rs_earliest restriction of
                 None \<Rightarrow> Inr None
               | Some e \<Rightarrow> bind_err (cron_align_to_next cal expression tz e) (\<lambda>t. Inr (Some t)))
        else bind_err (cron_align_to_prev cal expression tz now) (\<lambda>current.
             bind_err (case last_automated_data_interval of
                         None \<Rightarrow> Inr [] | Some (_, last_end) \<Rightarrow> bind_err (cron_get_next cal expression tz last_end) (\<lambda>t. Inr [t])) (\<lambda>after_last.
             bind_err (case rs_earliest restriction of
                         None \<Rightarrow> Inr [] | Some e \<Rightarrow> bind_err (cron_align_to_next cal expression tz e) (\<lambda>t. Inr [t])) (\<lambda>aligned.
               Inr (Some (fold max (after_last @ aligned) current))))))
       (\<lambda>next_start_time. case next_start_time of
          None \<Rightarrow> Inr None
        | Some t \<Rightarrow>
            if later_than t (rs_latest restriction) then Inr None
            else Inr (Some (info_interval (sub_delta cal interval t) t)))"

text \<open>The constructor of \<open>EventsTimetable\<close> looks at the first and last date to describe itself.\<close>

definition new_events_timetable :: "time list \<Rightarrow> bool \<Rightarrow> bool \<Rightarrow> string option \<Rightarrow> timetable result" where
  "new_events_timetable event_dates restrict_to_events presorted description =
     (if description = None \<and> event_dates = [] then Inl (IndexError ''list index out of range'')
      else Inr (EventsTimetable (if presorted then event_dates else sort event_dates) restrict_to_events))"

definition events_next_dagrun_info :: "time list \<Rightarrow> data_interval option \<Rightarrow> dag_run_info option result" where
  "events_next_dagrun_info event_dates last_automated_data_interval =
     (case last_automated_data_interval of
        None \<Rightarrow> (case event_dates of [] \<Rightarrow> Inl (IndexError ''list index out of range'') | e # _ \<Rightarrow> Inr (Some (info_exact e)))
      | Some (_, last_end) \<Rightarrow>
          (case dropWhile (\<lambda>t. t \<le> last_end) event_dates of [] \<Rightarrow> Inr None | e # _ \<Rightarrow> Inr (Some (info_exact e))))"

definition events_manual_interval :: "time list \<Rightarrow> bool \<Rightarrow> time \<Rightarrow> data_interval result" where
  "events_manual_interval event_dates restrict_to_events run_after =
     (if \<not> restrict_to_events then Inr (exact_interval run_after)
      else case event_dates of
        [] \<Rightarrow> Inl (IndexError ''list index out of range'')
      | first # _ \<Rightarrow>
          if run_after < first then Inr (exact_interval first)
          else (case dropWhile (\<lambda>t. run_after < t) (rev event_dates) of
                  [] \<Rightarrow> Inl (RuntimeError ''StopIteration'') | e # _ \<Rightarrow> Inr (exact_interval e)))"

text \<open>A DAG run that is triggered by datasets spans the intervals of the runs that updated them.\<close>

definition data_interval_for_events :: "time \<Rightarrow> data_interval list \<Rightarrow> data_interval" where
  "data_interval_for_events logical_date source_intervals =
     (if source_intervals = [] then (logical_date, logical_date)
      else (Min (set (map fst source_intervals)), Max (set (map snd source_intervals))))"

subsection \<open>Dispatch\<close>

fun next_dagrun_info :: "calendar \<Rightarrow> time \<Rightarrow> timetable \<Rightarrow> data_interval option \<Rightarrow> time_restriction \<Rightarrow>
    dag_run_info option result" where
  "next_dagrun_info cal now NullTimetable iv r = Inr None"
| "next_dagrun_info cal now OnceTimetable iv r = Inr (once_next_dagrun_info iv r)"
| "next_dagrun_info cal now ContinuousTimetable iv r = Inr (continuous_next_dagrun_info now iv r)"
| "next_dagrun_info cal now DatasetTriggeredTimetable iv r = Inr None"
| "next_dagrun_info cal now (CronDataIntervalTimetable e tz) iv r = cron_next_dagrun_info cal now e tz iv r"
| "next_dagrun_info cal now (DeltaDataIntervalTimetable d) iv r = delta_next_dagrun_info cal now d iv r"
| "next_dagrun_info cal now (CronTriggerTimetable e tz i) iv r = trigger_next_dagrun_info cal now e tz i iv r"
| "next_dagrun_info cal now (EventsTimetable ds b) iv r = events_next_dagrun_info ds iv"

fun infer_manual_data_interval :: "calendar \<Rightarrow> timetable \<Rightarrow> time \<Rightarrow> data_interval result" where
  "infer_manual_data_interval cal (CronDataIntervalTimetable e tz) run_after =
     bind_err (cron_align_to_prev cal e tz run_after) (\<lambda>end_time.
     bind_err (cron_get_prev cal e tz end_time) (\<lambda>start_time. Inr (start_time, end_time)))"
| "infer_manual_data_interval cal (DeltaDataIntervalTimetable d) run_after = Inr (sub_delta cal d run_after, run_after)"
| "infer_manual_data_interval cal (CronTriggerTimetable e tz i) run_after = Inr (sub_delta cal i run_after, run_after)"
| "infer_manual_data_interval cal (EventsTimetable ds b) run_after = events_manual_interval ds b run_after"
| "infer_manual_data_interval cal _ run_after = Inr (exact_interval run_after)"

text \<open>\<open>validate\<close>; \<open>now\<close> is the clock.\<close>

fun validate_timetable :: "calendar \<Rightarrow> time \<Rightarrow> timetable \<Rightarrow> unit result" where
  "validate_timetable cal now (DeltaDataIntervalTimetable d) =
     (if add_delta cal d now \<le> now then Inl (AirflowTimetableInvalid ''schedule interval must be positive'') else Inr ())"
| "validate_timetable cal now (CronDataIntervalTimetable e tz) =
     (if cal_parses cal e then Inr () else Inl (AirflowTimetableInvalid e))"
| "validate_timetable cal now (CronTriggerTimetable e tz i) =
     (if cal_parses cal e then Inr () else Inl (AirflowTimetableInvalid e))"
| "validate_timetable cal now _ = Inr ()"

text \<open>
  \<open>create_timetable\<close> from the \<open>schedule\<close> argument; \<open>data_intervals\<close> is the configuration value
  \<open>create_cron_data_intervals\<close>. The default is one day.
\<close>

datatype schedule_arg = NotSet | NoSchedule | ScheduleDelta delta | ScheduleStr string | OtherSchedule

definition DEFAULT_SCHEDULE_INTERVAL :: delta where
  "DEFAULT_SCHEDULE_INTERVAL = Timedelta (24 * 60 * 60 * usec_per_sec)"

definition create_timetable :: "bool \<Rightarrow> schedule_arg \<Rightarrow> string \<Rightarrow> timetable result" where
  "create_timetable data_intervals interval tz =
     (case interval of
        NotSet \<Rightarrow> Inr (DeltaDataIntervalTimetable DEFAULT_SCHEDULE_INTERVAL)
      | NoSchedule \<Rightarrow> Inr NullTimetable
      | ScheduleStr s \<Rightarrow>
          Inr (if s = ''@once'' then OnceTimetable
               else if s = ''@continuous'' then ContinuousTimetable
               else if data_intervals then CronDataIntervalTimetable (cron_expression s) tz
               else CronTriggerTimetable (cron_expression s) tz (Timedelta 0))
      | ScheduleDelta d \<Rightarrow> Inr (DeltaDataIntervalTimetable d)
      | OtherSchedule \<Rightarrow> Inl (ValueError ''not a valid schedule_interval''))"

text \<open>
  The runs a timetable gives one after the other, as a generator yields them: an exception or the
  absence of a next run ends it, and \<open>None\<close> says that it does not end.
\<close>

partial_function (option) info_loop :: "(data_interval \<Rightarrow> dag_run_info option result) \<Rightarrow> dag_run_info option \<Rightarrow>
    dag_run_info list option" where
  "info_loop next_info info =
     (case info of
        None \<Rightarrow> Some []
      | Some i \<Rightarrow> Option.bind (info_loop next_info (case next_info (ri_data_interval i) of Inl _ \<Rightarrow> None | Inr r \<Rightarrow> r))
          (\<lambda>infos. Some (i # infos)))"

declare info_loop.simps [code]

end
