(* ===== verification/Timetable_Laws.thy ===== *)
theory Timetable_Laws
  imports Timetables
begin

text \<open>
  What a timetable of data intervals promises, as a contract of the methods its subclasses provide:
  time is cut into intervals, each starting where the one before ended. Both the fixed delta and the
  cron schedule fulfil it, the latter when \<open>croniter\<close> finds the nearest matching time in either
  direction and the timezone has a fixed offset (UTC, the default).
\<close>

subsection \<open>Runs that cut time into intervals\<close>

text \<open>Every run starts where the one before ended and happens at the end of its own interval.\<close>

fun contiguous :: "time \<Rightarrow> dag_run_info list \<Rightarrow> bool" where
  "contiguous t [] = True"
| "contiguous t (i # is) \<longleftrightarrow> fst (ri_data_interval i) = t \<and> t < snd (ri_data_interval i) \<and>
     ri_run_after i = snd (ri_data_interval i) \<and> contiguous (snd (ri_data_interval i)) is"

definition covers :: "dag_run_info \<Rightarrow> time \<Rightarrow> bool" where
  "covers i t \<longleftrightarrow> fst (ri_data_interval i) \<le> t \<and> t < snd (ri_data_interval i)"

fun end_of_runs :: "time \<Rightarrow> dag_run_info list \<Rightarrow> time" where
  "end_of_runs t [] = t"
| "end_of_runs t (i # is) = end_of_runs (snd (ri_data_interval i)) is"

lemma contiguous_after: "contiguous t is \<Longrightarrow> i \<in> set is \<Longrightarrow> t \<le> fst (ri_data_interval i)"
proof (induction t "is" rule: contiguous.induct)
  case (2 t j "is")
  then show ?case by (cases "i = j") force+
qed simp

lemma contiguous_covers_one:
  "contiguous a is \<Longrightarrow> a \<le> t \<Longrightarrow> t < end_of_runs a is \<Longrightarrow> \<exists>!i. i \<in> set is \<and> covers i t"
proof (induction a "is" rule: contiguous.induct)
  case (2 a i "is")
  show ?case
  proof (cases "t < snd (ri_data_interval i)")
    case True
    have "\<not> covers j t" if "j \<in> set is" for j
      using that contiguous_after [of "snd (ri_data_interval i)" "is" j] "2.prems"(1) True by (auto simp: covers_def)
    with True "2.prems" show ?thesis by (intro ex1I [of _ i]) (auto simp: covers_def)
  next
    case False
    then have "\<not> covers i t" by (simp add: covers_def)
    then have "(j \<in> set (i # is) \<and> covers j t) = (j \<in> set is \<and> covers j t)" for j by (cases "j = i") auto
    then show ?thesis using "2.IH" "2.prems" False by (simp del: list.set)
  qed
qed simp

subsection \<open>The contract\<close>

locale interval_schedule =
  fixes valid :: "'t \<Rightarrow> bool"
    and skip_to_latest :: "'t \<Rightarrow> time \<Rightarrow> time option \<Rightarrow> time result"
    and align_to_next :: "'t \<Rightarrow> time \<Rightarrow> time result"
    and align_to_prev :: "'t \<Rightarrow> time \<Rightarrow> time result"
    and get_next :: "'t \<Rightarrow> time \<Rightarrow> time result"
  assumes next_later: "valid tt \<Longrightarrow> \<exists>u. get_next tt t = Inr u \<and> t < u"
    and next_mono: "valid tt \<Longrightarrow> a \<le> b \<Longrightarrow> get_next tt a = Inr u \<Longrightarrow> get_next tt b = Inr v \<Longrightarrow> u \<le> v"
    and next_aligned: "valid tt \<Longrightarrow> align_to_prev tt t = Inr t \<Longrightarrow> get_next tt t = Inr u \<Longrightarrow> align_to_prev tt u = Inr u"
    and align_next: "valid tt \<Longrightarrow> \<exists>u. align_to_next tt t = Inr u \<and> t \<le> u \<and> align_to_prev tt u = Inr u"
    and align_prev: "valid tt \<Longrightarrow> \<exists>u. align_to_prev tt t = Inr u \<and> u \<le> t"
    and skip_latest: "valid tt \<Longrightarrow> \<exists>u v w. skip_to_latest tt now None = Inr u \<and> get_next tt u = Inr v \<and>
      get_next tt v = Inr w \<and> v \<le> now \<and> now < w"
    and skip_earliest: "valid tt \<Longrightarrow> skip_to_latest tt now None = Inr u \<Longrightarrow> align_to_next tt e = Inr a \<Longrightarrow>
      skip_to_latest tt now (Some e) = Inr (max u a)"
begin

definition next_info :: "'t \<Rightarrow> time \<Rightarrow> data_interval option \<Rightarrow> time_restriction \<Rightarrow> dag_run_info option result" where
  "next_info tt now = next_interval (skip_to_latest tt now) (align_to_next tt) (align_to_prev tt) (get_next tt)"

text \<open>With catch-up a run starts where the last one ended.\<close>

lemma catchup_step:
  assumes "valid tt" "rs_catchup r" "rs_earliest r = Some e" "align_to_next tt e = Inr a"
    "align_to_prev tt b = Inr b" "a \<le> b" "get_next tt b = Inr c"
  shows "next_info tt now (Some (x, b)) r = Inr (if later_than b (rs_latest r) then None else Some (info_interval b c))"
  using assms by (cases "rs_latest r") (simp_all add: next_info_def next_interval_def later_than_def max_def)

lemma catchup_first:
  assumes "valid tt" "rs_catchup r" "rs_earliest r = Some e" "align_to_next tt e = Inr a" "get_next tt a = Inr c"
  shows "next_info tt now None r = Inr (if later_than a (rs_latest r) then None else Some (info_interval a c))"
  using assms by (simp add: next_info_def next_interval_def later_than_def)

lemma catchup_loop:
  assumes "valid tt" "rs_catchup r" "rs_earliest r = Some e" "rs_latest r = Some l" "align_to_next tt e = Inr a"
  shows "align_to_prev tt b = Inr b \<Longrightarrow> a \<le> b \<Longrightarrow> get_next tt b = Inr c \<Longrightarrow>
    \<exists>infos. info_loop (\<lambda>iv. next_info tt now (Some iv) r) (if l < b then None else Some (info_interval b c)) = Some infos \<and>
      contiguous b infos \<and> (\<forall>i \<in> set infos. ri_logical_date i \<le> l) \<and> l < end_of_runs b infos"
proof (induction "nat (l - b + 1)" arbitrary: b c rule: less_induct)
  case less
  show ?case
  proof (cases "l < b")
    case True
    then show ?thesis by (simp add: info_loop.simps)
  next
    case False
    from next_later [OF assms(1), of b] less.prems(3) have bc: "b < c" by auto
    have ac: "align_to_prev tt c = Inr c" by (rule next_aligned [OF assms(1) less.prems(1,3)])
    from next_later [OF assms(1), of c] obtain d where d: "get_next tt c = Inr d" by blast
    have "nat (l - c + 1) < nat (l - b + 1)" using bc False by simp
    from less.hyps [OF this ac _ d] less.prems(2) bc obtain infos where
      i: "info_loop (\<lambda>iv. next_info tt now (Some iv) r) (if l < c then None else Some (info_interval c d)) = Some infos"
        "contiguous c infos" "\<forall>i \<in> set infos. ri_logical_date i \<le> l" "l < end_of_runs c infos" by auto
    have "next_info tt now (Some (b, c)) r = Inr (if l < c then None else Some (info_interval c d))"
      using catchup_step [OF assms(1-3,5) ac _ d] less.prems(2) bc assms(4) by (simp add: later_than_def)
    with i(1) False have "info_loop (\<lambda>iv. next_info tt now (Some iv) r) (if l < b then None else Some (info_interval b c)) =
        Some (info_interval b c # infos)"
      by (subst info_loop.simps) (simp add: info_interval_def)
    with i(2-4) bc False show ?thesis by (simp add: info_interval_def ri_logical_date_def)
  qed
qed

lemma catchup_runs:
  assumes "valid tt" "rs_catchup r" "rs_earliest r = Some e" "rs_latest r = Some l"
  obtains a first infos where "align_to_next tt e = Inr a" "e \<le> a" "next_info tt now None r = Inr first"
    "info_loop (\<lambda>iv. next_info tt now (Some iv) r) first = Some infos" "contiguous a infos"
    "\<forall>i \<in> set infos. ri_logical_date i \<le> l" "l < end_of_runs a infos"
proof -
  from align_next [OF assms(1), of e] obtain a where a: "align_to_next tt e = Inr a" "e \<le> a" "align_to_prev tt a = Inr a" by blast
  from next_later [OF assms(1), of a] obtain c where c: "get_next tt a = Inr c" by blast
  note f = catchup_first [OF assms(1-3) a(1) c, unfolded assms(4) later_than_def option.case]
  from catchup_loop [OF assms a(1) a(3) order_refl c, of now] that [OF a(1,2) f] show thesis by blast
qed

text \<open>Without catch-up no run is older than the latest complete interval, and none comes twice.\<close>

lemma no_catchup:
  assumes "valid tt" "\<not> rs_catchup r" "next_info tt now last_interval r = Inr (Some info)"
  shows "(\<exists>w. get_next tt (snd (ri_data_interval info)) = Inr w \<and> now < w) \<and>
    (\<forall>a b. last_interval = Some (a, b) \<and> align_to_prev tt b = Inr b \<longrightarrow> b \<le> fst (ri_data_interval info)) \<and>
    ri_run_after info = snd (ri_data_interval info) \<and> \<not> later_than (ri_logical_date info) (rs_latest r)"
proof -
  from skip_latest [OF assms(1), of now] obtain u v w where
    s: "skip_to_latest tt now None = Inr u" "get_next tt u = Inr v" "get_next tt v = Inr w" "now < w" by blast
  have "\<exists>x \<ge> u. skip_to_latest tt now (rs_earliest r) = Inr x"
  proof (cases "rs_earliest r")
    case (Some e)
    from align_next [OF assms(1), of e] obtain a where "align_to_next tt e = Inr a" by blast
    from skip_earliest [OF assms(1) s(1) this] Some show ?thesis by simp
  qed (use s in simp)
  then obtain x where x: "u \<le> x" "skip_to_latest tt now (rs_earliest r) = Inr x" by blast
  define from_last where "from_last = (case last_interval of None \<Rightarrow> Inr (Some x)
    | Some (_, last_end) \<Rightarrow> bind_err (align_to_prev tt last_end) (\<lambda>aligned. Inr (Some (max aligned x))))"
  obtain start where st: "from_last = Inr (Some start)" "x \<le> start"
    and al: "\<forall>a b. last_interval = Some (a, b) \<and> align_to_prev tt b = Inr b \<longrightarrow> b \<le> start"
  proof (cases last_interval)
    case None
    with that show thesis by (simp add: from_last_def)
  next
    case (Some iv)
    obtain a b where iv: "iv = (a, b)" by (cases iv)
    from align_prev [OF assms(1), of b] obtain p where "align_to_prev tt b = Inr p" by blast
    with that [of "max p x"] Some iv show thesis by (simp add: from_last_def)
  qed
  from next_later [OF assms(1), of start] obtain e where e: "get_next tt start = Inr e" by blast
  have info: "\<not> later_than start (rs_latest r)" "info = info_interval start e"
    using assms(2,3) x(2) st(1) e
    by (auto simp: next_info_def next_interval_def from_last_def later_than_def split: option.splits if_splits)
  from next_later [OF assms(1), of e] obtain z where z: "get_next tt e = Inr z" by blast
  have "v \<le> e" using next_mono [OF assms(1) _ s(2) e] x(1) st(2) by simp
  then have "w \<le> z" using next_mono [OF assms(1) _ s(3) z] by simp
  with s(4) z info al show ?thesis by (auto simp: info_interval_def ri_logical_date_def)
qed

end

subsection \<open>Deltas\<close>

fun positive_delta :: "calendar \<times> delta \<Rightarrow> bool" where
  "positive_delta (cal, Timedelta n) \<longleftrightarrow> 0 < n"
| "positive_delta (cal, Relativedelta r) \<longleftrightarrow> False"

lemma positive_deltaE:
  assumes "positive_delta tt"
  obtains cal n where "tt = (cal, Timedelta n)" "0 < n"
  using assms by (cases tt rule: positive_delta.cases) auto

interpretation delta_schedule: interval_schedule positive_delta "\<lambda>(cal, d). delta_skip_to_latest cal d"
  "\<lambda>_. Inr" "\<lambda>_. Inr" "\<lambda>(cal, d) t. Inr (add_delta cal d t)"
proof (unfold_locales, goal_cases)
  case (6 tt now)
  then obtain cal n where tt: "tt = (cal, Timedelta n)" "0 < n" by (rule positive_deltaE)
  then have "0 \<le> now mod n" "now mod n < n" by simp_all
  then have "now - now mod n \<le> now" "now < now - now mod n + n" by linarith+
  with tt show ?case by (simp add: delta_skip_to_latest_def round_delta_def add_delta_def sub_delta_def)
next
  case (7 tt now u e a)
  then obtain cal n where "tt = (cal, Timedelta n)" "0 < n" by (auto elim: positive_deltaE)
  with 7 show ?case by (auto simp: delta_skip_to_latest_def round_delta_def)
qed (auto simp: add_delta_def elim!: positive_deltaE)

lemma delta_next_info: "delta_schedule.next_info (cal, d) now = delta_next_dagrun_info cal now d"
  by (simp add: fun_eq_iff delta_schedule.next_info_def delta_next_dagrun_info_def)

subsection \<open>Cron expressions\<close>

text \<open>
  What \<open>croniter\<close> documents: \<open>get_next\<close> and \<open>get_prev\<close> find the nearest time that matches the
  expression, strictly after and strictly before the given one.
\<close>

definition croniter_laws :: "calendar \<Rightarrow> string \<Rightarrow> (time \<Rightarrow> bool) \<Rightarrow> bool" where
  "croniter_laws cal expression matches \<longleftrightarrow>
     (\<forall>n. \<exists>u. cal_get_next cal expression n = Inr u \<and> n < u \<and> matches u \<and> (\<forall>m. n < m \<and> m < u \<longrightarrow> \<not> matches m)) \<and>
     (\<forall>n. \<exists>u. cal_get_prev cal expression n = Inr u \<and> u < n \<and> matches u \<and> (\<forall>m. u < m \<and> m < n \<longrightarrow> \<not> matches m))"

definition fixed_offset :: "calendar \<Rightarrow> string \<Rightarrow> time \<Rightarrow> bool" where
  "fixed_offset cal tz off \<longleftrightarrow> (\<forall>t. cal_make_naive cal tz t = t + off \<and> cal_make_aware cal tz t = t - off)"

fun regular_cron :: "calendar \<times> string \<times> string \<Rightarrow> bool" where
  "regular_cron (cal, e, tz) \<longleftrightarrow> (\<exists>matches off. croniter_laws cal e matches \<and> fixed_offset cal tz off)"

definition fires :: "calendar \<Rightarrow> string \<Rightarrow> string \<Rightarrow> (time \<Rightarrow> bool) \<Rightarrow> bool" where
  "fires cal e tz S \<longleftrightarrow>
     (\<forall>t. \<exists>u. cron_get_next cal e tz t = Inr u \<and> t < u \<and> S u \<and> (\<forall>m. t < m \<and> m < u \<longrightarrow> \<not> S m)) \<and>
     (\<forall>t. \<exists>u. cron_get_prev cal e tz t = Inr u \<and> u < t \<and> S u \<and> (\<forall>m. u < m \<and> m < t \<longrightarrow> \<not> S m))"

lemma regular_cron_fires:
  assumes "croniter_laws cal e matches" "fixed_offset cal tz off"
  shows "fires cal e tz (\<lambda>t. matches (t + off))"
  unfolding fires_def
proof (intro conjI allI)
  fix t
  from assms(1) obtain u where u: "cal_get_next cal e (t + off) = Inr u" "t + off < u" "matches u"
    "\<forall>m. t + off < m \<and> m < u \<longrightarrow> \<not> matches m" unfolding croniter_laws_def by meson
  with assms(2) have "cron_get_next cal e tz t = Inr (u - off)"
    by (simp add: cron_get_next_def fixed_offset_def)
  with u show "\<exists>u. cron_get_next cal e tz t = Inr u \<and> t < u \<and> matches (u + off) \<and> (\<forall>m. t < m \<and> m < u \<longrightarrow> \<not> matches (m + off))"
    by (intro exI [of _ "u - off"]) auto
  from assms(1) obtain v where v: "cal_get_prev cal e (t + off) = Inr v" "v < t + off" "matches v"
    "\<forall>m. v < m \<and> m < t + off \<longrightarrow> \<not> matches m" unfolding croniter_laws_def by meson
  with assms(2) have "cron_get_prev cal e tz t = Inr (v - off)"
    by (simp add: cron_get_prev_def fixed_offset_def)
  with v show "\<exists>u. cron_get_prev cal e tz t = Inr u \<and> u < t \<and> matches (u + off) \<and> (\<forall>m. u < m \<and> m < t \<longrightarrow> \<not> matches (m + off))"
    by (intro exI [of _ "v - off"]) auto
qed

lemma fires_next:
  assumes "fires cal e tz S"
  obtains u where "cron_get_next cal e tz t = Inr u" "t < u" "S u" "\<And>m. t < m \<Longrightarrow> m < u \<Longrightarrow> \<not> S m"
  using assms unfolding fires_def by meson

lemma fires_prev:
  assumes "fires cal e tz S"
  obtains u where "cron_get_prev cal e tz t = Inr u" "u < t" "S u" "\<And>m. u < m \<Longrightarrow> m < t \<Longrightarrow> \<not> S m"
  using assms unfolding fires_def by meson

lemma next_of_prev:
  assumes "fires cal e tz S" "S t" "cron_get_prev cal e tz t = Inr p"
  shows "cron_get_next cal e tz p = Inr t"
  by (rule fires_prev [OF assms(1), of t], rule fires_next [OF assms(1), of p])
    (metis Inr_inject assms(2,3) linorder_neqE)

lemma prev_of_next:
  assumes "fires cal e tz S" "S t" "cron_get_next cal e tz t = Inr n"
  shows "cron_get_prev cal e tz n = Inr t"
  by (rule fires_next [OF assms(1), of t], rule fires_prev [OF assms(1), of n])
    (metis Inr_inject assms(2,3) linorder_neqE)

lemma cron_align:
  assumes "fires cal e tz S"
  shows "cron_align_to_next cal e tz t = (if S t then Inr t else cron_get_next cal e tz t)"
    and "cron_align_to_prev cal e tz t = (if S t then Inr t else cron_get_prev cal e tz t)"
proof -
  obtain n where n: "cron_get_next cal e tz t = Inr n" by (rule fires_next [OF assms, of t])
  obtain p where p: "cron_get_prev cal e tz n = Inr p" "S p" by (rule fires_prev [OF assms, of n])
  show "cron_align_to_next cal e tz t = (if S t then Inr t else cron_get_next cal e tz t)"
    using n p prev_of_next [OF assms _ n] by (auto simp: cron_align_to_next_def)
  obtain q where q: "cron_get_prev cal e tz t = Inr q" by (rule fires_prev [OF assms, of t])
  obtain m where m: "cron_get_next cal e tz q = Inr m" "S m" by (rule fires_next [OF assms, of q])
  show "cron_align_to_prev cal e tz t = (if S t then Inr t else cron_get_prev cal e tz t)"
    using q m next_of_prev [OF assms _ q] by (auto simp: cron_align_to_prev_def)
qed

lemma cron_skip_latest:
  assumes f: "fires cal e tz S"
  shows "\<exists>u v w. cron_skip_to_latest cal e tz now None = Inr u \<and> cron_get_next cal e tz u = Inr v \<and>
    cron_get_next cal e tz v = Inr w \<and> v \<le> now \<and> now < w"
proof -
  obtain p where p: "cron_get_prev cal e tz now = Inr p" "p < now" "S p" "\<And>m. p < m \<Longrightarrow> m < now \<Longrightarrow> \<not> S m"
    by (rule fires_prev [OF f, of now]) blast
  obtain n where n: "cron_get_next cal e tz p = Inr n" "p < n" "S n" by (rule fires_next [OF f, of p])
  have "now \<le> n" using p(4) n(2,3) by force
  then consider "n = now" | "now < n" by force
  then show ?thesis
  proof cases
    case 1
    obtain w where "cron_get_next cal e tz now = Inr w" "now < w" by (rule fires_next [OF f, of now])
    with 1 p n show ?thesis by (simp add: cron_skip_to_latest_def)
  next
    case 2
    obtain u where u: "cron_get_prev cal e tz p = Inr u" by (rule fires_prev [OF f, of p])
    have "cron_get_next cal e tz u = Inr p" by (rule next_of_prev [OF f p(3) u])
    with 2 p n u show ?thesis by (simp add: cron_skip_to_latest_def)
  qed
qed

lemma regular_cronE:
  assumes "regular_cron tt"
  obtains cal e tz S where "tt = (cal, e, tz)" "fires cal e tz S"
  using assms by (cases tt) (auto dest: regular_cron_fires)

interpretation cron_schedule: interval_schedule regular_cron "\<lambda>(cal, e, tz). cron_skip_to_latest cal e tz"
  "\<lambda>(cal, e, tz). cron_align_to_next cal e tz" "\<lambda>(cal, e, tz). cron_align_to_prev cal e tz"
  "\<lambda>(cal, e, tz). cron_get_next cal e tz"
proof (unfold_locales, goal_cases)
  case (1 tt t)
  then show ?case by (rule regular_cronE) (auto elim: fires_next)
next
  case (2 tt a b u v)
  from 2(1) obtain cal e tz S where tt: "tt = (cal, e, tz)" "fires cal e tz S" by (rule regular_cronE)
  show ?case
    by (rule fires_next [OF tt(2), of a], rule fires_next [OF tt(2), of b])
      (use 2 tt(1) in \<open>simp, meson le_less_trans not_le\<close>)
next
  case (3 tt t u)
  from 3(1) obtain cal e tz S where tt: "tt = (cal, e, tz)" "fires cal e tz S" by (rule regular_cronE)
  show ?case by (rule fires_next [OF tt(2), of t]) (use 3 tt(1) in \<open>simp add: cron_align [OF tt(2)]\<close>)
next
  case (4 tt t)
  from 4(1) obtain cal e tz S where tt: "tt = (cal, e, tz)" "fires cal e tz S" by (rule regular_cronE)
  show ?case by (rule fires_next [OF tt(2), of t]) (use tt(1) in \<open>auto simp: cron_align [OF tt(2)]\<close>)
next
  case (5 tt t)
  from 5(1) obtain cal e tz S where tt: "tt = (cal, e, tz)" "fires cal e tz S" by (rule regular_cronE)
  show ?case by (rule fires_prev [OF tt(2), of t]) (use tt(1) in \<open>auto simp: cron_align [OF tt(2)]\<close>)
next
  case (6 tt now)
  then obtain cal e tz S where "tt = (cal, e, tz)" "fires cal e tz S" by (rule regular_cronE)
  with cron_skip_latest [of cal e tz S now] show ?case by simp
next
  case (7 tt now u e a)
  then show ?case by (cases tt) (auto simp: cron_skip_to_latest_def split: if_splits)
qed

lemma cron_next_info: "cron_schedule.next_info (cal, e, tz) now = cron_next_dagrun_info cal now e tz"
  by (simp add: fun_eq_iff cron_schedule.next_info_def cron_next_dagrun_info_def)

end
