(* ===== verification/Dag_Schedule.thy ===== *)
theory Dag_Schedule
  imports Run_Integrity Timetable_Laws
begin

text \<open>
  How the scheduler creates and starts dag runs (\<open>models/dag.py\<close>, \<open>jobs/scheduler_job_runner.py\<close>):
  the next run of a DAG from its timetable, creating runs that are due, starting queued runs within
  the limits of their DAG, deciding on a running run, and the scheduling loop's body that composes
  them. Metrics, listeners, logs and the retries after lost database connections are left out.
\<close>

text \<open>
  The environment of the scheduler: the dependency checks' with the clock and the row locks of other
  sessions (its DAG is replaced by that of each run), the DAG bag with the hashes it loaded and those
  in the serialised DAG table, and what comes from the configuration. \<open>se_run_id_allowed\<close> and
  \<open>se_run_id_generated\<close> are the two patterns a run id may match, \<open>se_new_id\<close> the id the database gives
  a new run, \<open>se_nulls_first\<close> where it sorts NULL.
\<close>

record sched_env =
  se_run :: run_env
  se_get_dag :: "id_str \<Rightarrow> dag option"
  se_dags_hash :: "id_str \<Rightarrow> string option"
  se_latest_hash :: "id_str \<Rightarrow> string option"
  se_calendar :: calendar
  se_isoformat :: "time \<Rightarrow> string"
  se_run_id_allowed :: "string \<Rightarrow> bool"
  se_run_id_generated :: "string \<Rightarrow> bool"
  se_valid_params :: "dag \<Rightarrow> bool"
  se_job_id :: int
  se_new_id :: "db \<Rightarrow> int"
  se_nulls_first :: bool
  se_dag_locked :: "id_str \<Rightarrow> bool"
  se_run_locked :: "dag_run \<Rightarrow> bool"
  se_allow_future :: bool
  se_max_tis_per_query :: int
  se_dags_per_loop :: nat
  se_runs_per_loop :: nat

definition se_now :: "sched_env \<Rightarrow> time" where
  "se_now env = de_now (re_dep (se_run env))"

definition env_for :: "sched_env \<Rightarrow> dag \<Rightarrow> run_env" where
  "env_for env d = (se_run env)\<lparr>re_dep := (re_dep (se_run env))\<lparr>de_dag := d\<rparr>\<rparr>"

definition update_dm :: "id_str \<Rightarrow> (dag_model \<Rightarrow> dag_model) \<Rightarrow> db \<Rightarrow> db" where
  "update_dm dag_id f s = s\<lparr>db_dms := map (\<lambda>m. if dm_dag_id m = dag_id then f m else m) (db_dms s)\<rparr>"

subsection \<open>The next run of a DAG\<close>

definition dag_time_restriction :: "dag \<Rightarrow> time_restriction" where
  "dag_time_restriction d =
     (let tasks = dag_tasks d;
          start_dates = List.map_filter op_start_date tasks @ (case d_start_date d of None \<Rightarrow> [] | Some t \<Rightarrow> [t]);
          end_dates = List.map_filter op_end_date tasks;
          all_dates = end_dates @ (case d_end_date d of None \<Rightarrow> [] | Some t \<Rightarrow> [t]) in
      \<lparr>rs_earliest = (if start_dates = [] then None else Some (Min (set start_dates))),
       rs_latest = (if length end_dates = length tasks \<and> all_dates \<noteq> [] then Some (Max (set all_dates)) else d_end_date d),
       rs_catchup = d_catchup d\<rparr>)"

text \<open>\<open>DAG.next_dagrun_info\<close>; what the timetable raises is logged and means no run.\<close>

definition dag_next_dagrun_info :: "calendar \<Rightarrow> time \<Rightarrow> dag \<Rightarrow> data_interval option \<Rightarrow> bool \<Rightarrow> dag_run_info option" where
  "dag_next_dagrun_info cal now d last_interval restricted =
     (if d_is_subdag d then None
      else let restriction = (if restricted then dag_time_restriction d
                 else \<lparr>rs_earliest = None, rs_latest = None, rs_catchup = True\<rparr>) in
        case next_dagrun_info cal now (d_timetable d) last_interval restriction of Inl _ \<Rightarrow> None | Inr info \<Rightarrow> info)"

fun infer_automated_data_interval :: "calendar \<Rightarrow> timetable \<Rightarrow> time \<Rightarrow> data_interval result" where
  "infer_automated_data_interval cal NullTimetable t = Inr (exact_interval t)"
| "infer_automated_data_interval cal OnceTimetable t = Inr (exact_interval t)"
| "infer_automated_data_interval cal DatasetTriggeredTimetable t = Inr (exact_interval t)"
| "infer_automated_data_interval cal (CronDataIntervalTimetable e tz) t =
     bind_err (cron_get_next cal e tz t) (\<lambda>end_time. Inr (t, end_time))"
| "infer_automated_data_interval cal (DeltaDataIntervalTimetable d) t = Inr (t, add_delta cal d t)"
| "infer_automated_data_interval cal _ t = Inl (ValueError ''Not a valid timetable'')"

definition get_next_data_interval :: "calendar \<Rightarrow> dag \<Rightarrow> dag_model \<Rightarrow> data_interval option result" where
  "get_next_data_interval cal d dm =
     (if d_dag_id d \<noteq> dm_dag_id dm then Inl (ValueError ''Arguments refer to different DAGs'')
      else case dm_next_dagrun dm of
        None \<Rightarrow> Inr None
      | Some t \<Rightarrow> (case dm_next_dagrun_data_interval dm of
          Some iv \<Rightarrow> Inr (Some iv)
        | None \<Rightarrow> bind_err (infer_automated_data_interval cal (d_timetable d) t) (\<lambda>iv. Inr (Some iv))))"

definition get_run_data_interval :: "calendar \<Rightarrow> dag \<Rightarrow> dag_run \<Rightarrow> data_interval result" where
  "get_run_data_interval cal d dr =
     (if dr_dag_id dr \<noteq> d_dag_id d then Inl (ValueError ''Arguments refer to different DAGs'')
      else case dr_data_interval dr of
        Some iv \<Rightarrow> Inr iv
      | None \<Rightarrow> infer_automated_data_interval cal (d_timetable d) (dr_execution_date dr))"

definition set_next_dagrun :: "dag_run_info option \<Rightarrow> dag_model \<Rightarrow> dag_model" where
  "set_next_dagrun info dm =
     (case info of
        None \<Rightarrow> dm\<lparr>dm_next_dagrun_data_interval := None, dm_next_dagrun := None, dm_next_dagrun_create_after := None\<rparr>
      | Some i \<Rightarrow> dm\<lparr>dm_next_dagrun_data_interval := Some (ri_data_interval i), dm_next_dagrun := Some (ri_logical_date i),
                     dm_next_dagrun_create_after := Some (ri_run_after i)\<rparr>)"

definition calculate_dagrun_date_fields :: "sched_env \<Rightarrow> dag \<Rightarrow> data_interval option \<Rightarrow> id_str \<Rightarrow> db \<Rightarrow> db" where
  "calculate_dagrun_date_fields env d last_interval dag_id s =
     update_dm dag_id (set_next_dagrun (dag_next_dagrun_info (se_calendar env) (se_now env) d last_interval True)) s"

text \<open>
  \<open>iter_dagrun_infos_between\<close>, as the list of all it yields. The clock stands still during the call.
\<close>

definition iter_dagrun_infos_between :: "calendar \<Rightarrow> time \<Rightarrow> dag \<Rightarrow> time option \<Rightarrow> time \<Rightarrow> bool \<Rightarrow>
    dag_run_info list result option" where
  "iter_dagrun_infos_between cal now d earliest latest align =
     (case (case earliest of Some e \<Rightarrow> Some e | None \<Rightarrow> rs_earliest (dag_time_restriction d)) of
        None \<Rightarrow> Some (Inl (ValueError ''earliest was None''))
      | Some e \<Rightarrow>
          let restriction = \<lparr>rs_earliest = Some e, rs_latest = Some latest, rs_catchup = True\<rparr>;
              align' = (align \<and> \<not> d_is_subdag d);
              next_of = (\<lambda>iv. next_dagrun_info cal now (d_timetable d) iv restriction) in
          case (case next_of None of Inl _ \<Rightarrow> None | Inr info \<Rightarrow> info) of
            None \<Rightarrow> Some (Inr (if align' then [] else [info_interval e latest]))
          | Some info \<Rightarrow>
              Option.bind (info_loop (\<lambda>iv. next_of (Some iv)) (Some info)) (\<lambda>infos.
                Some (Inr ((if \<not> align' \<and> ri_logical_date info \<noteq> e
                            then [info_interval e (fst (ri_data_interval info))] else []) @ infos))))"

subsection \<open>Creating runs\<close>

definition get_num_active_runs :: "dag \<Rightarrow> bool option \<Rightarrow> bool \<Rightarrow> db \<Rightarrow> int" where
  "get_num_active_runs d external_trigger only_running s =
     count_where (\<lambda>dr. dr_dag_id dr = d_dag_id d \<and>
       (if only_running then dr_state dr = DR_RUNNING else dr_state dr \<in> {DR_RUNNING, DR_QUEUED}) \<and>
       (case external_trigger of None \<Rightarrow> True | Some b \<Rightarrow> dr_external_trigger dr = b)) (db_drs s)"

text \<open>The run type and id of a new run: given, inferred from each other, or generated.\<close>

definition run_type_and_id :: "sched_env \<Rightarrow> DagRunType option \<Rightarrow> id_str option \<Rightarrow> time option \<Rightarrow>
    (DagRunType \<times> id_str) result" where
  "run_type_and_id env run_type run_id logical_date =
     (case run_id of
        Some (c # cs) \<Rightarrow>
          let inferred_run_type = from_run_id (c # cs) in
          (case run_type of
             None \<Rightarrow> Inr (inferred_run_type, c # cs)
           | Some rt \<Rightarrow> if rt = MANUAL \<and> inferred_run_type \<noteq> MANUAL then Inl (ValueError ''reserved run id'') else Inr (rt, c # cs))
      | _ \<Rightarrow> (case (run_type, logical_date) of
          (Some rt, Some t) \<Rightarrow> Inr (rt, generate_run_id (se_isoformat env) rt t)
        | _ \<Rightarrow> Inl (AirflowException ''Creating DagRun needs either `run_id` or both `run_type` and `execution_date`'')))"

definition check_run_id :: "sched_env \<Rightarrow> id_str \<Rightarrow> unit result" where
  "check_run_id env run_id =
     (if run_id \<noteq> [] \<and> \<not> se_run_id_generated env run_id \<and> \<not> se_run_id_allowed env run_id
      then Inl (AirflowException ''The provided run ID is invalid'') else Inr ())"

definition inferred_data_interval :: "calendar \<Rightarrow> dag \<Rightarrow> DagRunType option \<Rightarrow> time option \<Rightarrow> data_interval option \<Rightarrow>
    data_interval option result" where
  "inferred_data_interval cal d run_type logical_date data_interval =
     (case (data_interval, logical_date) of
        (None, Some t) \<Rightarrow>
          bind_err (if run_type = Some MANUAL then infer_manual_data_interval cal (d_timetable d) t
                    else infer_automated_data_interval cal (d_timetable d) t) (\<lambda>iv. Inr (Some iv))
      | _ \<Rightarrow> Inr data_interval)"

text \<open>The unique constraints of the table.\<close>

definition run_exists :: "id_str \<Rightarrow> id_str \<Rightarrow> time \<Rightarrow> db \<Rightarrow> bool" where
  "run_exists dag_id run_id execution_date s \<longleftrightarrow>
     list_ex (\<lambda>dr. dr_dag_id dr = dag_id \<and> (dr_run_id dr = run_id \<or> dr_execution_date dr = execution_date)) (db_drs s)"

definition prepare_dagrun :: "sched_env \<Rightarrow> dag \<Rightarrow> DagRunState \<Rightarrow> time option \<Rightarrow> id_str option \<Rightarrow> time option \<Rightarrow> bool \<Rightarrow>
    DagRunType option \<Rightarrow> string option \<Rightarrow> int option \<Rightarrow> data_interval option \<Rightarrow> db \<Rightarrow> dag_run result" where
  "prepare_dagrun env d state execution_date run_id start_date external_trigger run_type dag_hash creating_job_id
       data_interval s =
     bind_err (inferred_data_interval (se_calendar env) d run_type execution_date data_interval) (\<lambda>iv.
     bind_err (run_type_and_id env run_type run_id execution_date) (\<lambda>(rt, rid).
     bind_err (check_run_id env rid) (\<lambda>_.
       if \<not> se_valid_params env d then Inl ParamValidationError
       else
         let run_date = (case execution_date of None \<Rightarrow> se_now env | Some t \<Rightarrow> t) in
         if run_exists (d_dag_id d) rid run_date s then Inl IntegrityError
         else Inr (new_dag_run (se_now env) (se_new_id env s) (d_dag_id d) rid None run_date
                start_date external_trigger (Some state) rt dag_hash creating_job_id iv))))"

text \<open>
  \<open>create_dagrun\<close>. The database is returned in any case: when creating the task instances raises, the
  run has been written. A duplicate run makes the insertion fail (the state of the session after
  that is not modelled).
\<close>

definition create_dagrun :: "sched_env \<Rightarrow> dag \<Rightarrow> DagRunState \<Rightarrow> time option \<Rightarrow> id_str option \<Rightarrow> time option \<Rightarrow> bool \<Rightarrow>
    DagRunType option \<Rightarrow> string option \<Rightarrow> int option \<Rightarrow> data_interval option \<Rightarrow> db \<Rightarrow> dag_run result \<times> db" where
  "create_dagrun env d state execution_date run_id start_date external_trigger run_type dag_hash creating_job_id
       data_interval s =
     (case prepare_dagrun env d state execution_date run_id start_date external_trigger run_type dag_hash creating_job_id
             data_interval s of
        Inl e \<Rightarrow> (Inl e, s)
      | Inr run \<Rightarrow>
          let s1 = s\<lparr>db_drs := db_drs s @ [run]\<rparr> in
          (case verify_integrity (re_hook (se_run env)) d run s1 of
             Inl e \<Rightarrow> (Inl e, s1)
           | Inr s2 \<Rightarrow> (Inr run, s2)))"

subsection \<open>Runs that are due\<close>

text \<open>The DAGs all of whose datasets were updated since their last run, with the first and last update.\<close>

definition queue_times :: "id_str \<Rightarrow> db \<Rightarrow> time list" where
  "queue_times dag_id s = map dq_created_at (filter (\<lambda>q. dq_target_dag_id q = dag_id \<and>
     list_ex (\<lambda>r. sr_dag_id r = dag_id \<and> sr_dataset_id r = dq_dataset_id q) (db_schedule_refs s)) (db_dataset_queue s))"

definition dataset_triggered_dag_info :: "db \<Rightarrow> (id_str \<times> time \<times> time) list" where
  "dataset_triggered_dag_info s =
     map (\<lambda>dag_id. (dag_id, Min (set (queue_times dag_id s)), Max (set (queue_times dag_id s))))
       (filter (\<lambda>dag_id. list_all (\<lambda>r. sr_dag_id r \<noteq> dag_id \<or>
            list_ex (\<lambda>q. dq_target_dag_id q = dag_id \<and> dq_dataset_id q = sr_dataset_id r) (db_dataset_queue s)) (db_schedule_refs s))
          (remdups (map sr_dag_id (db_schedule_refs s))))"

definition at_active_runs_limit :: "id_str \<Rightarrow> db \<Rightarrow> bool" where
  "at_active_runs_limit dag_id s \<longleftrightarrow>
     (let active = count_where (\<lambda>dr. dr_dag_id dr = dag_id \<and> dr_state dr \<in> {DR_QUEUED, DR_RUNNING}) (db_drs s) in
      0 < active \<and> (case find_dm s dag_id of None \<Rightarrow> False | Some dm \<Rightarrow>
        (case dm_max_active_runs dm of None \<Rightarrow> False | Some n \<Rightarrow> n \<le> active)))"

definition due_key :: "bool \<Rightarrow> dag_model \<Rightarrow> int \<times> int" where
  "due_key nulls_first dm =
     (case dm_next_dagrun_create_after dm of None \<Rightarrow> (if nulls_first then 0 else 2, 0) | Some t \<Rightarrow> (1, t))"

definition dags_needing_dagruns :: "sched_env \<Rightarrow> db \<Rightarrow> dag_model list \<times> (id_str \<times> time \<times> time) list" where
  "dags_needing_dagruns env s =
     (let info = filter (\<lambda>(dag_id, _). \<not> at_active_runs_limit dag_id s) (dataset_triggered_dag_info s);
          due = filter (\<lambda>dm. \<not> dm_is_paused dm \<and> dm_is_active dm \<and> \<not> dm_has_import_errors dm \<and>
            ((case dm_next_dagrun_create_after dm of None \<Rightarrow> False | Some t \<Rightarrow> t \<le> se_now env) \<or> dict_has (dm_dag_id dm) info))
            (db_dms s) in
      (take (se_dags_per_loop env) (filter (\<lambda>dm. \<not> se_dag_locked env (dm_dag_id dm)) (sort_key (due_key (se_nulls_first env)) due)),
       info))"

text \<open>
  Whether a DAG may get another run; when it is at its limit, its next run is postponed until one of
  its runs ends.
\<close>

definition should_update_dag_next_dagruns :: "dag \<Rightarrow> id_str \<Rightarrow> dag_run option \<Rightarrow> int option \<Rightarrow> db \<Rightarrow> bool \<times> db" where
  "should_update_dag_next_dagruns d dag_id last_dag_run total_active_runs s =
     (if (case last_dag_run of None \<Rightarrow> False
          | Some dr \<Rightarrow> \<not> (dr_state dr \<in> set finished_dr_states \<and> dr_run_type dr \<in> {SCHEDULED_RUN, BACKFILL_JOB}))
      then (False, s)
      else if \<not> can_be_scheduled (d_timetable d) then (False, s)
      else
        let total = (case total_active_runs of Some n \<Rightarrow> if n = 0 then get_num_active_runs d None False s else n
                     | None \<Rightarrow> get_num_active_runs d None False s) in
        if total \<noteq> 0 \<and> d_max_active_runs d \<le> total
        then (False, update_dm dag_id (\<lambda>m. m\<lparr>dm_next_dagrun_create_after := None\<rparr>) s)
        else (True, s))"

text \<open>
  One turn of \<open>_create_dag_runs\<close>. What \<open>create_dagrun\<close> raises is logged; what the data interval of
  the model raises ends the loop.
\<close>

definition create_dag_run_for :: "sched_env \<Rightarrow> (id_str \<times> time) list \<Rightarrow> id_str \<Rightarrow> (id_str \<times> int) list \<Rightarrow> db \<Rightarrow>
    ((id_str \<times> int) list \<times> db) result" where
  "create_dag_run_for env existing_dagruns dag_id active s =
     (case (se_get_dag env dag_id, find_dm s dag_id) of
        (Some d, Some dm) \<Rightarrow>
          bind_err (get_next_data_interval (se_calendar env) d dm) (\<lambda>data_interval.
            let exists = (case dm_next_dagrun dm of None \<Rightarrow> False | Some t \<Rightarrow> (d_dag_id d, t) \<in> set existing_dagruns);
                finish = (\<lambda>active' s'.
                  let (update, s'') = should_update_dag_next_dagruns d dag_id None (Some (dict_get_or active' 0 (d_dag_id d))) s' in
                  (active', if update then calculate_dagrun_date_fields env d data_interval dag_id s'' else s'')) in
            if exists then Inr (finish active s)
            else case create_dagrun env d DR_QUEUED (dm_next_dagrun dm) None None False (Some SCHEDULED_RUN)
                   (se_dags_hash env (d_dag_id d)) (Some (se_job_id env)) data_interval s of
              (Inl _, s') \<Rightarrow> Inr (active, s')
            | (Inr _, s') \<Rightarrow> Inr (finish (counter_add (d_dag_id d) 1 active) s'))
      | _ \<Rightarrow> Inr (active, s))"

fun create_dag_runs_loop :: "sched_env \<Rightarrow> (id_str \<times> time) list \<Rightarrow> id_str list \<Rightarrow> (id_str \<times> int) list \<Rightarrow> db \<Rightarrow> db result" where
  "create_dag_runs_loop env existing_dagruns [] active s = Inr s"
| "create_dag_runs_loop env existing_dagruns (dag_id # ids) active s =
     bind_err (create_dag_run_for env existing_dagruns dag_id active s) (\<lambda>(active', s').
       create_dag_runs_loop env existing_dagruns ids active' s')"

definition existing_dagruns :: "(id_str \<times> time) list \<Rightarrow> db \<Rightarrow> (id_str \<times> time) list" where
  "existing_dagruns keys s =
     filter (\<lambda>k. k \<in> set keys) (map (\<lambda>dr. (dr_dag_id dr, dr_execution_date dr)) (db_drs s))"

definition create_dag_runs :: "sched_env \<Rightarrow> dag_model list \<Rightarrow> db \<Rightarrow> db result" where
  "create_dag_runs env dag_models s =
     (let ids = map dm_dag_id dag_models;
          keys = List.map_filter (\<lambda>dm. map_option (\<lambda>t. (dm_dag_id dm, t)) (dm_next_dagrun dm)) dag_models in
      create_dag_runs_loop env (existing_dagruns keys s) ids (active_runs_of_dags (Some ids) False s) s)"

end
