(* ===== verification/Scheduler_Loop.thy ===== *)
theory Scheduler_Loop
  imports Dag_Schedule
begin

text \<open>
  The scheduling loop (\<open>jobs/scheduler_job_runner.py\<close>): runs triggered by datasets, starting queued
  runs, deciding on running ones, the body of the loop that composes these with the critical section,
  and the periodic clean-ups: tasks of dead schedulers, timed out triggers, tasks without a
  heartbeat, stale DAGs and datasets nothing refers to. A callback the code sends is returned.
\<close>

subsection \<open>Runs triggered by datasets\<close>

definition previous_dataset_run :: "id_str \<Rightarrow> time \<Rightarrow> db \<Rightarrow> dag_run option" where
  "previous_dataset_run dag_id exec_date s =
     (case sort_key (\<lambda>dr. - dr_execution_date dr) (filter (\<lambda>dr. dr_dag_id dr = dag_id \<and>
          dr_execution_date dr < exec_date \<and> dr_run_type dr = DATASET_TRIGGERED) (db_drs s)) of
        [] \<Rightarrow> None | dr # _ \<Rightarrow> Some dr)"

definition consumed_events :: "id_str \<Rightarrow> time \<Rightarrow> db \<Rightarrow> dataset_event list" where
  "consumed_events dag_id exec_date s =
     filter (\<lambda>ev. list_ex (\<lambda>r. sr_dag_id r = dag_id \<and> sr_dataset_id r = ev_dataset_id ev) (db_schedule_refs s) \<and>
        ev_timestamp ev \<le> exec_date \<and>
        (case previous_dataset_run dag_id exec_date s of None \<Rightarrow> True | Some dr \<Rightarrow> dr_execution_date dr < ev_timestamp ev) \<and>
        find_dr s (ev_source_dag_id ev) (ev_source_run_id ev) \<noteq> None)
       (db_dataset_events s)"

text \<open>A source run without data interval (from before they were recorded) does not compare.\<close>

definition source_interval :: "db \<Rightarrow> dataset_event \<Rightarrow> data_interval result" where
  "source_interval s ev =
     (case find_dr s (ev_source_dag_id ev) (ev_source_run_id ev) of
        None \<Rightarrow> Inl (AttributeError ''source_dag_run'')
      | Some dr \<Rightarrow> (case dr_data_interval dr of None \<Rightarrow> Inl (TypeError ''NoneType'') | Some iv \<Rightarrow> Inr iv))"

definition create_dataset_run :: "sched_env \<Rightarrow> (id_str \<times> time) list \<Rightarrow> id_str \<Rightarrow> time \<Rightarrow> db \<Rightarrow> db result" where
  "create_dataset_run env existing dag_id exec_date s =
     (case se_get_dag env dag_id of
        None \<Rightarrow> Inr s
      | Some d \<Rightarrow>
          if d_timetable d \<noteq> DatasetTriggeredTimetable then Inr s
          else if (d_dag_id d, exec_date) \<in> set existing then Inr s
          else bind_err (map_err (source_interval s) (consumed_events (d_dag_id d) exec_date s)) (\<lambda>intervals.
            case create_dagrun env d DR_QUEUED (Some exec_date)
                   (Some (generate_run_id (se_isoformat env) DATASET_TRIGGERED exec_date)) None False (Some DATASET_TRIGGERED)
                   (se_dags_hash env (d_dag_id d)) (Some (se_job_id env))
                   (Some (data_interval_for_events exec_date intervals)) s of
              (Inl e, _) \<Rightarrow> Inl e
            | (Inr run, s') \<Rightarrow>
                Inr (s'\<lparr>db_dataset_queue := filter (\<lambda>q. dq_target_dag_id q \<noteq> dr_dag_id run) (db_dataset_queue s')\<rparr>)))"

fun create_dataset_runs_loop :: "sched_env \<Rightarrow> (id_str \<times> time) list \<Rightarrow> (id_str \<times> time) list \<Rightarrow> db \<Rightarrow> db result" where
  "create_dataset_runs_loop env existing [] s = Inr s"
| "create_dataset_runs_loop env existing ((dag_id, exec_date) # ids) s =
     bind_err (create_dataset_run env existing dag_id exec_date s) (create_dataset_runs_loop env existing ids)"

definition create_dag_runs_dataset_triggered :: "sched_env \<Rightarrow> dag_model list \<Rightarrow> (id_str \<times> time \<times> time) list \<Rightarrow> db \<Rightarrow> db result" where
  "create_dag_runs_dataset_triggered env dag_models info s =
     (let exec_dates = map (\<lambda>(dag_id, _, last_time). (dag_id, last_time)) info in
      create_dataset_runs_loop env (existing_dagruns exec_dates s)
        (List.map_filter (\<lambda>dm. map_option (\<lambda>t. (dm_dag_id dm, t)) (dict_get exec_dates (dm_dag_id dm))) dag_models) s)"

definition create_dagruns_for_dags :: "sched_env \<Rightarrow> db \<Rightarrow> db result" where
  "create_dagruns_for_dags env s =
     (let (all_dags, info) = dags_needing_dagruns env s;
          dataset_triggered = filter (\<lambda>dm. dict_has (dm_dag_id dm) info) all_dags;
          non_dataset = filter (\<lambda>dm. \<not> dict_has (dm_dag_id dm) info) all_dags in
      bind_err (create_dag_runs env non_dataset s) (\<lambda>s1.
        if dataset_triggered \<noteq> [] then create_dag_runs_dataset_triggered env dataset_triggered info s1 else Inr s1))"

subsection \<open>Starting queued runs\<close>

text \<open>The delay of a periodic run is measured when it starts, which needs its data interval.\<close>

definition start_dag_run :: "sched_env \<Rightarrow> dag \<Rightarrow> dag_run \<Rightarrow> dag_run result" where
  "start_dag_run env d dr =
     (let dr' = (set_dr_state (se_now env) DR_RUNNING dr)\<lparr>dr_start_date := Some (se_now env)\<rparr> in
      if periodic (d_timetable d) \<and> \<not> dr_external_trigger dr \<and> dr_clear_number dr < 1
      then bind_err (get_run_data_interval (se_calendar env) d dr) (\<lambda>_. Inr dr')
      else Inr dr')"

fun start_loop :: "sched_env \<Rightarrow> dag_run list \<Rightarrow> (id_str \<times> int) list \<Rightarrow> db \<Rightarrow> db result" where
  "start_loop env [] active s = Inr s"
| "start_loop env (dr # drs) active s =
     (case se_get_dag env (dr_dag_id dr) of
        None \<Rightarrow> start_loop env drs active s
      | Some d \<Rightarrow>
          if d_max_active_runs d \<noteq> 0 \<and> d_max_active_runs d \<le> dict_get_or active 0 (dr_dag_id dr)
          then start_loop env drs active s
          else bind_err (start_dag_run env d dr) (\<lambda>dr'.
            start_loop env drs (counter_add (dr_dag_id dr) 1 active)
              (update_dr (dr_dag_id dr) (dr_run_id dr) (\<lambda>_. dr') s)))"

definition start_queued_dagruns :: "sched_env \<Rightarrow> db \<Rightarrow> db result" where
  "start_queued_dagruns env s =
     (let dag_runs = next_dagruns_to_examine DR_QUEUED (se_now env) (se_allow_future env) (se_run_locked env)
            (se_runs_per_loop env) s in
      start_loop env dag_runs (active_runs_of_dags (Some (map dr_dag_id dag_runs)) True s) s)"

subsection \<open>Deciding on a run\<close>

definition timed_out :: "sched_env \<Rightarrow> dag \<Rightarrow> dag_run \<Rightarrow> bool" where
  "timed_out env d dr \<longleftrightarrow>
     (case (dr_start_date dr, d_dagrun_timeout d) of
        (Some t, Some timeout) \<Rightarrow> timeout \<noteq> 0 \<and> t < se_now env - timeout
      | _ \<Rightarrow> False)"

text \<open>\<open>IN\<close> does not find NULL: a task instance without state stays as it is.\<close>

definition skip_unfinished :: "id_str \<Rightarrow> id_str \<Rightarrow> task_instance \<Rightarrow> task_instance" where
  "skip_unfinished dag_id run_id ti =
     (if ti_dag_id ti = dag_id \<and> ti_run_id ti = run_id \<and> ti_state ti \<noteq> None \<and> unfinished (ti_state ti)
      then set_ti_state (Some SKIPPED) ti else ti)"

text \<open>The next run is planned when the last one, of the given row, has ended.\<close>

definition plan_next_run :: "sched_env \<Rightarrow> dag \<Rightarrow> id_str \<Rightarrow> id_str \<Rightarrow> db \<Rightarrow> db result" where
  "plan_next_run env d dag_id run_id s =
     (case find_dr s dag_id run_id of
        None \<Rightarrow> Inl (KeyError run_id)
      | Some dr \<Rightarrow>
          let (update, s') = should_update_dag_next_dagruns d dag_id (Some dr) None s in
          if \<not> update then Inr s'
          else bind_err (get_run_data_interval (se_calendar env) d dr) (\<lambda>iv.
            Inr (calculate_dagrun_date_fields env d (Some iv) dag_id s')))"

definition time_out_run :: "sched_env \<Rightarrow> dag \<Rightarrow> id_str \<Rightarrow> id_str \<Rightarrow> db \<Rightarrow> (run_callback option \<times> db) result" where
  "time_out_run env d dag_id run_id s =
     (let s1 = update_dr dag_id run_id (set_dr_state (se_now env) DR_FAILED) s;
          s2 = s1\<lparr>db_tis := map (skip_unfinished dag_id run_id) (db_tis s1)\<rparr> in
      bind_err (plan_next_run env d dag_id run_id s2) (\<lambda>s3.
        Inr (Some (RequestCallback \<lparr>cb_full_filepath = d_fileloc d, cb_dag_id = d_dag_id d, cb_run_id = run_id,
               cb_is_failure_callback = True,
               cb_processor_subdir = (case find_dm s dag_id of None \<Rightarrow> None | Some dm \<Rightarrow> dm_processor_subdir dm),
               cb_msg = ''timed_out''\<rparr>), s3)))"

definition verify_integrity_if_dag_changed :: "sched_env \<Rightarrow> dag_run \<Rightarrow> db \<Rightarrow> (bool \<times> db) result" where
  "verify_integrity_if_dag_changed env dr s =
     (let latest_version = se_latest_hash env (dr_dag_id dr) in
      if dr_dag_hash dr = latest_version then Inr (True, s)
      else
        let dr' = dr\<lparr>dr_dag_hash := latest_version\<rparr>;
            s1 = update_dr (dr_dag_id dr) (dr_run_id dr) (\<lambda>_. dr') s in
        case se_get_dag env (dr_dag_id dr) of
          None \<Rightarrow> Inr (False, s1)
        | Some d \<Rightarrow> bind_err (verify_integrity (re_hook (se_run env)) d dr' s1) (\<lambda>s2. Inr (True, s2)))"

definition schedule_dag_run :: "sched_env \<Rightarrow> id_str \<Rightarrow> id_str \<Rightarrow> db \<Rightarrow> (run_callback option \<times> db) result option" where
  "schedule_dag_run env dag_id run_id s =
     (case (se_get_dag env dag_id, if se_dag_locked env dag_id then None else find_dm s dag_id, find_dr s dag_id run_id) of
        (Some d, Some dm, Some dr) \<Rightarrow>
          if timed_out env d dr then Some (time_out_run env d dag_id run_id s)
          else if se_now env < dr_execution_date dr \<and> \<not> d_allow_future_exec_dates d then Some (Inr (None, s))
          else bind_run (Some (verify_integrity_if_dag_changed env dr s)) (\<lambda>(exists, s1).
            if \<not> exists then Some (Inr (None, s1))
            else bind_run (update_state (env_for env d) False dag_id run_id s1) (\<lambda>(schedulable_tis, callback, s2).
              Some (bind_err (plan_next_run env d dag_id run_id s2) (\<lambda>s3.
                bind_err (schedule_tis (se_now env) d dr (se_max_tis_per_query env) schedulable_tis s3) (\<lambda>(_, s4).
                  Inr (callback, s4))))))
      | _ \<Rightarrow> Some (Inr (None, s)))"

fun schedule_all_dag_runs :: "sched_env \<Rightarrow> (id_str \<times> id_str) list \<Rightarrow> db \<Rightarrow> ((id_str \<times> run_callback option) list \<times> db) result option" where
  "schedule_all_dag_runs env [] s = Some (Inr ([], s))"
| "schedule_all_dag_runs env ((dag_id, run_id) # runs) s =
     bind_run (schedule_dag_run env dag_id run_id s) (\<lambda>(callback, s1).
     bind_run (schedule_all_dag_runs env runs s1) (\<lambda>(callbacks, s2). Some (Inr ((dag_id, callback) # callbacks, s2))))"

subsection \<open>The body of the loop\<close>

text \<open>The critical section is skipped when the executor is full; when another scheduler holds its lock,
  what it did so far is rolled back.\<close>

definition enqueue_if_slots :: "critical_env \<Rightarrow> (id_str \<Rightarrow> (string \<times> bool) option) \<Rightarrow> int \<Rightarrow> 'z executor_scheme \<Rightarrow> db \<Rightarrow>
    (int \<times> 'z executor_scheme \<times> db) result" where
  "enqueue_if_slots cenv fileloc max_tis e s =
     (if slots_available e \<le> 0 then Inr (0, e, s)
      else case critical_section_enqueue_task_instances cenv fileloc max_tis e s of
        Inl (OperationalError _) \<Rightarrow> Inr (0, e, s)
      | r \<Rightarrow> r)"

definition do_scheduling :: "sched_env \<Rightarrow> bool \<Rightarrow> critical_env \<Rightarrow> (id_str \<Rightarrow> (string \<times> bool) option) \<Rightarrow> 'z executor_scheme \<Rightarrow> db \<Rightarrow>
    (run_callback list \<times> int \<times> 'z executor_scheme \<times> db) result option" where
  "do_scheduling env use_job_schedule cenv fileloc e s =
     bind_run (Some (if use_job_schedule then create_dagruns_for_dags env s else Inr s)) (\<lambda>s1.
     bind_run (Some (start_queued_dagruns env s1)) (\<lambda>s2.
       let dag_runs = next_dagruns_to_examine DR_RUNNING (se_now env) (se_allow_future env) (se_run_locked env)
             (se_runs_per_loop env) s2 in
       bind_run (schedule_all_dag_runs env (map (\<lambda>dr. (dr_dag_id dr, dr_run_id dr)) dag_runs) s2) (\<lambda>(callbacks, s3).
       bind_run (Some (enqueue_if_slots cenv fileloc (se_max_tis_per_query env) e s3)) (\<lambda>(num_queued_tis, e', s4).
         Some (Inr (List.map_filter (\<lambda>(dag_id, callback). if se_get_dag env dag_id = None then None else callback) callbacks,
           num_queued_tis, e', s4))))))"

subsection \<open>Periodic clean-ups\<close>

text \<open>\<open>_update_dag_run_state_for_paused_dags\<close>, one run of it; the query for the runs whose task instances
  changed since needs the rows' \<open>updated_at\<close>, so the runs are an argument.\<close>

definition update_paused_run :: "sched_env \<Rightarrow> id_str \<Rightarrow> id_str \<Rightarrow> db \<Rightarrow> (run_callback option \<times> db) result option" where
  "update_paused_run env dag_id run_id s =
     (case se_get_dag env dag_id of
        None \<Rightarrow> Some (Inr (None, s))
      | Some d \<Rightarrow> bind_run (update_state (env_for env d) False dag_id run_id s) (\<lambda>(_, callback, s'). Some (Inr (callback, s'))))"

text \<open>Schedulers without a heartbeat are marked as failed.\<close>

definition fail_dead_schedulers :: "time \<Rightarrow> duration \<Rightarrow> db \<Rightarrow> db" where
  "fail_dead_schedulers now timeout s =
     s\<lparr>db_jobs := map (\<lambda>j. if jb_job_type j = ''SchedulerJob'' \<and> jb_state j = Some JOB_RUNNING \<and> jb_latest_heartbeat j < now - timeout
         then j\<lparr>jb_state := Some JOB_FAILED\<rparr> else j) (db_jobs s)\<rparr>"

text \<open>An outer join: a task instance queued by no job is an orphan, one queued by a job that is not in
  the table is not.\<close>

definition orphaned :: "db \<Rightarrow> task_instance \<Rightarrow> bool" where
  "orphaned s ti \<longleftrightarrow> adoptable_states (ti_state ti) \<and>
     (case ti_queued_by_job_id ti of
        None \<Rightarrow> True
      | Some i \<Rightarrow> (case find (\<lambda>j. jb_id j = i) (db_jobs s) of None \<Rightarrow> False
          | Some j \<Rightarrow> (case jb_state j of None \<Rightarrow> False | Some st \<Rightarrow> st \<noteq> JOB_RUNNING))) \<and>
     (case find_dr s (ti_dag_id ti) (ti_run_id ti) of
        None \<Rightarrow> False
      | Some dr \<Rightarrow> dr_run_type dr \<noteq> BACKFILL_JOB \<and> dr_state dr = DR_RUNNING)"

definition reset_row :: "task_instance \<Rightarrow> task_instance" where
  "reset_row ti = ti\<lparr>ti_state := None, ti_queued_by_job_id := None\<rparr>"

definition adopt_row :: "int \<Rightarrow> task_instance \<Rightarrow> task_instance" where
  "adopt_row job_id ti = ti\<lparr>ti_queued_by_job_id := Some job_id\<rparr>"

text \<open>\<open>try_adopt\<close> is the executor's \<open>try_adopt_task_instances\<close>: those it could not adopt.\<close>

definition adopt_or_reset_orphaned_tasks :: "time \<Rightarrow> duration \<Rightarrow> int \<Rightarrow> (ti_primary \<Rightarrow> bool) \<Rightarrow>
    (task_instance list \<Rightarrow> ti_primary list) \<Rightarrow> db \<Rightarrow> int \<times> db" where
  "adopt_or_reset_orphaned_tasks now timeout job_id locked try_adopt s =
     (let s1 = fail_dead_schedulers now timeout s;
          tis_to_adopt_or_reset = filter (\<lambda>ti. orphaned s1 ti \<and> \<not> locked (ti_primary ti)) (db_tis s1);
          keys = map ti_primary tis_to_adopt_or_reset;
          to_reset = try_adopt tis_to_adopt_or_reset;
          s2 = s1\<lparr>db_tis := map (\<lambda>ti. if ti_primary ti \<in> set to_reset then reset_row ti
                 else if ti_primary ti \<in> set keys then adopt_row job_id ti else ti) (db_tis s1)\<rparr> in
      (int (length to_reset), s2))"

definition base_try_adopt :: "task_instance list \<Rightarrow> ti_primary list" where
  "base_try_adopt tis = map ti_primary tis"

text \<open>A deferred task instance whose trigger is late runs again, to fail.\<close>

definition trigger_late :: "time \<Rightarrow> task_instance \<Rightarrow> bool" where
  "trigger_late now ti \<longleftrightarrow> ti_state ti = Some DEFERRED \<and> (case ti_trigger_timeout ti of None \<Rightarrow> False | Some t \<Rightarrow> t < now)"

definition fail_trigger_row :: "task_instance \<Rightarrow> task_instance" where
  "fail_trigger_row ti = ti\<lparr>ti_state := Some SCHEDULED, ti_next_method := Some ''__fail__'',
     ti_next_kwargs := Some (PDict [(''error'', PStr ''Trigger/execution timeout'')]), ti_trigger_id := None\<rparr>"

definition check_trigger_timeouts :: "time \<Rightarrow> db \<Rightarrow> db" where
  "check_trigger_timeouts now s =
     s\<lparr>db_tis := map (\<lambda>ti. if trigger_late now ti then fail_trigger_row ti else ti) (db_tis s)\<rparr>"

definition stuck_in_queued :: "time \<Rightarrow> duration \<Rightarrow> int \<Rightarrow> db \<Rightarrow> task_instance list" where
  "stuck_in_queued now task_queued_timeout job_id s =
     filter (\<lambda>ti. ti_state ti = Some QUEUED \<and>
       (case ti_queued_dttm ti of None \<Rightarrow> False | Some t \<Rightarrow> t < now - task_queued_timeout) \<and>
       ti_queued_by_job_id ti = Some job_id) (db_tis s)"

text \<open>Tasks that run without a heartbeat are reported to the DAG processor, which fails them.\<close>

record task_callback_request =
  tcb_full_filepath :: string
  tcb_ti :: ti_primary
  tcb_is_failure_callback :: bool
  tcb_processor_subdir :: "string option"
  tcb_msg :: "(string \<times> string) list"

definition zombie_message_details :: "(int \<Rightarrow> string) \<Rightarrow> task_instance \<Rightarrow> (string \<times> string) list" where
  "zombie_message_details str_of ti =
     [(''DAG Id'', ti_dag_id ti), (''Task Id'', ti_task_id ti), (''Run Id'', ti_run_id ti)] @
     (if ti_map_index ti \<noteq> -1 then [(''Map Index'', str_of (ti_map_index ti))] else []) @
     (if ti_hostname ti \<noteq> [] then [(''Hostname'', ti_hostname ti)] else []) @
     (case ti_external_executor_id ti of None \<Rightarrow> [] | Some x \<Rightarrow> if x = [] then [] else [(''External Executor Id'', x)])"

definition zombie :: "time \<Rightarrow> int \<Rightarrow> db \<Rightarrow> task_instance \<Rightarrow> bool" where
  "zombie limit_dttm job_id s ti \<longleftrightarrow> ti_state ti = Some RUNNING \<and> ti_queued_by_job_id ti = Some job_id \<and>
     (case ti_job_id ti of None \<Rightarrow> False
      | Some i \<Rightarrow> (case find (\<lambda>j. jb_id j = i) (db_jobs s) of None \<Rightarrow> False
          | Some j \<Rightarrow> jb_job_type j = ''LocalTaskJob'' \<and>
              ((case jb_state j of None \<Rightarrow> False | Some st \<Rightarrow> st \<noteq> JOB_RUNNING) \<or> jb_latest_heartbeat j < limit_dttm)))"

definition find_zombies :: "time \<Rightarrow> duration \<Rightarrow> int \<Rightarrow> (int \<Rightarrow> string) \<Rightarrow> db \<Rightarrow> task_callback_request list" where
  "find_zombies now zombie_threshold job_id str_of s =
     List.map_filter (\<lambda>ti. if \<not> zombie (now - zombie_threshold) job_id s ti then None
       else map_option (\<lambda>dm. \<lparr>tcb_full_filepath = dm_fileloc dm, tcb_ti = ti_primary ti, tcb_is_failure_callback = True,
              tcb_processor_subdir = dm_processor_subdir dm, tcb_msg = zombie_message_details str_of ti\<rparr>)
            (find_dm s (ti_dag_id ti))) (db_tis s)"

text \<open>Stale DAGs become inactive; the ids are those removed from the serialised DAG table.\<close>

definition stale :: "time \<Rightarrow> dag_model \<Rightarrow> bool" where
  "stale limit_lpt dm \<longleftrightarrow> dm_is_active dm \<and> (case dm_last_parsed_time dm of None \<Rightarrow> False | Some t \<Rightarrow> t < limit_lpt)"

definition cleanup_stale_dags :: "time \<Rightarrow> duration \<Rightarrow> db \<Rightarrow> id_str list \<times> db" where
  "cleanup_stale_dags now not_seen_duration s =
     (let limit_lpt = now - not_seen_duration in
      (map dm_dag_id (filter (stale limit_lpt) (db_dms s)),
       s\<lparr>db_dms := map (\<lambda>dm. if stale limit_lpt dm then dm\<lparr>dm_is_active := False\<rparr> else dm) (db_dms s)\<rparr>))"

definition referenced :: "db \<Rightarrow> dataset_model \<Rightarrow> bool" where
  "referenced s dt \<longleftrightarrow> list_ex (\<lambda>r. sr_dataset_id r = dt_id dt) (db_schedule_refs s) \<or>
     list_ex (\<lambda>r. or_dataset_id r = dt_id dt) (db_outlet_refs s)"

definition orphan_unreferenced_datasets :: "db \<Rightarrow> db" where
  "orphan_unreferenced_datasets s =
     s\<lparr>db_datasets := map (\<lambda>dt. if referenced s dt then dt else dt\<lparr>dt_is_orphaned := True\<rparr>) (db_datasets s)\<rparr>"

end
