(* ===== verification/Schedule_Laws.thy ===== *)
theory Schedule_Laws
  imports Scheduler_Loop
begin

text \<open>
  What scheduling guarantees: the runs of a schedule cut time without gap or overlap, runs are never
  created twice and only started within the limits of their DAG, no task of a dead scheduler is
  left behind, and the body of the scheduling loop always ends.
\<close>

subsection \<open>The runs of a schedule\<close>

text \<open>The timetables that keep the contract of data intervals, and where their first interval starts.\<close>

fun interval_timetable :: "calendar \<Rightarrow> timetable \<Rightarrow> bool" where
  "interval_timetable cal (DeltaDataIntervalTimetable d) = positive_delta (cal, d)"
| "interval_timetable cal (CronDataIntervalTimetable e tz) = regular_cron (cal, e, tz)"
| "interval_timetable cal _ = False"

fun first_start :: "calendar \<Rightarrow> timetable \<Rightarrow> time \<Rightarrow> time result" where
  "first_start cal (CronDataIntervalTimetable e tz) t = cron_align_to_next cal e tz t"
| "first_start cal _ t = Inr t"


definition sample_calendar :: calendar where
  "sample_calendar = \<lparr>cal_parses = (\<lambda>_. True), cal_get_next = (\<lambda>_ n. Inr (n - n mod 60 + 60)),
     cal_get_prev = (\<lambda>_ n. Inr ((n - 1) - (n - 1) mod 60)), cal_covers_every_hour = (\<lambda>_. False),
     cal_make_naive = (\<lambda>_ t. t + 5), cal_make_aware = (\<lambda>_ t. t - 5), cal_add = (\<lambda>_ t. t), cal_sub = (\<lambda>_ t. t)\<rparr>"

lemma sample_calendar_regular: "regular_cron (sample_calendar, e, tz)"
proof -
  have floor: "n - n mod 60 = 60 * (n div 60)" for n :: int by (rule minus_mod_eq_mult_div)
  have bounds: "60 * (n div 60) \<le> n" "n < 60 * (n div 60) + 60" for n :: int
    using mult_div_mod_eq [of 60 n] pos_mod_bound [of 60 n] pos_mod_sign [of 60 n] by linarith+
  have minute: "\<exists>k. m = 60 * k" if "m mod 60 = 0" for m :: int
    using floor [of m] that by (intro exI [of _ "m div 60"]) simp
  have next_mod: "m mod 60 \<noteq> 0" if "n < m" "m < n - n mod 60 + 60" for n m :: int
  proof
    assume "m mod 60 = 0"
    then obtain k where "m = 60 * k" using minute by blast
    with that bounds [of n] floor [of n] have "n div 60 < k" "k < n div 60 + 1" by linarith+
    then show False by linarith
  qed
  have prev_mod: "m mod 60 \<noteq> 0" if "n - 1 - (n - 1) mod 60 < m" "m < n" for n m :: int
  proof
    assume "m mod 60 = 0"
    then obtain k where "m = 60 * k" using minute by blast
    with that bounds [of "n - 1"] floor [of "n - 1"] have "(n - 1) div 60 < k" "k < (n - 1) div 60 + 1" by linarith+
    then show False by linarith
  qed
  have near: "n < n - n mod 60 + 60" "(n - n mod 60 + 60) mod 60 = 0" "n - 1 - (n - 1) mod 60 < n"
    "(n - 1 - (n - 1) mod 60) mod 60 = 0" for n :: int
    using bounds [of n] bounds [of "n - 1"] by (simp_all add: floor)
  have "croniter_laws sample_calendar e (\<lambda>t. t mod 60 = 0)"
    by (simp add: croniter_laws_def sample_calendar_def near) (intro conjI allI impI, (elim conjE, rule next_mod prev_mod, assumption+)+)
  moreover have "fixed_offset sample_calendar tz 5" by (simp add: fixed_offset_def sample_calendar_def)
  ultimately show ?thesis by auto
qed


fun next_boundary :: "calendar \<Rightarrow> timetable \<Rightarrow> time \<Rightarrow> time result" where
  "next_boundary cal (CronDataIntervalTimetable e tz) t = cron_get_next cal e tz t"
| "next_boundary cal (DeltaDataIntervalTimetable d) t = Inr (add_delta cal d t)"
| "next_boundary cal _ t = Inr t"

lemma cron_on_schedule:
  assumes "regular_cron (cal, e, tz)" "cron_align_to_next cal e tz b = Inr b"
  shows "cron_align_to_prev cal e tz b = Inr b"
proof -
  obtain S where S: "fires cal e tz S" using assms(1) by (auto dest: regular_cron_fires)
  obtain n where "cron_get_next cal e tz b = Inr n" "b < n" by (rule fires_next [OF S, of b])
  with assms(2) have "S b" by (auto simp: cron_align(1) [OF S] split: if_splits)
  then show ?thesis by (simp add: cron_align(2) [OF S])
qed



subsection \<open>Starting runs\<close>

abbreviation dr_key :: "dag_run \<Rightarrow> id_str \<times> id_str" where
  "dr_key dr \<equiv> (dr_dag_id dr, dr_run_id dr)"

lemma find_dr_key:
  assumes "distinct (map dr_key (db_drs s))" "dr \<in> set (db_drs s)"
  shows "find_dr s (dr_dag_id dr) (dr_run_id dr) = Some dr"
proof -
  have "distinct (map dr_key xs) \<Longrightarrow> dr \<in> set xs \<Longrightarrow>
      find (\<lambda>x. dr_dag_id x = dr_dag_id dr \<and> dr_run_id x = dr_run_id dr) xs = Some dr" for xs
    by (induction xs) force+
  with assms show ?thesis by (simp add: find_dr_def)
qed

lemma find_dr_in: "find_dr s d r = Some dr \<Longrightarrow> dr \<in> set (db_drs s) \<and> dr_key dr = (d, r)"
  by (auto simp: find_dr_def find_Some_iff)

lemma count_where_map_one:
  assumes "distinct (map key xs)" "x \<in> set xs" "\<not> P x" "P y"
  shows "count_where P (map (\<lambda>z. if key z = key x then y else z) xs) = count_where P xs + 1"
  using assms(1,2)
proof (induction xs)
  case (Cons z zs)
  show ?case
  proof (cases "z = x")
    case True
    with Cons.prems(1) have "key z' \<noteq> key x" if "z' \<in> set zs" for z' using that by (metis distinct.simps(2) image_eqI list.set_map list.simps(9))
    then have "map (\<lambda>z. if key z = key x then y else z) zs = zs" by (intro map_idI) auto
    with True assms(3,4) show ?thesis by (simp add: comp_def)
  next
    case False
    with Cons.prems have "key z \<noteq> key x" "x \<in> set zs" by (auto simp: image_iff)
    with Cons show ?thesis by simp
  qed
qed simp

lemma count_where_map_same:
  "(\<And>z. z \<in> set xs \<Longrightarrow> P (f z) = P z) \<Longrightarrow> count_where P (map f xs) = count_where P xs"
  by (induction xs) auto

lemma list_all2_in2: "list_all2 P xs ys \<Longrightarrow> y \<in> set ys \<Longrightarrow> \<exists>x \<in> set xs. P x y"
  by (induction xs ys rule: list_all2_induct) auto

lemma num_running_start:
  assumes "distinct (map dr_key (db_drs s))" "dr \<in> set (db_drs s)" "dr_state dr \<noteq> DR_RUNNING" "dr_key dr' = dr_key dr"
    "dr_state dr' = DR_RUNNING"
  shows "num_running D (update_dr (dr_dag_id dr) (dr_run_id dr) (\<lambda>_. dr') s) =
    num_running D s + (if D = dr_dag_id dr then 1 else 0)"
proof (cases "D = dr_dag_id dr")
  case True
  with count_where_map_one [OF assms(1,2), of "\<lambda>dr. dr_dag_id dr = D \<and> dr_state dr = DR_RUNNING" dr'] assms(3-5)
  show ?thesis by (simp add: num_running_def update_dr_def)
next
  case False
  with assms(4) show ?thesis
    by (auto simp: num_running_def update_dr_def split: if_splits intro!: count_where_map_same)
qed

lemma active_runs_count:
  "dict_get_or (active_runs_of_dags (Some ids) True s) 0 D = (if D \<in> set ids then num_running D s else 0)"
proof -
  let ?counted = "filter (\<lambda>dr. dr_dag_id dr \<in> set ids \<and> dr_state dr = DR_RUNNING) (db_drs s)"
  have "dict_get (map (\<lambda>d. (d, f d)) ks) D = (if D \<in> set ks then Some (f D) else None)" for f :: "id_str \<Rightarrow> int" and ks
    by (induction ks) auto
  moreover have "count_where (\<lambda>dr. dr_dag_id dr = D) ?counted = (if D \<in> set ids then num_running D s else 0)"
    by (auto simp: num_running_def count_where_filter count_where_zero_iff intro!: count_where_cong)
  moreover have "D \<notin> dr_dag_id ` set ?counted \<Longrightarrow> count_where (\<lambda>dr. dr_dag_id dr = D) ?counted = 0"
    by (auto simp: count_where_zero_iff)
  ultimately show ?thesis by (auto simp: active_runs_of_dags_def Let_def dict_get_or_def simp del: set_filter)
qed

lemma start_dag_run_row:
  "start_dag_run env d dr = Inr dr' \<Longrightarrow> dr_key dr' = dr_key dr \<and> dr_state dr' = DR_RUNNING \<and> dr_start_date dr' = Some (se_now env)"
  by (auto simp: start_dag_run_def Let_def split: if_split_asm)

text \<open>A run that starts, and a run that stays queued because its DAG is gone or at its limit.\<close>

definition starts :: "sched_env \<Rightarrow> dag_run \<Rightarrow> dag_run \<Rightarrow> bool" where
  "starts env dr dr' \<longleftrightarrow> dr_key dr' = dr_key dr \<and> dr_state dr = DR_QUEUED \<and> dr_state dr' = DR_RUNNING \<and>
     dr_start_date dr' = Some (se_now env) \<and> se_get_dag env (dr_dag_id dr) \<noteq> None"

definition held_back :: "sched_env \<Rightarrow> db \<Rightarrow> dag_run \<Rightarrow> bool" where
  "held_back env s dr \<longleftrightarrow> (case se_get_dag env (dr_dag_id dr) of None \<Rightarrow> True
     | Some d \<Rightarrow> d_max_active_runs d \<noteq> 0 \<and> d_max_active_runs d \<le> num_running (dr_dag_id dr) s)"

text \<open>Queued runs that start: nothing else changes, and no DAG goes over its limit.\<close>

definition only_started :: "sched_env \<Rightarrow> dag_run set \<Rightarrow> db \<Rightarrow> db \<Rightarrow> bool" where
  "only_started env drs s s' \<longleftrightarrow> s' = s\<lparr>db_drs := db_drs s'\<rparr> \<and>
     list_all2 (\<lambda>dr dr'. dr' = dr \<or> dr \<in> drs \<and> starts env dr dr') (db_drs s) (db_drs s') \<and>
     (\<forall>D. num_running D s \<le> num_running D s') \<and>
     (\<forall>D d. se_get_dag env D = Some d \<and> d_max_active_runs d \<noteq> 0 \<longrightarrow> num_running D s' \<le> max (num_running D s) (d_max_active_runs d))"

lemma only_started_refl: "only_started env drs s s"
  by (simp add: only_started_def list_all2_refl)

lemma only_started_trans:
  assumes "only_started env A s t" "only_started env B t u"
  shows "only_started env (A \<union> B) s u"
proof -
  have "list_all2 (\<lambda>dr dr'. dr' = dr \<or> dr \<in> A \<union> B \<and> starts env dr dr') (db_drs s) (db_drs u)"
    using assms unfolding only_started_def
    by (elim conjE) (rule list_all2_trans [rotated], assumption, assumption, auto simp: starts_def)
  moreover have "u = s\<lparr>db_drs := db_drs u\<rparr>"
  proof -
    have t: "t = s\<lparr>db_drs := db_drs t\<rparr>" and u: "u = t\<lparr>db_drs := db_drs u\<rparr>"
      using assms unfolding only_started_def by blast+
    have "t\<lparr>db_drs := X\<rparr> = s\<lparr>db_drs := X\<rparr>" for X by (subst t) simp
    with u show ?thesis by (rule trans)
  qed
  moreover have "num_running D s \<le> num_running D u" for D
    using assms unfolding only_started_def by (meson order_trans)
  moreover have "num_running D u \<le> max (num_running D s) (d_max_active_runs d)"
    if "se_get_dag env D = Some d" "d_max_active_runs d \<noteq> 0" for D d
    using assms that unfolding only_started_def by fastforce
  ultimately show ?thesis unfolding only_started_def by blast
qed

lemma only_started_gone:
  assumes "only_started env A s t" "dr \<notin> set (db_drs s)" "dr_state dr = DR_QUEUED"
  shows "dr \<notin> set (db_drs t)"
proof
  assume "dr \<in> set (db_drs t)"
  with assms(1) obtain z where "z \<in> set (db_drs s)" "dr = z \<or> z \<in> A \<and> starts env z dr"
    unfolding only_started_def by (blast dest: list_all2_in2)
  with assms(2,3) show False by (auto simp: starts_def)
qed

lemma only_started_one:
  assumes "distinct (map dr_key (db_drs s))" "dr \<in> set (db_drs s)" "dr_state dr = DR_QUEUED" "start_dag_run env d dr = Inr dr'"
    "se_get_dag env (dr_dag_id dr) = Some d"
    "d_max_active_runs d \<noteq> 0 \<longrightarrow> num_running (dr_dag_id dr) s < d_max_active_runs d"
  defines "s1 \<equiv> update_dr (dr_dag_id dr) (dr_run_id dr) (\<lambda>_. dr') s"
  shows "only_started env {dr} s s1" "map dr_key (db_drs s1) = map dr_key (db_drs s)" "dr \<notin> set (db_drs s1)"
    "num_running D s1 = num_running D s + (if D = dr_dag_id dr then 1 else 0)"
    "z \<in> set (db_drs s) \<Longrightarrow> dr_key z \<noteq> dr_key dr \<Longrightarrow> z \<in> set (db_drs s1)"
proof -
  note row = start_dag_run_row [OF assms(4)]
  have one: "db_drs s1 = map (\<lambda>z. if dr_key z = dr_key dr then dr' else z) (db_drs s)" by (simp add: s1_def update_dr_def)
  show run: "num_running D s1 = num_running D s + (if D = dr_dag_id dr then 1 else 0)" for D
    using num_running_start [OF assms(1,2)] assms(3) row by (simp add: s1_def)
  show "map dr_key (db_drs s1) = map dr_key (db_drs s)" using row by (auto simp: one)
  show "z \<in> set (db_drs s1)" if "z \<in> set (db_drs s)" "dr_key z \<noteq> dr_key dr" for z
    unfolding one set_map using that by (intro image_eqI [of _ _ z]) (simp_all only: if_False simp_thms)
  have only: "z = dr" if "z \<in> set (db_drs s)" "dr_key z = dr_key dr" for z
    using assms(1) unfolding distinct_map by (elim conjE inj_onD) (rule that(2), rule that(1), rule assms(2))
  show "dr \<notin> set (db_drs s1)"
  proof
    assume "dr \<in> set (db_drs s1)"
    then obtain y where "y \<in> set (db_drs s)" "dr = (if dr_key y = dr_key dr then dr' else y)" unfolding one by auto
    then show False using assms(3) row by (cases "dr_key y = dr_key dr") (simp, metis)
  qed
  have "starts env dr dr'" using row assms(3,5) by (simp add: starts_def)
  then have "list_all2 (\<lambda>z z'. z' = z \<or> z \<in> {dr} \<and> starts env z z') (db_drs s) (db_drs s1)"
    unfolding one list_all2_map2 by (intro list.rel_refl_strong) (auto dest: only)
  moreover have "s1 = s\<lparr>db_drs := db_drs s1\<rparr>" by (simp add: s1_def update_dr_def)
  moreover have "num_running D s1 \<le> max (num_running D s) (d_max_active_runs d')"
    if "se_get_dag env D = Some d'" "d_max_active_runs d' \<noteq> 0" for D d'
    using that assms(5,6) by (auto simp: run)
  moreover have "num_running D s \<le> num_running D s1" for D by (simp add: run)
  ultimately show "only_started env {dr} s s1" unfolding only_started_def by blast
qed

lemma start_loop_spec:
  assumes "start_loop env drs active s = Inr s'" "distinct (map dr_key (db_drs s))" "distinct (map dr_key drs)"
    "\<forall>dr \<in> set drs. dr \<in> set (db_drs s) \<and> dr_state dr = DR_QUEUED \<and> dict_get_or active 0 (dr_dag_id dr) = num_running (dr_dag_id dr) s"
  shows "only_started env (set drs) s s' \<and> (\<forall>dr \<in> set drs. dr \<in> set (db_drs s') \<longrightarrow> held_back env s' dr)"
  using assms
proof (induction drs arbitrary: active s)
  case (Cons dr drs)
  from Cons.prems(3,4) have dr: "dr \<in> set (db_drs s)" "dr_state dr = DR_QUEUED"
    "dict_get_or active 0 (dr_dag_id dr) = num_running (dr_dag_id dr) s" "dr_key dr \<notin> dr_key ` set drs" by auto
  show ?case
  proof (cases "held_back env s dr")
    case True
    then have "start_loop env drs active s = Inr s'" using Cons.prems(1) dr(3)
      by (auto simp: held_back_def split: option.split_asm)
    from Cons.IH [OF this Cons.prems(2)] Cons.prems(3,4) have ih: "only_started env (set drs) s s'"
      "\<forall>dr \<in> set drs. dr \<in> set (db_drs s') \<longrightarrow> held_back env s' dr" by simp_all
    from True ih(1) have "held_back env s' dr"
      by (auto simp: held_back_def only_started_def split: option.splits intro: order_trans)
    moreover have "only_started env (set (dr # drs)) s s'"
      using only_started_trans [OF only_started_refl ih(1), of "{dr}"] by simp
    ultimately show ?thesis using ih(2) by simp
  next
    case False
    then obtain d where d: "se_get_dag env (dr_dag_id dr) = Some d"
      "d_max_active_runs d \<noteq> 0 \<longrightarrow> num_running (dr_dag_id dr) s < d_max_active_runs d"
      by (auto simp: held_back_def split: option.split_asm)
    with Cons.prems(1) dr(3) obtain dr' where st: "start_dag_run env d dr = Inr dr'"
      and l: "start_loop env drs (counter_add (dr_dag_id dr) 1 active)
        (update_dr (dr_dag_id dr) (dr_run_id dr) (\<lambda>_. dr') s) = Inr s'" by (auto split: if_split_asm)
    let ?s = "update_dr (dr_dag_id dr) (dr_run_id dr) (\<lambda>_. dr') s"
    note one = only_started_one [OF Cons.prems(2) dr(1,2) st d]
    have "z \<in> set (db_drs ?s)" if z: "z \<in> set drs" for z
    proof (rule one(5))
      show "z \<in> set (db_drs s)" using z Cons.prems(4) by simp
      have "dr_key z \<in> dr_key ` set drs" using z by (rule imageI)
      with dr(4) show "dr_key z \<noteq> dr_key dr" by metis
    qed
    with Cons.prems(4) have "\<forall>z \<in> set drs. z \<in> set (db_drs ?s) \<and> dr_state z = DR_QUEUED \<and>
        dict_get_or (counter_add (dr_dag_id dr) 1 active) 0 (dr_dag_id z) = num_running (dr_dag_id z) ?s"
      by (auto simp: one(4) store_simps)
    with Cons.IH [OF l] one(2) Cons.prems(2,3) have ih: "only_started env (set drs) ?s s'"
      "\<forall>dr \<in> set drs. dr \<in> set (db_drs s') \<longrightarrow> held_back env s' dr" by simp_all
    with only_started_trans [OF one(1) ih(1)] only_started_gone [OF ih(1) one(3) dr(2)] show ?thesis by simp
  qed
qed (simp add: only_started_refl)

text \<open>
  C8. Starting queued runs never takes a DAG over its \<open>max_active_runs\<close>: what it changes are queued
  runs it looked at, which now run from this moment on, and a run it looked at is left queued only if
  its DAG is gone or has reached the limit.
\<close>

theorem start_queued_dagruns_limits:
  assumes "start_queued_dagruns env s = Inr s'" "distinct (map dr_key (db_drs s))"
    "examined = next_dagruns_to_examine DR_QUEUED (se_now env) (se_allow_future env) (se_run_locked env) (se_runs_per_loop env) s"
  shows "(\<forall>dag_id d. se_get_dag env dag_id = Some d \<and> d_max_active_runs d \<noteq> 0 \<longrightarrow>
      num_running dag_id s' \<le> max (num_running dag_id s) (d_max_active_runs d)) \<and>
    s' = s\<lparr>db_drs := db_drs s'\<rparr> \<and>
    list_all2 (\<lambda>dr dr'. dr' = dr \<or> dr \<in> set examined \<and> starts env dr dr') (db_drs s) (db_drs s') \<and>
    (\<forall>dr \<in> set examined. dr \<in> set (db_drs s') \<longrightarrow> held_back env s' dr)"
proof -
  let ?found = "sort_key examine_key (filter (examinable DR_QUEUED (se_now env) (se_allow_future env) s) (db_drs s))"
  have ex: "examined = take (se_runs_per_loop env) (filter (\<lambda>dr. \<not> se_run_locked env dr) ?found)"
    by (simp add: assms(3) next_dagruns_to_examine_def)
  have "distinct (map dr_key (filter P (db_drs s)))" for P using assms(2) by (simp add: distinct_map_filter)
  then have "distinct (map dr_key ?found)"
    by (simp add: distinct_map distinct_sort)
  then have d: "distinct (map dr_key examined)" unfolding ex take_map [symmetric]
    by (intro distinct_take) (rule distinct_map_filter)
  have "dr \<in> set (db_drs s) \<and> dr_state dr = DR_QUEUED" if "dr \<in> set examined" for dr
  proof -
    from that have "dr \<in> set (filter (\<lambda>dr. \<not> se_run_locked env dr) ?found)" unfolding ex by (rule in_set_takeD)
    then show ?thesis by (simp add: examinable_def)
  qed
  then have row: "\<forall>dr \<in> set examined. dr \<in> set (db_drs s) \<and> dr_state dr = DR_QUEUED \<and>
      dict_get_or (active_runs_of_dags (Some (map dr_dag_id examined)) True s) 0 (dr_dag_id dr) = num_running (dr_dag_id dr) s"
    by (simp add: active_runs_count)
  from assms(1,3) have "start_loop env examined (active_runs_of_dags (Some (map dr_dag_id examined)) True s) s = Inr s'"
    by (simp add: start_queued_dagruns_def Let_def)
  from start_loop_spec [OF this assms(2) d row] show ?thesis unfolding only_started_def by blast
qed

definition sample_sched_env :: "dag \<Rightarrow> sched_env" where
  "sample_sched_env d = \<lparr>se_run = sample_run_env d, se_get_dag = (\<lambda>i. if i = ''d'' then Some d else None),
     se_dags_hash = (\<lambda>_. None), se_latest_hash = (\<lambda>_. None), se_calendar = sample_calendar, se_isoformat = (\<lambda>_. ''t''),
     se_run_id_allowed = (\<lambda>_. True), se_run_id_generated = (\<lambda>_. True), se_valid_params = (\<lambda>_. True), se_job_id = 1,
     se_new_id = (\<lambda>_. 7), se_nulls_first = True, se_dag_locked = (\<lambda>_. False), se_run_locked = (\<lambda>_. False),
     se_allow_future = True, se_max_tis_per_query = 0, se_dags_per_loop = 10, se_runs_per_loop = 20\<rparr>"

lemma start_queued_dagruns_limits_witness:
  "\<exists>s'. start_queued_dagruns (sample_sched_env (sample_dag []))
      ((sample_db [])\<lparr>db_drs := [sample_dr ''a'' 1 DR_RUNNING, sample_dr ''b'' 2 DR_QUEUED, sample_dr ''c'' 3 DR_QUEUED]\<rparr>) = Inr s' \<and>
    num_running ''d'' s' \<le> 2"
proof -
  let ?env = "sample_sched_env (sample_dag [])"
  let ?s = "(sample_db [])\<lparr>db_drs := [sample_dr ''a'' 1 DR_RUNNING, sample_dr ''b'' 2 DR_QUEUED, sample_dr ''c'' 3 DR_QUEUED]\<rparr>"
  have "case start_queued_dagruns ?env ?s of Inl _ \<Rightarrow> False | Inr _ \<Rightarrow> True" by code_simp
  then obtain s' where r: "start_queued_dagruns ?env ?s = Inr s'" by (auto split: sum.splits)
  have "distinct (map dr_key (db_drs ?s))" by (simp add: sample_defs)
  from start_queued_dagruns_limits [OF r this refl, THEN conjunct1, rule_format, of "''d''" "sample_dag []"]
  have "num_running ''d'' s' \<le> max (num_running ''d'' ?s) 2"
    by (simp add: sample_sched_env_def sample_dag_def)
  moreover have "num_running ''d'' ?s = 1" by code_simp
  ultimately show ?thesis using r by simp
qed

subsection \<open>Tasks of dead schedulers\<close>

text \<open>A task instance as adoption leaves it: with the new scheduler, or without state and scheduler.\<close>

definition adopted :: "int \<Rightarrow> task_instance \<Rightarrow> task_instance \<Rightarrow> bool" where
  "adopted job_id ti ti' \<longleftrightarrow> ti' = ti\<lparr>ti_queued_by_job_id := Some job_id\<rparr> \<or>
     ti' = ti\<lparr>ti_state := None, ti_queued_by_job_id := None\<rparr>"



subsection \<open>Creating runs\<close>

text \<open>What the unique constraints of the table say.\<close>

definition unique_runs :: "db \<Rightarrow> bool" where
  "unique_runs s \<longleftrightarrow> distinct (map dr_key (db_drs s)) \<and> distinct (map (\<lambda>dr. (dr_dag_id dr, dr_execution_date dr)) (db_drs s))"

definition dag_bag_ok :: "sched_env \<Rightarrow> bool" where
  "dag_bag_ok env \<longleftrightarrow> (\<forall>i d. se_get_dag env i = Some d \<longrightarrow> d_dag_id d = i)"

lemma check_loop_tables:
  "check_for_removed_or_restored_tasks hook d dr ks s = Inr (ids, s') \<Longrightarrow> s' = s\<lparr>db_tis := db_tis s'\<rparr>"
proof (induction hook d dr ks s arbitrary: ids s' rule: check_for_removed_or_restored_tasks.induct)
  case (2 hook d dr k ks s)
  then obtain ti ti' ids' where ti: "find_ti s k = Some ti" "check_row d dr s (hook ti) = Inr ti'"
    and l: "check_for_removed_or_restored_tasks hook d dr ks (update_ti k (\<lambda>_. ti') s) = Inr (ids', s')"
    by (auto simp del: bind_err_Inr_iff elim!: bind_err_InrE split: option.split_asm prod.split_asm)
  from "2.IH" [OF ti l] show ?case by (simp add: update_ti_def)
qed simp

lemma verify_integrity_tables: "verify_integrity hook d dr s = Inr s' \<Longrightarrow> s' = s\<lparr>db_tis := db_tis s'\<rparr>"
  by (auto simp: verify_integrity_def simp del: bind_err_Inr_iff elim!: bind_err_InrE split: prod.split_asm
      dest!: check_loop_tables) (metis (no_types) db.select_convs(1) db.surjective db.update_convs(1))

lemma run_type_and_id_scheduled:
  "run_type_and_id env (Some rt) None t = Inr (rt', rid) \<Longrightarrow> rt' = rt \<and> t \<noteq> None"
  by (auto simp: run_type_and_id_def split: option.split_asm)

lemma create_dagrun_spec:
  assumes "create_dagrun env d st t None sd ext (Some rt) dh cj iv s = (r, s')"
  shows "s' = s\<lparr>db_tis := db_tis s', db_drs := db_drs s'\<rparr> \<and>
    (db_drs s' = db_drs s \<and> (\<exists>e. r = Inl e) \<or>
     (\<exists>run. db_drs s' = db_drs s @ [run] \<and> \<not> run_exists (dr_dag_id run) (dr_run_id run) (dr_execution_date run) s \<and>
       dr_dag_id run = d_dag_id d \<and> dr_run_type run = rt \<and> dr_state run = st \<and> t = Some (dr_execution_date run)))"
proof -
  let ?prepared = "prepare_dagrun env d st t None sd ext (Some rt) dh cj iv s"
  have c: "(case ?prepared of Inl e \<Rightarrow> (Inl e, s) | Inr run \<Rightarrow>
      let s1 = s\<lparr>db_drs := db_drs s @ [run]\<rparr> in
      (case verify_integrity (re_hook (se_run env)) d run s1 of Inl e \<Rightarrow> (Inl e, s1) | Inr s2 \<Rightarrow> (Inr run, s2))) = (r, s')"
    using assms by (simp add: create_dagrun_def)
  show ?thesis
  proof (cases ?prepared)
    case (Inl e)
    with c have "r = Inl e" "s' = s" by simp_all
    then show ?thesis by simp
  next
    case (Inr run)
    then have run: "\<not> run_exists (dr_dag_id run) (dr_run_id run) (dr_execution_date run) s"
      "dr_dag_id run = d_dag_id d" "dr_run_type run = rt" "dr_state run = st" "t = Some (dr_execution_date run)"
      by (auto simp: prepare_dagrun_def Let_def new_dag_run_def simp del: bind_err_Inr_iff elim!: bind_err_InrE
          split: prod.split_asm if_split_asm option.split_asm dest!: run_type_and_id_scheduled)
    let ?s1 = "s\<lparr>db_drs := db_drs s @ [run]\<rparr>"
    have "s' = ?s1\<lparr>db_tis := db_tis s'\<rparr>"
    proof (cases "verify_integrity (re_hook (se_run env)) d run ?s1")
      case (Inl e)
      with c \<open>?prepared = Inr run\<close> show ?thesis by simp
    next
      case (Inr s2)
      with c \<open>?prepared = Inr run\<close> have "s' = s2" by simp
      with verify_integrity_tables [OF Inr] show ?thesis by simp
    qed
    then have "db_drs s' = db_drs s @ [run]" "s' = s\<lparr>db_tis := db_tis s', db_drs := db_drs s'\<rparr>"
      by (metis db.select_convs(2) db.surjective db.update_convs(1,2))+
    with run show ?thesis by blast
  qed
qed

lemma unique_runs_add:
  assumes "unique_runs s" "\<not> run_exists (dr_dag_id run) (dr_run_id run) (dr_execution_date run) s" "db_drs s' = db_drs s @ [run]"
  shows "unique_runs s'"
  using assms by (auto simp: unique_runs_def run_exists_def list_ex_iff)

definition scheduled_for :: "db \<Rightarrow> dag_run \<Rightarrow> bool" where
  "scheduled_for s run \<longleftrightarrow> dr_run_type run = SCHEDULED_RUN \<and> dr_state run = DR_QUEUED \<and>
     (\<exists>dm. find_dm s (dr_dag_id run) = Some dm \<and> dm_next_dagrun dm = Some (dr_execution_date run))"

lemma find_dm_update_dm:
  "(\<And>m. dm_dag_id (f m) = dm_dag_id m) \<Longrightarrow> i \<noteq> j \<Longrightarrow> find_dm (update_dm i f s) j = find_dm s j"
  using find_map_update [of dm_dag_id f j i "db_dms s"] by (simp add: find_dm_def update_dm_def)

lemma update_dm_tables [simp]: "db_drs (update_dm i f s) = db_drs s" "db_tis (update_dm i f s) = db_tis s"
  by (simp_all add: update_dm_def)

lemma should_update_tables:
  "should_update_dag_next_dagruns d i dr n s = (b, s') \<Longrightarrow>
   db_drs s' = db_drs s \<and> db_tis s' = db_tis s \<and> (\<forall>j. j \<noteq> i \<longrightarrow> find_dm s' j = find_dm s j)"
  by (auto simp: should_update_dag_next_dagruns_def Let_def find_dm_update_dm split: if_split_asm)

lemma calculate_fields_tables:
  "db_drs (calculate_dagrun_date_fields env d iv i s) = db_drs s" "db_tis (calculate_dagrun_date_fields env d iv i s) = db_tis s"
  "j \<noteq> i \<Longrightarrow> find_dm (calculate_dagrun_date_fields env d iv i s) j = find_dm s j"
  by (auto simp: calculate_dagrun_date_fields_def set_next_dagrun_def find_dm_update_dm split: option.splits)

lemma create_dag_run_for_spec:
  assumes "create_dag_run_for env existing i active s = Inr (active', s')" "dag_bag_ok env" "unique_runs s"
  shows "unique_runs s' \<and> (\<forall>j. j \<noteq> i \<longrightarrow> find_dm s' j = find_dm s j) \<and>
    (\<exists>new. db_drs s' = db_drs s @ new \<and> length new \<le> 1 \<and> (\<forall>run \<in> set new. dr_dag_id run = i \<and> scheduled_for s run))"
proof (cases "(se_get_dag env i, find_dm s i)")
  case (Pair a b)
  show ?thesis
  proof (cases "a = None \<or> b = None")
    case True
    with assms Pair show ?thesis by (auto simp: create_dag_run_for_def split: option.split_asm)
  next
    case False
    then obtain d dm where d: "se_get_dag env i = Some d" "find_dm s i = Some dm" using Pair by auto
    have i: "d_dag_id d = i" using assms(2) d(1) by (simp add: dag_bag_ok_def)
    define finish where "finish = (\<lambda>iv active' s'.
      let (update, s'') = should_update_dag_next_dagruns d i None (Some (dict_get_or active' 0 (d_dag_id d))) s' in
      (active', if update then calculate_dagrun_date_fields env d iv i s'' else s''))"
    have fin: "db_drs s2 = db_drs s1 \<and> (\<forall>j. j \<noteq> i \<longrightarrow> find_dm s2 j = find_dm s1 j)" if "finish iv a1 s1 = (a2, s2)" for iv a1 s1 a2 s2
      using that by (auto simp: finish_def calculate_fields_tables split: prod.split_asm if_split_asm dest!: should_update_tables)
    define turn where "turn = (\<lambda>iv. if (case dm_next_dagrun dm of None \<Rightarrow> False | Some t \<Rightarrow> (d_dag_id d, t) \<in> set existing)
        then (Inr (finish iv active s) :: ((id_str \<times> int) list \<times> db) result)
        else case create_dagrun env d DR_QUEUED (dm_next_dagrun dm) None None False (Some SCHEDULED_RUN)
               (se_dags_hash env (d_dag_id d)) (Some (se_job_id env)) iv s of
          (Inl _, s') \<Rightarrow> Inr (active, s')
        | (Inr _, s') \<Rightarrow> Inr (finish iv (counter_add (d_dag_id d) 1 active) s'))"
    have "bind_err (get_next_data_interval (se_calendar env) d dm) turn = Inr (active', s')"
      using assms(1) by (simp only: create_dag_run_for_def d turn_def finish_def Let_def prod.case option.case)
    then obtain iv where c: "turn iv = Inr (active', s')" by (rule bind_err_InrE)
    show ?thesis
    proof (cases "case dm_next_dagrun dm of None \<Rightarrow> False | Some t \<Rightarrow> (d_dag_id d, t) \<in> set existing")
      case True
      with c have "finish iv active s = (active', s')" by (simp add: turn_def)
      from fin [OF this] assms(3) show ?thesis by (auto simp: unique_runs_def)
    next
      case False
      obtain r s1 where r: "create_dagrun env d DR_QUEUED (dm_next_dagrun dm) None None False (Some SCHEDULED_RUN)
                   (se_dags_hash env (d_dag_id d)) (Some (se_job_id env)) iv s = (r, s1)" by fastforce
      note sp = create_dagrun_spec [OF r]
      have dms: "find_dm s1 j = find_dm s j" for j
        using arg_cong [OF sp [THEN conjunct1], of "\<lambda>s. find_dm s j"] by (simp add: find_dm_def)
      have end_: "db_drs s' = db_drs s1 \<and> (\<forall>j. j \<noteq> i \<longrightarrow> find_dm s' j = find_dm s1 j)"
        using c False r fin by (cases r) (auto simp: turn_def)
      from sp consider "db_drs s1 = db_drs s" | run where "db_drs s1 = db_drs s @ [run]"
        "\<not> run_exists (dr_dag_id run) (dr_run_id run) (dr_execution_date run) s" "dr_dag_id run = i"
        "dr_run_type run = SCHEDULED_RUN" "dr_state run = DR_QUEUED" "dm_next_dagrun dm = Some (dr_execution_date run)"
        using i by blast
      then show ?thesis
      proof cases
        case 1
        with end_ dms assms(3) show ?thesis by (auto simp: unique_runs_def)
      next
        case 2
        with unique_runs_add [OF assms(3) 2(2), of s'] end_ dms d(2) show ?thesis
          by (auto simp: scheduled_for_def intro!: exI [of _ "[run]"])
      qed
    qed
  qed
qed

lemma create_dag_runs_loop_spec:
  assumes "create_dag_runs_loop env existing ids active s = Inr s'" "dag_bag_ok env" "unique_runs s" "distinct ids"
  shows "unique_runs s' \<and> (\<exists>new. db_drs s' = db_drs s @ new \<and> distinct (map dr_dag_id new) \<and>
    (\<forall>run \<in> set new. dr_dag_id run \<in> set ids \<and> scheduled_for s run))"
  using assms
proof (induction ids arbitrary: active s)
  case (Cons i ids)
  from Cons.prems(1) obtain active1 s1 where c: "create_dag_run_for env existing i active s = Inr (active1, s1)"
    and l: "create_dag_runs_loop env existing ids active1 s1 = Inr s'" by auto
  from create_dag_run_for_spec [OF c Cons.prems(2,3)] obtain new1 where
    o: "unique_runs s1" "\<And>j. j \<noteq> i \<Longrightarrow> find_dm s1 j = find_dm s j" "db_drs s1 = db_drs s @ new1" "length new1 \<le> 1"
      "\<forall>run \<in> set new1. dr_dag_id run = i \<and> scheduled_for s run" by blast
  from Cons.IH [OF l Cons.prems(2) o(1)] Cons.prems(4) obtain new2 where
    n: "unique_runs s'" "db_drs s' = db_drs s1 @ new2" "distinct (map dr_dag_id new2)"
      "\<forall>run \<in> set new2. dr_dag_id run \<in> set ids \<and> scheduled_for s1 run" by auto
  have "scheduled_for s run" if "run \<in> set new2" for run
  proof -
    from n(4) that Cons.prems(4) have "dr_dag_id run \<noteq> i" "scheduled_for s1 run" by auto
    with o(2) [OF this(1)] show ?thesis by (simp add: scheduled_for_def)
  qed
  moreover have "distinct (map dr_dag_id (new1 @ new2))"
  proof (cases new1)
    case (Cons run rest)
    with o(4) have "new1 = [run]" by simp
    with o(5) n(3,4) \<open>distinct (i # ids)\<close> show ?thesis by auto
  qed (use n(3) in simp)
  ultimately show ?case using n o(3,5) by (intro conjI exI [of _ "new1 @ new2"]) auto
qed simp

text \<open>
  C7. Creating the runs that are due never creates a run twice: no two runs of a DAG have the same id
  or the same logical date, at most one run is created for each DAG, and it is a queued, scheduled
  run for the date that was planned for its DAG. No run is removed or changed.
\<close>

theorem create_dag_runs_once:
  assumes "create_dag_runs env dms s = Inr s'" "dag_bag_ok env" "unique_runs s" "distinct (map dm_dag_id dms)"
  shows "unique_runs s' \<and> (\<exists>new. db_drs s' = db_drs s @ new \<and> distinct (map dr_dag_id new) \<and>
    (\<forall>run \<in> set new. dr_dag_id run \<in> dm_dag_id ` set dms \<and> scheduled_for s run))"
  using create_dag_runs_loop_spec [OF _ assms(2-4)] assms(1) by (simp add: create_dag_runs_def Let_def)

lemma create_dag_runs_once_witness:
  "\<exists>s' new. create_dag_runs (sample_sched_env (sample_dag [sample_op ''a''])) [sample_dm]
      ((sample_db [])\<lparr>db_dms := [sample_dm\<lparr>dm_next_dagrun := Some 30, dm_next_dagrun_data_interval := Some (30, 40)\<rparr>]\<rparr>) = Inr s' \<and>
    unique_runs s' \<and> db_drs s' = sample_dr ''r'' 1 DR_RUNNING # new \<and> length new = 1"
proof -
  let ?env = "sample_sched_env (sample_dag [sample_op ''a''])"
  let ?s = "(sample_db [])\<lparr>db_dms := [sample_dm\<lparr>dm_next_dagrun := Some 30, dm_next_dagrun_data_interval := Some (30, 40)\<rparr>]\<rparr>"
  have "case create_dag_runs ?env [sample_dm] ?s of Inl _ \<Rightarrow> False | Inr s' \<Rightarrow> length (db_drs s') = 2" by code_simp
  then obtain s' where r: "create_dag_runs ?env [sample_dm] ?s = Inr s'" "length (db_drs s') = 2" by (auto split: sum.splits)
  have "dag_bag_ok ?env" "unique_runs ?s" by (auto simp: dag_bag_ok_def unique_runs_def sample_sched_env_def sample_defs split: if_split_asm)
  from create_dag_runs_once [OF r(1) this] obtain new where "unique_runs s'" "db_drs s' = db_drs ?s @ new" by auto
  with r show ?thesis by (intro exI [of _ s'] exI [of _ new]) (auto simp: sample_db_def empty_db_def)
qed

end
