(* ===== verification/Loop_Laws.thy ===== *)
theory Loop_Laws
  imports Schedule_Laws
begin

text \<open>
  The body of the scheduling loop always ends, whatever the state of the database: creating, starting
  and deciding on runs keep map indexes from -1 on, on which the search for ready task instances
  relies.
\<close>

subsection \<open>Map indexes stay in range\<close>

lemma check_loop_indexes:
  assumes "keeps_identity hook"
  shows "check_for_removed_or_restored_tasks hook d dr ks s = Inr (ids, s') \<Longrightarrow> map ti_primary (db_tis s') = map ti_primary (db_tis s)"
proof (induction ks arbitrary: s ids s')
  case (Cons k ks)
  then obtain ti ti' ids' where ti: "find_ti s k = Some ti" "check_row d dr s (hook ti) = Inr ti'"
    and l: "check_for_removed_or_restored_tasks hook d dr ks (update_ti k (\<lambda>_. ti') s) = Inr (ids', s')"
    by (auto simp del: bind_err_Inr_iff elim!: bind_err_InrE split: option.split_asm prod.split_asm)
  have "ti_primary ti' = k"
    using check_row_row [OF ti(2)] find_ti_Some [OF ti(1)] assms by (simp add: keeps_identity_def)
  then have "map ti_primary (db_tis (update_ti k (\<lambda>_. ti') s)) = map ti_primary (db_tis s)" by (simp add: update_ti_def)
  with Cons.IH [OF l] show ?case by simp
qed simp

lemma to_create_range:
  assumes "map_indexes_to_create d run_id s op = Inr ixs" "i \<in> set ixs"
  shows "-1 \<le> i"
proof (cases "get_mapped_ti_count (d_dag_id d) op run_id s")
  case (Inr n)
  with assms show ?thesis by (auto simp: map_indexes_to_create_def int_range_def split: if_split_asm)
next
  case (Inl e)
  with assms show ?thesis by (cases e) (auto simp: map_indexes_to_create_def)
qed

lemma verify_integrity_indexes:
  assumes "verify_integrity hook d dr s = Inr s'" "keeps_identity hook" "indexes_ok s"
  shows "indexes_ok s'"
proof -
  from assms(1) obtain task_ids s1 tis where
    l: "check_for_removed_or_restored_tasks hook d dr (map ti_primary (get_task_instances d dr (\<lambda>_. True) s)) s = Inr (task_ids, s1)" and
    t: "create_tasks hook d (dr_run_id dr) s1 (filter (task_filter dr task_ids) (dag_tasks d)) = Inr tis" and
    s': "s' = s1\<lparr>db_tis := db_tis s1 @ tis\<rparr>"
    by (auto simp: verify_integrity_def)
  have "indexes_ok s1" using indexes_ok_cong [OF check_loop_indexes [OF assms(2) l]] assms(3) by simp
  moreover have "-1 \<le> ti_map_index ti" if "ti \<in> set tis" for ti
  proof -
    from create_tasks_keys [OF assms(2) t] obtain f where
      f: "map ti_primary tis = concat (map (\<lambda>op. map (\<lambda>i. (d_dag_id d, op_task_id op, dr_run_id dr, i)) (f op))
          (filter (task_filter dr task_ids) (dag_tasks d)))"
        "\<forall>op \<in> set (filter (task_filter dr task_ids) (dag_tasks d)). map_indexes_to_create d (dr_run_id dr) s1 op = Inr (f op)" by blast
    have "ti_primary ti \<in> set (map ti_primary tis)" using that by simp
    then obtain op i where "op \<in> set (filter (task_filter dr task_ids) (dag_tasks d))" "i \<in> set (f op)" "ti_map_index ti = i"
      unfolding f(1) by (auto simp: ti_primary_def)
    with f(2) to_create_range show ?thesis by blast
  qed
  ultimately show ?thesis by (auto simp: indexes_ok_def s')
qed

lemma ready_loop_indexes:
  assumes "ready_loop env queue acc cxt s = Some r" "keeps_identity (re_hook env)" "indexes_ok s" "r = Inr (acc', cxt', s')"
  shows "indexes_ok s'"
proof -
  define P where "P = (\<lambda>(env :: run_env) (queue :: ti_primary list) (acc :: ready_acc) (cxt :: dep_context) s (r :: (ready_acc \<times> dep_context \<times> db) result).
    keeps_identity (re_hook env) \<longrightarrow> indexes_ok s \<longrightarrow> (\<forall>a c s'. r = Inr (a, c, s') \<longrightarrow> indexes_ok s'))"
  have "P env queue acc cxt s r"
  proof (rule ready_loop.raw_induct [where P = P, OF _ assms(1)])
    fix loop env queue acc cxt s r
    assume ih: "\<And>env queue acc cxt s r. loop env queue acc cxt s = Some r \<Longrightarrow> P env queue acc cxt s r"
      and body: "(case queue of [] \<Rightarrow> Some (Inr (acc, cxt, s))
        | k # ks \<Rightarrow> (case ready_step env k acc cxt s of Inl e \<Rightarrow> Some (Inl e)
          | Inr (new_tis, acc', cxt', s') \<Rightarrow> loop env (ks @ new_tis) acc' cxt' s')) = Some r"
    show "P env queue acc cxt s r"
      unfolding P_def
    proof (intro impI allI)
      fix a c s' assume pre: "keeps_identity (re_hook env)" "indexes_ok s" "r = Inr (a, c, s')"
      show "indexes_ok s'"
      proof (cases queue)
        case Nil
        with body pre show ?thesis by simp
      next
        case (Cons k ks)
        with body pre(3) obtain new_tis acc1 cxt1 s1 where st: "ready_step env k acc cxt s = Inr (new_tis, acc1, cxt1, s1)"
          and l: "loop env (ks @ new_tis) acc1 cxt1 s1 = Some r" by (auto split: sum.split_asm)
        from ready_step_ok [OF st pre(1,2)] ih [OF l] pre show ?thesis by (simp add: P_def)
      qed
    qed
  qed
  with assms show ?thesis by (simp add: P_def)
qed

lemma decisions_indexes:
  assumes "task_instance_scheduling_decisions env dr s = Some (Inr (info, s'))" "keeps_identity (re_hook env)" "indexes_ok s"
  shows "indexes_ok s'"
proof -
  obtain tis s1 where e: "exclude_removed (re_dag env) (map ti_primary (get_task_instances (re_dag env) dr (\<lambda>_. True) s)) s = (tis, s1)"
    by fastforce
  have ok: "indexes_ok s1" using indexes_ok_cong [OF exclude_removed_primaries [OF e]] assms(3) by simp
  have "indexes_ok s2" if "get_ready_tis env ks fin s1 = Some (Inr (a, b, c, d, s2))" for ks fin a b c d s2
    using that ok ready_loop_indexes [OF _ assms(2) ok]
    by (auto simp: get_ready_tis_def elim!: bind_run_InrE split: if_split_asm prod.split_asm)
  with assms(1) e ok show ?thesis
    by (auto simp: task_instance_scheduling_decisions_def Let_def simp del: unfinished.simps finished.simps
        elim!: bind_run_InrE split: if_split_asm prod.split_asm)
qed

lemma any_dependencies_met_indexes:
  "any_dependencies_met env tis cxt s = Inr (b, cxt', s') \<Longrightarrow> indexes_ok s' = indexes_ok s"
proof (induction env tis cxt s arbitrary: b cxt' s' rule: any_dependencies_met.induct)
  case (3 env k tis cxt s)
  then obtain met cxt1 s1 where d: "are_dependencies_met (re_dep env) (dag_op (re_dag env) (fst (snd k))) k cxt s = Inr (met, cxt1, s1)"
    and r: "(if met then Inr (True, cxt1, s1) else any_dependencies_met env tis cxt1 s1) = Inr (b, cxt', s')"
    by (auto simp del: bind_err_Inr_iff elim!: bind_err_InrE split: prod.split_asm)
  have s1: "indexes_ok s1 = indexes_ok s" by (rule indexes_ok_cong) (rule settles_primaries [OF settles_dependencies [OF d]])
  show ?case
  proof (cases met)
    case True
    with r s1 show ?thesis by simp
  next
    case False
    with "3.IH" [OF d refl refl False] r s1 show ?thesis by simp
  qed
qed auto

lemma update_state_indexes:
  assumes "update_state env execute_callbacks dag_id run_id s = Some (Inr (ks, cb, s'))" "keeps_identity (re_hook env)" "indexes_ok s"
  shows "indexes_ok s'"
proof (cases "find_dr s dag_id run_id")
  case None
  with assms(1) show ?thesis by (simp add: update_state_def Let_def)
next
  case (Some dr)
  have upd: "indexes_ok (update_dr dag_id run_id f s) = indexes_ok s" for f s by (simp add: indexes_ok_def)
  from assms(1) Some obtain info s1 unf run s2 where
    d: "task_instance_scheduling_decisions env dr (update_dr dag_id run_id (\<lambda>r. r\<lparr>dr_last_scheduling_decision := Some (de_now (re_dep env))\<rparr>) s) =
      Some (Inr (info, s1))"
    and f: "find_runnable env info s1 = Inr (unf, run, s2)" and s': "indexes_ok s' = indexes_ok s2"
    by (auto simp: update_state_def Let_def upd elim!: bind_run_InrE split: prod.split_asm)
  have "indexes_ok s1" by (rule decisions_indexes [OF d assms(2)]) (simp add: upd assms(3))
  moreover have "indexes_ok s2 = indexes_ok s1" using f
    by (auto simp: find_runnable_def are_premature_tis_def Let_def simp del: bind_err_Inr_iff unfinished.simps
        elim!: bind_err_InrE split: if_split_asm prod.split_asm dest!: any_dependencies_met_indexes)
  ultimately show ?thesis using s' by simp
qed

lemma indexes_ok_map:
  "(\<And>ti. ti_map_index (f ti) = ti_map_index ti) \<Longrightarrow> indexes_ok (s\<lparr>db_tis := map f (db_tis s)\<rparr>) = indexes_ok s"
  by (simp add: indexes_ok_def)

lemma indexes_ok_tis: "db_tis s' = db_tis s \<Longrightarrow> indexes_ok s' = indexes_ok s"
  by (simp add: indexes_ok_def)

lemma update_chunks_indexes:
  "(\<And>ti. ti_map_index (f ti) = ti_map_index ti) \<Longrightarrow> update_chunks dr f cs s = (n, s') \<Longrightarrow> indexes_ok s' = indexes_ok s"
proof (induction cs arbitrary: n s s')
  case (Cons c cs)
  let ?s = "s\<lparr>db_tis := map (\<lambda>ti. if in_chunk dr c ti then f ti else ti) (db_tis s)\<rparr>"
  obtain m where "update_chunks dr f cs ?s = (m, s')"
    using Cons.prems(2) by (auto simp: update_rows_def Let_def split: prod.split_asm)
  from Cons.IH [OF Cons.prems(1) this] indexes_ok_map [of "\<lambda>ti. if in_chunk dr c ti then f ti else ti" s] Cons.prems(1)
  show ?case by simp
qed simp

lemma update_in_chunks_indexes:
  assumes "update_in_chunks dr f mx ids s = Inr (n, s')" "\<And>ti. ti_map_index (f ti) = ti_map_index ti"
  shows "indexes_ok s' = indexes_ok s"
  using assms(1) update_chunks_indexes [OF assms(2)]
  by (auto simp: update_in_chunks_def split: if_split_asm)

lemma schedule_tis_indexes:
  assumes "schedule_tis now d dr mx ks s = Inr (n, s')"
  shows "indexes_ok s' = indexes_ok s"
proof -
  from assms obtain n1 s1 n2 where
    a: "update_in_chunks dr (set_ti_state (Some SCHEDULED)) mx (ids_of d False ks) s = Inr (n1, s1)" and
    b: "update_in_chunks dr (dummy_row now) mx (ids_of d True ks) s1 = Inr (n2, s')"
    by (auto simp: schedule_tis_def simp del: bind_err_Inr_iff elim!: bind_err_InrE split: prod.split_asm)
  have m: "ti_map_index (set_ti_state st ti) = ti_map_index ti" "ti_map_index (dummy_row now ti) = ti_map_index ti" for st ti
    by (simp_all add: set_ti_state_def dummy_row_def)
  show ?thesis using update_in_chunks_indexes [OF a m(1)] update_in_chunks_indexes [OF b m(2)] by simp
qed

lemma plan_next_run_indexes: "plan_next_run env d i r s = Inr s' \<Longrightarrow> indexes_ok s' = indexes_ok s"
  by (auto simp: plan_next_run_def Let_def indexes_ok_def calculate_fields_tables simp del: bind_err_Inr_iff elim!: bind_err_InrE
      split: option.split_asm prod.split_asm if_split_asm dest!: should_update_tables)

lemma time_out_run_indexes:
  assumes "time_out_run env d i r s = Inr (cb, s')"
  shows "indexes_ok s' = indexes_ok s"
proof -
  let ?s1 = "update_dr i r (set_dr_state (se_now env) DR_FAILED) s"
  from assms [unfolded time_out_run_def Let_def] have "plan_next_run env d i r (?s1\<lparr>db_tis := map (skip_unfinished i r) (db_tis ?s1)\<rparr>) = Inr s'"
    by (rule bind_err_InrE) (simp only: sum.inject prod.inject)
  note plan_next_run_indexes [OF this]
  also have "indexes_ok (?s1\<lparr>db_tis := map (skip_unfinished i r) (db_tis ?s1)\<rparr>) = indexes_ok ?s1"
    by (rule indexes_ok_map) (simp add: skip_unfinished_def set_ti_state_def)
  also have "\<dots> = indexes_ok s" by (rule indexes_ok_tis) simp
  finally show ?thesis .
qed

lemma verify_if_changed_indexes:
  "verify_integrity_if_dag_changed env dr s = Inr (b, s') \<Longrightarrow> keeps_identity (re_hook (se_run env)) \<Longrightarrow> indexes_ok s \<Longrightarrow> indexes_ok s'"
  by (auto simp: verify_integrity_if_dag_changed_def Let_def simp del: bind_err_Inr_iff elim!: bind_err_InrE
      split: if_split_asm option.split_asm dest!: verify_integrity_indexes) (simp_all add: indexes_ok_def)

lemma create_dagrun_indexes:
  assumes "create_dagrun env d st t rid sd ext rt dh cj iv s = (r, s')" "keeps_identity (re_hook (se_run env))" "indexes_ok s"
  shows "indexes_ok s'"
proof -
  have "indexes_ok (s\<lparr>db_drs := x\<rparr>)" for x using assms(3) by (simp add: indexes_ok_def)
  with assms(1,3) show ?thesis
    by (auto simp: create_dagrun_def Let_def split: sum.split_asm dest!: verify_integrity_indexes [OF _ assms(2)])
qed

lemma create_dag_run_for_indexes:
  assumes "create_dag_run_for env existing i active s = Inr (active', s')" "keeps_identity (re_hook (se_run env))" "indexes_ok s"
  shows "indexes_ok s'"
  using assms(1)
  by (auto simp: create_dag_run_for_def Let_def calculate_fields_tables simp del: bind_err_Inr_iff elim!: bind_err_InrE
      split: option.split_asm if_split_asm prod.split_asm sum.split_asm
      dest!: should_update_tables create_dagrun_indexes [OF _ assms(2,3)])
    (use assms(3) in \<open>auto simp: indexes_ok_def calculate_fields_tables\<close>)

lemma create_dag_runs_loop_indexes:
  "create_dag_runs_loop env existing ids active s = Inr s' \<Longrightarrow> keeps_identity (re_hook (se_run env)) \<Longrightarrow> indexes_ok s \<Longrightarrow> indexes_ok s'"
proof (induction ids arbitrary: active s)
  case (Cons i ids)
  from Cons.prems(1) obtain active1 s1 where c: "create_dag_run_for env existing i active s = Inr (active1, s1)"
    and l: "create_dag_runs_loop env existing ids active1 s1 = Inr s'" by auto
  from Cons.IH [OF l Cons.prems(2) create_dag_run_for_indexes [OF c Cons.prems(2,3)]] show ?case .
qed simp

lemma create_dataset_run_indexes:
  assumes "create_dataset_run env existing i t s = Inr s'" "keeps_identity (re_hook (se_run env))" "indexes_ok s"
  shows "indexes_ok s'"
  using assms(1)
  by (auto simp: create_dataset_run_def simp del: bind_err_Inr_iff elim!: bind_err_InrE
      split: option.split_asm if_split_asm prod.split_asm sum.split_asm dest!: create_dagrun_indexes [OF _ assms(2,3)])
    (use assms(3) in \<open>auto simp: indexes_ok_def\<close>)

lemma create_dataset_runs_loop_indexes:
  "create_dataset_runs_loop env existing ids s = Inr s' \<Longrightarrow> keeps_identity (re_hook (se_run env)) \<Longrightarrow> indexes_ok s \<Longrightarrow> indexes_ok s'"
proof (induction ids arbitrary: s)
  case (Cons x ids)
  obtain i t where x: "x = (i, t)" by (cases x)
  with Cons.prems(1) obtain s1 where c: "create_dataset_run env existing i t s = Inr s1"
    and l: "create_dataset_runs_loop env existing ids s1 = Inr s'" by auto
  from Cons.IH [OF l Cons.prems(2) create_dataset_run_indexes [OF c Cons.prems(2,3)]] show ?case .
qed simp

lemma create_dagruns_for_dags_indexes:
  assumes "create_dagruns_for_dags env s = Inr s'" "keeps_identity (re_hook (se_run env))" "indexes_ok s"
  shows "indexes_ok s'"
proof -
  obtain all_dags info where n: "dags_needing_dagruns env s = (all_dags, info)" by fastforce
  from assms(1) n obtain s1 where c: "create_dag_runs env (filter (\<lambda>dm. \<not> dict_has (dm_dag_id dm) info) all_dags) s = Inr s1"
    and l: "(if filter (\<lambda>dm. dict_has (dm_dag_id dm) info) all_dags \<noteq> []
       then create_dag_runs_dataset_triggered env (filter (\<lambda>dm. dict_has (dm_dag_id dm) info) all_dags) info s1 else Inr s1) = Inr s'"
    by (auto simp: create_dagruns_for_dags_def Let_def)
  have "indexes_ok s1" using c by (auto simp: create_dag_runs_def Let_def intro: create_dag_runs_loop_indexes [OF _ assms(2,3)])
  with l show ?thesis
    by (auto simp: create_dag_runs_dataset_triggered_def Let_def intro: create_dataset_runs_loop_indexes [OF _ assms(2)]
        split: if_split_asm)
qed

lemma start_loop_tis: "start_loop env drs active s = Inr s' \<Longrightarrow> db_tis s' = db_tis s"
proof (induction drs arbitrary: active s)
  case (Cons dr drs)
  then show ?case
    by (auto simp del: bind_err_Inr_iff elim!: bind_err_InrE split: option.split_asm if_split_asm dest!: Cons.IH)
qed simp

lemma schedule_dag_run_spec:
  assumes "keeps_identity (re_hook (se_run env))" "indexes_ok s"
  shows "schedule_dag_run env i r s \<noteq> None"
    and "schedule_dag_run env i r s = Some (Inr (cb, s')) \<Longrightarrow> indexes_ok s'"
proof -
  have hook: "keeps_identity (re_hook (env_for env d))" for d using assms(1) by (simp add: env_for_def)
  have ok: "indexes_ok s1" if "verify_integrity_if_dag_changed env dr s = Inr (b, s1)" for b s1 dr
    using verify_if_changed_indexes [OF that assms] .
  show "schedule_dag_run env i r s \<noteq> None"
    using update_state_returns [OF hook ok]
    by (auto simp: schedule_dag_run_def bind_run_None_iff simp del: not_None_eq split: option.split)
  show "indexes_ok s'" if "schedule_dag_run env i r s = Some (Inr (cb, s'))"
  proof (cases "\<exists>d dm dr. se_get_dag env i = Some d \<and> (if se_dag_locked env i then None else find_dm s i) = Some dm \<and> find_dr s i r = Some dr")
    case False
    with that assms(2) show ?thesis by (auto simp: schedule_dag_run_def split: option.split_asm)
  next
    case True
    then obtain d dm dr where d: "se_get_dag env i = Some d" "(if se_dag_locked env i then None else find_dm s i) = Some dm"
      "find_dr s i r = Some dr" by blast
    show ?thesis
    proof (cases "timed_out env d dr \<or> se_now env < dr_execution_date dr \<and> \<not> d_allow_future_exec_dates d")
      case True
      with that d assms(2) show ?thesis
        by (auto simp: schedule_dag_run_def dest: time_out_run_indexes split: if_split_asm)
    next
      case False
      with that d obtain exists s1 where v: "verify_integrity_if_dag_changed env dr s = Inr (exists, s1)"
        and rest: "(if \<not> exists then Some (Inr (None, s1))
            else bind_run (update_state (env_for env d) False i r s1) (\<lambda>(schedulable_tis, callback, s2).
              Some (bind_err (plan_next_run env d i r s2) (\<lambda>s3.
                bind_err (schedule_tis (se_now env) d dr (se_max_tis_per_query env) schedulable_tis s3) (\<lambda>(_, s4).
                  Inr (callback, s4)))))) = Some (Inr (cb, s'))"
        by (auto simp: schedule_dag_run_def elim!: bind_run_InrE)
      show ?thesis
      proof (cases exists)
        case False
        with rest ok [OF v] show ?thesis by simp
      next
        case True
        with rest obtain ks c s2 s3 n where u: "update_state (env_for env d) False i r s1 = Some (Inr (ks, c, s2))"
          and p: "plan_next_run env d i r s2 = Inr s3"
          and t: "schedule_tis (se_now env) d dr (se_max_tis_per_query env) ks s3 = Inr (n, s')"
          by (auto elim!: bind_run_InrE)
        from update_state_indexes [OF u hook ok [OF v]] plan_next_run_indexes [OF p] schedule_tis_indexes [OF t]
        show ?thesis by simp
      qed
    qed
  qed
qed

lemma schedule_all_returns:
  "keeps_identity (re_hook (se_run env)) \<Longrightarrow> indexes_ok s \<Longrightarrow> schedule_all_dag_runs env runs s \<noteq> None"
proof (induction runs arbitrary: s)
  case (Cons x runs)
  obtain i r where x: "x = (i, r)" by (cases x)
  note sp = schedule_dag_run_spec [OF Cons.prems, of i r]
  show ?case using sp Cons.IH [OF Cons.prems(1) sp(2)]
    by (auto simp: x bind_run_None_iff simp del: not_None_eq)
qed simp

text \<open>
  C9. One turn of the scheduling loop always ends, in a result or an exception: whatever runs it
  creates, starts and decides on, although deciding on a run may create the task instances that the
  same decision goes on to look at. The mutation hook must not change the identity of a task instance.
\<close>

theorem do_scheduling_returns:
  assumes "keeps_identity (re_hook (se_run env))" "indexes_ok s"
  shows "do_scheduling env use_job_schedule cenv fileloc e s \<noteq> None"
proof -
  have c: "indexes_ok s1" if "(if use_job_schedule then create_dagruns_for_dags env s else Inr s) = Inr s1" for s1
    using that assms(2) create_dagruns_for_dags_indexes [OF _ assms] by (auto split: if_split_asm)
  have "indexes_ok s2" if "start_queued_dagruns env s1 = Inr s2" "indexes_ok s1" for s1 s2
    using that start_loop_tis by (auto simp: start_queued_dagruns_def Let_def indexes_ok_def)
  with c schedule_all_returns [OF assms(1)] show ?thesis
    by (auto simp: do_scheduling_def Let_def bind_run_None_iff simp del: not_None_eq)
qed

definition sample_critical_env :: critical_env where
  "sample_critical_env = \<lparr>ce_get_dag = (\<lambda>_. None), ce_postgres = False, ce_lock_acquired = True, ce_pools_locked = False,
     ce_row_locked = (\<lambda>_. False), ce_now = 0, ce_job_id = None\<rparr>"

lemma do_scheduling_returns_witness:
  "do_scheduling (sample_sched_env (sample_dag [sample_expand_op])) True sample_critical_env (\<lambda>_. None)
     \<lparr>ex_parallelism = 4, ex_queued_tasks = [], ex_running = [], ex_event_buffer = [], ex_attempts = []\<rparr>
     (sample_db [sample_ti ''a'' None]) \<noteq> None"
  by (rule do_scheduling_returns)
    (simp_all add: sample_sched_env_def sample_run_env_def keeps_identity_def indexes_ok_def sample_db_def empty_db_def sample_ti_def)

end
