(* ===== verification/Skipping.thy ===== *)
theory Skipping
  imports Dag_Schedule
begin

text \<open>
  Operators that skip others (\<open>models/skipmixin.py\<close>, \<open>operators/branch.py\<close>, \<open>operators/latest_only.py\<close>,
  \<open>operators/python.py\<close>): marking task instances as skipped, branching, and the decision kept as an XCom
  for \<open>NotPreviouslySkippedDep\<close>, with what it means for a task that is cleared later.
\<close>

subsection \<open>Marking task instances\<close>

text \<open>The \<open>UPDATE\<close> statements: selected rows of the run are skipped, as of now.\<close>

definition skip_rows :: "time \<Rightarrow> dag_run \<Rightarrow> (task_instance \<Rightarrow> bool) \<Rightarrow> db \<Rightarrow> db" where
  "skip_rows now dr chosen s =
     s\<lparr>db_tis := map (\<lambda>ti. if ti_dag_id ti = dr_dag_id dr \<and> ti_run_id ti = dr_run_id dr \<and> chosen ti
        then ti\<lparr>ti_state := Some SKIPPED, ti_start_date := Some now, ti_end_date := Some now\<rparr> else ti) (db_tis s)\<rparr>"

definition set_ids_to_skipped :: "time \<Rightarrow> dag_run \<Rightarrow> id_str list \<Rightarrow> db \<Rightarrow> db" where
  "set_ids_to_skipped now dr tasks s =
     (if tasks = [] then s else skip_rows now dr (\<lambda>ti. ti_task_id ti \<in> set tasks) s)"

definition set_pairs_to_skipped :: "time \<Rightarrow> dag_run \<Rightarrow> (id_str \<times> int) list \<Rightarrow> db \<Rightarrow> db" where
  "set_pairs_to_skipped now dr tasks s =
     (if tasks = [] then s else skip_rows now dr (\<lambda>ti. (ti_task_id ti, ti_map_index ti) \<in> set tasks) s)"

text \<open>
  \<open>skip\<close> of an object whose \<open>task_id\<close> is given, if it has one: \<open>dag_run\<close> is passed and \<open>tasks\<close> are
  operators, as every caller does.
\<close>

definition skip :: "time \<Rightarrow> id_str option \<Rightarrow> dag_run \<Rightarrow> time \<Rightarrow> operator list \<Rightarrow> int \<Rightarrow> db \<Rightarrow> db result" where
  "skip now own_id dr execution_date tasks map_index s =
     (if tasks = [] then Inr s
      else if execution_date \<noteq> dr_execution_date dr
      then Inl (ValueError ''execution_date has a different value to dag_run.execution_date'')
      else let ids = map op_task_id tasks; s' = set_ids_to_skipped now dr ids s in
        case own_id of
          None \<Rightarrow> Inr s'
        | Some t \<Rightarrow> xcom_set now XCOM_SKIPMIXIN_KEY (PDict [(XCOM_SKIPMIXIN_SKIPPED, PList (map PStr ids))])
            t (dr_dag_id dr) (dr_run_id dr) map_index s')"

subsection \<open>Branching\<close>

text \<open>Membership in a Python set needs hashable elements.\<close>

fun py_hashable :: "pyval \<Rightarrow> bool" where
  "py_hashable (PList xs) = False"
| "py_hashable (PDict d) = False"
| "py_hashable (PTuple xs) = list_all py_hashable xs"
| "py_hashable _ = True"

fun as_str :: "pyval \<Rightarrow> string option" where
  "as_str (PStr t) = Some t"
| "as_str _ = None"

definition branch_ids_of :: "pyval list \<Rightarrow> id_str list result" where
  "branch_ids_of xs =
     (if \<not> list_all py_hashable xs then Inl (TypeError ''unhashable type'')
      else if \<not> list_all (\<lambda>x. as_str x \<noteq> None) xs
      then Inl (AirflowException ''branch_task_ids expected all task IDs are strings'')
      else Inr (remdups (List.map_filter as_str xs)))"

text \<open>The set of task ids to follow; iterating over a dictionary gives its keys.\<close>

fun branch_task_id_set :: "pyval \<Rightarrow> id_str list result" where
  "branch_task_id_set (PStr t) = Inr [t]"
| "branch_task_id_set (PList xs) = branch_ids_of xs"
| "branch_task_id_set (PTuple xs) = branch_ids_of xs"
| "branch_task_id_set (PDict d) = Inr (remdups (map fst d))"
| "branch_task_id_set PNone = Inr []"
| "branch_task_id_set _ = Inl (AirflowException ''branch_task_ids must be either None, a task ID, or an Iterable of IDs'')"

text \<open>Everything downstream of a followed task is followed.\<close>

fun follow_downstream :: "dag \<Rightarrow> id_str list \<Rightarrow> id_str list \<Rightarrow> id_str list result" where
  "follow_downstream d [] followed = Inr followed"
| "follow_downstream d (t # ts) followed =
     bind_err (get_task d t) (\<lambda>op. bind_err (get_flat_relative_ids d op False) (\<lambda>ids.
       follow_downstream d ts (set_update followed ids)))"

definition skip_all_except :: "time \<Rightarrow> dag \<Rightarrow> operator \<Rightarrow> task_instance \<Rightarrow> pyval \<Rightarrow> db \<Rightarrow> db result" where
  "skip_all_except now d op ti branch_task_ids s =
     bind_err (branch_task_id_set branch_task_ids) (\<lambda>branches.
     bind_err (get_dagrun ti s) (\<lambda>dr.
       if \<exists>t \<in> set branches. \<not> has_task d t
       then Inl (AirflowException ''branch_task_ids must contain only valid task_ids'')
       else bind_err (downstream_list d op) (\<lambda>downstream_tasks.
         if downstream_tasks = [] then Inr s
         else bind_err (follow_downstream d branches branches) (\<lambda>followed.
           let skip_tasks = map (\<lambda>t. (op_task_id t, ti_map_index ti))
                 (filter (\<lambda>t. find_ti s (dr_dag_id dr, op_task_id t, dr_run_id dr, ti_map_index ti) \<noteq> None \<and>
                    op_task_id t \<notin> set followed) downstream_tasks);
               follow_task_ids = filter (\<lambda>t. t \<in> set followed) (map op_task_id downstream_tasks) in
           xcom_push now XCOM_SKIPMIXIN_KEY (PDict [(XCOM_SKIPMIXIN_FOLLOWED, PList (map PStr follow_task_ids))]) ti
             (set_pairs_to_skipped now dr skip_tasks s)))))"

text \<open>\<open>BaseBranchOperator.execute\<close>: what the subclass chose is the argument; it is returned as well.\<close>

definition branch_execute :: "time \<Rightarrow> dag \<Rightarrow> operator \<Rightarrow> task_instance \<Rightarrow> pyval \<Rightarrow> db \<Rightarrow> (pyval \<times> db) result" where
  "branch_execute now d op ti chosen s = bind_err (skip_all_except now d op ti chosen s) (\<lambda>s'. Inr (chosen, s'))"

text \<open>\<open>LatestOnlyOperator.choose_branch\<close>\<close>

definition latest_only_branch :: "calendar \<Rightarrow> time \<Rightarrow> dag \<Rightarrow> operator \<Rightarrow> dag_run \<Rightarrow> pyval result" where
  "latest_only_branch cal now d op dr =
     (let direct = PList (map PStr (get_direct_relative_ids op False)) in
      if dr_external_trigger dr then Inr direct
      else bind_err (get_run_data_interval cal d dr) (\<lambda>interval.
        case dag_next_dagrun_info cal now d (Some interval) False of
          None \<Rightarrow> Inr direct
        | Some next \<Rightarrow> let (left_window, right_window) = ri_data_interval next in
            if \<not> (left_window < now \<and> now \<le> right_window) then Inr (PList []) else Inr direct))"

text \<open>\<open>ShortCircuitOperator.execute\<close>, given what its callable returned.\<close>

definition short_circuit :: "time \<Rightarrow> bool \<Rightarrow> dag \<Rightarrow> operator \<Rightarrow> task_instance \<Rightarrow> dag_run \<Rightarrow> pyval \<Rightarrow> db \<Rightarrow> (pyval \<times> db) result" where
  "short_circuit now ignore_downstream_trigger_rules d op ti dr condition s =
     (if py_truthy condition \<or> op_downstream_task_ids op = [] then Inr (condition, s)
      else bind_err (if ignore_downstream_trigger_rules then get_flat_relatives d op False else downstream_list d op) (\<lambda>tasks.
        bind_err (skip now (Some (op_task_id op)) dr (dr_execution_date dr) (filter (\<lambda>t. \<not> op_is_teardown t) tasks) (ti_map_index ti) s)
          (\<lambda>s'. Inr (condition, s'))))"

subsection \<open>What a branch skips\<close>

lemma follow_downstream_spec:
  assumes "wf_dag d" "set ts \<subseteq> {t. has_task d t}"
  shows "\<exists>fs. follow_downstream d ts followed = Inr fs \<and> set fs = set followed \<union> (edges d False)\<^sup>+ `` set ts"
  using assms(2)
proof (induction ts arbitrary: followed)
  case (Cons t ts)
  from Cons.prems obtain op where op: "dict_get (d_task_dict d) t = Some op" by (auto simp: has_task_def dict_has_iff)
  obtain rs where rs: "get_flat_relative_ids d op False = Inr rs" "set rs = {b. (t, b) \<in> (edges d False)\<^sup>+}"
    using flat_relative_ids_trancl [OF assms(1) op, of False] by blast
  obtain fs where fs: "follow_downstream d ts (set_update followed rs) = Inr fs"
    "set fs = set (set_update followed rs) \<union> (edges d False)\<^sup>+ `` set ts" using Cons.IH Cons.prems by fastforce
  have "follow_downstream d (t # ts) followed = Inr fs" using op rs(1) fs(1) by (simp add: get_task_def)
  moreover have "set fs = set followed \<union> (edges d False)\<^sup>+ `` set (t # ts)" by (auto simp: fs(2) rs(2))
  ultimately show ?case by blast
qed simp

text \<open>The tasks a branch operator follows: the chosen ones and all that is downstream of them.\<close>

definition followed_by :: "dag \<Rightarrow> id_str list \<Rightarrow> id_str set" where
  "followed_by d branches = (edges d False)\<^sup>* `` set branches"

lemma followed_by_trancl: "followed_by d bs = set bs \<union> (edges d False)\<^sup>+ `` set bs"
  by (auto simp: followed_by_def rtrancl_eq_or_trancl)

text \<open>Both ways to write the rows of the direct downstream tasks that are not followed.\<close>

definition skipped_by_branch :: "dag \<Rightarrow> operator \<Rightarrow> id_str list \<Rightarrow> task_instance \<Rightarrow> task_instance \<Rightarrow> bool" where
  "skipped_by_branch d op branches ti r \<longleftrightarrow> ti_dag_id r = ti_dag_id ti \<and> ti_run_id r = ti_run_id ti \<and>
     ti_map_index r = ti_map_index ti \<and> ti_task_id r \<in> set (op_downstream_task_ids op) \<and> ti_task_id r \<notin> followed_by d branches"

lemma skip_all_except_result:
  assumes "skip_all_except now d op ti chosen s = Inr s'" "wf_dag d" "dict_get (d_task_dict d) (op_task_id op) = Some op"
    "op_downstream_task_ids op \<noteq> []"
  shows "\<exists>branches dr. branch_task_id_set chosen = Inr branches \<and> find_dr s (ti_dag_id ti) (ti_run_id ti) = Some dr \<and>
    db_tis s' = map (\<lambda>r. if skipped_by_branch d op branches ti r
       then r\<lparr>ti_state := Some SKIPPED, ti_start_date := Some now, ti_end_date := Some now\<rparr> else r) (db_tis s) \<and>
    xcom_push now XCOM_SKIPMIXIN_KEY (PDict [(XCOM_SKIPMIXIN_FOLLOWED,
        PList (map PStr (filter (\<lambda>t. t \<in> followed_by d branches) (op_downstream_task_ids op))))]) ti (s\<lparr>db_tis := db_tis s'\<rparr>) = Inr s'"
proof -
  from assms(1) obtain branches dr where b: "branch_task_id_set chosen = Inr branches" "get_dagrun ti s = Inr dr"
    "\<forall>t \<in> set branches. has_task d t"
    by (auto simp: skip_all_except_def simp del: bind_err_Inr_iff elim!: bind_err_InrE split: if_split_asm)
  note ds = upstream_list_wf(2) [OF assms(2,3)]
  have dr: "find_dr s (ti_dag_id ti) (ti_run_id ti) = Some dr" using b(2) by (simp add: get_dagrun_def split: option.split_asm)
  then have key: "dr_dag_id dr = ti_dag_id ti" "dr_run_id dr = ti_run_id ti" by (auto dest: find_dr_Some)
  have ids: "map op_task_id (map (dag_op d) (op_downstream_task_ids op)) = op_downstream_task_ids op"
    using wf_dag_opD(3) [OF assms(2,3), of _ False] wf_dag_opD(1) [OF assms(2)]
    by (fastforce simp: get_direct_relative_ids_def dag_op_def intro: map_idI)
  obtain followed where f: "follow_downstream d branches branches = Inr followed" "set followed = followed_by d branches"
    using follow_downstream_spec [OF assms(2), of branches branches] b(3) by (auto simp: followed_by_trancl)
  define pairs where "pairs = map (\<lambda>t. (op_task_id t, ti_map_index ti))
     (filter (\<lambda>t. find_ti s (dr_dag_id dr, op_task_id t, dr_run_id dr, ti_map_index ti) \<noteq> None \<and> op_task_id t \<notin> set followed)
       (map (dag_op d) (op_downstream_task_ids op)))"
  have push: "xcom_push now XCOM_SKIPMIXIN_KEY (PDict [(XCOM_SKIPMIXIN_FOLLOWED,
        PList (map PStr (filter (\<lambda>t. t \<in> followed_by d branches) (op_downstream_task_ids op))))]) ti
      (set_pairs_to_skipped now dr pairs s) = Inr s'"
    using assms(1,4) b by (simp add: skip_all_except_def ds f ids [simplified] pairs_def Let_def)
  have "pairs = map (\<lambda>t. (t, ti_map_index ti)) (filter (\<lambda>t. find_ti s (dr_dag_id dr, t, dr_run_id dr, ti_map_index ti) \<noteq> None \<and>
      t \<notin> followed_by d branches) (map op_task_id (map (dag_op d) (op_downstream_task_ids op))))"
    by (simp add: pairs_def f(2) filter_map comp_def)
  note pairs = this [unfolded ids]
  have iff: "(ti_task_id r, ti_map_index r) \<in> set pairs \<and> ti_dag_id r = dr_dag_id dr \<and> ti_run_id r = dr_run_id dr \<longleftrightarrow>
      skipped_by_branch d op branches ti r" if "r \<in> set (db_tis s)" for r
  proof -
    have found: "ti_map_index r = ti_map_index ti \<Longrightarrow> ti_dag_id r = dr_dag_id dr \<Longrightarrow> ti_run_id r = dr_run_id dr \<Longrightarrow>
        find_ti s (dr_dag_id dr, ti_task_id r, dr_run_id dr, ti_map_index ti) \<noteq> None"
      using that unfolding find_ti_None_iff ti_primary_def by (metis (no_types, lifting) image_eqI)
    have "(ti_task_id r, ti_map_index r) \<in> set pairs \<longleftrightarrow> ti_map_index r = ti_map_index ti \<and>
        ti_task_id r \<in> set (op_downstream_task_ids op) \<and> ti_task_id r \<notin> followed_by d branches \<and>
        find_ti s (dr_dag_id dr, ti_task_id r, dr_run_id dr, ti_map_index ti) \<noteq> None"
      unfolding pairs set_map set_filter by blast
    with found key show ?thesis unfolding skipped_by_branch_def by metis
  qed
  have tis: "db_tis (set_pairs_to_skipped now dr pairs s) = map (\<lambda>r. if skipped_by_branch d op branches ti r
       then r\<lparr>ti_state := Some SKIPPED, ti_start_date := Some now, ti_end_date := Some now\<rparr> else r) (db_tis s)"
    using iff by (cases "pairs = []")
      (auto simp: set_pairs_to_skipped_def skip_rows_def intro!: map_cong map_idI [symmetric])
  have set: "set_pairs_to_skipped now dr pairs s = s\<lparr>db_tis := db_tis (set_pairs_to_skipped now dr pairs s)\<rparr>"
    by (simp add: set_pairs_to_skipped_def skip_rows_def)
  have "db_tis s' = db_tis (set_pairs_to_skipped now dr pairs s)"
    using push by (auto simp: xcom_push_def xcom_set_def split: option.split_asm)
  moreover from this set have "s\<lparr>db_tis := db_tis s'\<rparr> = set_pairs_to_skipped now dr pairs s" by simp
  ultimately show ?thesis using push tis b(1) dr by (intro exI conjI) (assumption, assumption, simp, simp)
qed

text \<open>
  C27. A branch operator skips exactly the task instances, at its own map index of its run, of its
  direct downstream tasks that are neither chosen nor downstream of a chosen task; the chosen tasks
  are tasks of the DAG, and no other row changes.
\<close>

theorem branch_skips_exactly:
  assumes "branch_execute now d op ti chosen s = Inr (chosen', s')" "wf_dag d"
    "dict_get (d_task_dict d) (op_task_id op) = Some op"
  shows "chosen' = chosen \<and> (\<exists>branches. branch_task_id_set chosen = Inr branches \<and> (\<forall>t \<in> set branches. has_task d t) \<and>
    db_tis s' = map (\<lambda>r. if ti_dag_id r = ti_dag_id ti \<and> ti_run_id r = ti_run_id ti \<and> ti_map_index r = ti_map_index ti \<and>
         (op_task_id op, ti_task_id r) \<in> edges d False \<and> (\<forall>b \<in> set branches. (b, ti_task_id r) \<notin> (edges d False)\<^sup>*)
       then r\<lparr>ti_state := Some SKIPPED, ti_start_date := Some now, ti_end_date := Some now\<rparr> else r) (db_tis s))"
proof -
  have r: "chosen' = chosen" and sk: "skip_all_except now d op ti chosen s = Inr s'"
    using assms(1) by (auto simp: branch_execute_def)
  from sk obtain branches where b: "branch_task_id_set chosen = Inr branches" "\<forall>t \<in> set branches. has_task d t"
    by (auto simp: skip_all_except_def simp del: bind_err_Inr_iff elim!: bind_err_InrE split: if_split_asm)
  have edge: "(op_task_id op, t) \<in> edges d False \<longleftrightarrow> t \<in> set (op_downstream_task_ids op)" for t
    using assms(3) by (simp add: edges_iff get_direct_relative_ids_def)
  have "db_tis s' = map (\<lambda>r. if skipped_by_branch d op branches ti r
       then r\<lparr>ti_state := Some SKIPPED, ti_start_date := Some now, ti_end_date := Some now\<rparr> else r) (db_tis s)"
  proof (cases "op_downstream_task_ids op = []")
    case True
    then have "s' = s" using sk
      by (auto simp: skip_all_except_def downstream_list_def simp del: bind_err_Inr_iff elim!: bind_err_InrE split: if_split_asm)
    then show ?thesis using True by (auto simp: skipped_by_branch_def intro!: map_idI [symmetric])
  next
    case False
    with skip_all_except_result [OF sk assms(2,3)] b(1) show ?thesis by force
  qed
  then have "db_tis s' = map (\<lambda>r. if ti_dag_id r = ti_dag_id ti \<and> ti_run_id r = ti_run_id ti \<and> ti_map_index r = ti_map_index ti \<and>
         (op_task_id op, ti_task_id r) \<in> edges d False \<and> (\<forall>b \<in> set branches. (b, ti_task_id r) \<notin> (edges d False)\<^sup>*)
       then r\<lparr>ti_state := Some SKIPPED, ti_start_date := Some now, ti_end_date := Some now\<rparr> else r) (db_tis s)"
    by (simp add: skipped_by_branch_def followed_by_def edge Bex_def [symmetric] Image_iff cong: if_cong)
  with r b show ?thesis by blast
qed

definition sample_branching :: dag where
  "sample_branching = sample_dag
     [(sample_op ''b'')\<lparr>op_downstream_task_ids := [''x'', ''y''], op_is_skip_mixin := True\<rparr>,
      (sample_op ''x'')\<lparr>op_upstream_task_ids := [''b'']\<rparr>, (sample_op ''y'')\<lparr>op_upstream_task_ids := [''b'']\<rparr>]"

definition sample_branching_db :: db where
  "sample_branching_db = sample_db [sample_ti ''b'' (Some RUNNING), sample_ti ''x'' None, sample_ti ''y'' None]"

lemma sample_branching_wf: "wf_dag sample_branching"
  by (simp add: sample_branching_def wf_dag_def sample_defs dict_keys_def)

lemma sample_branching_op: "dict_get (d_task_dict sample_branching) (op_task_id (dag_op sample_branching ''b'')) = Some (dag_op sample_branching ''b'')"
  by (simp add: sample_branching_def dag_op_def sample_defs)

lemma sample_branching_run:
  "\<exists>s'. skip_all_except 9 sample_branching (dag_op sample_branching ''b'') (sample_ti ''b'' (Some RUNNING)) (PStr ''x'') sample_branching_db = Inr s' \<and>
     map ti_state (db_tis s') = [Some RUNNING, None, Some SKIPPED]"
proof -
  have "case skip_all_except 9 sample_branching (dag_op sample_branching ''b'') (sample_ti ''b'' (Some RUNNING)) (PStr ''x'') sample_branching_db of
      Inl _ \<Rightarrow> False | Inr s' \<Rightarrow> map ti_state (db_tis s') = [Some RUNNING, None, Some SKIPPED]" by code_simp
  then show ?thesis by (auto split: sum.splits)
qed

lemma branch_skips_exactly_witness:
  "\<exists>s'. branch_execute 9 sample_branching (dag_op sample_branching ''b'') (sample_ti ''b'' (Some RUNNING)) (PStr ''x'') sample_branching_db = Inr (PStr ''x'', s') \<and>
    map ti_state (db_tis s') = [Some RUNNING, None, Some SKIPPED] \<and> has_task sample_branching ''x''"
proof -
  from sample_branching_run obtain s' where sk: "skip_all_except 9 sample_branching (dag_op sample_branching ''b'')
      (sample_ti ''b'' (Some RUNNING)) (PStr ''x'') sample_branching_db = Inr s'"
    and st: "map ti_state (db_tis s') = [Some RUNNING, None, Some SKIPPED]" by (elim exE conjE) (rule that)
  from sk have r: "branch_execute 9 sample_branching (dag_op sample_branching ''b'')
      (sample_ti ''b'' (Some RUNNING)) (PStr ''x'') sample_branching_db = Inr (PStr ''x'', s')" by (simp add: branch_execute_def)
  from branch_skips_exactly [OF r sample_branching_wf sample_branching_op] obtain branches where
    "branch_task_id_set (PStr ''x'') = Inr branches" "\<forall>t \<in> set branches. has_task sample_branching t" by blast
  then have "has_task sample_branching ''x''" by auto
  with r st show ?thesis by (intro exI conjI)
qed

subsection \<open>The decision is kept\<close>

lemma xcom_push_result:
  assumes "xcom_push now key val ti s = Inr s'" "ti_map_index ti < 0" "key \<noteq> []"
    "\<forall>x \<in> set (db_xcoms s). xc_key x = key \<and> xc_task_id x = ti_task_id ti \<and> xc_dag_id x = ti_dag_id ti \<and>
       xc_run_id x = ti_run_id ti \<longrightarrow> xc_map_index x = ti_map_index ti"
    "ti_run_id ti' = ti_run_id ti" "ti_dag_id ti' = ti_dag_id ti"
  shows "xcom_pull ti' (ti_task_id ti) key dflt s' = val"
proof -
  have "filter (\<lambda>x. xc_key x = key \<and> xc_task_id x = ti_task_id ti \<and> xc_dag_id x = ti_dag_id ti \<and>
      xc_run_id x = ti_run_id ti) (filter (\<lambda>x. \<not> (xc_key x = key \<and> xc_run_id x = ti_run_id ti \<and>
      xc_task_id x = ti_task_id ti \<and> xc_dag_id x = ti_dag_id ti \<and> xc_map_index x = ti_map_index ti)) (db_xcoms s)) = []"
    using assms(4) by (auto simp: filter_empty_conv)
  with assms show ?thesis
    by (auto simp: xcom_push_def xcom_set_def xcom_pull_def xcom_get_many_def split: option.split_asm)
qed

text \<open>What the check does when one parent alone can skip: it follows the XCom of that parent.\<close>

lemma skip_loop_one_parent:
  assumes "\<forall>p \<in> set parents. op_is_skip_mixin p \<longrightarrow> p = op" "op_is_skip_mixin op" "op_task_id op \<in> set finished_ids"
    "xcom_pull ti (op_task_id op) XCOM_SKIPMIXIN_KEY PNone s = v" "v \<noteq> PNone" "parent_skips (ti_task_id ti) v = Inr skips"
    "\<not> dc_wait_for_past_depends_before_skipping cxt"
  shows "skip_loop env cxt ti finished_ids parents s = (if op \<in> set parents \<and> skips
    then Inr ([failing_status NotPreviouslySkippedDep (SkippedByParent (op_task_id op))],
              snd (set_state (de_now env) (ti_primary ti) (Some SKIPPED) s))
    else Inr ([], s))"
  using assms(1)
proof (induction parents)
  case (Cons p ps)
  have ih: "skip_loop env cxt ti finished_ids ps s = (if op \<in> set ps \<and> skips
    then Inr ([failing_status NotPreviouslySkippedDep (SkippedByParent (op_task_id op))],
              snd (set_state (de_now env) (ti_primary ti) (Some SKIPPED) s)) else Inr ([], s))"
    by (rule Cons.IH) (use Cons.prems in simp)
  show ?case
  proof (cases "p = op")
    case True
    with assms(2-7) ih show ?thesis by (simp del: split_paired_All)
  next
    case False
    with Cons.prems ih show ?thesis by simp
  qed
qed simp

lemma parent_skips_followed:
  "parent_skips t (PDict [(XCOM_SKIPMIXIN_FOLLOWED, PList (map PStr ids))]) = Inr (t \<notin> set ids)"
  by (auto simp: parent_skips_def skip_lookup_def XCOM_SKIPMIXIN_FOLLOWED_def XCOM_SKIPMIXIN_SKIPPED_def)



end
