(* ===== verification/Dag_Building.thy ===== *)
theory Dag_Building
  imports Dag_Cycles
begin

text \<open>
  How a DAG file builds its graph (\<open>models/taskmixin.py\<close>, \<open>utils/task_group.py\<close>, \<open>models/baseoperator.py\<close>,
  \<open>models/dag.py\<close>). Operators, task groups and DAGs are objects that refer to each other, so the model is a
  store: an object is its index in the list of its kind, created objects are appended, and an assignment to
  an attribute updates the list. An exception aborts the file, so an error carries no store.
  \<open>node_id\<close> of a group never changes (its parent and the prefixes are set by the constructor) and is kept in
  \<open>bg_node_id\<close>; the set of used group ids is shared by the groups of a DAG and kept with the DAG.
  Labels on edges (\<open>EdgeModifier\<close>) are not modelled. Two DAG objects are the same only if they are the same
  object; the code compares their fields.
\<close>

subsection \<open>Objects\<close>

datatype node = OpNode nat | GroupNode nat

record build_op = operator +
  bo_dag :: "nat option"
  bo_task_group :: "nat option"

record build_group =
  bg__group_id :: "string option"
  bg_node_id :: "string option"
  bg_prefix_group_id :: bool
  bg_task_group :: "nat option"
  bg_dag :: nat
  bg_children :: "(string option \<times> node) list"
  bg_upstream_group_ids :: "string option list"
  bg_downstream_group_ids :: "string option list"
  bg_upstream_task_ids :: "id_str list"
  bg_downstream_task_ids :: "id_str list"

record build_dag =
  bd_dag :: dag
  bd_task_dict :: "(id_str \<times> nat) list"
  bd_root :: nat
  bd_used_group_ids :: "string option list"

text \<open>\<open>TaskGroupContext\<close> keeps the group of the innermost \<open>with\<close> statement and those around it.\<close>

record store =
  st_ops :: "build_op list"
  st_groups :: "build_group list"
  st_dags :: "build_dag list"
  st_active :: bool
  st_managed :: "nat option"
  st_previous :: "nat list"

definition the_op :: "store \<Rightarrow> nat \<Rightarrow> build_op" where "the_op b r = st_ops b ! r"
definition the_group :: "store \<Rightarrow> nat \<Rightarrow> build_group" where "the_group b g = st_groups b ! g"
definition the_dag :: "store \<Rightarrow> nat \<Rightarrow> build_dag" where "the_dag b d = st_dags b ! d"

definition set_op :: "nat \<Rightarrow> (build_op \<Rightarrow> build_op) \<Rightarrow> store \<Rightarrow> store" where
  "set_op r f b = b\<lparr>st_ops := (st_ops b)[r := f (the_op b r)]\<rparr>"

definition set_group :: "nat \<Rightarrow> (build_group \<Rightarrow> build_group) \<Rightarrow> store \<Rightarrow> store" where
  "set_group g f b = b\<lparr>st_groups := (st_groups b)[g := f (the_group b g)]\<rparr>"

definition set_dag :: "nat \<Rightarrow> (build_dag \<Rightarrow> build_dag) \<Rightarrow> store \<Rightarrow> store" where
  "set_dag d f b = b\<lparr>st_dags := (st_dags b)[d := f (the_dag b d)]\<rparr>"

definition store_task_id :: "store \<Rightarrow> nat \<Rightarrow> id_str" where "store_task_id b r = op_task_id (the_op b r)"

text \<open>The DAG as the rest of the program reads it, once the file is loaded.\<close>

definition built_dag :: "store \<Rightarrow> nat \<Rightarrow> dag" where
  "built_dag b d = (bd_dag (the_dag b d))\<lparr>d_task_dict := map (\<lambda>(k, r). (k, operator.truncate (the_op b r))) (bd_task_dict (the_dag b d))\<rparr>"

subsection \<open>Task ids\<close>

text \<open>\<open>\w\<close> of a regular expression, for the first 256 code points.\<close>

definition word_char :: "char \<Rightarrow> bool" where
  "word_char c \<longleftrightarrow> (let n = of_char c :: nat in
     48 \<le> n \<and> n \<le> 57 \<or> 65 \<le> n \<and> n \<le> 90 \<or> n = 95 \<or> 97 \<le> n \<and> n \<le> 122 \<or>
     n \<in> {170, 178, 179, 181, 185, 186, 188, 189, 190} \<or> 192 \<le> n \<and> n \<noteq> 215 \<and> n \<noteq> 247)"

text \<open>\<open>^[class]+$\<close>: the end of the string or the newline that ends it.\<close>

definition matches_all :: "(char \<Rightarrow> bool) \<Rightarrow> string \<Rightarrow> bool" where
  "matches_all ok k \<longleftrightarrow> (let t = (if k \<noteq> [] \<and> List.last k = CHR 0x0A then butlast k else k) in t \<noteq> [] \<and> list_all ok t)"

definition validate_key :: "string \<Rightarrow> unit result" where
  "validate_key k =
     (if 250 < length k then Inl (AirflowException ''The key has to be less than 250 characters'')
      else if \<not> matches_all (\<lambda>c. word_char c \<or> c = CHR ''.'' \<or> c = CHR ''-'') k
      then Inl (AirflowException ''The key has to be made of alphanumeric characters, dashes, dots and underscores exclusively'')
      else Inr ())"

definition validate_group_key :: "string \<Rightarrow> unit result" where
  "validate_group_key k =
     (if 200 < length k then Inl (AirflowException ''The key has to be less than 200 characters'')
      else if \<not> matches_all (\<lambda>c. word_char c \<or> c = CHR ''-'') k
      then Inl (AirflowException ''The key has to be made of alphanumeric characters, dashes and underscores exclusively'')
      else Inr ())"

subsection \<open>Groups and the context\<close>

text \<open>\<open>child_id\<close>\<close>

definition child_id :: "build_group \<Rightarrow> string \<Rightarrow> string" where
  "child_id g label =
     (if bg_prefix_group_id g then (case bg_node_id g of Some i \<Rightarrow> if i \<noteq> [] then i @ ''.'' @ label else label | None \<Rightarrow> label)
      else label)"

definition upstream_join_id :: "build_group \<Rightarrow> string" where
  "upstream_join_id g = (case bg_node_id g of Some i \<Rightarrow> i | None \<Rightarrow> ''None'') @ ''.upstream_join_id''"

definition downstream_join_id :: "build_group \<Rightarrow> string" where
  "downstream_join_id g = (case bg_node_id g of Some i \<Rightarrow> i | None \<Rightarrow> ''None'') @ ''.downstream_join_id''"

definition push_context_managed_task_group :: "nat \<Rightarrow> store \<Rightarrow> store" where
  "push_context_managed_task_group g b =
     b\<lparr>st_previous := (case st_managed b of None \<Rightarrow> st_previous b | Some h \<Rightarrow> st_previous b @ [h]),
       st_managed := Some g, st_active := True\<rparr>"

definition pop_context_managed_task_group :: "store \<Rightarrow> store" where
  "pop_context_managed_task_group b =
     (if st_previous b \<noteq> [] then b\<lparr>st_managed := Some (List.last (st_previous b)), st_previous := butlast (st_previous b), st_active := False\<rparr>
      else b\<lparr>st_managed := None, st_active := False\<rparr>)"

text \<open>\<open>dag\<close> is the argument or, failing that, the DAG of the innermost \<open>with\<close> statement.\<close>

definition get_current_task_group :: "nat option \<Rightarrow> store \<Rightarrow> nat option" where
  "get_current_task_group dag b =
     (case st_managed b of Some g \<Rightarrow> Some g | None \<Rightarrow> map_option (\<lambda>d. bd_root (the_dag b d)) dag)"

text \<open>\<open>TaskGroup.add\<close> of a task: while a context is active the task leaves the group it was in.\<close>

definition leave_group :: "nat \<Rightarrow> nat \<Rightarrow> store \<Rightarrow> store" where
  "leave_group r g b =
     (case bo_task_group (the_op b r) of
        Some h \<Rightarrow> if st_active b \<and> h \<noteq> g
          then set_op r (\<lambda>t. t\<lparr>bo_task_group := Some g\<rparr>)
                 (set_group h (\<lambda>x. x\<lparr>bg_children := filter (\<lambda>c. fst c \<noteq> Some (store_task_id b r)) (bg_children x)\<rparr>) b)
          else b
      | None \<Rightarrow> b)"

definition add_op_to_group :: "nat \<Rightarrow> nat \<Rightarrow> store \<Rightarrow> store result" where
  "add_op_to_group g r b0 =
     (let b = leave_group r g b0; key = Some (store_task_id b r) in
      if bo_task_group (the_op b r) \<noteq> None \<and> bo_task_group (the_op b r) \<noteq> Some g
      then Inl (AirflowException ''TaskAlreadyInTaskGroup'')
      else if key \<in> fst ` set (bg_children (the_group b g)) then Inl (AirflowException ''DuplicateTaskIdFound'')
      else Inr (set_group g (\<lambda>x. x\<lparr>bg_children := bg_children x @ [(key, OpNode r)]\<rparr>)
                 (set_op r (\<lambda>t. t\<lparr>bo_task_group := Some g\<rparr>) b)))"

text \<open>\<open>TaskGroup.__init__\<close> of a group with an id, without a suffix on collision: \<open>parent\<close> and \<open>dag\<close> are
  the arguments. The new group has no children, so adding it to its parent can only find its id taken.\<close>

definition new_group :: "string \<Rightarrow> bool \<Rightarrow> nat option \<Rightarrow> nat option \<Rightarrow> store \<Rightarrow> (nat \<times> store) result" where
  "new_group group_id prefix_group_id parent dag b =
     bind_err (if prefix_group_id then validate_group_key group_id
               else if group_id = [] then Inl (ValueError ''group_id must not be empty'') else Inr ()) (\<lambda>_.
     if parent = None \<and> dag = None then Inl (AirflowException ''TaskGroup can only be used inside a dag'')
     else case (if parent \<noteq> None then parent else get_current_task_group dag b) of
       None \<Rightarrow> Inl (AirflowException ''TaskGroup must have a parent_group except for the root TaskGroup'')
     | Some p \<Rightarrow>
         if dag \<noteq> Some (bg_dag (the_group b p)) then Inl (RuntimeError ''Cannot mix TaskGroups from different DAGs'')
         else let d = bg_dag (the_group b p) in
         if Some group_id \<in> set (bd_used_group_ids (the_dag b d)) then Inl (AirflowException ''DuplicateTaskIdFound'')
         else let key = Some (child_id (the_group b p) group_id); g = length (st_groups b);
                  new = \<lparr>bg__group_id = Some group_id, bg_node_id = key, bg_prefix_group_id = prefix_group_id, bg_task_group = Some p,
                         bg_dag = d, bg_children = [], bg_upstream_group_ids = [], bg_downstream_group_ids = [],
                         bg_upstream_task_ids = [], bg_downstream_task_ids = []\<rparr> in
           if key \<in> fst ` set (bg_children (the_group b p)) then Inl (AirflowException ''DuplicateTaskIdFound'')
           else Inr (g, set_dag d (\<lambda>x. x\<lparr>bd_used_group_ids :=
                    set_update (bd_used_group_ids x) [key, Some (downstream_join_id new), Some (upstream_join_id new)]\<rparr>)
                  (set_group p (\<lambda>x. x\<lparr>bg_children := bg_children x @ [(key, GroupNode g)]\<rparr>)
                    (b\<lparr>st_groups := st_groups b @ [new]\<rparr>))))"

text \<open>\<open>DAG.__init__\<close> creates the root group.\<close>

definition new_dag :: "dag \<Rightarrow> store \<Rightarrow> nat \<times> store" where
  "new_dag d b =
     (let root = \<lparr>bg__group_id = None, bg_node_id = None, bg_prefix_group_id = True, bg_task_group = None, bg_dag = length (st_dags b),
            bg_children = [], bg_upstream_group_ids = [], bg_downstream_group_ids = [], bg_upstream_task_ids = [], bg_downstream_task_ids = []\<rparr>
      in (length (st_dags b),
          b\<lparr>st_groups := st_groups b @ [root],
            st_dags := st_dags b @ [\<lparr>bd_dag = d\<lparr>d_task_dict := []\<rparr>, bd_task_dict = [], bd_root = length (st_groups b), bd_used_group_ids = [None]\<rparr>]\<rparr>))"

subsection \<open>Adding a task to its DAG\<close>

text \<open>The dates a task takes over from its DAG; a date is never falsy.\<close>

definition narrow_dates :: "dag \<Rightarrow> build_op \<Rightarrow> build_op" where
  "narrow_dates d t =
     t\<lparr>op_start_date := (case (op_start_date t, d_start_date d) of
          (None, e) \<Rightarrow> e | (Some x, None) \<Rightarrow> Some x | (Some x, Some y) \<Rightarrow> Some (max x y)),
       op_end_date := (case (op_end_date t, d_end_date d) of
          (None, e) \<Rightarrow> e | (Some x, None) \<Rightarrow> Some x | (Some x, Some y) \<Rightarrow> Some (min x y))\<rparr>"

definition fail_stop_allows :: "dag \<Rightarrow> TriggerRule \<Rightarrow> bool" where
  "fail_stop_allows d rule \<longleftrightarrow> \<not> d_fail_stop d \<or> rule \<in> {ALL_SUCCESS, ALL_DONE_SETUP_SUCCESS}"

text \<open>The last part of \<open>add_task\<close>: the entry in \<open>task_dict\<close>, which must not belong to another task.\<close>

definition register_task :: "nat \<Rightarrow> nat \<Rightarrow> id_str \<Rightarrow> store \<Rightarrow> store result" where
  "register_task d r task_id b =
     (let x = the_dag b d in
      if (case dict_get (bd_task_dict x) task_id of Some q \<Rightarrow> q \<noteq> r | None \<Rightarrow> False) \<or> Some task_id \<in> set (bd_used_group_ids x)
      then Inl (AirflowException ''DuplicateTaskIdFound'')
      else Inr (set_dag d (\<lambda>x. x\<lparr>bd_task_dict := dict_set task_id r (bd_task_dict x),
                             bd_used_group_ids := set_add (bd_used_group_ids x) (Some task_id)\<rparr>) b))"

text \<open>
  \<open>DAG.add_task\<close>. It ends with \<open>task.dag = self\<close>, whose setter calls \<open>add_task\<close> once more when the entry it
  finds under the task's own id is not the task; a task that got a prefix through the current group is
  such a task, and gets a second entry.
\<close>

definition add_task :: "nat \<Rightarrow> nat \<Rightarrow> store \<Rightarrow> store result" where
  "add_task d r b =
     (if \<not> fail_stop_allows (bd_dag (the_dag b d)) (op_trigger_rule (the_op b r)) then Inl (AirflowException ''FailStopDagInvalidTriggerRule'')
      else let b1 = set_op r (narrow_dates (bd_dag (the_dag b d))) b in
        bind_err (if bo_task_group (the_op b r) \<noteq> None then Inr (store_task_id b r, b1)
           else case get_current_task_group (Some d) b1 of
               None \<Rightarrow> Inr (store_task_id b r, b1)
             | Some g \<Rightarrow> bind_err (add_op_to_group g r b1) (\<lambda>b2. Inr (child_id (the_group b1 g) (store_task_id b r), b2)))
        (\<lambda>(task_id, b2). bind_err (register_task d r task_id b2) (\<lambda>b3.
           if bo_dag (the_op b r) \<noteq> None \<and> bo_dag (the_op b r) \<noteq> Some d
           then Inl (AirflowException ''The DAG assigned to a task can not be changed'')
           else bind_err (if dict_get (bd_task_dict (the_dag b3 d)) (store_task_id b r) = Some r then Inr b3
                          else register_task d r (store_task_id b r) b3) (\<lambda>b4.
             Inr (set_op r (\<lambda>t. t\<lparr>bo_dag := Some d\<rparr>) b4)))))"

text \<open>The setter of \<open>BaseOperator.dag\<close>.\<close>

definition set_task_dag :: "nat \<Rightarrow> nat \<Rightarrow> store \<Rightarrow> store result" where
  "set_task_dag r d b =
     (if bo_dag (the_op b r) \<noteq> None \<and> bo_dag (the_op b r) \<noteq> Some d
      then Inl (AirflowException ''The DAG assigned to a task can not be changed'')
      else bind_err (if dict_get (bd_task_dict (the_dag b d)) (store_task_id b r) = Some r then Inr b else add_task d r b)
        (\<lambda>b'. Inr (set_op r (\<lambda>t. t\<lparr>bo_dag := Some d\<rparr>) b')))"

text \<open>\<open>BaseOperator.__init__\<close>: the id, the group and the DAG of a new operator with the given attributes.
  \<open>dag\<close> is resolved as above, \<open>task_group\<close> is the argument.\<close>

definition new_operator :: "operator \<Rightarrow> nat option \<Rightarrow> nat option \<Rightarrow> store \<Rightarrow> (nat \<times> store) result" where
  "new_operator attrs dag task_group b =
     bind_err (validate_key (op_task_id attrs)) (\<lambda>_.
       let tg = (if task_group \<noteq> None then task_group else get_current_task_group dag b);
           own = (case tg of Some g \<Rightarrow> child_id (the_group b g) (op_task_id attrs) | None \<Rightarrow> op_task_id attrs);
           r = length (st_ops b);
           t = operator.extend (attrs\<lparr>op_task_id := own, op_upstream_task_ids := [], op_downstream_task_ids := [],
                 op_is_setup := False, op_is_teardown := False\<rparr>) \<lparr>bo_dag = None, bo_task_group = None\<rparr>;
           b1 = b\<lparr>st_ops := st_ops b @ [t]\<rparr> in
       bind_err (case tg of Some g \<Rightarrow> add_op_to_group g r b1 | None \<Rightarrow> Inr b1) (\<lambda>b2.
       bind_err (case dag of Some d \<Rightarrow> set_task_dag r d b2 | None \<Rightarrow> Inr b2) (\<lambda>b3. Inr (r, b3))))"

subsection \<open>The tasks of a group\<close>

text \<open>
  Iterating over a group: its tasks and those of the groups in it. The first argument bounds the depth;
  as many levels as there are groups are enough (\<open>group_tasks_fuel\<close>), a group being created after its parent.
\<close>

fun group_tasks :: "nat \<Rightarrow> store \<Rightarrow> nat \<Rightarrow> nat list" where
  "group_tasks 0 b g = []"
| "group_tasks (Suc n) b g =
     concat (map (\<lambda>c. case snd c of OpNode r \<Rightarrow> [r] | GroupNode h \<Rightarrow> group_tasks n b h) (bg_children (the_group b g)))"

definition tasks_of_group :: "store \<Rightarrow> nat \<Rightarrow> nat list" where
  "tasks_of_group b g = group_tasks (length (st_groups b)) b g"

text \<open>\<open>has_task\<close>: by task id, in the group or one inside it.\<close>

fun group_has_task :: "nat \<Rightarrow> store \<Rightarrow> nat \<Rightarrow> id_str \<Rightarrow> bool" where
  "group_has_task 0 b g t = False"
| "group_has_task (Suc n) b g t =
     (Some t \<in> fst ` set (bg_children (the_group b g)) \<or>
      (\<exists>c \<in> set (bg_children (the_group b g)). case snd c of OpNode r \<Rightarrow> False | GroupNode h \<Rightarrow> group_has_task n b h t))"

text \<open>\<open>get_task_group_dict\<close>: the group and all groups in it by id, each before those in it.\<close>

fun group_dict :: "nat \<Rightarrow> store \<Rightarrow> nat \<Rightarrow> (string option \<times> nat) list" where
  "group_dict 0 b g = []"
| "group_dict (Suc n) b g = (bg_node_id (the_group b g), g) #
     concat (map (\<lambda>c. case snd c of OpNode r \<Rightarrow> [] | GroupNode h \<Rightarrow> group_dict n b h) (bg_children (the_group b g)))"

definition get_task_group_dict :: "store \<Rightarrow> nat \<Rightarrow> (string option \<times> nat) list" where
  "get_task_group_dict b g = fold (\<lambda>(k, h) m. dict_set k h m) (group_dict (length (st_groups b)) b g) []"

definition get_child_by_label :: "store \<Rightarrow> nat \<Rightarrow> string \<Rightarrow> node result" where
  "get_child_by_label b g label =
     (case dict_get (bg_children (the_group b g)) (Some (child_id (the_group b g) label)) of
        None \<Rightarrow> Inl (KeyError (child_id (the_group b g) label)) | Some c \<Rightarrow> Inr c)"

text \<open>\<open>get_roots\<close>: the tasks with no upstream task in the group.\<close>

definition disjoint_ids :: "id_str list \<Rightarrow> id_str list \<Rightarrow> bool" where
  "disjoint_ids xs ys \<longleftrightarrow> list_all (\<lambda>x. x \<notin> set ys) xs"

definition is_group_root :: "id_str list \<Rightarrow> store \<Rightarrow> nat \<Rightarrow> bool" where
  "is_group_root ids b r \<longleftrightarrow> disjoint_ids (op_upstream_task_ids (the_op b r)) ids"

definition group_roots :: "store \<Rightarrow> nat \<Rightarrow> nat list" where
  "group_roots b g = (let tasks = tasks_of_group b g in filter (is_group_root (map (store_task_id b) tasks) b) tasks)"

text \<open>\<open>upstream_list\<close> and \<open>downstream_list\<close> of a task.\<close>

definition relatives_list :: "store \<Rightarrow> bool \<Rightarrow> nat \<Rightarrow> nat list result" where
  "relatives_list b upstream r =
     (case bo_dag (the_op b r) of
        None \<Rightarrow> Inl (AirflowException ''Operator has not been assigned to a DAG yet'')
      | Some d \<Rightarrow> map_err (\<lambda>t. case dict_get (bd_task_dict (the_dag b d)) t of None \<Rightarrow> Inl (TaskNotFound t) | Some q \<Rightarrow> Inr q)
          (if upstream then op_upstream_task_ids (the_op b r) else op_downstream_task_ids (the_op b r)))"

definition has_non_teardown_downstream :: "store \<Rightarrow> id_str list \<Rightarrow> nat \<Rightarrow> id_str \<Rightarrow> bool result" where
  "has_non_teardown_downstream b ids r exclude =
     bind_err (relatives_list b False r) (\<lambda>ds.
       Inr (\<exists>d \<in> set ds. store_task_id b d \<noteq> exclude \<and> store_task_id b d \<in> set ids \<and> \<not> op_is_teardown (the_op b d)))"

text \<open>
  \<open>get_leaves\<close> is a generator: what consumes a leaf runs before the search goes on, and may change what
  it sees. \<open>consume\<close> is that code, on any state that has a store. A search that goes deeper than there are
  tasks follows a cycle of teardowns and never ends but by the limit on recursion.
\<close>

primrec first_non_teardown :: "nat \<Rightarrow> ('s \<Rightarrow> store) \<Rightarrow> (nat \<Rightarrow> 's \<Rightarrow> 's result) \<Rightarrow> id_str list \<Rightarrow> nat \<Rightarrow> 's \<Rightarrow> 's result" where
  "first_non_teardown 0 store_of consume ids r s = Inl (RuntimeError ''maximum recursion depth exceeded'')"
| "first_non_teardown (Suc n) store_of consume ids r s =
     bind_err (relatives_list (store_of s) True r) (\<lambda>us. fold_err (\<lambda>u s.
       let b = store_of s in
       if store_task_id b u \<notin> set ids then Inr s
       else if op_is_teardown (the_op b u) then first_non_teardown n store_of consume ids u s
       else if op_is_teardown (the_op b r) \<and> op_is_setup (the_op b u) then Inr s
       else bind_err (has_non_teardown_downstream b ids u (store_task_id b r)) (\<lambda>h. if \<not> h then consume u s else Inr s)) us s)"

definition each_leaf :: "('s \<Rightarrow> store) \<Rightarrow> (nat \<Rightarrow> 's \<Rightarrow> 's result) \<Rightarrow> nat \<Rightarrow> 's \<Rightarrow> 's result" where
  "each_leaf store_of consume g s0 =
     (let tasks = tasks_of_group (store_of s0) g; ids = map (store_task_id (store_of s0)) tasks in
      fold_err (\<lambda>r s. let b = store_of s in
        if \<not> disjoint_ids (op_downstream_task_ids (the_op b r)) ids then Inr s
        else if \<not> op_is_teardown (the_op b r) then consume r s
        else first_non_teardown (Suc (length (st_ops b))) store_of consume ids r s) tasks s0)"

definition group_leaves :: "store \<Rightarrow> nat \<Rightarrow> nat list result" where
  "group_leaves b g = bind_err (each_leaf fst (\<lambda>r s. Inr (fst s, snd s @ [r])) g (b, [])) (\<lambda>s. Inr (snd s))"

subsection \<open>Setting relations\<close>

text \<open>What can be on either side of \<open>>>\<close>: a task, a group, or the XComs of tasks.\<close>

datatype dependency = DOp nat | DGroup nat | DXCom "nat list"

fun dep_roots :: "store \<Rightarrow> dependency \<Rightarrow> nat list result" where
  "dep_roots b (DOp r) = Inr [r]"
| "dep_roots b (DGroup g) = Inr (group_roots b g)"
| "dep_roots b (DXCom rs) = Inr rs"

fun dep_leaves :: "store \<Rightarrow> dependency \<Rightarrow> nat list result" where
  "dep_leaves b (DOp r) = Inr [r]"
| "dep_leaves b (DGroup g) = group_leaves b g"
| "dep_leaves b (DXCom rs) = Inr rs"

text \<open>\<open>TaskGroup.update_relative\<close>; on anything else it does nothing.\<close>

definition update_group_relative :: "nat \<Rightarrow> dependency \<Rightarrow> bool \<Rightarrow> store \<Rightarrow> store result" where
  "update_group_relative g other upstream b =
     (case other of
        DGroup h \<Rightarrow>
          let (p, c) = (if upstream then (g, h) else (h, g)) in
          Inr (set_group c (\<lambda>x. x\<lparr>bg_downstream_group_ids := set_add (bg_downstream_group_ids x) (bg_node_id (the_group b p))\<rparr>)
                (set_group p (\<lambda>x. x\<lparr>bg_upstream_group_ids := set_add (bg_upstream_group_ids x) (bg_node_id (the_group b c))\<rparr>) b))
      | _ \<Rightarrow> bind_err (dep_roots b other) (\<lambda>rs.
          Inr (set_group g (\<lambda>x. if upstream then x\<lparr>bg_upstream_task_ids := set_update (bg_upstream_task_ids x) (map (store_task_id b) rs)\<rparr>
                                else x\<lparr>bg_downstream_task_ids := set_update (bg_downstream_task_ids x) (map (store_task_id b) rs)\<rparr>) b)))"

definition update_relative :: "dependency \<Rightarrow> dependency \<Rightarrow> bool \<Rightarrow> store \<Rightarrow> store result" where
  "update_relative obj other upstream b = (case obj of DGroup g \<Rightarrow> update_group_relative g other upstream b | _ \<Rightarrow> Inr b)"

text \<open>The edge from one task to another, recorded at both ends.\<close>

definition add_edge :: "nat \<Rightarrow> nat \<Rightarrow> store \<Rightarrow> store" where
  "add_edge u d b =
     (let b1 = set_op u (\<lambda>t. t\<lparr>op_downstream_task_ids := set_add (op_downstream_task_ids t) (store_task_id b d)\<rparr>) b in
      set_op d (\<lambda>t. t\<lparr>op_upstream_task_ids := set_add (op_upstream_task_ids t) (store_task_id b u)\<rparr>) b1)"

definition relate_one :: "nat \<Rightarrow> nat \<Rightarrow> bool \<Rightarrow> nat \<Rightarrow> store \<Rightarrow> store result" where
  "relate_one d r upstream t b =
     bind_err (if bo_dag (the_op b t) = None then add_task d t b else Inr b) (\<lambda>b'.
       Inr (if upstream then add_edge t r b' else add_edge r t b'))"

text \<open>\<open>DAGNode._set_relatives\<close> of a task.\<close>

definition collect_relatives :: "nat \<Rightarrow> bool \<Rightarrow> dependency \<Rightarrow> nat list \<times> store \<Rightarrow> (nat list \<times> store) result" where
  "collect_relatives r upstream x s =
     bind_err (update_relative x (DOp r) (\<not> upstream) (snd s)) (\<lambda>b'.
       bind_err (if upstream then dep_leaves b' x else dep_roots b' x) (\<lambda>rs. Inr (fst s @ rs, b')))"

definition op_set_relatives :: "nat \<Rightarrow> dependency list \<Rightarrow> bool \<Rightarrow> store \<Rightarrow> store result" where
  "op_set_relatives r xs upstream b =
     bind_err (fold_err (collect_relatives r upstream) xs ([], b)) (\<lambda>(task_list, b1).
       case remdups (List.map_filter (\<lambda>t. bo_dag (the_op b1 t)) (r # task_list)) of
         [] \<Rightarrow> Inl (AirflowException ''Tried to create relationships between tasks that do not have DAGs yet'')
       | d # _ # _ \<Rightarrow> Inl (AirflowException ''Tried to set relationships between tasks in more than one DAG'')
       | [d] \<Rightarrow>
           bind_err (if bo_dag (the_op b1 r) = None then set_task_dag r d b1 else Inr b1)
             (fold_err (relate_one d r upstream) task_list))"

text \<open>\<open>TaskGroup._set_relatives\<close>: the leaves are visited while their relations are set, and so are the roots.\<close>

definition group_set_relatives :: "nat \<Rightarrow> dependency list \<Rightarrow> bool \<Rightarrow> store \<Rightarrow> store result" where
  "group_set_relatives g xs upstream b =
     bind_err (fold_err (\<lambda>x. update_group_relative g x upstream) xs b) (\<lambda>b1.
       if upstream then
         (let tasks = tasks_of_group b1 g; ids = map (store_task_id b1) tasks in
          fold_err (\<lambda>r s. if is_group_root ids s r then op_set_relatives r xs True s else Inr s) tasks b1)
       else each_leaf (\<lambda>s. s) (\<lambda>r. op_set_relatives r xs False) g b1)"

text \<open>\<open>set_upstream\<close> and \<open>set_downstream\<close> of anything.\<close>

definition set_relatives :: "dependency \<Rightarrow> dependency list \<Rightarrow> bool \<Rightarrow> store \<Rightarrow> store result" where
  "set_relatives x xs upstream b =
     (case x of
        DOp r \<Rightarrow> op_set_relatives r xs upstream b
      | DGroup g \<Rightarrow> group_set_relatives g xs upstream b
      | DXCom rs \<Rightarrow> fold_err (\<lambda>r. op_set_relatives r xs upstream) rs b)"

subsection \<open>Chains\<close>

text \<open>Arguments of the helpers are single dependencies or lists of them.\<close>

datatype element = One dependency | Many "dependency list"

fun element_list :: "element \<Rightarrow> dependency list" where
  "element_list (One x) = [x]"
| "element_list (Many xs) = xs"

fun chain_pair :: "element \<Rightarrow> element \<Rightarrow> store \<Rightarrow> store result" where
  "chain_pair (One x) down b = set_relatives x (element_list down) False b"
| "chain_pair (Many xs) (One y) b = set_relatives y xs True b"
| "chain_pair (Many xs) (Many ys) b =
     (if length xs \<noteq> length ys then Inl (AirflowException ''Chain not supported for different length Iterable'')
      else fold_err (\<lambda>(x, y). set_relatives x [y] False) (zip xs ys) b)"

fun chain :: "element list \<Rightarrow> store \<Rightarrow> store result" where
  "chain (x # y # rest) b = bind_err (chain_pair x y b) (chain (y # rest))"
| "chain _ b = Inr b"

definition cross_downstream :: "dependency list \<Rightarrow> element \<Rightarrow> store \<Rightarrow> store result" where
  "cross_downstream from_tasks to_tasks = fold_err (\<lambda>x. set_relatives x (element_list to_tasks) False) from_tasks"

text \<open>\<open>chain_linear\<close>: the flag is \<open>deps_set\<close>.\<close>

fun linear_loop :: "dependency list \<Rightarrow> element list \<Rightarrow> bool \<times> store \<Rightarrow> (bool \<times> store) result" where
  "linear_loop prev [] s = Inr s"
| "linear_loop prev (e # es) s =
     bind_err (cross_downstream prev e (snd s)) (\<lambda>b. linear_loop (element_list e) es (fst s \<or> prev \<noteq> [], b))"

definition chain_linear :: "element list \<Rightarrow> store \<Rightarrow> store result" where
  "chain_linear elements b =
     (case elements of
        [] \<Rightarrow> Inl (ValueError ''No tasks provided; nothing to do.'')
      | e # es \<Rightarrow> bind_err (linear_loop (element_list e) es (False, b)) (\<lambda>(deps_set, b').
          if deps_set then Inr b' else Inl (ValueError ''No dependencies were set.'')))"

text \<open>\<open>DAG.set_dependency\<close>\<close>

definition set_dependency :: "nat \<Rightarrow> id_str \<Rightarrow> id_str \<Rightarrow> store \<Rightarrow> store result" where
  "set_dependency d up down b =
     (case (dict_get (bd_task_dict (the_dag b d)) up, dict_get (bd_task_dict (the_dag b d)) down) of
        (None, _) \<Rightarrow> Inl (TaskNotFound up)
      | (Some u, None) \<Rightarrow> Inl (TaskNotFound down)
      | (Some u, Some t) \<Rightarrow> set_relatives (DOp u) [DOp t] False b)"

subsection \<open>Setups and teardowns\<close>

definition as_setup :: "nat \<Rightarrow> store \<Rightarrow> store result" where
  "as_setup r b =
     (if op_is_teardown (the_op b r) then Inl (ValueError ''Cannot mark task as setup; task is already a teardown.'')
      else Inr (set_op r (\<lambda>t. t\<lparr>op_is_setup := True\<rparr>) b))"

text \<open>\<open>None\<close> stands for an argument that is not given; a setup is marked and related before the next one.\<close>

definition as_teardown :: "nat \<Rightarrow> nat list option \<Rightarrow> bool option \<Rightarrow> store \<Rightarrow> store result" where
  "as_teardown r setups on_failure_fail_dagrun b =
     (if op_is_setup (the_op b r) then Inl (ValueError ''Cannot mark task as teardown; task is already a setup.'')
      else let b1 = set_op r (\<lambda>t. t\<lparr>op_is_teardown := True, op_trigger_rule := ALL_DONE_SETUP_SUCCESS,
              op_on_failure_fail_dagrun := (case on_failure_fail_dagrun of None \<Rightarrow> op_on_failure_fail_dagrun t | Some x \<Rightarrow> x)\<rparr>) b in
        fold_err (\<lambda>s b. bind_err (as_setup s b) (set_relatives (DOp s) [DOp r] False))
          (case setups of None \<Rightarrow> [] | Some ss \<Rightarrow> ss) b1)"

subsection \<open>Loops\<close>

lemma first_non_teardown_inv:
  assumes "\<And>r t t'. r < N \<Longrightarrow> P t \<Longrightarrow> consume r t = Inr t' \<Longrightarrow> P t'"
    "\<And>t r qs. r < N \<Longrightarrow> P t \<Longrightarrow> relatives_list (store_of t) True r = Inr qs \<Longrightarrow> \<forall>q \<in> set qs. q < N"
  shows "r < N \<Longrightarrow> first_non_teardown n store_of consume ids r s = Inr s' \<Longrightarrow> P s \<Longrightarrow> P s'"
proof (induction n arbitrary: r s s')
  case (Suc n)
  let ?body = "\<lambda>u s. let b = store_of s in
       if store_task_id b u \<notin> set ids then Inr s
       else if op_is_teardown (the_op b u) then first_non_teardown n store_of consume ids u s
       else if op_is_teardown (the_op b r) \<and> op_is_setup (the_op b u) then Inr s
       else bind_err (has_non_teardown_downstream b ids u (store_task_id b r)) (\<lambda>h. if \<not> h then consume u s else Inr s)"
  from Suc.prems(2) have "bind_err (relatives_list (store_of s) True r) (\<lambda>us. fold_err ?body us s) = Inr s'"
    by (simp only: first_non_teardown.simps)
  then obtain us where us: "relatives_list (store_of s) True r = Inr us" "fold_err ?body us s = Inr s'"
    by (rule bind_err_InrE)
  note lt = assms(2) [OF Suc.prems(1,3) us(1)]
  have step: "P t'" if "x \<in> set us" "P t" "?body x t = Inr t'" for x t t'
  proof -
    have "x < N" using lt that(1) by simp
    with that(2,3) Suc.IH [of x t t'] assms(1) [of x t t'] show ?thesis by (auto simp: Let_def split: if_split_asm)
  qed
  show ?case by (rule fold_err_inv [where P = P, OF us(2) Suc.prems(3) step])
qed simp

lemma each_leaf_inv:
  assumes "each_leaf store_of consume g s = Inr s'" "P s" "\<And>r t t'. r < N \<Longrightarrow> P t \<Longrightarrow> consume r t = Inr t' \<Longrightarrow> P t'"
    "\<And>t r qs. r < N \<Longrightarrow> P t \<Longrightarrow> relatives_list (store_of t) True r = Inr qs \<Longrightarrow> \<forall>q \<in> set qs. q < N"
    "\<forall>r \<in> set (tasks_of_group (store_of s) g). r < N"
  shows "P s'"
proof -
  let ?tasks = "tasks_of_group (store_of s) g"
  let ?ids = "map (store_task_id (store_of s)) ?tasks"
  let ?body = "\<lambda>r s. let b = store_of s in
        if \<not> disjoint_ids (op_downstream_task_ids (the_op b r)) ?ids then Inr s
        else if \<not> op_is_teardown (the_op b r) then consume r s
        else first_non_teardown (Suc (length (st_ops b))) store_of consume ?ids r s"
  have f: "fold_err ?body ?tasks s = Inr s'" using assms(1) by (simp only: each_leaf_def Let_def)
  have step: "P t'" if "r \<in> set ?tasks" "P t" "?body r t = Inr t'" for r t t'
  proof -
    have "r < N" using assms(5) that(1) by blast
    have deep: "P t'" if "first_non_teardown n store_of consume ?ids r t = Inr t'" for n
      by (rule first_non_teardown_inv [where P = P and N = N, OF assms(3,4) \<open>r < N\<close> that \<open>P t\<close>])
    have "consume r t = Inr t' \<Longrightarrow> P t'" using assms(3,5) that(1,2) by blast
    with that(2,3) deep [of "Suc (length (st_ops (store_of t)))"] show ?thesis
      by (simp add: Let_def del: first_non_teardown.simps split: if_split_asm)
  qed
  show ?thesis by (rule fold_err_inv [where P = P, OF f assms(2) step])
qed

end
