(* ===== verification/Building_Laws.thy ===== *)
theory Building_Laws
  imports Dag_Building
begin

text \<open>
  What building a graph guarantees: whatever operators, groups and relations a DAG file makes, the DAG that
  results has every task under its own id and every edge recorded at both ends, which the theorems on the
  scheduler assume of a DAG.
\<close>

subsection \<open>Links\<close>

text \<open>What the invariant looks at: of a task its id, its relatives and its DAG, of a DAG its \<open>task_dict\<close>.\<close>

record link =
  lk_id :: id_str
  lk_up :: "id_str list"
  lk_down :: "id_str list"
  lk_dag :: "nat option"

definition link_of :: "build_op \<Rightarrow> link" where
  "link_of t = \<lparr>lk_id = op_task_id t, lk_up = op_upstream_task_ids t, lk_down = op_downstream_task_ids t, lk_dag = bo_dag t\<rparr>"

definition links :: "store \<Rightarrow> link list" where "links b = map link_of (st_ops b)"
definition dicts :: "store \<Rightarrow> (id_str \<times> nat) list list" where "dicts b = map bd_task_dict (st_dags b)"

definition dicts_ok :: "link list \<Rightarrow> (id_str \<times> nat) list list \<Rightarrow> bool" where
  "dicts_ok L D \<longleftrightarrow> (\<forall>d < length D. distinct (map fst (D ! d)) \<and>
     (\<forall>(k, r) \<in> set (D ! d). r < length L \<and> lk_id (L ! r) = k \<and> lk_dag (L ! r) = Some d))"

definition homes_ok :: "link list \<Rightarrow> (id_str \<times> nat) list list \<Rightarrow> bool" where
  "homes_ok L D \<longleftrightarrow> (\<forall>r < length L. lk_id (L ! r) \<noteq> [] \<and> distinct (lk_up (L ! r)) \<and> distinct (lk_down (L ! r)) \<and>
     (\<forall>d. lk_dag (L ! r) = Some d \<longrightarrow> d < length D \<and> (lk_id (L ! r), r) \<in> set (D ! d)))"

definition linked :: "link list \<Rightarrow> (id_str \<times> nat) list list \<Rightarrow> (link \<Rightarrow> id_str list) \<Rightarrow> (link \<Rightarrow> id_str list) \<Rightarrow> bool" where
  "linked L D out inc \<longleftrightarrow> (\<forall>r < length L. \<forall>u \<in> set (out (L ! r)). \<exists>d q. lk_dag (L ! r) = Some d \<and> (u, q) \<in> set (D ! d) \<and>
     lk_id (L ! r) \<in> set (inc (L ! q)))"

definition links_ok :: "link list \<Rightarrow> (id_str \<times> nat) list list \<Rightarrow> bool" where
  "links_ok L D \<longleftrightarrow> dicts_ok L D \<and> homes_ok L D \<and> linked L D lk_up lk_down \<and> linked L D lk_down lk_up"

lemma dicts_okD:
  assumes "dicts_ok L D" "d < length D" "(k, r) \<in> set (D ! d)"
  shows "r < length L" "lk_id (L ! r) = k" "lk_dag (L ! r) = Some d"
  using assms by (auto simp: dicts_ok_def)

text \<open>A new task outside every DAG, and a new DAG.\<close>

lemma links_ok_snoc:
  assumes "links_ok L D" "lk_id l \<noteq> []" "lk_up l = []" "lk_down l = []" "lk_dag l = None"
  shows "links_ok (L @ [l]) D"
proof -
  have "dicts_ok (L @ [l]) D" using assms(1) by (fastforce simp: links_ok_def dicts_ok_def nth_append)
  moreover have "homes_ok (L @ [l]) D"
    using assms by (auto simp: links_ok_def homes_ok_def nth_append)
  moreover have "linked (L @ [l]) D out inc" if "linked L D out inc" "out l = []" for out inc
    unfolding linked_def
  proof (intro allI impI ballI)
    fix r u assume r: "r < length (L @ [l])" "u \<in> set (out ((L @ [l]) ! r))"
    with that(2) have "r < length L" by (auto simp: nth_append split: if_split_asm)
    with that(1) r obtain d q where q: "lk_dag (L ! r) = Some d" "(u, q) \<in> set (D ! d)" "lk_id (L ! r) \<in> set (inc (L ! q))"
      by (fastforce simp: linked_def nth_append)
    moreover have "q < length L"
      using assms(1) q \<open>r < length L\<close> by (auto simp: links_ok_def homes_ok_def dicts_ok_def)
    ultimately show "\<exists>d q. lk_dag ((L @ [l]) ! r) = Some d \<and> (u, q) \<in> set (D ! d) \<and> lk_id ((L @ [l]) ! r) \<in> set (inc ((L @ [l]) ! q))"
      using \<open>r < length L\<close> by (auto simp: nth_append)
  qed
  ultimately show ?thesis using assms by (simp add: links_ok_def)
qed

lemma links_ok_new_dag: "links_ok L D \<Longrightarrow> links_ok L (D @ [[]])"
proof -
  assume ok: "links_ok L D"
  have d: "lk_dag (L ! r) = Some d \<Longrightarrow> r < length L \<Longrightarrow> d < length D" for r d
    using ok by (auto simp: links_ok_def homes_ok_def)
  have "dicts_ok L (D @ [[]])" using ok by (auto simp: links_ok_def dicts_ok_def nth_append less_Suc_eq)
  moreover have "homes_ok L (D @ [[]])" using ok by (fastforce simp: links_ok_def homes_ok_def nth_append)
  moreover have "linked L (D @ [[]]) out inc" if "linked L D out inc" for out inc
    using that d unfolding linked_def by (fastforce simp: nth_append)
  ultimately show ?thesis using ok by (simp add: links_ok_def)
qed

text \<open>A task without relatives enters a DAG that has no task of its id.\<close>

lemma links_ok_enter:
  assumes ok: "links_ok L D" and r: "r < length L" "d < length D" "lk_dag (L ! r) = None" "lk_id (L ! r) \<notin> fst ` set (D ! d)"
  shows "links_ok (L[r := (L ! r)\<lparr>lk_dag := Some d\<rparr>]) (D[d := D ! d @ [(lk_id (L ! r), r)]])"
proof -
  let ?L = "L[r := (L ! r)\<lparr>lk_dag := Some d\<rparr>]" and ?D = "D[d := D ! d @ [(lk_id (L ! r), r)]]"
  have same: "lk_id (?L ! q) = lk_id (L ! q)" "lk_up (?L ! q) = lk_up (L ! q)" "lk_down (?L ! q) = lk_down (L ! q)"
    "lk_dag (?L ! q) = (if q = r then Some d else lk_dag (L ! q))" for q
    using r(1) by (cases "q = r"; simp)+
  have more: "x \<in> set (D ! e) \<Longrightarrow> x \<in> set (?D ! e)" for x e
    using r(2) by (cases "e = d") auto
  have fresh: "(k, r) \<notin> set (D ! e)" if "e < length D" for k e
    using dicts_okD(3) [of L D e k r] ok that r(3) by (auto simp: links_ok_def)
  have "dicts_ok ?L ?D" using ok r fresh by (auto simp: links_ok_def dicts_ok_def same nth_list_update split: if_splits)
  moreover have "homes_ok ?L ?D"
    using ok r more by (auto simp: links_ok_def homes_ok_def same split: if_splits)
  moreover have "linked ?L ?D out inc"
    if l: "linked L D out inc" and o: "\<And>q. out (?L ! q) = out (L ! q)" "\<And>q. inc (?L ! q) = inc (L ! q)" for out inc
    unfolding linked_def
  proof (intro allI impI ballI)
    fix p u assume p: "p < length ?L" "u \<in> set (out (?L ! p))"
    with l o obtain e q where "lk_dag (L ! p) = Some e" "(u, q) \<in> set (D ! e)" "lk_id (L ! p) \<in> set (inc (L ! q))"
      by (fastforce simp: linked_def)
    moreover from this r(3) have "p \<noteq> r" by auto
    ultimately show "\<exists>e q. lk_dag (?L ! p) = Some e \<and> (u, q) \<in> set (?D ! e) \<and> lk_id (?L ! p) \<in> set (inc (?L ! q))"
      using more by (auto simp: same(1,4) o)
  qed
  ultimately show ?thesis using ok by (simp add: links_ok_def same)
qed

text \<open>An edge between two tasks of a DAG.\<close>

definition link_edge :: "nat \<Rightarrow> nat \<Rightarrow> link list \<Rightarrow> link list" where
  "link_edge u t L =
     (let L1 = L[u := (L ! u)\<lparr>lk_down := set_add (lk_down (L ! u)) (lk_id (L ! t))\<rparr>] in
      L1[t := (L1 ! t)\<lparr>lk_up := set_add (lk_up (L1 ! t)) (lk_id (L ! u))\<rparr>])"

lemma link_edge_nth:
  assumes "u < length L" "t < length L"
  shows "lk_id (link_edge u t L ! q) = lk_id (L ! q)" "lk_dag (link_edge u t L ! q) = lk_dag (L ! q)"
    "lk_down (link_edge u t L ! q) = (if q = u then set_add (lk_down (L ! u)) (lk_id (L ! t)) else lk_down (L ! q))"
    "lk_up (link_edge u t L ! q) = (if q = t then set_add (lk_up (L ! t)) (lk_id (L ! u)) else lk_up (L ! q))"
    "length (link_edge u t L) = length L"
  using assms by (simp_all add: link_edge_def nth_list_update Let_def)

lemma links_ok_edge:
  assumes ok: "links_ok L D" and lt: "u < length L" "t < length L" and d: "lk_dag (L ! u) = Some d" "lk_dag (L ! t) = Some d"
  shows "links_ok (link_edge u t L) D"
proof -
  note n = link_edge_nth [OF lt]
  have home: "(lk_id (L ! u), u) \<in> set (D ! d)" "(lk_id (L ! t), t) \<in> set (D ! d)"
    using ok lt d by (auto simp: links_ok_def homes_ok_def)
  have "dicts_ok (link_edge u t L) D" using ok by (simp add: links_ok_def dicts_ok_def n)
  moreover have "homes_ok (link_edge u t L) D" using ok by (auto simp: links_ok_def homes_ok_def n)
  moreover have "linked (link_edge u t L) D lk_up lk_down" "linked (link_edge u t L) D lk_down lk_up"
  proof -
    have l: "linked L D lk_up lk_down" "linked L D lk_down lk_up" using ok by (simp_all add: links_ok_def)
    show "linked (link_edge u t L) D lk_up lk_down" unfolding linked_def n
    proof (intro allI impI ballI)
      fix p x assume p: "p < length L" "x \<in> set (if p = t then set_add (lk_up (L ! t)) (lk_id (L ! u)) else lk_up (L ! p))"
      show "\<exists>e q. lk_dag (L ! p) = Some e \<and> (x, q) \<in> set (D ! e) \<and>
        lk_id (L ! p) \<in> set (if q = u then set_add (lk_down (L ! u)) (lk_id (L ! t)) else lk_down (L ! q))"
      proof (cases "x \<in> set (lk_up (L ! p))")
        case True
        with l(1) p(1) obtain e q where "lk_dag (L ! p) = Some e" "(x, q) \<in> set (D ! e)" "lk_id (L ! p) \<in> set (lk_down (L ! q))"
          unfolding linked_def by blast
        then show ?thesis by (intro exI [of _ e] exI [of _ q]) auto
      next
        case False
        with p(2) have "p = t" "x = lk_id (L ! u)" by (auto split: if_split_asm)
        with d(2) home(1) show ?thesis by (intro exI [of _ d] exI [of _ u]) simp
      qed
    qed
    show "linked (link_edge u t L) D lk_down lk_up" unfolding linked_def n
    proof (intro allI impI ballI)
      fix p x assume p: "p < length L" "x \<in> set (if p = u then set_add (lk_down (L ! u)) (lk_id (L ! t)) else lk_down (L ! p))"
      show "\<exists>e q. lk_dag (L ! p) = Some e \<and> (x, q) \<in> set (D ! e) \<and>
        lk_id (L ! p) \<in> set (if q = t then set_add (lk_up (L ! t)) (lk_id (L ! u)) else lk_up (L ! q))"
      proof (cases "x \<in> set (lk_down (L ! p))")
        case True
        with l(2) p(1) obtain e q where "lk_dag (L ! p) = Some e" "(x, q) \<in> set (D ! e)" "lk_id (L ! p) \<in> set (lk_up (L ! q))"
          unfolding linked_def by blast
        then show ?thesis by (intro exI [of _ e] exI [of _ q]) auto
      next
        case False
        with p(2) have "p = u" "x = lk_id (L ! t)" by (auto split: if_split_asm)
        with d(1) home(2) show ?thesis by (intro exI [of _ d] exI [of _ t]) simp
      qed
    qed
  qed
  ultimately show ?thesis by (simp add: links_ok_def)
qed

subsection \<open>The store\<close>

text \<open>Groups hold existing tasks, and groups that were created later.\<close>

fun child_ok :: "nat \<Rightarrow> nat \<Rightarrow> nat \<Rightarrow> node \<Rightarrow> bool" where
  "child_ok ops groups g (OpNode r) \<longleftrightarrow> r < ops"
| "child_ok ops groups g (GroupNode h) \<longleftrightarrow> g < h \<and> h < groups"

definition groups_ok :: "store \<Rightarrow> bool" where
  "groups_ok b \<longleftrightarrow> (\<forall>g < length (st_groups b). bg_dag (the_group b g) < length (st_dags b) \<and>
     (\<forall>c \<in> set (bg_children (the_group b g)). child_ok (length (st_ops b)) (length (st_groups b)) g (snd c)))"

definition context_ok :: "store \<Rightarrow> bool" where
  "context_ok b \<longleftrightarrow> (\<forall>d < length (st_dags b). bd_root (the_dag b d) < length (st_groups b)) \<and>
     (\<forall>g. st_managed b = Some g \<longrightarrow> g < length (st_groups b)) \<and> (\<forall>g \<in> set (st_previous b). g < length (st_groups b))"

text \<open>Every operator belongs to a DAG once its constructor is done.\<close>

definition attached :: "store \<Rightarrow> bool" where
  "attached b \<longleftrightarrow> (\<forall>t \<in> set (st_ops b). bo_dag t \<noteq> None)"

definition store_ok :: "store \<Rightarrow> bool" where
  "store_ok b \<longleftrightarrow> links_ok (links b) (dicts b) \<and> groups_ok b \<and> context_ok b \<and> attached b"

lemma length_links [simp]: "length (links b) = length (st_ops b)" "length (dicts b) = length (st_dags b)"
  by (simp_all add: links_def dicts_def)

lemma links_nth [simp]: "r < length (st_ops b) \<Longrightarrow> links b ! r = link_of (the_op b r)"
  "d < length (st_dags b) \<Longrightarrow> dicts b ! d = bd_task_dict (the_dag b d)"
  by (simp_all add: links_def dicts_def the_op_def the_dag_def)

lemma link_of_simps [simp]: "lk_id (link_of t) = op_task_id t" "lk_up (link_of t) = op_upstream_task_ids t"
  "lk_down (link_of t) = op_downstream_task_ids t" "lk_dag (link_of t) = bo_dag t"
  by (simp_all add: link_of_def)

text \<open>What an update of one object leaves as it is.\<close>

lemma set_simps [simp]:
  "st_groups (set_op r f b) = st_groups b" "st_dags (set_op r f b) = st_dags b" "st_managed (set_op r f b) = st_managed b"
  "st_previous (set_op r f b) = st_previous b" "length (st_ops (set_op r f b)) = length (st_ops b)"
  "st_ops (set_group g h b) = st_ops b" "st_dags (set_group g h b) = st_dags b" "st_managed (set_group g h b) = st_managed b"
  "st_previous (set_group g h b) = st_previous b" "length (st_groups (set_group g h b)) = length (st_groups b)"
  "st_ops (set_dag d k b) = st_ops b" "st_groups (set_dag d k b) = st_groups b" "st_managed (set_dag d k b) = st_managed b"
  "st_previous (set_dag d k b) = st_previous b" "length (st_dags (set_dag d k b)) = length (st_dags b)"
  by (simp_all add: set_op_def set_group_def set_dag_def)

lemma the_simps [simp]:
  "the_group (set_op r f b) = the_group b" "the_dag (set_op r f b) = the_dag b" "the_op (set_group g h b) = the_op b"
  "the_dag (set_group g h b) = the_dag b" "the_op (set_dag d k b) = the_op b" "the_group (set_dag d k b) = the_group b"
  by (simp_all add: the_op_def the_group_def the_dag_def fun_eq_iff)

lemma the_set:
  "r < length (st_ops b) \<Longrightarrow> the_op (set_op r f b) q = (if q = r then f (the_op b r) else the_op b q)"
  "g < length (st_groups b) \<Longrightarrow> the_group (set_group g h b) q = (if q = g then h (the_group b g) else the_group b q)"
  "d < length (st_dags b) \<Longrightarrow> the_dag (set_dag d k b) q = (if q = d then k (the_dag b d) else the_dag b q)"
  by (auto simp: set_op_def set_group_def set_dag_def the_op_def the_group_def the_dag_def)

lemma links_simps [simp]: "links (set_group g h b) = links b" "dicts (set_group g h b) = dicts b" "dicts (set_op r f b) = dicts b"
  "links (set_dag d k b) = links b"
  by (simp_all add: links_def dicts_def)

lemma links_set_op: "links (set_op r f b) = (links b)[r := link_of (f (the_op b r))]"
  by (simp add: links_def set_op_def map_update)

lemma dicts_set_dag: "dicts (set_dag d k b) = (dicts b)[d := bd_task_dict (k (the_dag b d))]"
  by (simp add: dicts_def set_dag_def map_update)

lemma attached_links: "attached b \<longleftrightarrow> (\<forall>l \<in> set (links b). lk_dag l \<noteq> None)"
  by (simp add: attached_def links_def)

lemma attached_iff: "attached b \<longleftrightarrow> (\<forall>r < length (st_ops b). bo_dag (the_op b r) \<noteq> None)"
  by (simp add: attached_def the_op_def all_set_conv_all_nth)

lemma attachedD: "attached b \<Longrightarrow> r < length (st_ops b) \<Longrightarrow> bo_dag (the_op b r) \<noteq> None"
  by (simp add: attached_def the_op_def)

text \<open>A change of a group that keeps its children and its DAG.\<close>

lemma groups_ok_set_group:
  assumes "groups_ok b" "\<And>x. bg_children (h x) = bg_children x" "\<And>x. bg_dag (h x) = bg_dag x"
  shows "groups_ok (set_group g h b)"
proof (cases "g < length (st_groups b)")
  case True
  with assms show ?thesis by (auto simp: groups_ok_def the_set)
next
  case False
  then have "set_group g h b = b" by (simp add: set_group_def list_update_beyond)
  with assms(1) show ?thesis by simp
qed

lemma store_ok_set_group:
  assumes "store_ok b" "\<And>x. bg_children (h x) = bg_children x" "\<And>x. bg_dag (h x) = bg_dag x"
  shows "store_ok (set_group g h b)"
  using assms groups_ok_set_group [of b h g] by (simp add: store_ok_def context_ok_def attached_links)

subsection \<open>The tasks of a group\<close>

lemma group_tasks_range:
  "groups_ok b \<Longrightarrow> g < length (st_groups b) \<Longrightarrow> r \<in> set (group_tasks n b g) \<Longrightarrow> r < length (st_ops b)"
proof (induction n arbitrary: g)
  case (Suc n)
  from Suc.prems(3) obtain c where c: "c \<in> set (bg_children (the_group b g))"
    "r \<in> set (case snd c of OpNode r \<Rightarrow> [r] | GroupNode h \<Rightarrow> group_tasks n b h)" by auto
  with Suc.prems(1,2) have "child_ok (length (st_ops b)) (length (st_groups b)) g (snd c)"
    by (auto simp: groups_ok_def)
  with c(2) Suc.IH [OF Suc.prems(1)] show ?case by (auto split: node.splits)
qed simp

text \<open>As many levels as there are groups from this one on are enough.\<close>

lemma group_tasks_fuel:
  assumes "groups_ok b" "g < length (st_groups b)" "length (st_groups b) - g \<le> n"
  shows "group_tasks n b g = tasks_of_group b g"
proof -
  have "group_tasks n b g = group_tasks m b g"
    if "length (st_groups b) - g \<le> n" "length (st_groups b) - g \<le> m" "g < length (st_groups b)" for n m g
    using that
  proof (induction n arbitrary: g m)
    case (Suc n)
    then obtain m' where m: "m = Suc m'" by (cases m) auto
    have "(case snd c of OpNode r \<Rightarrow> [r] | GroupNode h \<Rightarrow> group_tasks n b h) =
        (case snd c of OpNode r \<Rightarrow> [r] | GroupNode h \<Rightarrow> group_tasks m' b h)" if c: "c \<in> set (bg_children (the_group b g))" for c
    proof (cases "snd c")
      case (GroupNode h)
      with assms(1) Suc.prems(3) c have "g < h" "h < length (st_groups b)" by (force simp: groups_ok_def)+
      with Suc.IH [of h m'] Suc.prems m have "group_tasks n b h = group_tasks m' b h" by simp
      with GroupNode show ?thesis by simp
    qed simp
    then show ?case by (simp add: m cong: map_cong)
  qed simp
  from this [OF assms(3) _ assms(2)] show ?thesis by (simp add: tasks_of_group_def)
qed

lemma tasks_of_group_range: "store_ok b \<Longrightarrow> g < length (st_groups b) \<Longrightarrow> r \<in> set (tasks_of_group b g) \<Longrightarrow> r < length (st_ops b)"
  unfolding tasks_of_group_def store_ok_def using group_tasks_range by blast

lemma lookup_Inr: "(case x of None \<Rightarrow> Inl e | Some q \<Rightarrow> Inr q) = Inr r \<longleftrightarrow> x = Some r"
  by (cases x) simp_all

lemma relatives_list_range:
  assumes "store_ok b" "r < length (st_ops b)" "relatives_list b up r = Inr qs"
  shows "\<forall>q \<in> set qs. q < length (st_ops b)"
proof -
  from assms(3) obtain d where d: "bo_dag (the_op b r) = Some d"
    "list_all2 (\<lambda>t q. dict_get (bd_task_dict (the_dag b d)) t = Some q)
       (if up then op_upstream_task_ids (the_op b r) else op_downstream_task_ids (the_op b r)) qs"
  proof (cases "bo_dag (the_op b r)")
    case (Some d)
    from assms(3) [unfolded relatives_list_def Some option.case map_err_Inr_iff lookup_Inr] show thesis by (rule that [OF Some])
  qed (simp add: relatives_list_def)
  have links: "links_ok (links b) (dicts b)" using assms(1) by (simp add: store_ok_def)
  have lt: "d < length (st_dags b)" using links d(1) assms(2) by (auto simp: links_ok_def homes_ok_def)
  show ?thesis
  proof
    fix q assume "q \<in> set qs"
    then obtain i where "i < length qs" "qs ! i = q" by (auto simp: in_set_conv_nth)
    with list_all2_nthD2 [OF d(2)] obtain t where "dict_get (bd_task_dict (the_dag b d)) t = Some q" by blast
    then have "(t, q) \<in> set (dicts b ! d)" using lt by (simp add: map_of_SomeD)
    with links lt show "q < length (st_ops b)" by (auto simp: links_ok_def dest: dicts_okD(1))
  qed
qed

subsection \<open>Relations keep the store well-formed\<close>

fun dep_in :: "store \<Rightarrow> dependency \<Rightarrow> bool" where
  "dep_in b (DOp r) \<longleftrightarrow> r < length (st_ops b)"
| "dep_in b (DGroup g) \<longleftrightarrow> g < length (st_groups b)"
| "dep_in b (DXCom rs) \<longleftrightarrow> (\<forall>r \<in> set rs. r < length (st_ops b))"

text \<open>The same objects, in a well-formed store: what setting relations keeps.\<close>

definition stays :: "nat \<Rightarrow> nat \<Rightarrow> store \<Rightarrow> bool" where
  "stays n m b \<longleftrightarrow> store_ok b \<and> length (st_ops b) = n \<and> length (st_groups b) = m"

lemma dep_in_stays: "stays n m b \<Longrightarrow> stays n m b' \<Longrightarrow> dep_in b' x = dep_in b x"
  by (cases x) (simp_all add: stays_def)

lemma dep_roots_range:
  assumes "stays n m b" "dep_in b x" "dep_roots b x = Inr rs"
  shows "\<forall>r \<in> set rs. r < n"
proof (cases x)
  case (DGroup g)
  with assms tasks_of_group_range [of b g] show ?thesis by (auto simp: stays_def group_roots_def Let_def)
qed (use assms in \<open>auto simp: stays_def\<close>)

lemma group_leaves_range:
  assumes "stays n m b" "g < m" "group_leaves b g = Inr rs"
  shows "\<forall>r \<in> set rs. r < n"
proof -
  let ?P = "\<lambda>s :: store \<times> nat list. stays n m (fst s) \<and> (\<forall>r \<in> set (snd s). r < n)"
  from assms(3) obtain s where s: "each_leaf fst (\<lambda>r s. Inr (fst s, snd s @ [r])) g (b, []) = Inr s" "rs = snd s"
    by (auto simp: group_leaves_def)
  have "?P s"
    by (rule each_leaf_inv [where P = ?P and N = n, OF s(1)])
      (use assms(1,2) relatives_list_range tasks_of_group_range in \<open>auto simp: stays_def\<close>)
  with s(2) show ?thesis by simp
qed

lemma dep_leaves_range:
  assumes "stays n m b" "dep_in b x" "dep_leaves b x = Inr rs"
  shows "\<forall>r \<in> set rs. r < n"
  using assms group_leaves_range [OF assms(1)] by (cases x) (auto simp: stays_def)

lemma update_group_relative_stays:
  assumes "update_group_relative g x up b = Inr b'" "stays n m b"
  shows "stays n m b'" "links b' = links b" "dicts b' = dicts b" "st_ops b' = st_ops b"
proof -
  have same: "stays n m (set_group g h b) \<and> links (set_group g h b) = links b \<and> dicts (set_group g h b) = dicts b \<and> st_ops (set_group g h b) = st_ops b"
    if "stays n m b" "\<And>x. bg_children (h x) = bg_children x" "\<And>x. bg_dag (h x) = bg_dag x" for g h b
    using that store_ok_set_group [of b h g] by (simp add: stays_def)
  have "stays n m b' \<and> links b' = links b \<and> dicts b' = dicts b \<and> st_ops b' = st_ops b"
  proof (cases x)
    case (DGroup h)
    obtain p c where pc: "(if up then (g, h) else (h, g)) = (p, c)" by (metis surj_pair)
    with assms(1) DGroup have b': "b' = set_group c (\<lambda>x. x\<lparr>bg_downstream_group_ids := set_add (bg_downstream_group_ids x) (bg_node_id (the_group b p))\<rparr>)
                (set_group p (\<lambda>x. x\<lparr>bg_upstream_group_ids := set_add (bg_upstream_group_ids x) (bg_node_id (the_group b c))\<rparr>) b)"
      by (simp add: update_group_relative_def)
    let ?b1 = "set_group p (\<lambda>x. x\<lparr>bg_upstream_group_ids := set_add (bg_upstream_group_ids x) (bg_node_id (the_group b c))\<rparr>) b"
    have 1: "stays n m ?b1 \<and> links ?b1 = links b \<and> dicts ?b1 = dicts b \<and> st_ops ?b1 = st_ops b"
      by (rule same [OF assms(2)]) simp_all
    have "stays n m b' \<and> links b' = links ?b1 \<and> dicts b' = dicts ?b1 \<and> st_ops b' = st_ops ?b1"
      unfolding b' by (rule same) (use 1 in simp_all)
    with 1 show ?thesis by simp
  qed (use assms same [OF assms(2)] in \<open>auto simp: update_group_relative_def\<close>)
  then show "stays n m b'" "links b' = links b" "dicts b' = dicts b" "st_ops b' = st_ops b" by simp_all
qed

lemma update_relative_stays:
  assumes "update_relative y x up b = Inr b'" "stays n m b"
  shows "stays n m b'" "links b' = links b" "dicts b' = dicts b" "st_ops b' = st_ops b"
proof -
  have "stays n m b' \<and> links b' = links b \<and> dicts b' = dicts b \<and> st_ops b' = st_ops b"
  proof (cases y)
    case (DGroup g)
    with assms(1) have "update_group_relative g x up b = Inr b'" by (simp add: update_relative_def)
    from update_group_relative_stays [OF this assms(2)] show ?thesis by simp
  qed (use assms in \<open>simp_all add: update_relative_def\<close>)
  then show "stays n m b'" "links b' = links b" "dicts b' = dicts b" "st_ops b' = st_ops b" by simp_all
qed

lemma links_add_edge:
  assumes "u < length (st_ops b)" "t < length (st_ops b)"
  shows "links (add_edge u t b) = link_edge u t (links b)"
proof (rule nth_equalityI)
  fix q assume "q < length (links (add_edge u t b))"
  then have q: "q < length (st_ops b)" by (simp add: add_edge_def Let_def)
  then have "links (add_edge u t b) ! q = link_of (the_op (add_edge u t b) q)" by (simp add: add_edge_def Let_def)
  moreover have "u < length (links b)" "t < length (links b)" using assms by simp_all
  note link_edge_nth [OF this]
  ultimately show "links (add_edge u t b) ! q = link_edge u t (links b) ! q"
    using assms q by (intro link.equality) (simp_all add: add_edge_def Let_def the_set store_task_id_def)
qed (use assms in \<open>simp add: link_edge_nth add_edge_def Let_def\<close>)

lemma add_edge_stays:
  assumes "stays n m b" "u < n" "t < n" "bo_dag (the_op b u) = Some d" "bo_dag (the_op b t) = Some d"
  shows "stays n m (add_edge u t b)" "\<And>q. q < n \<Longrightarrow> bo_dag (the_op (add_edge u t b) q) = bo_dag (the_op b q)"
proof -
  have len: "length (st_ops b) = n" using assms(1) by (simp add: stays_def)
  have dag: "bo_dag (the_op (add_edge u t b) q) = bo_dag (the_op b q)" for q
    using assms(2,3) len by (simp add: add_edge_def Let_def the_set)
  then show "\<And>q. q < n \<Longrightarrow> bo_dag (the_op (add_edge u t b) q) = bo_dag (the_op b q)" by blast
  have same: "st_groups (add_edge u t b) = st_groups b" "st_dags (add_edge u t b) = st_dags b" "st_managed (add_edge u t b) = st_managed b"
    "st_previous (add_edge u t b) = st_previous b" "length (st_ops (add_edge u t b)) = length (st_ops b)"
    "the_group (add_edge u t b) = the_group b" "the_dag (add_edge u t b) = the_dag b" "dicts (add_edge u t b) = dicts b"
    by (simp_all add: add_edge_def Let_def)
  have "links_ok (links (add_edge u t b)) (dicts (add_edge u t b))"
    using assms len links_ok_edge [of "links b" "dicts b" u t d] by (simp add: links_add_edge same stays_def store_ok_def)
  moreover have "attached (add_edge u t b)"
    using assms(1) dag by (simp add: attached_iff stays_def store_ok_def same(5))
  ultimately show "stays n m (add_edge u t b)"
    using assms(1) by (auto simp: stays_def store_ok_def groups_ok_def context_ok_def same)
qed

lemma collect_relatives_stays:
  assumes "collect_relatives r up x s = Inr s'" "stays n m (snd s)" "\<forall>t \<in> set (fst s). t < n" "dep_in (snd s) x"
  shows "stays n m (snd s') \<and> (\<forall>t \<in> set (fst s'). t < n)"
proof -
  from assms(1) obtain b rs where b: "update_relative x (DOp r) (\<not> up) (snd s) = Inr b"
    "(if up then dep_leaves b x else dep_roots b x) = Inr rs" "s' = (fst s @ rs, b)"
    by (auto simp: collect_relatives_def simp del: bind_err_Inr_iff elim!: bind_err_InrE)
  have st: "stays n m b" using b(1) assms(2) by (rule update_relative_stays(1))
  have "dep_in b x" using dep_in_stays [OF assms(2) st] assms(4) by simp
  with b(2) st dep_leaves_range dep_roots_range have "\<forall>t \<in> set rs. t < n" by (metis (full_types))
  with b(3) st assms(3) show ?thesis by auto
qed

text \<open>With every task in a DAG, relating tasks is adding edges within the one DAG there is.\<close>

lemma op_set_relatives_split:
  assumes "op_set_relatives r xs up b = Inr b'" "stays n m b" "r < n" "\<forall>x \<in> set xs. dep_in b x"
  shows "\<exists>ts b1 d. fold_err (collect_relatives r up) xs ([], b) = Inr (ts, b1) \<and> stays n m b1 \<and> (\<forall>t \<in> set ts. t < n) \<and>
    (\<forall>t \<in> set (r # ts). bo_dag (the_op b1 t) = Some d) \<and> fold_err (relate_one d r up) ts b1 = Inr b'"
proof -
  from assms(1) obtain ts b1 where c: "fold_err (collect_relatives r up) xs ([], b) = Inr (ts, b1)"
    by (auto simp: op_set_relatives_def simp del: bind_err_Inr_iff elim!: bind_err_InrE)
  let ?Q = "\<lambda>s. stays n m (snd s) \<and> (\<forall>t \<in> set (fst s). t < n)"
  have "?Q (ts, b1)"
  proof (rule fold_err_inv [where P = ?Q, OF c])
    show "?Q ([], b)" using assms(2) by simp
    show "?Q t'" if "x \<in> set xs" "?Q t" "collect_relatives r up x t = Inr t'" for x t t'
      using collect_relatives_stays [OF that(3)] that(1,2) assms(4) dep_in_stays [OF assms(2)] by blast
  qed
  then have st: "stays n m b1" "\<forall>t \<in> set ts. t < n" by simp_all
  let ?dags = "remdups (List.map_filter (\<lambda>t. bo_dag (the_op b1 t)) (r # ts))"
  have in_dags: "\<exists>d \<in> set ?dags. bo_dag (the_op b1 t) = Some d" if t: "t \<in> set (r # ts)" for t
  proof -
    have "t < n" using t st(2) assms(3) by auto
    then obtain d where d: "bo_dag (the_op b1 t) = Some d" using attachedD [of b1 t] st(1) by (auto simp: stays_def store_ok_def)
    with t have "d \<in> set ?dags" by (force simp: List.map_filter_def)
    with d show ?thesis by blast
  qed
  then have "?dags \<noteq> []" by force
  with assms(1) c obtain d where d: "?dags = [d]"
    by (simp add: op_set_relatives_def del: bind_err_Inr_iff split: list.split_asm)
  have all: "\<forall>t \<in> set (r # ts). bo_dag (the_op b1 t) = Some d" using in_dags unfolding d by force
  then have "fold_err (relate_one d r up) ts b1 = Inr b'"
    using assms(1) c d by (simp add: op_set_relatives_def)
  with c st all show ?thesis by blast
qed

lemma relate_one_attached: "bo_dag (the_op b t) = Some d' \<Longrightarrow> relate_one d r up t b = Inr (if up then add_edge t r b else add_edge r t b)"
  by (simp add: relate_one_def)

lemma op_set_relatives_stays:
  assumes "op_set_relatives r xs up b = Inr b'" "stays n m b" "r < n" "\<forall>x \<in> set xs. dep_in b x"
  shows "stays n m b'"
proof -
  from op_set_relatives_split [OF assms] obtain ts b1 d where
    b1: "stays n m b1" "\<forall>t \<in> set ts. t < n" "\<forall>t \<in> set (r # ts). bo_dag (the_op b1 t) = Some d"
    and f: "fold_err (relate_one d r up) ts b1 = Inr b'" by blast
  let ?R = "\<lambda>b. stays n m b \<and> (\<forall>t \<in> set (r # ts). bo_dag (the_op b t) = Some d)"
  have "?R b'"
  proof (rule fold_err_inv [where P = ?R, OF f])
    show "?R b1" using b1 by blast
    fix t s s' assume t: "t \<in> set ts" and s: "?R s" and step: "relate_one d r up t s = Inr s'"
    then have s': "s' = (if up then add_edge t r s else add_edge r t s)" using relate_one_attached [of s t d d r up] by simp
    have lt: "t < n" "\<And>q. q \<in> set (r # ts) \<Longrightarrow> q < n" using t b1(2) assms(3) by auto
    have d: "bo_dag (the_op s t) = Some d" "bo_dag (the_op s r) = Some d" using s t by auto
    show "?R s'"
    proof (cases up)
      case True
      with s' add_edge_stays [of n m s t r d] s lt d assms(3) show ?thesis by simp
    next
      case False
      with s' add_edge_stays [of n m s r t d] s lt d assms(3) show ?thesis by simp
    qed
  qed
  then show ?thesis by blast
qed

lemma group_set_relatives_stays:
  assumes "group_set_relatives g xs up b = Inr b'" "stays n m b" "g < m" "\<forall>x \<in> set xs. dep_in b x"
  shows "stays n m b'"
proof -
  from assms(1) obtain b1 where u: "fold_err (\<lambda>x. update_group_relative g x up) xs b = Inr b1" and
    rest: "(if up then
         (let tasks = tasks_of_group b1 g; ids = map (store_task_id b1) tasks in
          fold_err (\<lambda>r s. if is_group_root ids s r then op_set_relatives r xs True s else Inr s) tasks b1)
       else each_leaf (\<lambda>s. s) (\<lambda>r. op_set_relatives r xs False) g b1) = Inr b'"
    by (auto simp: group_set_relatives_def simp del: bind_err_Inr_iff elim!: bind_err_InrE)
  have st: "stays n m b1"
    by (rule fold_err_inv [where P = "stays n m", OF u assms(2)]) (rule update_group_relative_stays(1))
  have body: "stays n m s'" if "r < n" "stays n m s" "op_set_relatives r xs v s = Inr s'" for r s s' v
    using op_set_relatives_stays [OF that(3,2,1)] assms(4) dep_in_stays [OF assms(2) that(2)] by blast
  have lt: "\<forall>r \<in> set (tasks_of_group b1 g). r < n" using tasks_of_group_range [of b1 g] st assms(3) by (auto simp: stays_def)
  show ?thesis
  proof (cases up)
    case True
    let ?f = "\<lambda>r s. if is_group_root (map (store_task_id b1) (tasks_of_group b1 g)) s r then op_set_relatives r xs True s else Inr s"
    have f: "fold_err ?f (tasks_of_group b1 g) b1 = Inr b'" using rest True by (simp add: Let_def)
    have step: "stays n m s'" if "r \<in> set (tasks_of_group b1 g)" "stays n m s" "?f r s = Inr s'" for r s s'
    proof (cases "is_group_root (map (store_task_id b1) (tasks_of_group b1 g)) s r")
      case True
      with that(3) have o: "op_set_relatives r xs True s = Inr s'" by simp
      from lt that(1) have "r < n" by blast
      then show ?thesis by (rule body [OF _ that(2) o])
    next
      case False
      with that(2,3) show ?thesis by simp
    qed
    show ?thesis by (rule fold_err_inv [where P = "stays n m", OF f st step])
  next
    case False
    with rest have l: "each_leaf (\<lambda>s. s) (\<lambda>r. op_set_relatives r xs False) g b1 = Inr b'" by simp
    have range: "\<forall>q \<in> set qs. q < n" if "r < n" "stays n m t" "relatives_list t True r = Inr qs" for r t qs
      using relatives_list_range [of t r True qs] that by (simp add: stays_def)
    show ?thesis by (rule each_leaf_inv [where P = "stays n m" and N = n, OF l st body range lt])
  qed
qed

lemma set_relatives_stays:
  assumes "set_relatives x xs up b = Inr b'" "stays n m b" "dep_in b x" "\<forall>y \<in> set xs. dep_in b y"
  shows "stays n m b'"
proof (cases x)
  case (DXCom rs)
  with assms(1) have f: "fold_err (\<lambda>r. op_set_relatives r xs up) rs b = Inr b'" by (simp add: set_relatives_def)
  have step: "stays n m t'" if "r \<in> set rs" "stays n m t" "op_set_relatives r xs up t = Inr t'" for r t t'
  proof (rule op_set_relatives_stays [OF that(3,2)])
    show "r < n" using assms(2,3) DXCom that(1) by (simp add: stays_def)
    show "\<forall>x \<in> set xs. dep_in t x" using assms(4) dep_in_stays [OF assms(2) that(2)] by blast
  qed
  show ?thesis by (rule fold_err_inv [where P = "stays n m", OF f assms(2) step])
next
  case (DOp r)
  have o: "op_set_relatives r xs up b = Inr b'" using assms(1) by (simp add: set_relatives_def DOp)
  have "length (st_ops b) = n" using assms(2) by (simp add: stays_def)
  then have "r < n" using assms(3) DOp by simp
  from op_set_relatives_stays [OF o assms(2) this assms(4)] show ?thesis .
next
  case (DGroup g)
  have o: "group_set_relatives g xs up b = Inr b'" using assms(1) by (simp add: set_relatives_def DGroup)
  have "length (st_groups b) = m" using assms(2) by (simp add: stays_def)
  then have "g < m" using assms(3) DGroup by simp
  from group_set_relatives_stays [OF o assms(2) this assms(4)] show ?thesis .
qed

subsection \<open>Chains keep the store well-formed\<close>

definition element_in :: "store \<Rightarrow> element \<Rightarrow> bool" where
  "element_in b e \<longleftrightarrow> (\<forall>x \<in> set (element_list e). dep_in b x)"

lemma element_in_stays: "stays n m b \<Longrightarrow> stays n m b' \<Longrightarrow> element_in b' e = element_in b e"
  by (simp only: element_in_def dep_in_stays [of n m b b'])

lemma cross_downstream_stays:
  assumes "cross_downstream xs e b = Inr b'" "stays n m b" "\<forall>x \<in> set xs. dep_in b x" "element_in b e"
  shows "stays n m b'"
proof (rule fold_err_inv [where P = "stays n m", OF assms(1) [unfolded cross_downstream_def] assms(2)])
  fix x t t' assume "x \<in> set xs" "stays n m t" "set_relatives x (element_list e) False t = Inr t'"
  with set_relatives_stays [of x "element_list e" False t t' n m] assms(3,4) dep_in_stays [OF assms(2)]
  show "stays n m t'" by (simp add: element_in_def)
qed

lemma chain_pair_stays:
  assumes "chain_pair x y b = Inr b'" "stays n m b" "element_in b x" "element_in b y"
  shows "stays n m b'"
proof (cases x)
  case (One u)
  with assms set_relatives_stays [of u "element_list y" False b b' n m] show ?thesis by (simp add: element_in_def)
next
  case (Many us)
  show ?thesis
  proof (cases y)
    case (One v)
    with Many assms set_relatives_stays [of v us True b b' n m] show ?thesis by (simp add: element_in_def)
  next
    case (Many vs)
    have f: "fold_err (\<lambda>(u, v). set_relatives u [v] False) (zip us vs) b = Inr b'"
      using assms(1) Many \<open>x = Many us\<close> by (simp split: if_split_asm)
    show ?thesis
    proof (rule fold_err_inv [where P = "stays n m", OF f assms(2)])
      fix p t t' assume p: "p \<in> set (zip us vs)" "stays n m t" "(case p of (u, v) \<Rightarrow> set_relatives u [v] False) t = Inr t'"
      obtain u v where uv: "p = (u, v)" by (cases p)
      with p(1) have "u \<in> set us" "v \<in> set vs" by (auto dest: set_zip_leftD set_zip_rightD)
      with uv p set_relatives_stays [of u "[v]" False t t' n m] assms(3,4) Many \<open>x = Many us\<close> dep_in_stays [OF assms(2) p(2)]
      show "stays n m t'" by (simp add: element_in_def)
    qed
  qed
qed

lemma chain_stays:
  "chain es b = Inr b' \<Longrightarrow> stays n m b \<Longrightarrow> \<forall>e \<in> set es. element_in b e \<Longrightarrow> stays n m b'"
proof (induction es b arbitrary: b' rule: chain.induct)
  case (1 x y rest b)
  from 1(2) obtain b1 where b1: "chain_pair x y b = Inr b1" "chain (y # rest) b1 = Inr b'"
    by (auto simp del: bind_err_Inr_iff elim!: bind_err_InrE)
  have s1: "stays n m b1" using chain_pair_stays [OF b1(1) 1(3)] 1(4) by simp
  show ?case using 1(1) [OF b1 s1] element_in_stays [OF 1(3) s1] 1(4) by simp
qed auto

lemma chain_linear_stays:
  assumes "chain_linear es b = Inr b'" "stays n m b" "\<forall>e \<in> set es. element_in b e"
  shows "stays n m b'"
proof -
  have loop: "linear_loop prev es s = Inr s' \<Longrightarrow> stays n m (snd s) \<Longrightarrow> \<forall>e \<in> set es. element_in (snd s) e \<Longrightarrow>
      \<forall>x \<in> set prev. dep_in (snd s) x \<Longrightarrow> stays n m (snd s')" for prev es s s'
  proof (induction prev es s arbitrary: s' rule: linear_loop.induct)
    case (2 prev e es s)
    from 2(2) obtain b1 where b1: "cross_downstream prev e (snd s) = Inr b1"
      "linear_loop (element_list e) es (fst s \<or> prev \<noteq> [], b1) = Inr s'" by (auto simp del: bind_err_Inr_iff elim!: bind_err_InrE)
    have s1: "stays n m b1" using cross_downstream_stays [OF b1(1) 2(3)] 2(4,5) by simp
    show ?case
      by (rule 2(1) [OF b1]) (use s1 2(3,4) element_in_stays [OF 2(3) s1] in \<open>auto simp: element_in_def\<close>)
  qed simp
  from assms(1) obtain e es' f where "es = e # es'" "linear_loop (element_list e) es' (False, b) = Inr (f, b')"
    by (auto simp: chain_linear_def simp del: bind_err_Inr_iff elim!: bind_err_InrE split: list.split_asm if_split_asm)
  with loop [of "element_list e" es' "(False, b)" "(f, b')"] assms(2,3) show ?thesis by (simp add: element_in_def)
qed

subsection \<open>New objects\<close>

lemma child_ok_mono: "child_ok n m g c \<Longrightarrow> n \<le> n' \<Longrightarrow> m \<le> m' \<Longrightarrow> child_ok n' m' g c"
  by (cases c) auto

lemma current_group_ok:
  assumes "store_ok b" "d < length (st_dags b)" "\<forall>g. tg = Some g \<longrightarrow> g < length (st_groups b)"
  shows "\<exists>g. (if tg \<noteq> None then tg else get_current_task_group (Some d) b) = Some g \<and> g < length (st_groups b)"
  using assms by (cases tg; cases "st_managed b") (auto simp: get_current_task_group_def store_ok_def context_ok_def)

lemma matches_all_nonempty: "matches_all ok k \<Longrightarrow> k \<noteq> []"
  by (auto simp: matches_all_def)

lemma child_id_nonempty: "t \<noteq> [] \<Longrightarrow> child_id g t \<noteq> []"
  by (auto simp: child_id_def split: option.split)

text \<open>A task that just got its group enters the DAG under its own id.\<close>

lemma set_task_dag_enters:
  assumes "set_task_dag r d b = Inr b'" "links_ok (links b) (dicts b)" "r < length (st_ops b)" "d < length (st_dags b)"
    "bo_dag (the_op b r) = None" "bo_task_group (the_op b r) \<noteq> None"
  shows "links b' = (links b)[r := (links b ! r)\<lparr>lk_dag := Some d\<rparr>] \<and>
    dicts b' = (dicts b)[d := dicts b ! d @ [(store_task_id b r, r)]] \<and>
    store_task_id b r \<notin> fst ` set (dicts b ! d) \<and> st_groups b' = st_groups b \<and>
    length (st_dags b') = length (st_dags b) \<and> (\<forall>e. bd_root (the_dag b' e) = bd_root (the_dag b e)) \<and>
    st_managed b' = st_managed b \<and> st_previous b' = st_previous b"
proof -
  have new: "dict_get (bd_task_dict (the_dag b d)) (store_task_id b r) \<noteq> Some r"
  proof
    assume "dict_get (bd_task_dict (the_dag b d)) (store_task_id b r) = Some r"
    then have "(store_task_id b r, r) \<in> set (dicts b ! d)" using assms(4) by (simp add: map_of_SomeD)
    with assms(2-5) show False by (auto simp: links_ok_def dest: dicts_okD(3))
  qed
  let ?b1 = "set_op r (narrow_dates (bd_dag (the_dag b d))) b"
  have id: "op_task_id (narrow_dates x t) = op_task_id t" for x t by (simp add: narrow_dates_def)
  from assms(1) new obtain b2 where a: "add_task d r b = Inr b2" and b': "b' = set_op r (\<lambda>t. t\<lparr>bo_dag := Some d\<rparr>) b2"
    by (auto simp: set_task_dag_def assms(5))
  from a obtain b3 where reg: "register_task d r (store_task_id b r) ?b1 = Inr b3" and
    rest: "bind_err (if dict_get (bd_task_dict (the_dag b3 d)) (store_task_id b r) = Some r then Inr b3
       else register_task d r (store_task_id b r) b3) (\<lambda>b4. Inr (set_op r (\<lambda>t. t\<lparr>bo_dag := Some d\<rparr>) b4)) = Inr b2"
    using assms(5,6) by (auto simp: add_task_def Let_def simp del: bind_err_Inr_iff elim!: bind_err_InrE split: if_split_asm)
  have free: "dict_get (bd_task_dict (the_dag b d)) (store_task_id b r) = None"
    using reg new by (auto simp: register_task_def Let_def split: if_split_asm option.split_asm)
  have b3: "b3 = set_dag d (\<lambda>x. x\<lparr>bd_task_dict := dict_set (store_task_id b r) r (bd_task_dict x),
      bd_used_group_ids := set_add (bd_used_group_ids x) (Some (store_task_id b r))\<rparr>) ?b1"
    using reg by (auto simp: register_task_def Let_def split: if_split_asm)
  have "dict_get (bd_task_dict (the_dag b3 d)) (store_task_id b r) = Some r" using assms(4) by (simp add: b3 the_set dict_get_set)
  with rest have b2: "b2 = set_op r (\<lambda>t. t\<lparr>bo_dag := Some d\<rparr>) b3" by simp
  have key: "store_task_id b r \<notin> fst ` set (dicts b ! d)" using free assms(4) by (simp add: map_of_eq_None_iff)
  have "dicts b' = (dicts b)[d := dicts b ! d @ [(store_task_id b r, r)]]"
    using assms(4) key by (simp add: b' b2 b3 dicts_set_dag dict_set_fresh dict_keys_def)
  moreover have "links b' = (links b)[r := (links b ! r)\<lparr>lk_dag := Some d\<rparr>]"
    using assms(3) by (simp add: b' b2 b3 links_set_op the_set link_of_def narrow_dates_def)
  moreover have "bd_root (the_dag b' e) = bd_root (the_dag b e)" for e
    using assms(4) by (simp add: b' b2 b3 the_set)
  ultimately show ?thesis using key by (simp add: b' b2 b3)
qed

lemma new_operator_ok:
  assumes "new_operator attrs (Some d) tg b = Inr (r, b')" "store_ok b" "d < length (st_dags b)"
    "\<forall>g. tg = Some g \<longrightarrow> g < length (st_groups b)"
  shows "store_ok b'"
proof -
  obtain g where g: "(if tg \<noteq> None then tg else get_current_task_group (Some d) b) = Some g" "g < length (st_groups b)"
    using current_group_ok [OF assms(2-4)] by blast
  define own where "own = child_id (the_group b g) (op_task_id attrs)"
  define t where "t = operator.extend (attrs\<lparr>op_task_id := own, op_upstream_task_ids := [], op_downstream_task_ids := [],
                 op_is_setup := False, op_is_teardown := False\<rparr>) \<lparr>bo_dag = None, bo_task_group = None\<rparr>"
  define b1 where "b1 = b\<lparr>st_ops := st_ops b @ [t]\<rparr>"
  have t: "op_task_id t = own" "op_upstream_task_ids t = []" "op_downstream_task_ids t = []" "bo_dag t = None" "bo_task_group t = None"
    by (simp_all add: t_def operator.extend_def)
  from assms(1) g(1) have v: "validate_key (op_task_id attrs) = Inr ()" and r: "r = length (st_ops b)"
    by (auto simp: new_operator_def Let_def simp del: bind_err_Inr_iff elim!: bind_err_InrE split: if_split_asm)
  from assms(1) g(1) obtain b2 where a: "add_op_to_group g r b1 = Inr b2" and s: "set_task_dag r d b2 = Inr b'"
    by (auto simp: new_operator_def Let_def own_def t_def b1_def simp del: bind_err_Inr_iff elim!: bind_err_InrE split: if_split_asm)
  have own: "own \<noteq> []" using v matches_all_nonempty child_id_nonempty
    by (auto simp: own_def validate_key_def split: if_split_asm)
  have op1: "the_op b1 r = t" "the_group b1 = the_group b" "the_dag b1 = the_dag b" "length (st_ops b1) = Suc r"
    by (simp_all add: b1_def r the_op_def the_group_def the_dag_def fun_eq_iff)
  have b2: "b2 = set_group g (\<lambda>x. x\<lparr>bg_children := bg_children x @ [(Some own, OpNode r)]\<rparr>) (set_op r (\<lambda>t. t\<lparr>bo_task_group := Some g\<rparr>) b1)"
    using a by (auto simp: add_op_to_group_def leave_group_def op1 t store_task_id_def Let_def split: if_split_asm)
  have links2: "links b2 = links b @ [link_of t]" "dicts b2 = dicts b"
    by (simp_all add: b2 links_set_op op1 link_of_def, simp_all add: b1_def links_def dicts_def r link_of_def list_update_append)
  have "links_ok (links b2) (dicts b2)"
    unfolding links2 by (rule links_ok_snoc) (use assms(2) own t in \<open>simp_all add: store_ok_def\<close>)
  moreover have op2: "the_op b2 r = t\<lparr>bo_task_group := Some g\<rparr>" "length (st_ops b2) = Suc r" "length (st_dags b2) = length (st_dags b)"
    by (simp_all add: b2 the_set op1, simp add: b1_def)
  ultimately have e: "links b' = (links b2)[r := (links b2 ! r)\<lparr>lk_dag := Some d\<rparr>]"
    "dicts b' = (dicts b2)[d := dicts b2 ! d @ [(store_task_id b2 r, r)]]" "store_task_id b2 r \<notin> fst ` set (dicts b2 ! d)"
    "st_groups b' = st_groups b2" "length (st_dags b') = length (st_dags b)" "\<And>e. bd_root (the_dag b' e) = bd_root (the_dag b2 e)"
    "st_managed b' = st_managed b2" "st_previous b' = st_previous b2"
    using set_task_dag_enters [OF s, of ] assms(3) t by auto
  have ok': "links_ok (links b') (dicts b')"
    unfolding e(1,2) using links_ok_enter [OF \<open>links_ok (links b2) (dicts b2)\<close>, of r d] e(3) op2 t assms(3) by (simp add: store_task_id_def)
  have len': "length (st_ops b') = Suc r" using arg_cong [OF e(1), of length] op2(2) by simp
  have grp: "st_groups b' = (st_groups b)[g := (the_group b g)\<lparr>bg_children := bg_children (the_group b g) @ [(Some own, OpNode r)]\<rparr>]"
    by (simp add: e(4) b2 set_group_def op1, simp add: b1_def)
  have groups: "groups_ok b'"
    unfolding groups_ok_def e(5) len'
  proof (intro allI impI)
    have at: "the_group b' h = (if h = g then (the_group b g)\<lparr>bg_children := bg_children (the_group b g) @ [(Some own, OpNode r)]\<rparr>
        else the_group b h)" for h
      using g(2) grp by (simp add: the_group_def nth_list_update)
    have len'': "length (st_groups b') = length (st_groups b)" by (simp add: grp)
    have old: "child_ok (Suc r) (length (st_groups b)) h (snd c)" if "h < length (st_groups b)" "c \<in> set (bg_children (the_group b h))" for h c
    proof (rule child_ok_mono)
      show "child_ok r (length (st_groups b)) h (snd c)"
        using that assms(2) r by (simp add: store_ok_def groups_ok_def)
    qed simp_all
    fix h assume "h < length (st_groups b')"
    then have h: "h < length (st_groups b)" by (simp add: len'')
    moreover have "bg_dag (the_group b h) < length (st_dags b)" using assms(2) h by (simp add: store_ok_def groups_ok_def)
    ultimately show "bg_dag (the_group b' h) < length (st_dags b) \<and>
       (\<forall>c \<in> set (bg_children (the_group b' h)). child_ok (Suc r) (length (st_groups b')) h (snd c))"
      unfolding len'' using old [OF h] by (auto simp: at)
  qed
  have "context_ok b'"
    using assms(2) e(5-8) grp by (auto simp: store_ok_def context_ok_def b2 op1, simp_all add: b1_def)
  moreover have "attached b'"
    using assms(2) by (auto simp: attached_links e(1) links2 store_ok_def r list_update_append dest!: set_update_subset_insert [THEN subsetD])
  ultimately show ?thesis using ok' groups by (simp add: store_ok_def)
qed

lemma new_group_ok:
  assumes "new_group i prefixed parent dag b = Inr (g, b')" "store_ok b" "\<forall>p. parent = Some p \<longrightarrow> p < length (st_groups b)"
    "\<forall>d. dag = Some d \<longrightarrow> d < length (st_dags b)"
  shows "store_ok b'"
proof -
  from assms(1) obtain p where p: "(if parent \<noteq> None then parent else get_current_task_group dag b) = Some p" "dag = Some (bg_dag (the_group b p))"
    by (auto simp: new_group_def simp del: bind_err_Inr_iff elim!: bind_err_InrE split: if_split_asm option.split_asm)
  have lt: "p < length (st_groups b)" using current_group_ok [OF assms(2), of "bg_dag (the_group b p)" parent] p assms(3,4) by auto
  define key where "key = Some (child_id (the_group b p) i)"
  define new where "new = \<lparr>bg__group_id = Some i, bg_node_id = key, bg_prefix_group_id = prefixed, bg_task_group = Some p,
     bg_dag = bg_dag (the_group b p), bg_children = [], bg_upstream_group_ids = [], bg_downstream_group_ids = [],
     bg_upstream_task_ids = [], bg_downstream_task_ids = []\<rparr>"
  let ?g = "length (st_groups b)"
  obtain k where k: "b' = set_dag (bg_dag (the_group b p)) k (set_group p (\<lambda>x. x\<lparr>bg_children := bg_children x @ [(key, GroupNode ?g)]\<rparr>)
      (b\<lparr>st_groups := st_groups b @ [new]\<rparr>))" "\<And>x. bd_task_dict (k x) = bd_task_dict x" "\<And>x. bd_root (k x) = bd_root x"
  proof (rule that)
    show "b' = set_dag (bg_dag (the_group b p)) (\<lambda>x. x\<lparr>bd_used_group_ids :=
          set_update (bd_used_group_ids x) [key, Some (downstream_join_id new), Some (upstream_join_id new)]\<rparr>)
        (set_group p (\<lambda>x. x\<lparr>bg_children := bg_children x @ [(key, GroupNode ?g)]\<rparr>) (b\<lparr>st_groups := st_groups b @ [new]\<rparr>))"
      using assms(1) p by (auto simp: new_group_def Let_def key_def new_def simp del: bind_err_Inr_iff elim!: bind_err_InrE split: if_split_asm)
  qed simp_all
  have same: "links b' = links b" "dicts b' = dicts b" "length (st_ops b') = length (st_ops b)" "length (st_dags b') = length (st_dags b)"
    "length (st_groups b') = Suc ?g" "st_managed b' = st_managed b" "st_previous b' = st_previous b"
    by (simp_all add: k(1) dicts_set_dag k(2) the_dag_def, simp_all add: links_def dicts_def flip: map_update)
  have roots: "bd_root (the_dag b' d) = bd_root (the_dag b d)" for d
  proof -
    have "the_dag b' = the_dag (set_dag (bg_dag (the_group b p)) k b)" by (simp add: k(1) the_dag_def set_dag_def set_group_def fun_eq_iff)
    then show ?thesis by (cases "bg_dag (the_group b p) < length (st_dags b)")
      (simp_all add: the_set k(3), simp add: the_dag_def set_dag_def list_update_beyond)
  qed
  have at: "the_group b' h = (if h = p then (the_group b p)\<lparr>bg_children := bg_children (the_group b p) @ [(key, GroupNode ?g)]\<rparr>
      else if h = ?g then new else the_group b h)" if "h < Suc ?g" for h
    using that lt by (auto simp: k(1) the_group_def set_group_def nth_list_update nth_append)
  have "groups_ok b'" unfolding groups_ok_def same
  proof (intro allI impI)
    fix h assume h: "h < Suc ?g"
    have old: "bg_dag (the_group b h) < length (st_dags b) \<and> (\<forall>c \<in> set (bg_children (the_group b h)). child_ok (length (st_ops b)) (Suc ?g) h (snd c))"
      if "h < ?g" for h
      using that assms(2) child_ok_mono [of "length (st_ops b)" ?g] by (auto simp: store_ok_def groups_ok_def)
    show "bg_dag (the_group b' h) < length (st_dags b) \<and> (\<forall>c \<in> set (bg_children (the_group b' h)). child_ok (length (st_ops b)) (Suc ?g) h (snd c))"
      using h old [of h] old [OF lt] lt by (auto simp: at new_def)
  qed
  moreover have "context_ok b'" using assms(2) by (auto simp: store_ok_def context_ok_def same roots)
  ultimately show ?thesis using assms(2) by (simp add: store_ok_def same attached_links)
qed

lemma new_dag_ok:
  assumes "store_ok b"
  shows "store_ok (snd (new_dag d b))"
proof -
  let ?b = "snd (new_dag d b)" and ?g = "length (st_groups b)" and ?n = "length (st_dags b)"
  have len: "length (st_groups ?b) = Suc ?g" "length (st_dags ?b) = Suc ?n" "st_ops ?b = st_ops b" "st_managed ?b = st_managed b"
    "st_previous ?b = st_previous b" by (simp_all add: new_dag_def Let_def)
  have groups: "the_group ?b h = the_group b h" if "h < ?g" for h using that by (simp add: new_dag_def Let_def the_group_def nth_append)
  have root: "bg_children (the_group ?b ?g) = []" "bg_dag (the_group ?b ?g) = ?n" by (simp_all add: new_dag_def Let_def the_group_def)
  have dags: "bd_root (the_dag ?b e) = (if e = ?n then ?g else bd_root (the_dag b e))" if "e < Suc ?n" for e
    using that by (simp add: new_dag_def Let_def the_dag_def nth_append)
  have l: "links ?b = links b" "dicts ?b = dicts b @ [[]]" by (simp_all add: new_dag_def Let_def links_def dicts_def)
  have "groups_ok ?b" unfolding groups_ok_def len
  proof (intro allI impI)
    fix h assume "h < Suc ?g"
    then show "bg_dag (the_group ?b h) < Suc ?n \<and> (\<forall>c \<in> set (bg_children (the_group ?b h)). child_ok (length (st_ops b)) (Suc ?g) h (snd c))"
      using assms groups [of h] root child_ok_mono [of "length (st_ops b)" ?g]
      by (cases "h = ?g") (auto simp: store_ok_def groups_ok_def less_Suc_eq)
  qed
  moreover have "context_ok ?b" using assms by (auto simp: context_ok_def len dags store_ok_def less_SucI)
  moreover have "attached ?b" using assms by (simp add: attached_def len store_ok_def)
  ultimately show ?thesis using assms links_ok_new_dag by (simp add: store_ok_def l)
qed

text \<open>A change of an operator that keeps its id, relatives and DAG.\<close>

lemma store_ok_set_op:
  assumes "store_ok b" "\<And>t. link_of (f t) = link_of t"
  shows "store_ok (set_op r f b)"
proof -
  have "links (set_op r f b) = links b"
  proof (cases "r < length (st_ops b)")
    case True
    then show ?thesis using assms(2) by (simp add: links_set_op flip: links_nth(1))
  next
    case False
    then show ?thesis by (simp add: links_set_op list_update_beyond)
  qed
  then show ?thesis using assms(1) by (simp add: store_ok_def attached_links groups_ok_def context_ok_def)
qed

lemma as_setup_stays:
  assumes "as_setup r b = Inr b'" "stays n m b"
  shows "stays n m b'"
proof -
  have "b' = set_op r (\<lambda>t. t\<lparr>op_is_setup := True\<rparr>) b" using assms(1) by (simp add: as_setup_def split: if_split_asm)
  then show ?thesis using assms(2) store_ok_set_op [of b "\<lambda>t. t\<lparr>op_is_setup := True\<rparr>" r] by (simp add: stays_def link_of_def)
qed

lemma as_teardown_stays:
  assumes "as_teardown r setups fails b = Inr b'" "stays n m b" "r < n" "\<forall>ss. setups = Some ss \<longrightarrow> (\<forall>s \<in> set ss. s < n)"
  shows "stays n m b'"
proof -
  let ?f = "\<lambda>t :: build_op. t\<lparr>op_is_teardown := True, op_trigger_rule := ALL_DONE_SETUP_SUCCESS,
     op_on_failure_fail_dagrun := (case fails of None \<Rightarrow> op_on_failure_fail_dagrun t | Some x \<Rightarrow> x)\<rparr>"
  let ?ss = "case setups of None \<Rightarrow> [] | Some ss \<Rightarrow> ss"
  have f: "fold_err (\<lambda>s b. bind_err (as_setup s b) (set_relatives (DOp s) [DOp r] False)) ?ss (set_op r ?f b) = Inr b'"
    using assms(1) by (simp add: as_teardown_def Let_def split: if_split_asm)
  have st: "stays n m (set_op r ?f b)"
    using assms(2) store_ok_set_op [of b ?f r] by (simp add: stays_def link_of_def)
  have step: "stays n m t'" if s: "s \<in> set ?ss" "stays n m t" "bind_err (as_setup s t) (set_relatives (DOp s) [DOp r] False) = Inr t'" for s t t'
  proof -
    from s(3) obtain u where u: "as_setup s t = Inr u" "set_relatives (DOp s) [DOp r] False u = Inr t'" by (rule bind_err_InrE)
    have su: "stays n m u" using as_setup_stays [OF u(1) s(2)] .
    have "s < n" using s(1) assms(4) by (cases setups) auto
    with set_relatives_stays [OF u(2) su] su assms(3) show ?thesis by (simp add: stays_def)
  qed
  show ?thesis by (rule fold_err_inv [where P = "stays n m", OF f st step])
qed

subsection \<open>Everything a DAG file builds\<close>

definition empty_store :: store where
  "empty_store = \<lparr>st_ops = [], st_groups = [], st_dags = [], st_active = False, st_managed = None, st_previous = []\<rparr>"

text \<open>The stores a DAG file can reach with operators made inside a DAG (as an argument or by \<open>with\<close>).\<close>

inductive built :: "store \<Rightarrow> bool" where
  built_empty: "built empty_store"
| built_dag: "built b \<Longrightarrow> built (snd (new_dag d b))"
| built_group: "built b \<Longrightarrow> \<forall>p. parent = Some p \<longrightarrow> p < length (st_groups b) \<Longrightarrow> \<forall>d. dag = Some d \<longrightarrow> d < length (st_dags b) \<Longrightarrow>
    new_group i prefixed parent dag b = Inr (g, b') \<Longrightarrow> built b'"
| built_operator: "built b \<Longrightarrow> d < length (st_dags b) \<Longrightarrow> \<forall>g. tg = Some g \<longrightarrow> g < length (st_groups b) \<Longrightarrow>
    new_operator attrs (Some d) tg b = Inr (r, b') \<Longrightarrow> built b'"
| built_enter: "built b \<Longrightarrow> g < length (st_groups b) \<Longrightarrow> built (push_context_managed_task_group g b)"
| built_exit: "built b \<Longrightarrow> built (pop_context_managed_task_group b)"
| built_relation: "built b \<Longrightarrow> dep_in b x \<Longrightarrow> \<forall>y \<in> set xs. dep_in b y \<Longrightarrow> set_relatives x xs up b = Inr b' \<Longrightarrow> built b'"
| built_chain: "built b \<Longrightarrow> \<forall>e \<in> set es. element_in b e \<Longrightarrow> chain es b = Inr b' \<Longrightarrow> built b'"
| built_linear: "built b \<Longrightarrow> \<forall>e \<in> set es. element_in b e \<Longrightarrow> chain_linear es b = Inr b' \<Longrightarrow> built b'"
| built_cross: "built b \<Longrightarrow> \<forall>x \<in> set xs. dep_in b x \<Longrightarrow> element_in b e \<Longrightarrow> cross_downstream xs e b = Inr b' \<Longrightarrow> built b'"
| built_dependency: "built b \<Longrightarrow> d < length (st_dags b) \<Longrightarrow> set_dependency d t u b = Inr b' \<Longrightarrow> built b'"
| built_setup: "built b \<Longrightarrow> as_setup r b = Inr b' \<Longrightarrow> built b'"
| built_teardown: "built b \<Longrightarrow> r < length (st_ops b) \<Longrightarrow> \<forall>ss. setups = Some ss \<longrightarrow> (\<forall>s \<in> set ss. s < length (st_ops b)) \<Longrightarrow>
    as_teardown r setups fails b = Inr b' \<Longrightarrow> built b'"

lemma stays_self: "store_ok b \<Longrightarrow> stays (length (st_ops b)) (length (st_groups b)) b"
  by (simp add: stays_def)

lemma stays_ok: "stays n m b \<Longrightarrow> store_ok b"
  by (simp add: stays_def)

lemma set_dependency_ok:
  assumes "set_dependency d t u b = Inr b'" "store_ok b" "d < length (st_dags b)"
  shows "store_ok b'"
proof -
  from assms(1) obtain x y where xy: "dict_get (bd_task_dict (the_dag b d)) t = Some x" "dict_get (bd_task_dict (the_dag b d)) u = Some y"
    "set_relatives (DOp x) [DOp y] False b = Inr b'" by (auto simp: set_dependency_def split: option.split_asm)
  have "(t, x) \<in> set (dicts b ! d)" "(u, y) \<in> set (dicts b ! d)" using xy(1,2) assms(3) by (simp_all add: map_of_SomeD)
  with assms(2,3) have "x < length (st_ops b)" "y < length (st_ops b)" by (auto simp: store_ok_def links_ok_def dest: dicts_okD(1))
  with set_relatives_stays [OF xy(3) stays_self [OF assms(2)]] show ?thesis by (simp add: stays_ok)
qed

lemma context_steps_ok:
  "store_ok b \<Longrightarrow> g < length (st_groups b) \<Longrightarrow> store_ok (push_context_managed_task_group g b)"
  "store_ok b \<Longrightarrow> store_ok (pop_context_managed_task_group b)"
  by (auto simp: store_ok_def push_context_managed_task_group_def pop_context_managed_task_group_def groups_ok_def context_ok_def
      attached_def links_def dicts_def the_group_def the_dag_def dest: in_set_butlastD split: option.split)

lemma built_ok: "built b \<Longrightarrow> store_ok b"
proof (induction rule: built.induct)
  case built_empty
  show ?case by (simp add: empty_store_def store_ok_def links_ok_def dicts_ok_def homes_ok_def linked_def groups_ok_def context_ok_def
      attached_def links_def dicts_def)
qed (blast intro: new_dag_ok new_group_ok new_operator_ok context_steps_ok set_dependency_ok stays_ok
      dest: stays_self set_relatives_stays chain_stays chain_linear_stays cross_downstream_stays as_setup_stays as_teardown_stays)+

lemma truncate_simps [simp]: "op_task_id (operator.truncate t) = op_task_id t" "op_upstream_task_ids (operator.truncate t) = op_upstream_task_ids t"
  "op_downstream_task_ids (operator.truncate t) = op_downstream_task_ids t"
  by (simp_all add: operator.truncate_def)

lemma built_dag_lookup: "dict_get (d_task_dict (built_dag b d)) k = map_option (\<lambda>r. operator.truncate (the_op b r)) (dict_get (bd_task_dict (the_dag b d)) k)"
  unfolding built_dag_def by (simp add: dict_get_map_snd [where f = "\<lambda>k r. operator.truncate (the_op b r)", simplified])


definition sample_tasks :: "(nat \<times> nat \<times> store) result" where
  "sample_tasks =
     bind_err (new_operator (sample_op ''a'') (Some 0) None (snd (new_dag (sample_dag []) empty_store))) (\<lambda>(r, b1).
     bind_err (new_group ''g'' True None (Some 0) b1) (\<lambda>(g, b2).
     bind_err (new_operator (sample_op ''b'') (Some 0) (Some g) b2) (\<lambda>(t, b3). Inr (r, g, b3))))"

definition sample_file :: "store result" where
  "sample_file = bind_err sample_tasks (\<lambda>(r, g, b). set_relatives (DOp r) [DGroup g] False b)"

lemma sample_tasks_built:
  "\<exists>r g b. sample_tasks = Inr (r, g, b) \<and> built b \<and> r < length (st_ops b) \<and> g < length (st_groups b) \<and> length (st_dags b) = 1 \<and>
     bo_dag (the_op b r) = Some 0 \<and> map_err (dep_roots b) [DGroup g] = Inr [[1]] \<and>
     store_task_id b r = ''a'' \<and> store_task_id b 1 = ''g.b''"
proof -
  let ?b0 = "snd (new_dag (sample_dag []) empty_store)"
  have v: "case sample_tasks of Inl _ \<Rightarrow> False | Inr (r, g, b) \<Rightarrow> r < length (st_ops b) \<and> g < length (st_groups b) \<and> length (st_dags b) = 1 \<and>
     bo_dag (the_op b r) = Some 0 \<and> map_err (dep_roots b) [DGroup g] = Inr [[1]] \<and>
     store_task_id b r = ''a'' \<and> store_task_id b 1 = ''g.b''" by code_simp
  obtain r g b where b: "sample_tasks = Inr (r, g, b)"
  proof (cases sample_tasks)
    case (Inl e)
    from v show ?thesis unfolding Inl by (simp only: sum.case)
  next
    case (Inr s)
    then show ?thesis by (cases s) (rule that, simp)
  qed
  from b obtain b1 b2 t where s: "new_operator (sample_op ''a'') (Some 0) None ?b0 = Inr (r, b1)"
    "new_group ''g'' True None (Some 0) b1 = Inr (g, b2)" "new_operator (sample_op ''b'') (Some 0) (Some g) b2 = Inr (t, b)"
    by (auto simp: sample_tasks_def simp del: bind_err_Inr_iff elim!: bind_err_InrE split: prod.split_asm)
  have "case new_operator (sample_op ''a'') (Some 0) None ?b0 of Inl _ \<Rightarrow> False | Inr (r, b1) \<Rightarrow> length (st_dags b1) = 1 \<and>
     (case new_group ''g'' True None (Some 0) b1 of Inl _ \<Rightarrow> False | Inr (g, b2) \<Rightarrow> length (st_dags b2) = 1 \<and> g < length (st_groups b2))"
    by code_simp
  with s(1,2) have w: "length (st_dags b1) = 1" "length (st_dags b2) = 1" "g < length (st_groups b2)" by simp_all
  have "length (st_dags ?b0) = 1" by (simp add: new_dag_def empty_store_def Let_def)
  then have "built b1" using built_operator [OF built_dag [OF built_empty] _ _ s(1)] by simp
  then have "built b2" using built_group [OF _ _ _ s(2)] w(1) by simp
  then have "built b" using built_operator [OF _ _ _ s(3)] w(2,3) by simp
  have all: "r < length (st_ops b) \<and> g < length (st_groups b) \<and> length (st_dags b) = 1 \<and>
     bo_dag (the_op b r) = Some 0 \<and> map_err (dep_roots b) [DGroup g] = Inr [[1]] \<and>
     store_task_id b r = ''a'' \<and> store_task_id b 1 = ''g.b''" using v unfolding b by (simp only: sum.case prod.case)
  show ?thesis by (rule exI)+ (rule conjI [OF b conjI [OF \<open>built b\<close> all]])
qed

lemma sample_file_built:
  "\<exists>b. sample_file = Inr b \<and> built b \<and> length (st_dags b) = 1 \<and>
     map (\<lambda>(k, op). (k, op_upstream_task_ids op)) (d_task_dict (built_dag b 0)) = [(''a'', []), (''g.b'', [''a''])]"
proof -
  have v: "case sample_file of Inl _ \<Rightarrow> False | Inr b \<Rightarrow> length (st_dags b) = 1 \<and>
      map (\<lambda>(k, op). (k, op_upstream_task_ids op)) (d_task_dict (built_dag b 0)) = [(''a'', []), (''g.b'', [''a''])]" by code_simp
  obtain b where b: "sample_file = Inr b"
  proof (cases sample_file)
    case (Inl e)
    from v show ?thesis unfolding Inl by (simp only: sum.case)
  qed (rule that)
  from v have l: "length (st_dags b) = 1"
    "map (\<lambda>(k, op). (k, op_upstream_task_ids op)) (d_task_dict (built_dag b 0)) = [(''a'', []), (''g.b'', [''a''])]"
    unfolding b by simp_all
  from sample_tasks_built obtain r g b3 where s: "sample_tasks = Inr (r, g, b3)" "built b3" "r < length (st_ops b3)" "g < length (st_groups b3)"
    by (elim exE conjE) (rule that)
  have "set_relatives (DOp r) [DGroup g] False b3 = Inr b" using b unfolding sample_file_def s(1) by simp
  from built_relation [OF s(2) _ _ this] s(3,4) have "built b" by simp
  with b l show ?thesis by (intro exI conjI)
qed


subsection \<open>The edges a relation adds\<close>

lemma edges_built:
  assumes "store_ok b" "d < length (st_dags b)"
  shows "edges (built_dag b d) False = {(op_task_id (the_op b r), u) | r u. r < length (st_ops b) \<and> bo_dag (the_op b r) = Some d \<and>
    u \<in> set (op_downstream_task_ids (the_op b r))}"
proof -
  have ok: "dicts_ok (links b) (dicts b)" "homes_ok (links b) (dicts b)" using assms(1) by (simp_all add: store_ok_def links_ok_def)
  let ?dict = "bd_task_dict (the_dag b d)"
  have keys: "distinct (map fst ?dict)" using ok(1) assms(2) by (auto simp: dicts_ok_def)
  have iff: "dict_get ?dict k = Some r \<longleftrightarrow> r < length (st_ops b) \<and> op_task_id (the_op b r) = k \<and> bo_dag (the_op b r) = Some d" for k r
  proof
    assume "dict_get ?dict k = Some r"
    then have "(k, r) \<in> set (dicts b ! d)" using assms(2) by (simp add: map_of_SomeD)
    with dicts_okD [OF ok(1), of d k r] assms(2) show "r < length (st_ops b) \<and> op_task_id (the_op b r) = k \<and> bo_dag (the_op b r) = Some d" by simp
  next
    assume r: "r < length (st_ops b) \<and> op_task_id (the_op b r) = k \<and> bo_dag (the_op b r) = Some d"
    have "r < length (links b)" using r by simp
    with ok(2) have "bo_dag (the_op b r) = Some d \<Longrightarrow> (op_task_id (the_op b r), r) \<in> set (dicts b ! d)"
      using r by (auto simp: homes_ok_def)
    with r assms(2) have "(k, r) \<in> set ?dict" by simp
    with keys show "dict_get ?dict k = Some r" by simp
  qed
  show ?thesis by (auto simp: edges_def built_dag_lookup iff get_direct_relative_ids_def)
qed

lemma update_group_relative_children:
  assumes "update_group_relative g x up b = Inr b'"
  shows "bg_children (the_group b' h) = bg_children (the_group b h)" "st_ops b' = st_ops b" "st_dags b' = st_dags b"
    "length (st_groups b') = length (st_groups b)"
proof -
  have same: "bg_children (the_group (set_group g k b) h) = bg_children (the_group b h)" if "\<And>x. bg_children (k x) = bg_children x" for g k b
  proof (cases "g < length (st_groups b)")
    case False
    then show ?thesis by (simp add: set_group_def list_update_beyond the_group_def)
  qed (simp add: the_set that)
  have "bg_children (the_group b' h) = bg_children (the_group b h) \<and> st_ops b' = st_ops b \<and> st_dags b' = st_dags b \<and>
      length (st_groups b') = length (st_groups b)"
    using assms by (cases x; cases up) (auto simp: update_group_relative_def same)
  then show "bg_children (the_group b' h) = bg_children (the_group b h)" "st_ops b' = st_ops b" "st_dags b' = st_dags b"
    "length (st_groups b') = length (st_groups b)" by simp_all
qed

text \<open>Two stores with the same tasks, the same DAGs and the same children of groups.\<close>

definition same_graph :: "store \<Rightarrow> store \<Rightarrow> bool" where
  "same_graph b b' \<longleftrightarrow> st_ops b' = st_ops b \<and> st_dags b' = st_dags b \<and> length (st_groups b') = length (st_groups b) \<and>
     (\<forall>h. bg_children (the_group b' h) = bg_children (the_group b h))"

lemma same_graph_roots:
  assumes "same_graph b b'"
  shows "dep_roots b' x = dep_roots b x"
proof -
  have "group_tasks n b' g = group_tasks n b g" for n g
    using assms by (induction n arbitrary: g) (auto simp: same_graph_def intro!: arg_cong [of _ _ concat] map_cong split: node.split)
  with assms show ?thesis
    by (cases x) (simp_all add: group_roots_def tasks_of_group_def same_graph_def is_group_root_def store_task_id_def the_op_def cong: filter_cong map_cong)
qed

lemma collect_roots:
  "fold_err (collect_relatives r False) xs s = Inr s' \<Longrightarrow>
   \<exists>rss. map_err (dep_roots (snd s)) xs = Inr rss \<and> fst s' = fst s @ concat rss \<and> same_graph (snd s) (snd s')"
proof (induction xs arbitrary: s)
  case (Cons x xs)
  from Cons.prems obtain s1 where s1: "collect_relatives r False x s = Inr s1" "fold_err (collect_relatives r False) xs s1 = Inr s'" by auto
  from s1(1) obtain b rs where b: "update_relative x (DOp r) True (snd s) = Inr b" "dep_roots b x = Inr rs" "s1 = (fst s @ rs, b)"
    by (auto simp: collect_relatives_def)
  have g: "same_graph (snd s) b"
    using b(1) update_group_relative_children by (cases x) (auto simp: update_relative_def same_graph_def)
  have d: "dep_roots b = dep_roots (snd s)" by (rule ext) (rule same_graph_roots [OF g])
  from Cons.IH [OF s1(2)] obtain rss where "map_err (dep_roots (snd s)) xs = Inr rss" "fst s' = (fst s @ rs) @ concat rss" "same_graph b (snd s')"
    unfolding b(3) fst_conv snd_conv d by (elim exE conjE) (rule that)
  moreover have "dep_roots (snd s) x = Inr rs" using b(2) by (simp add: d)
  ultimately show ?case using g by (intro exI [of _ "rs # rss"]) (simp add: same_graph_def)
qed (simp add: same_graph_def)

lemma edges_same_graph: "same_graph b b' \<Longrightarrow> edges (built_dag b' e) up = edges (built_dag b e) up"
  by (simp add: same_graph_def built_dag_def the_dag_def the_op_def)

lemma edges_add_edge:
  assumes "stays n m b" "r < n" "t < n" "bo_dag (the_op b r) = Some d" "bo_dag (the_op b t) = Some d" "e < length (st_dags b)"
  shows "edges (built_dag (add_edge r t b) e) False =
    edges (built_dag b e) False \<union> (if e = d then {(store_task_id b r, store_task_id b t)} else {})"
proof -
  from assms(1) have b: "store_ok b" "length (st_ops b) = n" by (simp_all add: stays_def)
  have b': "store_ok (add_edge r t b)" "length (st_ops (add_edge r t b)) = n" "e < length (st_dags (add_edge r t b))"
    using add_edge_stays(1) [OF assms(1-5)] assms(6) by (simp_all add: stays_def) (simp add: add_edge_def Let_def)
  have op: "op_task_id (the_op (add_edge r t b) q) = op_task_id (the_op b q)"
    "bo_dag (the_op (add_edge r t b) q) = bo_dag (the_op b q)"
    "set (op_downstream_task_ids (the_op (add_edge r t b) q)) =
       set (op_downstream_task_ids (the_op b q)) \<union> (if q = r then {op_task_id (the_op b t)} else {})" for q
    using assms(2,3) b(2) by (simp_all add: add_edge_def Let_def the_set store_task_id_def)
  have entry: "q < length (st_ops (add_edge r t b)) \<and> bo_dag (the_op (add_edge r t b) q) = Some e \<and>
      u \<in> set (op_downstream_task_ids (the_op (add_edge r t b) q)) \<longleftrightarrow>
    (q < length (st_ops b) \<and> bo_dag (the_op b q) = Some e \<and> u \<in> set (op_downstream_task_ids (the_op b q))) \<or>
    (q = r \<and> e = d \<and> u = op_task_id (the_op b t))" for q u
    unfolding op b(2) b'(2) using assms(2,4) by auto
  have split: "{(f q, u) | q u. P q u \<or> (q = r \<and> c \<and> u = v)} = {(f q, u) | q u. P q u} \<union> (if c then {(f r, v)} else {})"
    for f :: "nat \<Rightarrow> id_str" and P c and v :: id_str by auto
  show ?thesis
    unfolding edges_built [OF b'(1,3)] edges_built [OF b(1) assms(6)] entry split op(1) store_task_id_def ..
qed

text \<open>
  C15. \<open>task.set_downstream(xs)\<close> adds to the task's own DAG the edges from the task to every root of
  every argument, the roots as they were when it was called, and touches no other DAG.
\<close>

theorem set_downstream_adds_edges:
  assumes "built b" "r < length (st_ops b)" "\<forall>x \<in> set xs. dep_in b x" "bo_dag (the_op b r) = Some d"
    "set_relatives (DOp r) xs False b = Inr b'" "e < length (st_dags b)"
  shows "\<exists>rss. map_err (dep_roots b) xs = Inr rss \<and>
    edges (built_dag b' e) False = edges (built_dag b e) False \<union>
      (if e = d then {(store_task_id b r, store_task_id b t) | t. t \<in> set (concat rss)} else {})"
proof -
  let ?n = "length (st_ops b)" and ?m = "length (st_groups b)"
  let ?new = "\<lambda>ts. if e = d then {(store_task_id b r, store_task_id b t) | t. t \<in> set ts} else {}"
  have o: "op_set_relatives r xs False b = Inr b'" using assms(5) by (simp add: set_relatives_def)
  have ok: "store_ok b" by (rule built_ok [OF assms(1)])
  from op_set_relatives_split [OF o stays_self [OF ok] assms(2,3)] obtain ts b1 d1 where
    c: "fold_err (collect_relatives r False) xs ([], b) = Inr (ts, b1)" and st: "stays ?n ?m b1"
    and lt: "\<forall>t \<in> set ts. t < ?n" and dag: "\<forall>t \<in> set (r # ts). bo_dag (the_op b1 t) = Some d1"
    and f: "fold_err (relate_one d1 r False) ts b1 = Inr b'"
    by (elim exE conjE) (rule that)
  from collect_roots [OF c] obtain rss where rss: "map_err (dep_roots b) xs = Inr rss" "ts = concat rss" and g: "same_graph b b1"
    by (elim exE conjE) (simp add: that)
  have same: "store_task_id b1 = store_task_id b" "the_op b1 = the_op b" using g by (auto simp: same_graph_def store_task_id_def the_op_def fun_eq_iff)
  then have d1: "d1 = d" using dag assms(4) by simp
  have "fold_err (relate_one d r False) us s = Inr s' \<Longrightarrow> set us \<subseteq> set ts \<Longrightarrow> stays ?n ?m s \<Longrightarrow>
      store_task_id s = store_task_id b \<Longrightarrow> e < length (st_dags s) \<Longrightarrow> \<forall>t \<in> set (r # ts). bo_dag (the_op s t) = Some d \<Longrightarrow>
      edges (built_dag s' e) False = edges (built_dag s e) False \<union> ?new us" for us s s'
  proof (induction us arbitrary: s)
    case (Cons t us)
    have t: "bo_dag (the_op s t) = Some d" "bo_dag (the_op s r) = Some d" "t < ?n" using Cons.prems lt by auto
    then have rest: "fold_err (relate_one d r False) us (add_edge r t s) = Inr s'"
      using Cons.prems(1) relate_one_attached [of s t d d r False] by simp
    have len: "r < length (st_ops s)" "t < length (st_ops s)" using Cons.prems(3) t(3) assms(2) by (simp_all add: stays_def)
    have "store_task_id (add_edge r t s) = store_task_id b"
      using len Cons.prems(4) by (auto simp: add_edge_def Let_def store_task_id_def the_set fun_eq_iff)
    moreover have "\<forall>u \<in> set (r # ts). bo_dag (the_op (add_edge r t s) u) = Some d"
      using len Cons.prems(6) by (auto simp: add_edge_def Let_def the_set)
    moreover have "e < length (st_dags (add_edge r t s))" using Cons.prems(5) by (simp add: add_edge_def Let_def)
    ultimately have "edges (built_dag s' e) False = edges (built_dag (add_edge r t s) e) False \<union> ?new us"
      using Cons.IH [OF rest] Cons.prems(2) add_edge_stays(1) [OF Cons.prems(3) assms(2) t(3,2,1)] by simp
    with edges_add_edge [OF Cons.prems(3) assms(2) t(3,2,1) Cons.prems(5)] Cons.prems(4) show ?case by auto
  qed simp
  from this [OF f [unfolded d1]] have "edges (built_dag b' e) False = edges (built_dag b1 e) False \<union> ?new ts"
    using st same dag d1 assms(6) g by (simp add: same_graph_def)
  with rss edges_same_graph [OF g] show ?thesis by (intro exI [of _ rss]) simp
qed

lemma set_downstream_adds_edges_witness:
  "\<exists>b. sample_file = Inr b \<and> (''a'', ''g.b'') \<in> edges (built_dag b 0) False"
proof -
  from sample_tasks_built obtain r g b where s: "sample_tasks = Inr (r, g, b)" "built b" "r < length (st_ops b)" "g < length (st_groups b)"
    "length (st_dags b) = 1" "bo_dag (the_op b r) = Some 0" "map_err (dep_roots b) [DGroup g] = Inr [[1]]"
    "store_task_id b r = ''a''" "store_task_id b 1 = ''g.b''"
    by (elim exE conjE) (rule that)
  from sample_file_built obtain b' where b': "sample_file = Inr b'" by (elim exE conjE) (rule that)
  then have "set_relatives (DOp r) [DGroup g] False b = Inr b'" by (simp add: sample_file_def s(1))
  from set_downstream_adds_edges [OF s(2,3) _ s(6) this, of 0] s(4,5) obtain rss where
    "map_err (dep_roots b) [DGroup g] = Inr rss"
    "edges (built_dag b' 0) False = edges (built_dag b 0) False \<union> {(store_task_id b r, store_task_id b t) | t. t \<in> set (concat rss)}"
    by auto
  with s(7-9) have "(''a'', ''g.b'') \<in> edges (built_dag b' 0) False" by auto
  with b' show ?thesis by (intro exI conjI)
qed

text \<open>A task without DAG that is added while a group with a prefix is current gets a second entry.\<close>

lemma prefixed_task_stored_twice:
  "(case bind_err (new_operator (sample_op ''t'') None None (snd (new_dag (sample_dag []) empty_store))) (\<lambda>(r, b).
      bind_err (new_group ''g'' True None (Some 0) b) (\<lambda>(g, b). add_task 0 r (push_context_managed_task_group g b)))
    of Inl _ \<Rightarrow> False | Inr b \<Rightarrow>
      dict_keys (d_task_dict (built_dag b 0)) = [''g.t'', ''t''] \<and> map op_task_id (map snd (d_task_dict (built_dag b 0))) = [''t'', ''t''] \<and>
      \<not> wf_dag (built_dag b 0))"
  by code_simp

end
