(* ===== verification/Dag_Subset.thy ===== *)
theory Dag_Subset
  imports Dag_Cycles
begin

text \<open>
  \<open>DAG.partial_subset\<close> (\<open>models/dag.py\<close>): the part of a DAG that clearing and marking work on. The task
  groups of the copy are not modelled; the pattern that selects tasks (a regular expression or a list
  of ids) is a predicate on task ids.
\<close>

subsection \<open>The subset\<close>

text \<open>The ids that one matched task brings in, as its part of the loop adds them.\<close>

definition with_downstream :: "dag \<Rightarrow> id_str list \<Rightarrow> operator \<Rightarrow> id_str list result" where
  "with_downstream d matched t =
     bind_err (get_flat_relatives d t False) (\<lambda>rels.
     bind_err (map_err (\<lambda>rel.
         if op_task_id rel \<notin> set matched \<and> \<not> op_is_setup rel \<and> \<not> op_is_teardown rel
         then bind_err (get_upstreams_only_setups_and_teardowns d rel) (\<lambda>xs. Inr (op_task_id rel # map op_task_id xs))
         else Inr [op_task_id rel]) rels) (\<lambda>idss. Inr (concat idss)))"

definition also_include_ids :: "dag \<Rightarrow> bool \<Rightarrow> bool \<Rightarrow> id_str list \<Rightarrow> operator \<Rightarrow> id_str list result" where
  "also_include_ids d include_downstream include_upstream matched t =
     bind_err (if include_downstream then with_downstream d matched t else Inr []) (\<lambda>down.
     bind_err (if include_upstream then bind_err (get_upstreams_follow_setups d t) (\<lambda>xs. Inr (map op_task_id xs))
               else if \<not> op_is_setup t \<and> \<not> op_is_teardown t
               then bind_err (get_upstreams_only_setups_and_teardowns d t) (\<lambda>xs. Inr (map op_task_id xs))
               else Inr []) (\<lambda>up.
     bind_err (if op_is_setup t \<and> \<not> include_downstream
               then bind_err (downstream_list d t) (\<lambda>xs. Inr (map op_task_id (filter op_is_teardown xs)))
               else Inr []) (\<lambda>teardowns.
       Inr (down @ up @ teardowns))))"

text \<open>References to tasks that did not make the cut are removed.\<close>

definition cut_relatives :: "id_str list \<Rightarrow> operator \<Rightarrow> operator" where
  "cut_relatives keys t =
     t\<lparr>op_upstream_task_ids := filter (\<lambda>u. u \<in> set keys) (op_upstream_task_ids t),
       op_downstream_task_ids := filter (\<lambda>u. u \<in> set keys) (op_downstream_task_ids t)\<rparr>"

definition task_dict_of :: "operator list \<Rightarrow> (id_str \<times> operator) list" where
  "task_dict_of ts = fold (\<lambda>t. dict_set (op_task_id t) t) ts []"

definition partial_subset :: "dag \<Rightarrow> (id_str \<Rightarrow> bool) \<Rightarrow> bool \<Rightarrow> bool \<Rightarrow> bool \<Rightarrow> dag result" where
  "partial_subset d wanted include_downstream include_upstream include_direct_upstream =
     (let matched = filter (\<lambda>t. wanted (op_task_id t)) (dag_tasks d) in
      bind_err (map_err (also_include_ids d include_downstream include_upstream (map op_task_id matched)) matched) (\<lambda>idss.
      bind_err (map_err (\<lambda>t. case dict_get (d_task_dict d) t of None \<Rightarrow> Inl (KeyError t) | Some r \<Rightarrow> Inr r) (remdups (concat idss)))
        (\<lambda>also_include.
      bind_err (if include_direct_upstream
                then bind_err (map_err (upstream_list d) (matched @ also_include)) (\<lambda>tss. Inr (concat tss)) else Inr [])
        (\<lambda>direct_upstreams.
        let tasks = task_dict_of (matched @ also_include @ direct_upstreams) in
        Inr (d\<lparr>d_task_dict := map (\<lambda>(k, t). (k, cut_relatives (dict_keys tasks) t)) tasks,
               d_partial := (length tasks < length (d_task_dict d) \<or> d_partial d)\<rparr>)))))"

subsection \<open>Setups and teardowns that come along\<close>

text \<open>A setup that a task needs, or a teardown of one, other than the task.\<close>

definition comes_along :: "dag \<Rightarrow> id_str \<Rightarrow> id_str \<Rightarrow> bool" where
  "comes_along d t x \<longleftrightarrow> relevant_setup d t x \<or>
     (\<exists>s. relevant_setup d t s \<and> (s, x) \<in> edges d False \<and> op_is_teardown (dag_op d x) \<and> x \<noteq> t)"

lemma own_teardowns_wf:
  assumes "wf_dag d" "dict_get (d_task_dict d) s = Some op'" "op_task_id op = t"
  shows "own_teardowns op (map (dag_op d) (op_downstream_task_ids op')) =
    map (dag_op d) (filter (\<lambda>x. op_is_teardown (dag_op d x) \<and> x \<noteq> t) (op_downstream_task_ids op'))"
proof -
  have "x \<in> set (op_downstream_task_ids op') \<Longrightarrow> op_task_id (dag_op d x) = x" for x
    using wf_dag_opD(3) [OF assms(1,2), of x False] wf_dag_opD(1) [OF assms(1), of x]
    by (auto simp: get_direct_relative_ids_def dag_op_def)
  then show ?thesis by (auto simp: own_teardowns_def filter_map comp_def assms(3) intro!: arg_cong [where f = "map (dag_op d)"] filter_cong)
qed

lemma setups_and_teardowns_spec:
  assumes "wf_dag d" "dict_get (d_task_dict d) t = Some op"
  shows "\<exists>xs. get_upstreams_only_setups_and_teardowns d op = Inr (map (dag_op d) xs) \<and> set xs = {x. comes_along d t x}"
proof -
  note w = assms(1)
  from flat_relatives_wf [OF w assms(2), of False] flat_relatives_wf [OF w assms(2), of True]
  obtain down up where
    down: "get_flat_relatives d op False = Inr (map (dag_op d) down)" "set down = {b. (t, b) \<in> (edges d False)\<^sup>+}" and
    up: "get_flat_relatives d op True = Inr (map (dag_op d) up)" "set up = {b. (t, b) \<in> (edges d True)\<^sup>+}" by auto
  let ?tds = "map op_task_id (filter op_is_teardown (map (dag_op d) down))"
  let ?own = "\<lambda>s. filter (\<lambda>x. op_is_teardown (dag_op d x) \<and> x \<noteq> t) (op_downstream_task_ids (dag_op d s))"
  let ?g = "\<lambda>s. if relevant_setup d t s then s # ?own s else []"
  let ?f = "\<lambda>task. if \<not> op_is_setup task then Inr []
           else bind_err (downstream_list d task) (\<lambda>ds.
             let has_no_teardowns = \<not> list_ex op_is_teardown ds in
             if has_no_teardowns \<or> list_ex (\<lambda>t. t \<in> set ?tds) (op_downstream_task_ids task)
             then Inr (task # own_teardowns op ds) else Inr [])"
  have step: "?f (dag_op d s) = Inr (map (dag_op d) (?g s))" if "s \<in> set up" for s
  proof -
    have s: "(t, s) \<in> (edges d True)\<^sup>+" "dict_get (d_task_dict d) s = Some (dag_op d s)" using that up(2) dag_op_wf [OF w] by auto
    show ?thesis
      using setup_test_relevant [OF w assms(2) s(1) down(2)] upstream_list_wf(2) [OF w s(2)]
        own_teardowns_wf [OF w s(2) wf_dag_opD(1) [OF assms]]
      by (auto simp: Let_def)
  qed
  have "map_err ?f (map (dag_op d) up) = Inr (map (\<lambda>s. map (dag_op d) (?g s)) up)"
    using step by (induction up) auto
  then have "get_upstreams_only_setups_and_teardowns d op = Inr (concat (map (\<lambda>s. map (dag_op d) (?g s)) up))"
    unfolding get_upstreams_only_setups_and_teardowns_def down up bind_err.simps Let_def by simp
  also have "concat (map (\<lambda>s. map (dag_op d) (?g s)) up) = map (dag_op d) (concat (map ?g up))"
    by (simp add: map_concat comp_def)
  finally have "get_upstreams_only_setups_and_teardowns d op = Inr (map (dag_op d) (concat (map ?g up)))" .
  moreover have "set (concat (map ?g up)) = {x. comes_along d t x}"
  proof -
    have "relevant_setup d t s \<Longrightarrow> s \<in> set up" for s using up(2) by (simp add: relevant_setup_def)
    moreover have "relevant_setup d t s \<Longrightarrow> x \<in> set (op_downstream_task_ids (dag_op d s)) \<longleftrightarrow> (s, x) \<in> edges d False" for s x
      using dag_op_wf [OF w] by (auto simp: relevant_setup_def edges_iff get_direct_relative_ids_def)
    ultimately show ?thesis by (fastforce simp: comes_along_def split: if_split_asm)
  qed
  ultimately show ?thesis by blast
qed

lemma comes_along_in_dag: "wf_dag d \<Longrightarrow> comes_along d t x \<Longrightarrow> has_task d x"
  using trancl_in_dag [of d t x True] edges_in_dag [of d _ x False]
  by (auto simp: comes_along_def relevant_setup_def has_task_def dict_has_iff in_dict_keys_iff)

lemma follow_setups_spec:
  assumes "wf_dag d" "dict_get (d_task_dict d) t = Some op"
  shows "\<exists>xs. get_upstreams_follow_setups d op = Inr (map (dag_op d) xs) \<and>
    set xs = {u. (t, u) \<in> (edges d True)\<^sup>+} \<union>
      {x. \<exists>s. (t, s) \<in> (edges d True)\<^sup>+ \<and> op_is_setup (dag_op d s) \<and> (s, x) \<in> edges d False \<and> op_is_teardown (dag_op d x) \<and> x \<noteq> t}"
proof -
  note w = assms(1)
  from flat_relatives_wf [OF assms, of True] obtain up where
    up: "get_flat_relatives d op True = Inr (map (dag_op d) up)" "set up = {b. (t, b) \<in> (edges d True)\<^sup>+}" by auto
  let ?own = "\<lambda>s. filter (\<lambda>x. op_is_teardown (dag_op d x) \<and> x \<noteq> t) (op_downstream_task_ids (dag_op d s))"
  let ?g = "\<lambda>s. if op_is_setup (dag_op d s) then s # ?own s else [s]"
  let ?f = "\<lambda>task. if op_is_setup task then bind_err (downstream_list d task) (\<lambda>ds. Inr (task # own_teardowns op ds)) else Inr [task]"
  have get: "dict_get (d_task_dict d) s = Some (dag_op d s)" if "s \<in> set up" for s using that up(2) dag_op_wf [OF w] by auto
  have "?f (dag_op d s) = Inr (map (dag_op d) (?g s))" if "s \<in> set up" for s
    using upstream_list_wf(2) [OF w get [OF that]] own_teardowns_wf [OF w get [OF that] wf_dag_opD(1) [OF assms]] by auto
  then have "map_err ?f (map (dag_op d) up) = Inr (map (\<lambda>s. map (dag_op d) (?g s)) up)" by (induction up) auto
  then have "get_upstreams_follow_setups d op = Inr (concat (map (\<lambda>s. map (dag_op d) (?g s)) up))"
    unfolding get_upstreams_follow_setups_def up(1) bind_err.simps by simp
  also have "concat (map (\<lambda>s. map (dag_op d) (?g s)) up) = map (dag_op d) (concat (map ?g up))"
    by (simp add: map_concat comp_def)
  finally have "get_upstreams_follow_setups d op = Inr (map (dag_op d) (concat (map ?g up)))" .
  moreover have down: "x \<in> set (op_downstream_task_ids (dag_op d s)) \<longleftrightarrow> (s, x) \<in> edges d False" if "s \<in> set up" for s x
    using get [OF that] by (auto simp: edges_iff get_direct_relative_ids_def)
  have "set (concat (map ?g up)) = {u. (t, u) \<in> (edges d True)\<^sup>+} \<union>
      {x. \<exists>s. (t, s) \<in> (edges d True)\<^sup>+ \<and> op_is_setup (dag_op d s) \<and> (s, x) \<in> edges d False \<and> op_is_teardown (dag_op d x) \<and> x \<noteq> t}"
  proof -
    have mem: "(t, s) \<in> (edges d True)\<^sup>+ \<longleftrightarrow> s \<in> set up" for s using up(2) by simp
    show ?thesis unfolding mem using down by (fastforce split: if_split_asm)
  qed
  ultimately show ?thesis by blast
qed

subsection \<open>The tasks of a subset\<close>

definition plain_task :: "dag \<Rightarrow> id_str \<Rightarrow> bool" where
  "plain_task d t \<longleftrightarrow> \<not> op_is_setup (dag_op d t) \<and> \<not> op_is_teardown (dag_op d t)"

text \<open>What one matched task brings in, on the graph.\<close>

definition brought_in :: "dag \<Rightarrow> bool \<Rightarrow> bool \<Rightarrow> id_str set \<Rightarrow> id_str \<Rightarrow> id_str set" where
  "brought_in d down up M t =
     (if down then {x. (t, x) \<in> (edges d False)\<^sup>+} \<union>
        {x. \<exists>r. (t, r) \<in> (edges d False)\<^sup>+ \<and> r \<notin> M \<and> plain_task d r \<and> comes_along d r x} else {}) \<union>
     (if up then {x. (t, x) \<in> (edges d True)\<^sup>+} \<union>
        {x. \<exists>s. (t, s) \<in> (edges d True)\<^sup>+ \<and> op_is_setup (dag_op d s) \<and> (s, x) \<in> edges d False \<and> op_is_teardown (dag_op d x) \<and> x \<noteq> t}
      else if plain_task d t then {x. comes_along d t x} else {}) \<union>
     (if op_is_setup (dag_op d t) \<and> \<not> down then {x. (t, x) \<in> edges d False \<and> op_is_teardown (dag_op d x)} else {})"

lemma ids_of_map_dag_op:
  "wf_dag d \<Longrightarrow> set xs \<subseteq> {x. has_task d x} \<Longrightarrow> map op_task_id (map (dag_op d) xs) = xs"
  by (induction xs) (auto simp: has_task_def dict_has_iff dag_op_def dest: wf_dag_opD(1))

lemma has_task_iff_dag_op: "has_task d t \<longleftrightarrow> dict_get (d_task_dict d) t = Some (dag_op d t)"
  by (auto simp: has_task_def dict_has_iff dag_op_def)

lemma trancl_has_task: "wf_dag d \<Longrightarrow> (a, b) \<in> (edges d up)\<^sup>+ \<Longrightarrow> has_task d b"
  using dag_op_wf by (simp add: has_task_iff_dag_op)

lemma with_downstream_spec:
  assumes "wf_dag d" "dict_get (d_task_dict d) t = Some op"
  shows "\<exists>ids. with_downstream d matched op = Inr ids \<and> set ids = {x. (t, x) \<in> (edges d False)\<^sup>+} \<union>
    {x. \<exists>r. (t, r) \<in> (edges d False)\<^sup>+ \<and> r \<notin> set matched \<and> plain_task d r \<and> comes_along d r x}"
proof -
  note w = assms(1)
  from flat_relatives_wf [OF assms, of False] obtain rs where
    rs: "get_flat_relatives d op False = Inr (map (dag_op d) rs)" "set rs = {b. (t, b) \<in> (edges d False)\<^sup>+}" by auto
  let ?more = "\<lambda>r. r \<notin> set matched \<and> plain_task d r"
  let ?f = "\<lambda>rel. if op_task_id rel \<notin> set matched \<and> \<not> op_is_setup rel \<and> \<not> op_is_teardown rel
         then bind_err (get_upstreams_only_setups_and_teardowns d rel) (\<lambda>xs. Inr (op_task_id rel # map op_task_id xs))
         else Inr [op_task_id rel]"
  have "\<exists>ids. ?f (dag_op d r) = Inr ids \<and> set ids = insert r (if ?more r then {x. comes_along d r x} else {})" if "r \<in> set rs" for r
  proof -
    have r: "dict_get (d_task_dict d) r = Some (dag_op d r)" "op_task_id (dag_op d r) = r"
      using that rs(2) dag_op_wf [OF w] by auto
    from setups_and_teardowns_spec [OF w r(1)] obtain xs where
      xs: "get_upstreams_only_setups_and_teardowns d (dag_op d r) = Inr (map (dag_op d) xs)" "set xs = {x. comes_along d r x}" by blast
    have "map op_task_id (map (dag_op d) xs) = xs"
      by (rule ids_of_map_dag_op [OF w]) (auto simp: xs(2) comes_along_in_dag [OF w])
    with r(2) xs show ?thesis by (auto simp: plain_task_def)
  qed
  then obtain g where g: "\<And>r. r \<in> set rs \<Longrightarrow> ?f (dag_op d r) = Inr (g r) \<and> set (g r) = insert r (if ?more r then {x. comes_along d r x} else {})"
    by metis
  then have "map_err ?f (map (dag_op d) rs) = Inr (map g rs)" by (induction rs) auto
  then have "with_downstream d matched op = Inr (concat (map g rs))"
    unfolding with_downstream_def rs(1) bind_err.simps by simp
  moreover have "set (concat (map g rs)) = {x. (t, x) \<in> (edges d False)\<^sup>+} \<union>
    {x. \<exists>r. (t, r) \<in> (edges d False)\<^sup>+ \<and> r \<notin> set matched \<and> plain_task d r \<and> comes_along d r x}"
    using g rs(2) by (auto split: if_split_asm)
  ultimately show ?thesis by blast
qed

lemma also_include_ids_spec:
  assumes "wf_dag d" "dict_get (d_task_dict d) t = Some op"
  shows "\<exists>ids. also_include_ids d down up matched op = Inr ids \<and> set ids = brought_in d down up (set matched) t"
proof -
  note w = assms(1)
  have op: "dag_op d t = op" using assms(2) by (simp add: dag_op_def)
  from with_downstream_spec [OF assms, of matched] obtain ds where
    ds: "with_downstream d matched op = Inr ds" "set ds = {x. (t, x) \<in> (edges d False)\<^sup>+} \<union>
    {x. \<exists>r. (t, r) \<in> (edges d False)\<^sup>+ \<and> r \<notin> set matched \<and> plain_task d r \<and> comes_along d r x}" by blast
  from follow_setups_spec [OF assms] obtain us where
    us: "get_upstreams_follow_setups d op = Inr (map (dag_op d) us)" "set us = {u. (t, u) \<in> (edges d True)\<^sup>+} \<union>
      {x. \<exists>s. (t, s) \<in> (edges d True)\<^sup>+ \<and> op_is_setup (dag_op d s) \<and> (s, x) \<in> edges d False \<and> op_is_teardown (dag_op d x) \<and> x \<noteq> t}" by blast
  from setups_and_teardowns_spec [OF assms] obtain cs where
    cs: "get_upstreams_only_setups_and_teardowns d op = Inr (map (dag_op d) cs)" "set cs = {x. comes_along d t x}" by blast
  have ids: "map op_task_id (map (dag_op d) us) = us" "map op_task_id (map (dag_op d) cs) = cs"
  proof -
    have "set us \<subseteq> {x. has_task d x}"
      using trancl_has_task [OF w] edges_in_dag [OF w] by (auto simp: us(2) has_task_def dict_has_iff in_dict_keys_iff)
    then show "map op_task_id (map (dag_op d) us) = us" by (rule ids_of_map_dag_op [OF w])
    have "set cs \<subseteq> {x. has_task d x}" using comes_along_in_dag [OF w] by (auto simp: cs(2))
    then show "map op_task_id (map (dag_op d) cs) = cs" by (rule ids_of_map_dag_op [OF w])
  qed
  let ?td = "filter (\<lambda>x. op_is_teardown (dag_op d x)) (op_downstream_task_ids op)"
  have "map op_task_id (map (dag_op d) ?td) = ?td"
    using wf_dag_opD(3) [OF assms, of _ False]
    by (intro ids_of_map_dag_op [OF w]) (auto simp: get_direct_relative_ids_def has_task_def dict_has_iff)
  then have td: "map op_task_id (filter op_is_teardown (map (dag_op d) (op_downstream_task_ids op))) = ?td"
    by (simp add: filter_map comp_def)
  have set_td: "set ?td = {x. (t, x) \<in> edges d False \<and> op_is_teardown (dag_op d x)}"
    using assms(2) by (auto simp: edges_iff get_direct_relative_ids_def)
  let ?down = "if down then ds else []" and ?up = "if up then us else if plain_task d t then cs else []"
    and ?tear = "if op_is_setup op \<and> \<not> down then ?td else []"
  have "also_include_ids d down up matched op = Inr (?down @ ?up @ ?tear)"
    using ds(1) us(1) cs(1) ids upstream_list_wf(2) [OF assms] td
    by (simp add: also_include_ids_def plain_task_def op)
  moreover have "set (?down @ ?up @ ?tear) = brought_in d down up (set matched) t"
    unfolding brought_in_def op set_append
    by (simp only: if_distrib [where f = set] ds(2) us(2) cs(2) set_td list.set(1) Un_assoc)
  ultimately show ?thesis by (intro exI conjI)
qed

lemma brought_in_has_task: "wf_dag d \<Longrightarrow> x \<in> brought_in d down up M t \<Longrightarrow> has_task d x"
  using trancl_has_task [of d] edges_in_dag [of d] comes_along_in_dag [of d]
  by (auto simp: brought_in_def has_task_def dict_has_iff in_dict_keys_iff split: if_split_asm)

text \<open>A dictionary of tasks of the DAG, cut to its keys.\<close>

lemma task_dict_of_lookup:
  assumes "\<And>x. x \<in> set ids \<Longrightarrow> op_task_id (f x) = x"
  shows "dict_get (task_dict_of (map f ids)) k = (if k \<in> set ids then Some (f k) else None)"
    "distinct (dict_keys (task_dict_of (map f ids)))" "set (dict_keys (task_dict_of (map f ids))) = set ids"
proof -
  have "(dict_get (fold (\<lambda>t. dict_set (op_task_id t) t) (map f ids) m) k = (if k \<in> set ids then Some (f k) else dict_get m k)) \<and>
      (distinct (dict_keys m) \<longrightarrow> distinct (dict_keys (fold (\<lambda>t. dict_set (op_task_id t) t) (map f ids) m))) \<and>
      set (dict_keys (fold (\<lambda>t. dict_set (op_task_id t) t) (map f ids) m)) = set ids \<union> set (dict_keys m)" for m
    using assms by (induction ids arbitrary: m) (auto simp: dict_get_set keys_dict_set)
  from this [of "[]"] show "dict_get (task_dict_of (map f ids)) k = (if k \<in> set ids then Some (f k) else None)"
    "distinct (dict_keys (task_dict_of (map f ids)))" "set (dict_keys (task_dict_of (map f ids))) = set ids"
    by (simp_all add: task_dict_of_def dict_keys_def)
qed

lemma cut_relatives_simps [simp]: "op_task_id (cut_relatives K t) = op_task_id t"
  "op_upstream_task_ids (cut_relatives K t) = filter (\<lambda>u. u \<in> set K) (op_upstream_task_ids t)"
  "op_downstream_task_ids (cut_relatives K t) = filter (\<lambda>u. u \<in> set K) (op_downstream_task_ids t)"
  by (simp_all add: cut_relatives_def)

lemma cut_dag_wf:
  assumes w: "wf_dag d" and ids: "\<And>x. x \<in> set ids \<Longrightarrow> has_task d x"
    and dict: "d_task_dict d' = map (\<lambda>(k, t). (k, cut_relatives K t)) (task_dict_of (map (dag_op d) ids))" "set K = set ids"
  shows "wf_dag d'" "set (dict_keys (d_task_dict d')) = set ids" "distinct (dict_keys (d_task_dict d'))"
    "edges d' up = edges d up \<inter> (set ids \<times> set ids)"
    "x \<in> set ids \<Longrightarrow> dict_get (d_task_dict d') x = Some (cut_relatives K (dag_op d x))"
proof -
  have get: "dict_get (d_task_dict d) x = Some (dag_op d x)" "op_task_id (dag_op d x) = x" if "x \<in> set ids" for x
    using ids [OF that] wf_dag_opD(1) [OF w] by (simp_all add: has_task_iff_dag_op)
  note lookup = task_dict_of_lookup [of ids "dag_op d", OF get(2)]
  have look: "dict_get (d_task_dict d') k = (if k \<in> set ids then Some (cut_relatives K (dag_op d k)) else None)" for k
    unfolding dict(1) using lookup(1) [of k] by (simp add: dict_get_map_snd [where f = "\<lambda>k. cut_relatives K"])
  then show "x \<in> set ids \<Longrightarrow> dict_get (d_task_dict d') x = Some (cut_relatives K (dag_op d x))" by simp
  show keys: "set (dict_keys (d_task_dict d')) = set ids" "distinct (dict_keys (d_task_dict d'))"
    unfolding dict(1) using lookup(2,3) by (simp_all add: dict_keys_map_snd)
  have rel: "set (get_direct_relative_ids (cut_relatives K (dag_op d x)) up) = set (get_direct_relative_ids (dag_op d x) up) \<inter> set ids" for x up
    by (auto simp: get_direct_relative_ids_def dict(2))
  show "edges d' up = edges d up \<inter> (set ids \<times> set ids)"
    using get(1) by (auto simp: edges_def look rel split: if_split_asm)
  have member: "k \<in> set ids \<and> t = cut_relatives K (dag_op d k)" if "(k, t) \<in> set (d_task_dict d')" for k t
    using that keys(2) look [of k] by (auto simp: dict_keys_def map_of_eq_Some_iff split: if_split_asm)
  have distinct: "distinct (op_upstream_task_ids (dag_op d k)) \<and> distinct (op_downstream_task_ids (dag_op d k)) \<and> k \<noteq> []"
    if "k \<in> set ids" for k
    using w get(1) [OF that] map_of_SomeD [OF get(1) [OF that]] by (fastforce simp: wf_dag_def list_all_iff)
  have reached: "x \<in> set (op_downstream_task_ids (dag_op d u))" if "x \<in> set ids" "u \<in> set (op_upstream_task_ids (dag_op d x))" for x u
    using wf_dag_opD(3) [OF w get(1) [OF that(1)], of u True] that(2) by (auto simp: get_direct_relative_ids_def dag_op_def)
  have forth: "x \<in> set (op_upstream_task_ids (dag_op d u))" if "x \<in> set ids" "u \<in> set (op_downstream_task_ids (dag_op d x))" for x u
    using wf_dag_opD(3) [OF w get(1) [OF that(1)], of u False] that(2) by (auto simp: get_direct_relative_ids_def dag_op_def)
  show "wf_dag d'" unfolding wf_dag_def list_all_iff
  proof (intro conjI ballI)
    show "distinct (dict_keys (d_task_dict d'))" by (rule keys(2))
    fix kt assume m: "kt \<in> set (d_task_dict d')"
    obtain k t where p: "kt = (k, t)" by (cases kt)
    from member [OF m [unfolded p]] have kt: "kt = (k, cut_relatives K (dag_op d k))" "k \<in> set ids" unfolding p by (simp_all only: simp_thms)
    show "case kt of (k, op) \<Rightarrow> k = op_task_id op \<and> k \<noteq> [] \<and> distinct (op_upstream_task_ids op) \<and> distinct (op_downstream_task_ids op) \<and>
        (\<forall>u \<in> set (op_upstream_task_ids op). case dict_get (d_task_dict d') u of None \<Rightarrow> False | Some up \<Rightarrow> k \<in> set (op_downstream_task_ids up)) \<and>
        (\<forall>u \<in> set (op_downstream_task_ids op). case dict_get (d_task_dict d') u of None \<Rightarrow> False | Some dn \<Rightarrow> k \<in> set (op_upstream_task_ids dn))"
      unfolding kt(1) prod.case
    proof (intro conjI ballI)
      fix u assume "u \<in> set (op_upstream_task_ids (cut_relatives K (dag_op d k)))"
      then have u: "u \<in> set ids" "u \<in> set (op_upstream_task_ids (dag_op d k))" by (simp_all add: dict(2))
      from look [of u] u(1) reached [OF kt(2) u(2)] kt(2)
      show "case dict_get (d_task_dict d') u of None \<Rightarrow> False | Some up \<Rightarrow> k \<in> set (op_downstream_task_ids up)" by (simp add: dict(2))
    next
      fix u assume "u \<in> set (op_downstream_task_ids (cut_relatives K (dag_op d k)))"
      then have u: "u \<in> set ids" "u \<in> set (op_downstream_task_ids (dag_op d k))" by (simp_all add: dict(2))
      from look [of u] u(1) forth [OF kt(2) u(2)] kt(2)
      show "case dict_get (d_task_dict d') u of None \<Rightarrow> False | Some dn \<Rightarrow> k \<in> set (op_upstream_task_ids dn)" by (simp add: dict(2))
    qed (use distinct [OF kt(2)] get(2) [OF kt(2)] in simp_all)
  qed
qed

lemma wanted_tasks:
  assumes "wf_dag d"
  shows "filter (\<lambda>t. wanted (op_task_id t)) (dag_tasks d) = map (dag_op d) (filter wanted (dict_keys (d_task_dict d)))"
proof -
  have dict: "op = dag_op d t \<and> op_task_id op = t" if "(t, op) \<in> set (d_task_dict d)" for t op
    using assms that by (auto simp: wf_dag_def list_all_iff dag_op_def dict_keys_def)
  have "map (dag_op d) (map fst xs) = map snd xs" if "set xs \<subseteq> set (d_task_dict d)" for xs
    using that dict by (induction xs) auto
  from this [of "filter (\<lambda>x. wanted (fst x)) (d_task_dict d)"]
  have "map (dag_op d) (filter wanted (dict_keys (d_task_dict d))) = map snd (filter (\<lambda>x. wanted (fst x)) (d_task_dict d))"
    by (simp add: dict_keys_def filter_map comp_def)
  also have "filter (\<lambda>x. wanted (fst x)) (d_task_dict d) = filter (\<lambda>x. wanted (op_task_id (snd x))) (d_task_dict d)"
    using dict by (intro filter_cong) auto
  finally show ?thesis by (simp add: dag_tasks_def filter_map comp_def)
qed

lemma upstream_lists:
  assumes "wf_dag d" "\<forall>x \<in> set xs. has_task d x"
  shows "map_err (upstream_list d) (map (dag_op d) xs) = Inr (map (\<lambda>t. map (dag_op d) (op_upstream_task_ids (dag_op d t))) xs)"
  using assms(2) upstream_list_wf(1) [OF assms(1)] by (induction xs) (auto simp: has_task_iff_dag_op)

lemma partial_subset_tasks:
  fixes wanted :: "id_str \<Rightarrow> bool" and down up direct :: bool
  assumes w: "wf_dag d"
  defines "M \<equiv> {t. has_task d t \<and> wanted t}"
  defines "K \<equiv> M \<union> (\<Union>t \<in> M. brought_in d down up M t)"
  shows "\<exists>ids d'. partial_subset d wanted down up direct = Inr d' \<and> (\<forall>x \<in> set ids. has_task d x) \<and>
    set ids = K \<union> (if direct then {u. \<exists>t \<in> K. (t, u) \<in> edges d True} else {}) \<and>
    d' = d\<lparr>d_task_dict := map (\<lambda>(k, t). (k, cut_relatives (dict_keys (task_dict_of (map (dag_op d) ids))) t)) (task_dict_of (map (dag_op d) ids)),
       d_partial := (length (task_dict_of (map (dag_op d) ids)) < length (d_task_dict d) \<or> d_partial d)\<rparr>"
proof -
  define ms where "ms = filter wanted (dict_keys (d_task_dict d))"
  have ms: "filter (\<lambda>t. wanted (op_task_id t)) (dag_tasks d) = map (dag_op d) ms" unfolding ms_def by (rule wanted_tasks [OF w])
  have set_ms: "set ms = M" by (auto simp: ms_def M_def has_task_def dict_has_iff in_dict_keys_iff)
  have ids_ms: "map op_task_id (map (dag_op d) ms) = ms"
    by (rule ids_of_map_dag_op [OF w]) (auto simp: set_ms M_def)
  have "\<exists>ids. also_include_ids d down up ms (dag_op d t) = Inr ids \<and> set ids = brought_in d down up M t" if "t \<in> M" for t
    using also_include_ids_spec [OF w, of t "dag_op d t" down up ms] that set_ms by (auto simp: M_def has_task_iff_dag_op)
  then obtain f where f: "\<And>t. t \<in> M \<Longrightarrow> also_include_ids d down up ms (dag_op d t) = Inr (f t) \<and> set (f t) = brought_in d down up M t"
    by metis
  have "set xs \<subseteq> M \<Longrightarrow> map_err (also_include_ids d down up ms) (map (dag_op d) xs) = Inr (map f xs)" for xs
    using f by (induction xs) auto
  with set_ms have brought: "map_err (also_include_ids d down up ms) (map (dag_op d) ms) = Inr (map f ms)" by simp
  define bs where "bs = remdups (concat (map f ms))"
  have set_bs: "set bs = (\<Union>t \<in> M. brought_in d down up M t)" using f set_ms by (auto simp: bs_def)
  have has_bs: "\<forall>x \<in> set bs. has_task d x" using brought_in_has_task [OF w] by (auto simp: set_bs)
  then have look: "map_err (\<lambda>t. case dict_get (d_task_dict d) t of None \<Rightarrow> Inl (KeyError t) | Some r \<Rightarrow> Inr r) bs = Inr (map (dag_op d) bs)"
    by (intro map_err_defined) (auto simp: has_task_iff_dag_op)
  define us where "us = (if direct then concat (map (\<lambda>t. op_upstream_task_ids (dag_op d t)) (ms @ bs)) else [])"
  have has_K: "\<forall>x \<in> set (ms @ bs). has_task d x" using has_bs by (auto simp: set_ms M_def)
  from upstream_lists [OF w has_K] have direct: "(if direct then bind_err (map_err (upstream_list d) (map (dag_op d) ms @ map (dag_op d) bs)) (\<lambda>tss. Inr (concat tss)) else Inr []) =
      Inr (map (dag_op d) us)" by (simp add: us_def map_concat comp_def)
  have up: "set (op_upstream_task_ids (dag_op d t)) = {u. (t, u) \<in> edges d True}" if "t \<in> set (ms @ bs)" for t
    using has_K that by (auto simp: edges_iff has_task_iff_dag_op get_direct_relative_ids_def)
  have set_us: "set us = (if direct then {u. \<exists>t \<in> K. (t, u) \<in> edges d True} else {})"
    using up by (auto simp: us_def set_ms set_bs K_def)
  have "\<forall>x \<in> set us. has_task d x" using edges_in_dag [OF w] by (auto simp: set_us has_task_def dict_has_iff in_dict_keys_iff split: if_split_asm)
  with has_K have has: "\<forall>x \<in> set (ms @ bs @ us). has_task d x" by auto
  have "partial_subset d wanted down up direct = Inr (d\<lparr>d_task_dict := map (\<lambda>(k, t). (k, cut_relatives (dict_keys (task_dict_of (map (dag_op d) (ms @ bs @ us)))) t)) (task_dict_of (map (dag_op d) (ms @ bs @ us))),
       d_partial := (length (task_dict_of (map (dag_op d) (ms @ bs @ us))) < length (d_task_dict d) \<or> d_partial d)\<rparr>)"
    unfolding partial_subset_def ms Let_def ids_ms brought bind_err.simps bs_def [symmetric] look direct map_append ..
  moreover have "set (ms @ bs @ us) = K \<union> (if direct then {u. \<exists>t \<in> K. (t, u) \<in> edges d True} else {})"
    unfolding set_append set_us set_ms set_bs K_def by (simp only: Un_assoc)
  ultimately show ?thesis using has by (intro exI conjI) (rule refl | assumption)+
qed

text \<open>
  C32. \<open>partial_subset\<close> of a well-formed DAG never fails and is a well-formed DAG: its tasks are the wanted
  ones with what they bring in (their relatives as asked, and the setups and teardowns that go with
  tasks that are taken along), its edges are those of the DAG between these tasks, and it is marked
  partial when tasks are missing.
\<close>

theorem partial_subset_exact:
  assumes w: "wf_dag d"
  shows "\<exists>d'. partial_subset d wanted down up direct = Inr d' \<and> wf_dag d' \<and>
    (let M = {t. has_task d t \<and> wanted t}; K = M \<union> (\<Union>t \<in> M. brought_in d down up M t) in
      {t. has_task d' t} = K \<union> (if direct then {u. \<exists>t \<in> K. (t, u) \<in> edges d True} else {})) \<and>
    edges d' False = edges d False \<inter> ({t. has_task d' t} \<times> {t. has_task d' t}) \<and>
    (d_partial d' \<longleftrightarrow> (\<exists>t. has_task d t \<and> \<not> has_task d' t) \<or> d_partial d)"
proof -
  let ?M = "{t. has_task d t \<and> wanted t}"
  let ?K = "?M \<union> (\<Union>t \<in> ?M. brought_in d down up ?M t)"
  from partial_subset_tasks [OF w, of wanted down up direct] obtain ids d' where
    r: "partial_subset d wanted down up direct = Inr d'" and has: "\<forall>x \<in> set ids. has_task d x"
    and set: "set ids = ?K \<union> (if direct then {u. \<exists>t \<in> ?K. (t, u) \<in> edges d True} else {})"
    and d': "d' = d\<lparr>d_task_dict := map (\<lambda>(k, t). (k, cut_relatives (dict_keys (task_dict_of (map (dag_op d) ids))) t)) (task_dict_of (map (dag_op d) ids)),
       d_partial := (length (task_dict_of (map (dag_op d) ids)) < length (d_task_dict d) \<or> d_partial d)\<rparr>"
    by (elim exE conjE) (rule that)
  have id: "op_task_id (dag_op d x) = x" if "x \<in> set ids" for x
    using has that wf_dag_opD(1) [OF w] by (simp add: has_task_iff_dag_op)
  note lookup = task_dict_of_lookup [of ids "dag_op d", OF id]
  have dict: "d_task_dict d' = map (\<lambda>(k, t). (k, cut_relatives (dict_keys (task_dict_of (map (dag_op d) ids))) t)) (task_dict_of (map (dag_op d) ids))"
    by (simp add: d')
  note wf = cut_dag_wf [OF w _ dict lookup(3)]
  have keys: "{t. has_task d' t} = set ids" using wf(2) has by (auto simp: has_task_def dict_has_iff in_dict_keys_iff)
  have "length (task_dict_of (map (dag_op d) ids)) = card (set ids)"
    using distinct_card [OF lookup(2)] lookup(3) by (simp add: dict_keys_def)
  moreover have "length (d_task_dict d) = card {t. has_task d t}"
  proof -
    have "distinct (dict_keys (d_task_dict d))" using w by (simp add: wf_dag_def)
    moreover have "set (dict_keys (d_task_dict d)) = {t. has_task d t}" by (auto simp: has_task_def dict_has_iff in_dict_keys_iff)
    ultimately show ?thesis using distinct_card [of "dict_keys (d_task_dict d)"] by (simp add: dict_keys_def)
  qed
  moreover have "finite {t. has_task d t}"
    by (rule finite_subset [of _ "set (dict_keys (d_task_dict d))"]) (auto simp: has_task_def dict_has_iff in_dict_keys_iff)
  moreover have sub: "set ids \<subseteq> {t. has_task d t}" using has by auto
  ultimately have "length (task_dict_of (map (dag_op d) ids)) < length (d_task_dict d) \<longleftrightarrow> set ids \<noteq> {t. has_task d t}"
    using psubset_card_mono [of "{t. has_task d t}" "set ids"] card_mono [of "{t. has_task d t}" "set ids"] by (auto simp: psubset_eq)
  then have "d_partial d' \<longleftrightarrow> (\<exists>t. has_task d t \<and> t \<notin> set ids) \<or> d_partial d" using sub by (auto simp: d')
  moreover have "wf_dag d'" "edges d' False = edges d False \<inter> (set ids \<times> set ids)" using wf(1,4) has by blast+
  ultimately show ?thesis unfolding Let_def keys set [symmetric] using r keys by (intro exI [of _ d'] conjI) auto
qed

lemma partial_subset_exact_witness:
  "\<exists>d'. partial_subset sample_chain (\<lambda>t. t = ''a'') True False False = Inr d' \<and> wf_dag d' \<and> (''a'', ''b'') \<in> edges d' False"
proof -
  let ?w = "\<lambda>t. t = ''a''"
  let ?M = "{t. has_task sample_chain t \<and> ?w t}"
  from partial_subset_exact [OF sample_chain_wf, of ?w True False False] obtain d' where
    d': "partial_subset sample_chain ?w True False False = Inr d'" "wf_dag d'"
    "{t. has_task d' t} = ?M \<union> (\<Union>t \<in> ?M. brought_in sample_chain True False ?M t)"
    "edges d' False = edges sample_chain False \<inter> ({t. has_task d' t} \<times> {t. has_task d' t})"
    by (auto simp: Let_def)
  have e: "(''a'', ''b'') \<in> edges sample_chain False" by (simp add: sample_chain_edges)
  have a: "''a'' \<in> ?M" using edges_in_dag [OF sample_chain_wf e] by (auto simp: has_task_def dict_has_iff in_dict_keys_iff)
  moreover have "''b'' \<in> brought_in sample_chain True False ?M ''a''" using e by (auto simp: brought_in_def)
  ultimately have "''b'' \<in> {t. has_task d' t}" "''a'' \<in> {t. has_task d' t}" unfolding d'(3) by blast+
  with d' e show ?thesis by (intro exI [of _ d']) auto
qed

end
