(* ===== verification/Marking.thy ===== *)
theory Marking
  imports Dag_Schedule Dag_Subset
begin

text \<open>
  What a user does to task instances and runs: clearing them (\<open>DAG.clear\<close> of \<open>models/dag.py\<close>, with the task
  instances of other DAGs that an \<open>ExternalTaskMarker\<close> points to) and setting their state
  (\<open>api/common/mark_tasks.py\<close>, \<open>DAG.set_task_instance_state\<close>). DAGs made by \<open>SubDagOperator\<close> and the
  deprecated calls with an execution date instead of a run id are not modelled.
\<close>

subsection \<open>Selecting task instances\<close>

text \<open>
  The clock, the DAGs of the database, what a marker's templates render to (DAG, task and date of the
  task it marks) and its \<open>recursion_depth\<close>.
\<close>

record clear_env =
  ce_now :: time
  ce_get_dag :: "id_str \<Rightarrow> dag option"
  ce_marker :: "task_instance \<Rightarrow> (id_str \<times> id_str \<times> time) result"
  ce_recursion_depth :: "operator \<Rightarrow> int"

text \<open>The arguments of \<open>_get_task_instances\<close>; a task id may come with a map index.\<close>

record ti_query =
  tq_task_ids :: "(id_str \<times> int option) list option"
  tq_start_date :: "time option"
  tq_end_date :: "time option"
  tq_run_id :: "id_str option"
  tq_states :: "ti_state list"
  tq_include_subdags :: bool
  tq_include_dependent_dags :: bool
  tq_exclude_task_ids :: "(id_str \<times> int option) list option"

definition ti_selector_condition :: "(id_str \<times> int option) list \<Rightarrow> task_instance \<Rightarrow> bool" where
  "ti_selector_condition vals ti \<longleftrightarrow> (ti_task_id ti, None) \<in> set vals \<or> (ti_task_id ti, Some (ti_map_index ti)) \<in> set vals"

definition query_rows :: "time \<Rightarrow> dag \<Rightarrow> ti_query \<Rightarrow> db \<Rightarrow> task_instance list" where
  "query_rows now d q s = filter (\<lambda>ti.
     ti_dag_id ti = d_dag_id d \<and> (tq_include_subdags q \<or> d_partial d \<longrightarrow> has_task d (ti_task_id ti)) \<and>
     (case tq_run_id q of None \<Rightarrow> True | Some r \<Rightarrow> r = [] \<or> ti_run_id ti = r) \<and>
     (case find_dr s (ti_dag_id ti) (ti_run_id ti) of
        None \<Rightarrow> False
      | Some dr \<Rightarrow>
          (case tq_start_date q of None \<Rightarrow> True | Some t \<Rightarrow> t \<le> dr_execution_date dr) \<and>
          (case tq_end_date q of
             Some t \<Rightarrow> dr_execution_date dr \<le> t
           | None \<Rightarrow> d_allow_future_exec_dates d \<or> dr_execution_date dr \<le> now)) \<and>
     (case tq_task_ids q of None \<Rightarrow> True | Some vals \<Rightarrow> ti_selector_condition vals ti) \<and>
     (tq_states q = [] \<or> ti_state ti \<in> set (tq_states q))) (db_tis s)"

definition without_excluded :: "(id_str \<times> int option) list option \<Rightarrow> ti_primary list \<Rightarrow> ti_primary list" where
  "without_excluded exclude keys =
     (case exclude of
        None \<Rightarrow> keys
      | Some ex \<Rightarrow> filter (\<lambda>(d, t, r, m). (t, None) \<notin> set ex \<and> (t, Some m) \<notin> set ex) keys)"

text \<open>
  Task instances of other DAGs. \<open>collect\<close> is \<open>_get_task_instances\<close> of the DAG downstream of a marked task,
  which returns keys; the set of visited markers is shared by all calls, the limit is handed down.
\<close>

definition visit_external :: "clear_env \<Rightarrow> ti_query \<Rightarrow>
    (dag \<Rightarrow> ti_query \<Rightarrow> ti_primary list \<Rightarrow> (ti_primary list \<times> ti_primary list) result) \<Rightarrow> task_instance \<Rightarrow>
    ti_primary list \<times> ti_primary list \<Rightarrow> (ti_primary list \<times> ti_primary list) result" where
  "visit_external env q collect tii acc =
     (case ce_get_dag env (ti_dag_id tii) of
        None \<Rightarrow> Inl (AirflowException ''Could not find dag'')
      | Some external_dag \<Rightarrow>
          bind_err (partial_subset external_dag (\<lambda>t. t = ti_task_id tii) True False False) (\<lambda>downstream.
          bind_err (collect downstream
              (q\<lparr>tq_task_ids := None, tq_run_id := Some (ti_run_id tii), tq_start_date := None, tq_end_date := None\<rparr>) (snd acc))
            (\<lambda>(keys, visited). Inr (set_update (fst acc) keys, visited))))"

definition visit_marker :: "clear_env \<Rightarrow> db \<Rightarrow> ti_query \<Rightarrow> dag \<Rightarrow> int \<Rightarrow>
    (int \<Rightarrow> dag \<Rightarrow> ti_query \<Rightarrow> ti_primary list \<Rightarrow> (ti_primary list \<times> ti_primary list) result) \<Rightarrow> task_instance \<Rightarrow>
    ti_primary list \<times> int option \<times> ti_primary list \<Rightarrow> (ti_primary list \<times> int option \<times> ti_primary list) result" where
  "visit_marker env s q d recursion_depth collect ti acc =
     (let (result, limit, visited) = acc in
      if ti_primary ti \<in> set visited then Inr acc
      else bind_err (get_task d (ti_task_id ti)) (\<lambda>task.
        let max_recursion_depth = (case limit of None \<Rightarrow> ce_recursion_depth env task | Some m \<Rightarrow> m) in
        if max_recursion_depth < recursion_depth + 1 then Inl (AirflowException ''Maximum recursion depth reached'')
        else bind_err (ce_marker env ti) (\<lambda>(external_dag_id, external_task_id, execution_date).
          let external_tis = filter (\<lambda>x. ti_dag_id x = external_dag_id \<and> ti_task_id x = external_task_id \<and>
                map_option dr_execution_date (find_dr s (ti_dag_id x) (ti_run_id x)) = Some execution_date) (db_tis s) in
          bind_err (fold_err (visit_external env q (collect max_recursion_depth)) external_tis (result, ti_primary ti # visited))
            (\<lambda>(result', visited'). Inr (result', Some max_recursion_depth, visited')))))"

definition visit_markers :: "clear_env \<Rightarrow> db \<Rightarrow> ti_query \<Rightarrow> dag \<Rightarrow> int \<Rightarrow>
    (int \<Rightarrow> dag \<Rightarrow> ti_query \<Rightarrow> ti_primary list \<Rightarrow> (ti_primary list \<times> ti_primary list) result) \<Rightarrow>
    int option \<Rightarrow> ti_primary list \<Rightarrow> (ti_primary list \<times> int option \<times> ti_primary list) result" where
  "visit_markers env s q d recursion_depth collect limit visited =
     (if tq_include_dependent_dags q
      then fold_err (visit_marker env s q d recursion_depth collect)
        (filter (\<lambda>ti. ti_operator ti = ''ExternalTaskMarker'') (query_rows (ce_now env) d q s)) ([], limit, visited)
      else Inr ([], limit, visited))"

text \<open>
  \<open>_get_task_instances\<close> with \<open>as_pk_tuple\<close>. The first argument bounds the nesting of calls; a call is made
  for a marker that was not visited, so that one level more than there are task instances is enough.
\<close>

primrec get_task_instance_keys :: "nat \<Rightarrow> clear_env \<Rightarrow> db \<Rightarrow> int \<Rightarrow> int \<Rightarrow> dag \<Rightarrow> ti_query \<Rightarrow> ti_primary list \<Rightarrow>
    (ti_primary list \<times> ti_primary list) result" where
  "get_task_instance_keys 0 env s recursion_depth limit d q visited = Inl (RuntimeError ''maximum recursion depth exceeded'')"
| "get_task_instance_keys (Suc n) env s recursion_depth limit d q visited =
     bind_err (visit_markers env s q d recursion_depth (get_task_instance_keys n env s (recursion_depth + 1)) (Some limit) visited)
       (\<lambda>(result, _, visited').
         Inr (without_excluded (tq_exclude_task_ids q) (set_update result (map ti_primary (query_rows (ce_now env) d q s))), visited'))"

text \<open>\<open>_get_task_instances\<close> as \<open>clear\<close> calls it, for task instances.\<close>

definition get_task_instances_to_clear :: "clear_env \<Rightarrow> dag \<Rightarrow> ti_query \<Rightarrow> db \<Rightarrow> task_instance list result" where
  "get_task_instances_to_clear env d q s =
     bind_err (visit_markers env s q d 0 (get_task_instance_keys (Suc (length (db_tis s))) env s 1) None []) (\<lambda>(found, _).
       let rows = query_rows (ce_now env) d q s;
           result = (if found = [] then []
                     else without_excluded (tq_exclude_task_ids q) (set_update found (map ti_primary rows))) in
       Inr (if result \<noteq> [] then filter (\<lambda>ti. filter_selects (filter_for_tis result) (ti_primary ti)) (db_tis s)
            else case tq_exclude_task_ids q of
                None \<Rightarrow> rows
              | Some ((t, None) # ex) \<Rightarrow> filter (\<lambda>ti. (ti_task_id ti, None) \<notin> set ((t, None) # ex)) rows
              | Some ex \<Rightarrow> filter (\<lambda>ti. (ti_task_id ti, Some (ti_map_index ti)) \<notin> set ex) rows))"

subsection \<open>Clearing\<close>

text \<open>\<open>DAG.clear\<close> without a prompt, with the number of cleared task instances.\<close>

definition dag_clear :: "clear_env \<Rightarrow> dag \<Rightarrow> (id_str \<times> int option) list option \<Rightarrow> time option \<Rightarrow> time option \<Rightarrow> bool \<Rightarrow> bool \<Rightarrow>
    bool \<Rightarrow> DagRunState option \<Rightarrow> (id_str \<times> int option) list option \<Rightarrow> db \<Rightarrow> (int \<times> db) result" where
  "dag_clear env d task_ids start_date end_date only_failed only_running include_subdags dag_run_state exclude_task_ids s =
     (let states = (if only_failed then [Some FAILED, Some UPSTREAM_FAILED] else []) @ (if only_running then [Some RUNNING] else []);
          q = \<lparr>tq_task_ids = task_ids, tq_start_date = start_date, tq_end_date = end_date, tq_run_id = None, tq_states = states,
               tq_include_subdags = include_subdags, tq_include_dependent_dags = include_subdags,
               tq_exclude_task_ids = exclude_task_ids\<rparr> in
      bind_err (get_task_instances_to_clear env d q s) (\<lambda>tis.
        if tis = [] then Inr (0, s)
        else bind_err (clear_task_instances (ce_now env) (\<lambda>i. if i = d_dag_id d then Some d else ce_get_dag env i)
              dag_run_state (map ti_primary tis) s)
          (\<lambda>s'. Inr (int (length tis), s'))))"

subsection \<open>Setting states\<close>

record mark_env = clear_env +
  me_calendar :: calendar
  me_hook :: "task_instance \<Rightarrow> task_instance"

text \<open>\<open>DagRun.find\<close> by run ids or by dates, in the order of dates.\<close>

definition find_runs :: "id_str \<Rightarrow> id_str list option \<Rightarrow> time list option \<Rightarrow> db \<Rightarrow> dag_run list" where
  "find_runs dag_id run_ids dates s =
     sort_key dr_execution_date (filter (\<lambda>dr. dr_dag_id dr = dag_id \<and>
       (case run_ids of None \<Rightarrow> True | Some rs \<Rightarrow> dr_run_id dr \<in> set rs) \<and>
       (case dates of None \<Rightarrow> True | Some ds \<Rightarrow> dr_execution_date dr \<in> set ds)) (db_drs s))"

definition get_dagruns_between :: "dag \<Rightarrow> time \<Rightarrow> time \<Rightarrow> db \<Rightarrow> dag_run list" where
  "get_dagruns_between d start_date end_date s =
     filter (\<lambda>dr. dr_dag_id dr = d_dag_id d \<and> start_date \<le> dr_execution_date dr \<and> dr_execution_date dr \<le> end_date) (db_drs s)"

definition get_last_dagrun :: "id_str \<Rightarrow> bool \<Rightarrow> db \<Rightarrow> dag_run option" where
  "get_last_dagrun dag_id include_externally_triggered s =
     latest_run (\<lambda>dr. dr_dag_id dr = dag_id \<and> (include_externally_triggered \<or> \<not> dr_external_trigger dr)) s"

definition first_dagrun :: "id_str \<Rightarrow> db \<Rightarrow> dag_run option" where
  "first_dagrun dag_id s =
     (case sort_key dr_execution_date (filter (\<lambda>dr. dr_dag_id dr = dag_id) (db_drs s)) of [] \<Rightarrow> None | dr # _ \<Rightarrow> Some dr)"

definition run_date :: "dag_run option \<Rightarrow> time result" where
  "run_date dr = (case dr of None \<Rightarrow> Inl (AttributeError ''logical_date'') | Some r \<Rightarrow> Inr (dr_execution_date r))"

text \<open>\<open>get_run_ids\<close>; the caller only asks which ids are in the list, so its order is not kept.\<close>

definition get_run_ids :: "mark_env \<Rightarrow> dag \<Rightarrow> id_str \<Rightarrow> bool \<Rightarrow> bool \<Rightarrow> db \<Rightarrow> id_str list result option" where
  "get_run_ids env d run_id future past s =
     (let last = get_last_dagrun (d_dag_id d) True s; current = find_dr s (d_dag_id d) run_id in
      if run_id = [] then Some (Inl (TypeError ''You must provide either the execution_date or the run_id''))
      else if last = None then Some (Inl (ValueError ''DagRun not found''))
      else case run_date (if future then last else current) of
        Inl e \<Rightarrow> Some (Inl e)
      | Inr end_date \<Rightarrow> case run_date (if past then first_dagrun (d_dag_id d) s else current) of
          Inl e \<Rightarrow> Some (Inl e)
        | Inr start_date \<Rightarrow>
            if \<not> can_be_scheduled (d_timetable d)
            then Some (Inr (remdups (map dr_run_id (get_dagruns_between d start_date end_date s))))
            else if \<not> periodic (d_timetable d) then Some (Inr [run_id])
            else Option.bind (iter_dagrun_infos_between (me_calendar env) (ce_now env) d (Some start_date) end_date False) (\<lambda>infos.
              Some (bind_err infos (\<lambda>is.
                Inr (map dr_run_id (find_runs (d_dag_id d) None (Some (map ri_logical_date is)) s))))))"

text \<open>Tasks may come with a map index; their relatives do not.\<close>

definition relatives_of :: "dag \<Rightarrow> operator \<Rightarrow> bool \<Rightarrow> bool \<Rightarrow> (id_str \<times> int option) list result" where
  "relatives_of d task wanted upstream =
     (if wanted then bind_err (get_flat_relatives d task upstream) (\<lambda>rs. Inr (map (\<lambda>r. (op_task_id r, None)) rs)) else Inr [])"

definition find_task_relatives :: "dag \<Rightarrow> (operator \<times> int option) list \<Rightarrow> bool \<Rightarrow> bool \<Rightarrow> (id_str \<times> int option) list result" where
  "find_task_relatives d tasks downstream upstream =
     bind_err (map_err (\<lambda>(task, map_index).
         bind_err (relatives_of d task downstream False) (\<lambda>down.
         bind_err (relatives_of d task upstream True) (\<lambda>up.
           Inr ((op_task_id task, map_index) # down @ up)))) tasks)
       (\<lambda>idss. Inr (concat idss))"

text \<open>\<open>_iter_existing_dag_run_infos\<close>: the runs are brought in step with the DAG.\<close>

definition iter_existing_dag_run_infos :: "mark_env \<Rightarrow> dag \<Rightarrow> id_str list \<Rightarrow> db \<Rightarrow> db result" where
  "iter_existing_dag_run_infos env d run_ids s =
     fold_err (\<lambda>dr s. bind_err (verify_integrity (me_hook env) d dr s) (\<lambda>s'.
         bind_err (get_run_data_interval (me_calendar env) d dr) (\<lambda>_. Inr s')))
       (find_runs (d_dag_id d) (Some run_ids) None s) s"

definition get_all_dag_task_query :: "dag \<Rightarrow> TaskInstanceState \<Rightarrow> (id_str \<times> int option) list \<Rightarrow> id_str list \<Rightarrow> db \<Rightarrow> task_instance list" where
  "get_all_dag_task_query d state task_ids run_ids s =
     filter (\<lambda>ti. ti_dag_id ti = d_dag_id d \<and> ti_run_id ti \<in> set run_ids \<and> ti_selector_condition task_ids ti \<and>
       ti_state ti \<noteq> Some state) (db_tis s)"

text \<open>\<open>DagRunState(state)\<close>, for the runs of subdags.\<close>

fun run_state_of :: "TaskInstanceState \<Rightarrow> DagRunState result" where
  "run_state_of SUCCESS = Inr DR_SUCCESS"
| "run_state_of FAILED = Inr DR_FAILED"
| "run_state_of RUNNING = Inr DR_RUNNING"
| "run_state_of QUEUED = Inr DR_QUEUED"
| "run_state_of _ = Inl (ValueError ''not a valid DagRunState'')"

definition mark_row :: "time \<Rightarrow> TaskInstanceState \<Rightarrow> task_instance \<Rightarrow> task_instance" where
  "mark_row now state ti =
     set_state_row now (Some state)
       (if ti_state ti \<in> {Some DEFERRED, Some UP_FOR_RESCHEDULE} then ti\<lparr>ti__try_number := ti__try_number ti + 1\<rparr> else ti)"

text \<open>\<open>set_state\<close>: the keys of the task instances it selected.\<close>

definition mark_tasks :: "mark_env \<Rightarrow> dag \<Rightarrow> (operator \<times> int option) list \<Rightarrow> id_str \<Rightarrow> bool \<Rightarrow> bool \<Rightarrow> bool \<Rightarrow> bool \<Rightarrow>
    TaskInstanceState \<Rightarrow> bool \<Rightarrow> db \<Rightarrow> (ti_primary list \<times> db) result option" where
  "mark_tasks env d tasks run_id upstream downstream future past state commit s =
     (if tasks = [] then Some (Inr ([], s))
      else if run_id = [] then Some (Inl (ValueError ''Exactly one of dag_run_id and execution_date must be set''))
      else Option.bind (get_run_ids env d run_id future past s) (\<lambda>r. Some (
        bind_err r (\<lambda>run_ids.
        bind_err (find_task_relatives d tasks downstream upstream) (\<lambda>task_ids.
        bind_err (iter_existing_dag_run_infos env d run_ids s) (\<lambda>s1.
        bind_err (run_state_of state) (\<lambda>_.
          let altered = map ti_primary (get_all_dag_task_query d state task_ids run_ids s1) in
          Inr (altered, if commit then fold (\<lambda>k. update_ti k (mark_row (ce_now env) state)) altered s1 else s1))))))))"

subsection \<open>Setting the state of a run\<close>

text \<open>\<open>_set_dag_run_state\<close>\<close>

definition set_dag_run_state :: "time \<Rightarrow> id_str \<Rightarrow> id_str \<Rightarrow> DagRunState \<Rightarrow> db \<Rightarrow> db result" where
  "set_dag_run_state now dag_id run_id state s =
     (case find_dr s dag_id run_id of
        None \<Rightarrow> Inl (AirflowException ''NoResultFound'')
      | Some dr \<Rightarrow> Inr (update_dr dag_id run_id (\<lambda>dr.
          let dr' = set_dr_state now state dr in
          if state = DR_RUNNING then dr'\<lparr>dr_start_date := Some now, dr_end_date := None\<rparr> else dr'\<lparr>dr_end_date := Some now\<rparr>) s))"

definition set_dag_run_state_to_success :: "mark_env \<Rightarrow> dag \<Rightarrow> id_str \<Rightarrow> bool \<Rightarrow> db \<Rightarrow> (ti_primary list \<times> db) result option" where
  "set_dag_run_state_to_success env d run_id commit s =
     (if run_id = [] then Some (Inr ([], s))
      else case (if commit then set_dag_run_state (ce_now env) (d_dag_id d) run_id DR_SUCCESS s else Inr s) of
          Inl e \<Rightarrow> Some (Inl e)
        | Inr s1 \<Rightarrow> mark_tasks env d (map (\<lambda>t. (t, None)) (dag_tasks d)) run_id False False False False SUCCESS commit s1)"

definition being_run :: "ti_state list" where
  "being_run = [Some RUNNING, Some DEFERRED, Some UP_FOR_RESCHEDULE]"

text \<open>\<open>state NOT IN (...)\<close> is not true of a row without state.\<close>

definition not_started :: "dag \<Rightarrow> id_str \<Rightarrow> task_instance \<Rightarrow> bool" where
  "not_started d run_id ti \<longleftrightarrow> ti_dag_id ti = d_dag_id d \<and> ti_run_id ti = run_id \<and>
     ti_state ti \<noteq> None \<and> \<not> finished (ti_state ti) \<and> ti_state ti \<notin> set being_run"

definition set_dag_run_state_to_failed :: "mark_env \<Rightarrow> dag \<Rightarrow> id_str \<Rightarrow> bool \<Rightarrow> db \<Rightarrow> (ti_primary list \<times> db) result option" where
  "set_dag_run_state_to_failed env d run_id commit s =
     (if run_id = [] then Some (Inr ([], s))
      else case (if commit then set_dag_run_state (ce_now env) (d_dag_id d) run_id DR_FAILED s else Inr s) of
          Inl e \<Rightarrow> Some (Inl e)
        | Inr s1 \<Rightarrow>
            let task_ids_of_running_tis = map ti_task_id (filter (\<lambda>ti. ti_dag_id ti = d_dag_id d \<and> ti_run_id ti = run_id \<and>
                  ti_task_id ti \<in> set (map op_task_id (dag_tasks d)) \<and> ti_state ti \<in> set being_run) (db_tis s1));
                tasks = filter (\<lambda>t. op_task_id t \<in> set task_ids_of_running_tis) (dag_tasks d);
                tis = map ti_primary (filter (not_started d run_id) (db_tis s1));
                s2 = (if commit then fold (\<lambda>k s. snd (set_state (ce_now env) k (Some SKIPPED) s)) tis s1 else s1) in
            map_option (\<lambda>r. bind_err r (\<lambda>(altered, s3). Inr (tis @ altered, s3)))
              (mark_tasks env d (map (\<lambda>t. (t, None)) tasks) run_id False False False False FAILED commit s2))"

definition set_dag_run_state_to_running_or_queued :: "mark_env \<Rightarrow> DagRunState \<Rightarrow> dag \<Rightarrow> id_str \<Rightarrow> bool \<Rightarrow> db \<Rightarrow> db result" where
  "set_dag_run_state_to_running_or_queued env new_state d run_id commit s =
     (if run_id = [] then Inr s
      else if commit then set_dag_run_state (ce_now env) (d_dag_id d) run_id new_state s else Inr s)"

subsection \<open>Setting the state of a task instance of a DAG\<close>

text \<open>\<open>DAG.set_task_instance_state\<close>: what failed downstream of the task is cleared to be run again.\<close>

definition set_task_instance_state :: "mark_env \<Rightarrow> dag \<Rightarrow> id_str \<Rightarrow> int list option \<Rightarrow> id_str \<Rightarrow> TaskInstanceState \<Rightarrow>
    bool \<Rightarrow> bool \<Rightarrow> bool \<Rightarrow> bool \<Rightarrow> bool \<Rightarrow> db \<Rightarrow> (ti_primary list \<times> db) result option" where
  "set_task_instance_state env d task_id map_indexes run_id state upstream downstream future past commit s =
     (if run_id = [] then Some (Inl (ValueError ''Exactly one of execution_date or run_id must be provided''))
      else case get_task d task_id of
        Inl e \<Rightarrow> Some (Inl e)
      | Inr task \<Rightarrow>
          map_option (\<lambda>r. bind_err r (\<lambda>(altered, s1).
              if \<not> commit then Inr (altered, s1)
              else bind_err (partial_subset d (\<lambda>t. t = task_id) True False False) (\<lambda>subdag.
                case find_dr s1 (d_dag_id d) run_id of
                  None \<Rightarrow> Inl (AirflowException ''NoResultFound'')
                | Some dag_run \<Rightarrow>
                    bind_err (dag_clear (clear_env.truncate env) subdag None
                        (if past then None else Some (dr_execution_date dag_run)) (if future then None else Some (dr_execution_date dag_run))
                        True False True (Some DR_QUEUED) (Some [(task_id, None)]) s1)
                      (\<lambda>(_, s2). Inr (altered, s2)))))
            (mark_tasks env d (case map_indexes of None \<Rightarrow> [(task, None)] | Some is \<Rightarrow> map (\<lambda>i. (task, Some i)) is)
              run_id upstream downstream future past state commit s))"

end
