(* ===== verification/Marking_Laws.thy ===== *)
theory Marking_Laws
  imports Marking
begin

text \<open>
  Laws of clearing and marking (\<open>Marking\<close>): the search for task instances of other DAGs ends, what is
  cleared, which rows a mark changes, and what is left of a run that a user failed.
\<close>

subsection \<open>The search across DAGs ends\<close>

definition unvisited :: "db \<Rightarrow> ti_primary list \<Rightarrow> nat" where
  "unvisited s visited = card (ti_primary ` set (db_tis s) - set visited)"

lemma unvisited_mono: "set V \<subseteq> set V' \<Longrightarrow> unvisited s V' \<le> unvisited s V"
  unfolding unvisited_def by (intro card_mono) auto

lemma unvisited_less:
  assumes "ti \<in> set (db_tis s)" "ti_primary ti \<notin> set V" "set (ti_primary ti # V) \<subseteq> set V'"
  shows "unvisited s V' < unvisited s V"
  unfolding unvisited_def
proof (rule psubset_card_mono)
  have "ti_primary ti \<in> ti_primary ` set (db_tis s)" using assms(1) by (rule imageI)
  with assms show "ti_primary ` set (db_tis s) - set V' \<subset> ti_primary ` set (db_tis s) - set V" by auto
qed simp

text \<open>A collector that only adds to the visited markers.\<close>

definition grows :: "(dag \<Rightarrow> ti_query \<Rightarrow> ti_primary list \<Rightarrow> (ti_primary list \<times> ti_primary list) result) \<Rightarrow> bool" where
  "grows collect \<longleftrightarrow> (\<forall>d q V r. collect d q V = Inr r \<longrightarrow> set V \<subseteq> set (snd r))"

lemma visit_external_grows:
  "grows collect \<Longrightarrow> visit_external env q collect tii acc = Inr acc' \<Longrightarrow> set (snd acc) \<subseteq> set (snd acc')"
  by (auto simp: visit_external_def grows_def split: option.split_asm) blast

lemma visit_externals_grow:
  assumes "grows collect" "fold_err (visit_external env q collect) tis acc = Inr acc'"
  shows "set (snd acc) \<subseteq> set (snd acc')"
proof (rule fold_err_inv [where P = "\<lambda>a. set (snd acc) \<subseteq> set (snd a)", OF assms(2)])
  show "set (snd acc) \<subseteq> set (snd t')" if "set (snd acc) \<subseteq> set (snd t)" "visit_external env q collect x t = Inr t'" for x t t'
    using visit_external_grows [OF assms(1) that(2)] that(1) by blast
qed simp

lemma visit_marker_grows:
  assumes "\<And>limit. grows (collect limit)" "visit_marker env s q d depth collect ti acc = Inr acc'"
  shows "set (snd (snd acc)) \<subseteq> set (snd (snd acc'))"
proof (cases acc)
  case (fields result limit visited)
  show ?thesis
  proof (cases "ti_primary ti \<in> set visited")
    case True
    with assms(2) fields show ?thesis by (simp add: visit_marker_def)
  next
    case False
    with assms(2) fields obtain m xs result' visited' where
      "fold_err (visit_external env q (collect m)) xs (result, ti_primary ti # visited) = Inr (result', visited')"
      "acc' = (result', Some m, visited')"
      by (auto simp: visit_marker_def Let_def simp del: bind_err_Inr_iff elim!: bind_err_InrE split: if_split_asm prod.split_asm)
    with visit_externals_grow [OF assms(1) this(1)] fields show ?thesis by auto
  qed
qed

lemma visit_markers_grows:
  assumes "\<And>limit. grows (collect limit)" "visit_markers env s q d depth collect limit visited = Inr acc'"
  shows "set visited \<subseteq> set (snd (snd acc'))"
proof (cases "tq_include_dependent_dags q")
  case True
  with assms(2) have f: "fold_err (visit_marker env s q d depth collect)
      (filter (\<lambda>ti. ti_operator ti = ''ExternalTaskMarker'') (query_rows (ce_now env) d q s)) ([], limit, visited) = Inr acc'"
    by (simp add: visit_markers_def)
  show ?thesis
  proof (rule fold_err_inv [where P = "\<lambda>a. set visited \<subseteq> set (snd (snd a))", OF f])
    show "set visited \<subseteq> set (snd (snd t'))" if "set visited \<subseteq> set (snd (snd t))" "visit_marker env s q d depth collect x t = Inr t'" for x t t'
      using visit_marker_grows [OF assms(1) that(2)] that(1) by blast
  qed simp
qed (use assms(2) in \<open>auto simp: visit_markers_def\<close>)

lemma keys_grow: "grows (get_task_instance_keys n env s depth limit)"
proof (induction n arbitrary: depth limit)
  case (Suc n)
  show ?case unfolding grows_def
  proof (intro allI impI)
    fix d q V r assume "get_task_instance_keys (Suc n) env s depth limit d q V = Inr r"
    then obtain acc where "visit_markers env s q d depth (get_task_instance_keys n env s (depth + 1)) (Some limit) V = Inr acc"
      "snd r = snd (snd acc)" by (auto split: prod.split_asm)
    with visit_markers_grows [OF Suc.IH this(1)] show "set V \<subseteq> set (snd r)" by simp
  qed
qed (simp add: grows_def)

text \<open>Two collectors that agree once a marker was visited give the same result.\<close>

lemma visit_markers_cong:
  assumes "\<And>limit. grows (collect limit)"
    "\<And>limit d q W. unvisited s W < unvisited s V \<Longrightarrow> collect limit d q W = collect' limit d q W"
  shows "visit_markers env s q d depth collect limit V = visit_markers env s q d depth collect' limit V"
proof -
  have marker: "visit_marker env s q d depth collect ti acc = visit_marker env s q d depth collect' ti acc"
    if ti: "ti \<in> set (db_tis s)" and V: "set V \<subseteq> set (snd (snd acc))" for ti acc
  proof (cases acc)
    case (fields result limit visited)
    have ext: "fold_err (visit_external env q (collect m)) xs (result, ti_primary ti # visited) =
        fold_err (visit_external env q (collect' m)) xs (result, ti_primary ti # visited)" if "ti_primary ti \<notin> set visited" for m xs
    proof (rule fold_err_cong_inv [where P = "\<lambda>a. set (ti_primary ti # visited) \<subseteq> set (snd a)"])
      fix x and a :: "ti_primary list \<times> ti_primary list" assume a: "set (ti_primary ti # visited) \<subseteq> set (snd a)"
      have "unvisited s (snd a) < unvisited s visited" by (rule unvisited_less [OF ti that a])
      moreover have "unvisited s visited \<le> unvisited s V" using V fields by (intro unvisited_mono) simp
      ultimately have "collect m d q (snd a) = collect' m d q (snd a)" for d q by (intro assms(2)) simp
      then show "visit_external env q (collect m) x a = visit_external env q (collect' m) x a"
        by (simp add: visit_external_def split: option.split)
    next
      fix x a a' assume "set (ti_primary ti # visited) \<subseteq> set (snd a)" "visit_external env q (collect m) x a = Inr a'"
      with visit_external_grows [OF assms(1) this(2)] show "set (ti_primary ti # visited) \<subseteq> set (snd a')" by blast
    qed simp
    show ?thesis
    proof (cases "ti_primary ti \<in> set visited")
      case True
      with fields show ?thesis by (simp add: visit_marker_def)
    next
      case False
      show ?thesis unfolding visit_marker_def fields Let_def prod.case ext [OF False] ..
    qed
  qed
  show ?thesis unfolding visit_markers_def
  proof (intro if_cong refl fold_err_cong_inv [where P = "\<lambda>a. set V \<subseteq> set (snd (snd a))"])
    fix ti and acc :: "ti_primary list \<times> int option \<times> ti_primary list" assume ti: "ti \<in> set (filter (\<lambda>ti. ti_operator ti = ''ExternalTaskMarker'') (query_rows (ce_now env) d q s))"
      and V: "set V \<subseteq> set (snd (snd acc))"
    have "ti \<in> set (db_tis s)" using ti by (simp add: query_rows_def)
    from marker [OF this V] show "visit_marker env s q d depth collect ti acc = visit_marker env s q d depth collect' ti acc" .
    fix acc' assume "visit_marker env s q d depth collect ti acc = Inr acc'"
    with visit_marker_grows [OF assms(1) this] V show "set V \<subseteq> set (snd (snd acc'))" by blast
  qed simp
qed

lemma keys_fuel:
  "unvisited s V < n \<Longrightarrow> unvisited s V < m \<Longrightarrow>
   get_task_instance_keys n env s depth limit d q V = get_task_instance_keys m env s depth limit d q V"
proof (induction n arbitrary: m depth limit d q V)
  case (Suc n)
  then obtain m' where m: "m = Suc m'" by (cases m) auto
  have "visit_markers env s q d depth (get_task_instance_keys n env s (depth + 1)) (Some limit) V =
      visit_markers env s q d depth (get_task_instance_keys m' env s (depth + 1)) (Some limit) V"
    by (rule visit_markers_cong [OF keys_grow]) (rule Suc.IH, use Suc.prems m in auto)
  then show ?case by (simp add: m)
qed simp

text \<open>The environment of the witnesses: no other DAG is known, and no hook changes a task instance.\<close>

definition sample_mark_env :: mark_env where
  "sample_mark_env = \<lparr>ce_now = 9, ce_get_dag = (\<lambda>_. None), ce_marker = (\<lambda>_. Inr (''d'', ''b'', 1)), ce_recursion_depth = (\<lambda>_. 10),
     me_calendar = \<lparr>cal_parses = (\<lambda>_. True), cal_get_next = (\<lambda>_ n. Inr (n + 60)), cal_get_prev = (\<lambda>_ n. Inr (n - 60)),
       cal_covers_every_hour = (\<lambda>_. False), cal_make_naive = (\<lambda>_ t. t), cal_make_aware = (\<lambda>_ t. t), cal_add = (\<lambda>_ t. t), cal_sub = (\<lambda>_ t. t)\<rparr>,
     me_hook = (\<lambda>ti. ti)\<rparr>"

lemma sample_mark_env_hook: "keeps_identity (me_hook sample_mark_env)"
  by (simp add: sample_mark_env_def keeps_identity_def)

definition sample_marked :: dag where
  "sample_marked = sample_chain\<lparr>d_timetable := NullTimetable\<rparr>"

lemma sample_marked_wf: "wf_dag sample_marked"
  using sample_chain_wf by (simp add: sample_marked_def wf_dag_def)

lemma sample_marked_edges: "edges sample_marked up = edges sample_chain up"
  by (simp add: sample_marked_def edges_def)


lemma mark_resultE:
  assumes "case m of Some (Inr (k, s')) \<Rightarrow> P s' | _ \<Rightarrow> False"
  obtains k s' where "m = Some (Inr (k, s'))" "P s'"
  using assms by (auto split: option.split_asm sum.split_asm)

lemma second_row:
  assumes "case tis of [x, ti] \<Rightarrow> P ti | _ \<Rightarrow> False"
  obtains x ti where "tis = [x, ti]" "P ti"
  using assms by (auto split: list.split_asm)

text \<open>A marker in the task that is cleared, whose marked task is the next one of the same DAG.\<close>

definition sample_marker_env :: clear_env where
  "sample_marker_env = (clear_env.truncate sample_mark_env)\<lparr>ce_get_dag := (\<lambda>_. Some sample_marked)\<rparr>"

definition sample_marker_db :: db where
  "sample_marker_db = sample_db [(sample_ti ''a'' None)\<lparr>ti_operator := ''ExternalTaskMarker''\<rparr>, sample_ti ''b'' None]"


subsection \<open>Bringing runs in step\<close>

text \<open>What \<open>verify_integrity\<close> leaves as it is: a row has the state it had, or none, or is removed.\<close>

definition in_step :: "db \<Rightarrow> db \<Rightarrow> bool" where
  "in_step s s' \<longleftrightarrow> db_drs s' = db_drs s \<and> db_task_maps s' = db_task_maps s \<and>
     (\<forall>ti' \<in> set (db_tis s'). ti_state ti' \<in> {None, Some REMOVED} \<or>
        (\<exists>ti \<in> set (db_tis s). ti_primary ti = ti_primary ti' \<and> ti_state ti = ti_state ti'))"

lemma in_step_refl: "in_step s s"
  by (auto simp: in_step_def)

lemma in_step_trans: "in_step s t \<Longrightarrow> in_step t u \<Longrightarrow> in_step s u"
  unfolding in_step_def by (metis (no_types, lifting))

lemma in_step_row:
  "in_step s s' \<Longrightarrow> x \<in> set (db_tis s') \<Longrightarrow> ti_state x \<in> {None, Some REMOVED} \<or>
     (\<exists>y \<in> set (db_tis s). ti_primary y = ti_primary x \<and> ti_state y = ti_state x)"
  unfolding in_step_def by (elim conjE) (rule bspec)

lemma check_row_states:
  assumes "check_row d dr s ti = Inr ti'"
  shows "ti_state ti' \<in> {None, Some REMOVED, ti_state ti}"
  using assms by (auto simp: check_row_def set_ti_state_def Let_def split: sum.split_asm if_split_asm)

lemma check_loop_in_step:
  assumes "keeps_identity hook"
  shows "check_for_removed_or_restored_tasks hook d dr ks s = Inr (task_ids, s') \<Longrightarrow> in_step s s'"
proof (induction ks arbitrary: s task_ids s')
  case (Cons k ks)
  from Cons.prems obtain ti ti' ids where ti: "find_ti s k = Some ti" "check_row d dr s (hook ti) = Inr ti'"
    and l: "check_for_removed_or_restored_tasks hook d dr ks (update_ti k (\<lambda>_. ti') s) = Inr (ids, s')"
    by (auto simp del: bind_err_Inr_iff elim!: bind_err_InrE split: option.split_asm prod.split_asm)
  have hook: "ti_primary (hook ti) = k" "ti_state (hook ti) = ti_state ti"
    using assms find_ti_Some [OF ti(1)] by (auto simp: keeps_identity_def)
  have key: "ti_primary ti' = k" using check_row_row [OF ti(2)] hook(1) by simp
  have "in_step s (update_ti k (\<lambda>_. ti') s)"
    using find_ti_Some [OF ti(1)] check_row_states [OF ti(2)] hook(2) key
    by (auto simp: in_step_def update_ti_def split: if_split_asm)
  from in_step_trans [OF this Cons.IH [OF l]] show ?case .
qed (auto simp: in_step_refl)

text \<open>Tables on which integrity is checked: unique keys, and lengths that are not negative.\<close>

definition sane :: "db \<Rightarrow> bool" where
  "sane s \<longleftrightarrow> distinct (map ti_primary (db_tis s)) \<and> (\<forall>m \<in> set (db_task_maps s). 0 \<le> tm_length m)"

lemma verify_integrity_in_step:
  assumes "verify_integrity hook d dr s = Inr s'" "keeps_identity hook" "dr_dag_id dr = d_dag_id d" "wf_dag d" "sane s"
  shows "in_step s s' \<and> sane s'"
proof -
  from assms(1) obtain task_ids s1 tis where
    l: "check_for_removed_or_restored_tasks hook d dr (map ti_primary (get_task_instances d dr (\<lambda>_. True) s)) s = Inr (task_ids, s1)" and
    t: "create_tasks hook d (dr_run_id dr) s1 (filter (task_filter dr task_ids) (dag_tasks d)) = Inr tis" and
    s': "s' = s1\<lparr>db_tis := db_tis s1 @ tis\<rparr>"
    by (auto simp: verify_integrity_def)
  have "ti_state ti = None" if "ti \<in> set tis" for ti
  proof -
    have in_map: "map_err f xs = Inr ys \<Longrightarrow> y \<in> set ys \<Longrightarrow> \<exists>x \<in> set xs. f x = Inr y" for f :: "int \<Rightarrow> task_instance result" and xs ys y
      by (induction xs arbitrary: ys) auto
    have "map_err (\<lambda>task. bind_err (map_indexes_to_create d (dr_run_id dr) s1 task) (\<lambda>indexes.
           map_err (\<lambda>i. create_ti hook d (dr_run_id dr) task i None) indexes)) ops = Inr tss \<Longrightarrow> ti \<in> set (concat tss) \<Longrightarrow> ti_state ti = None"
      for ops tss
    proof (induction ops arbitrary: tss)
      case (Cons op ops)
      from Cons.prems(1) obtain ixs ts tss' where ts: "map_err (\<lambda>i. create_ti hook d (dr_run_id dr) op i None) ixs = Inr ts"
        "map_err (\<lambda>task. bind_err (map_indexes_to_create d (dr_run_id dr) s1 task) (\<lambda>indexes.
           map_err (\<lambda>i. create_ti hook d (dr_run_id dr) task i None) indexes)) ops = Inr tss'" "tss = ts # tss'" by auto
      show ?case
      proof (cases "ti \<in> set ts")
        case True
        with in_map [OF ts(1)] create_ti_row [OF _ assms(2)] show ?thesis by blast
      next
        case False
        with Cons.IH [OF ts(2)] Cons.prems(2) ts(3) show ?thesis by simp
      qed
    qed simp
    with t that show ?thesis by (auto simp: create_tasks_def)
  qed
  with check_loop_in_step [OF assms(2) l] s' have step: "in_step s s'" by (auto simp: in_step_def)
  from verify_integrity_steps [OF assms(1-3)] assms(5) obtain ks s2 ops tis' where "integrity_steps d dr s ks s2 ops tis' s'"
    by (auto simp: sane_def)
  with integrity_distinct [OF this assms(4)] step assms(5) show ?thesis by (simp add: sane_def in_step_def)
qed

lemma iter_runs_in_step:
  assumes "iter_existing_dag_run_infos env d run_ids s = Inr s'" "keeps_identity (me_hook env)" "wf_dag d" "sane s"
  shows "in_step s s' \<and> sane s'"
proof -
  let ?f = "\<lambda>dr s. bind_err (verify_integrity (me_hook env) d dr s) (\<lambda>s'.
         bind_err (get_run_data_interval (me_calendar env) d dr) (\<lambda>_. Inr s'))"
  have f: "fold_err ?f (find_runs (d_dag_id d) (Some run_ids) None s) s = Inr s'"
    using assms(1) by (simp add: iter_existing_dag_run_infos_def)
  show ?thesis
  proof (rule fold_err_inv [where P = "\<lambda>t. in_step s t \<and> sane t", OF f])
    show "in_step s s \<and> sane s" using assms(4) by (simp add: in_step_refl)
    fix dr t t' assume dr: "dr \<in> set (find_runs (d_dag_id d) (Some run_ids) None s)" and t: "in_step s t \<and> sane t" and step: "?f dr t = Inr t'"
    from step have "verify_integrity (me_hook env) d dr t = Inr t'" by auto
    moreover have "dr_dag_id dr = d_dag_id d" using dr by (auto simp: find_runs_def)
    ultimately have "in_step t t' \<and> sane t'" using verify_integrity_in_step assms(2,3) t by blast
    with t in_step_trans show "in_step s t' \<and> sane t'" by blast
  qed
qed

subsection \<open>Which rows a mark changes\<close>

lemma fold_update_ti:
  assumes "keeps_primary f"
  shows "distinct ks \<Longrightarrow> fold (\<lambda>k. update_ti k f) ks s =
    s\<lparr>db_tis := map (\<lambda>ti. if ti_primary ti \<in> set ks then f ti else ti) (db_tis s)\<rparr>"
proof (induction ks arbitrary: s)
  case (Cons k ks)
  have "ti_primary (f ti) = ti_primary ti" for ti using assms by (simp add: keeps_primary_def)
  with Cons show ?case by (auto simp: update_ti_def)
qed simp

lemma fold_update_filter:
  assumes "keeps_primary f" "distinct (map ti_primary (db_tis s))"
  shows "fold (\<lambda>k. update_ti k f) (map ti_primary (filter P (db_tis s))) s =
    s\<lparr>db_tis := map (\<lambda>ti. if P ti then f ti else ti) (db_tis s)\<rparr>"
proof -
  have "ti_primary ti \<in> ti_primary ` {x \<in> set (db_tis s). P x} \<longleftrightarrow> P ti" if "ti \<in> set (db_tis s)" for ti
    using that assms(2) by (auto simp: distinct_map inj_on_def)
  moreover have "distinct (map ti_primary (filter P (db_tis s)))" using assms(2) by (rule distinct_map_filter)
  ultimately show ?thesis using fold_update_ti [OF assms(1)] by (simp cong: map_cong)
qed

lemma keeps_primary_mark_row: "keeps_primary (mark_row now st)"
  by (auto simp: keeps_primary_def mark_row_def ti_primary_def)

lemma mark_row_state [simp]: "ti_state (mark_row now st ti) = Some st"
  by (simp add: mark_row_def)

lemma mark_row_primary [simp]: "ti_primary (mark_row now st ti) = ti_primary ti"
  using keeps_primary_mark_row by (simp add: keeps_primary_def)

text \<open>The task instances that a mark is for.\<close>

definition marks :: "dag \<Rightarrow> TaskInstanceState \<Rightarrow> (id_str \<times> int option) list \<Rightarrow> id_str list \<Rightarrow> task_instance \<Rightarrow> bool" where
  "marks d state task_ids run_ids ti \<longleftrightarrow> ti_dag_id ti = d_dag_id d \<and> ti_run_id ti \<in> set run_ids \<and>
     ti_selector_condition task_ids ti \<and> ti_state ti \<noteq> Some state"

lemma mark_tasks_rows:
  assumes "mark_tasks env d tasks run_id up down future past state True s = Some (Inr (altered, s'))" "tasks \<noteq> []"
    "keeps_identity (me_hook env)" "wf_dag d" "sane s"
  shows "\<exists>run_ids task_ids s1. get_run_ids env d run_id future past s = Some (Inr run_ids) \<and>
    find_task_relatives d tasks down up = Inr task_ids \<and> in_step s s1 \<and> sane s1 \<and>
    altered = map ti_primary (filter (marks d state task_ids run_ids) (db_tis s1)) \<and>
    s' = s1\<lparr>db_tis := map (\<lambda>ti. if marks d state task_ids run_ids ti then mark_row (ce_now env) state ti else ti) (db_tis s1)\<rparr>"
proof -
  from assms(1,2) obtain r where r: "get_run_ids env d run_id future past s = Some r" "bind_err r (\<lambda>run_ids.
        bind_err (find_task_relatives d tasks down up) (\<lambda>task_ids.
        bind_err (iter_existing_dag_run_infos env d run_ids s) (\<lambda>s1.
        bind_err (run_state_of state) (\<lambda>_.
          let altered = map ti_primary (get_all_dag_task_query d state task_ids run_ids s1) in
          Inr (altered, fold (\<lambda>k. update_ti k (mark_row (ce_now env) state)) altered s1))))) = Inr (altered, s')"
    unfolding mark_tasks_def by (auto split: if_split_asm elim!: bind_eq_Some_conv [THEN iffD1, THEN exE])
  then obtain run_ids task_ids s1 where t: "r = Inr run_ids" "find_task_relatives d tasks down up = Inr task_ids"
    "iter_existing_dag_run_infos env d run_ids s = Inr s1"
    "altered = map ti_primary (get_all_dag_task_query d state task_ids run_ids s1)"
    "s' = fold (\<lambda>k. update_ti k (mark_row (ce_now env) state)) altered s1"
    by (auto simp: Let_def simp del: bind_err_Inr_iff elim!: bind_err_InrE)
  note step = iter_runs_in_step [OF t(3) assms(3-5)]
  have q: "get_all_dag_task_query d state task_ids run_ids s1 = filter (marks d state task_ids run_ids) (db_tis s1)"
    by (auto simp: get_all_dag_task_query_def marks_def intro!: filter_cong)
  have "s' = s1\<lparr>db_tis := map (\<lambda>ti. if marks d state task_ids run_ids ti then mark_row (ce_now env) state ti else ti) (db_tis s1)\<rparr>"
    unfolding t(4,5) q using step by (intro fold_update_filter keeps_primary_mark_row) (simp add: sane_def)
  with r(1) t step q show ?thesis by (intro exI [of _ run_ids] exI [of _ task_ids] exI [of _ s1]) simp
qed

text \<open>The tasks that are marked, on the graph.\<close>

definition marked_with :: "dag \<Rightarrow> (operator \<times> int option) list \<Rightarrow> bool \<Rightarrow> bool \<Rightarrow> task_instance \<Rightarrow> bool" where
  "marked_with d tasks up down ti \<longleftrightarrow> (\<exists>(op, index) \<in> set tasks.
     (op_task_id op = ti_task_id ti \<and> (index = None \<or> index = Some (ti_map_index ti))) \<or>
     (down \<and> (op_task_id op, ti_task_id ti) \<in> (edges d False)\<^sup>+) \<or> (up \<and> (op_task_id op, ti_task_id ti) \<in> (edges d True)\<^sup>+))"

lemma relatives_of_spec:
  assumes "wf_dag d" "dict_get (d_task_dict d) t = Some op" "relatives_of d op wanted up = Inr ids"
  shows "set ids = (if wanted then {(u, None) | u. (t, u) \<in> (edges d up)\<^sup>+} else {})"
proof (cases wanted)
  case True
  from flat_relatives_wf [OF assms(1,2), of up] obtain rs where
    rs: "get_flat_relatives d op up = Inr (map (dag_op d) rs)" "set rs = {b. (t, b) \<in> (edges d up)\<^sup>+}" by blast
  have "map op_task_id (map (dag_op d) rs) = rs"
    by (rule ids_of_map_dag_op [OF assms(1)]) (auto simp: rs(2) trancl_has_task [OF assms(1)])
  then have "map (\<lambda>r. (op_task_id r, None :: int option)) (map (dag_op d) rs) = map (\<lambda>u. (u, None)) rs"
    by (induction rs) auto
  with assms(3) True rs show ?thesis by (auto simp: relatives_of_def)
qed (use assms(3) in \<open>simp add: relatives_of_def\<close>)

lemma find_task_relatives_spec:
  assumes "wf_dag d" "find_task_relatives d tasks down up = Inr ids"
    "\<forall>(op, i) \<in> set tasks. dict_get (d_task_dict d) (op_task_id op) = Some op"
  shows "ti_selector_condition ids ti \<longleftrightarrow> marked_with d tasks up down ti"
proof -
  have "map_err (\<lambda>(task, map_index).
         bind_err (relatives_of d task down False) (\<lambda>dn.
         bind_err (relatives_of d task up True) (\<lambda>us.
           Inr ((op_task_id task, map_index) # dn @ us)))) tasks = Inr idss \<Longrightarrow>
      \<forall>(op, i) \<in> set tasks. dict_get (d_task_dict d) (op_task_id op) = Some op \<Longrightarrow>
      ti_selector_condition (concat idss) ti \<longleftrightarrow> marked_with d tasks up down ti" for idss
  proof (induction tasks arbitrary: idss)
    case Nil
    then show ?case by (simp add: ti_selector_condition_def marked_with_def)
  next
    case (Cons x xs)
    obtain op i where x: "x = (op, i)" by (cases x)
    from Cons.prems(1) obtain dn us idss' where
      r: "relatives_of d op down False = Inr dn" "relatives_of d op up True = Inr us" "idss = ((op_task_id op, i) # dn @ us) # idss'"
      and rest: "map_err (\<lambda>(task, map_index).
         bind_err (relatives_of d task down False) (\<lambda>dn.
         bind_err (relatives_of d task up True) (\<lambda>us.
           Inr ((op_task_id task, map_index) # dn @ us)))) xs = Inr idss'" by (auto simp: x)
    have op: "dict_get (d_task_dict d) (op_task_id op) = Some op" using Cons.prems(2) x by simp
    have "ti_selector_condition (concat idss) ti \<longleftrightarrow> ti_selector_condition ((op_task_id op, i) # dn @ us) ti \<or> ti_selector_condition (concat idss') ti"
      by (auto simp: r(3) ti_selector_condition_def)
    also have "ti_selector_condition ((op_task_id op, i) # dn @ us) ti \<longleftrightarrow> marked_with d [x] up down ti"
      using relatives_of_spec [OF assms(1) op r(1)] relatives_of_spec [OF assms(1) op r(2)]
      by (auto simp: ti_selector_condition_def marked_with_def x)
    also have "ti_selector_condition (concat idss') ti \<longleftrightarrow> marked_with d xs up down ti" using Cons.IH [OF rest] Cons.prems(2) by simp
    finally show ?case by (auto simp: marked_with_def)
  qed
  with assms(2,3) show ?thesis by (auto simp: find_task_relatives_def)
qed

text \<open>
  C30. Marking tasks of some runs sets exactly their task instances (and those of their relatives, if
  asked for) that do not have the state yet, after the runs were brought in step with the DAG; a
  deferred or rescheduled one gets back the try it was credited; no other row changes.
\<close>

theorem marking_exact:
  assumes "mark_tasks env d tasks run_id up down future past state True s = Some (Inr (altered, s'))" "tasks \<noteq> []"
    "\<forall>(op, i) \<in> set tasks. dict_get (d_task_dict d) (op_task_id op) = Some op"
    "keeps_identity (me_hook env)" "wf_dag d" "sane s"
  shows "\<exists>run_ids s1. get_run_ids env d run_id future past s = Some (Inr run_ids) \<and> in_step s s1 \<and> db_drs s' = db_drs s \<and>
    (let chosen = (\<lambda>ti. ti_dag_id ti = d_dag_id d \<and> ti_run_id ti \<in> set run_ids \<and> ti_state ti \<noteq> Some state \<and> marked_with d tasks up down ti) in
      altered = map ti_primary (filter chosen (db_tis s1)) \<and>
      db_tis s' = map (\<lambda>ti. if \<not> chosen ti then ti
        else set_state_row (ce_now env) (Some state) (ti\<lparr>ti__try_number := ti__try_number ti +
          (if ti_state ti \<in> {Some DEFERRED, Some UP_FOR_RESCHEDULE} then 1 else 0)\<rparr>)) (db_tis s1))"
proof -
  from mark_tasks_rows [OF assms(1,2,4-6)] obtain run_ids task_ids s1 where
    r: "get_run_ids env d run_id future past s = Some (Inr run_ids)" "find_task_relatives d tasks down up = Inr task_ids" "in_step s s1"
    "altered = map ti_primary (filter (marks d state task_ids run_ids) (db_tis s1))"
    "s' = s1\<lparr>db_tis := map (\<lambda>ti. if marks d state task_ids run_ids ti then mark_row (ce_now env) state ti else ti) (db_tis s1)\<rparr>"
    by (elim exE conjE) (rule that)
  let ?chosen = "\<lambda>ti. ti_dag_id ti = d_dag_id d \<and> ti_run_id ti \<in> set run_ids \<and> ti_state ti \<noteq> Some state \<and> marked_with d tasks up down ti"
  have m: "marks d state task_ids run_ids = ?chosen"
    using find_task_relatives_spec [OF assms(5) r(2) assms(3)] by (auto simp: marks_def fun_eq_iff)
  have "mark_row (ce_now env) state ti = set_state_row (ce_now env) (Some state) (ti\<lparr>ti__try_number := ti__try_number ti +
          (if ti_state ti \<in> {Some DEFERRED, Some UP_FOR_RESCHEDULE} then 1 else 0)\<rparr>)" for ti
    by (simp add: mark_row_def)
  with r(5) m have "db_tis s' = map (\<lambda>ti. if \<not> ?chosen ti then ti
        else set_state_row (ce_now env) (Some state) (ti\<lparr>ti__try_number := ti__try_number ti +
          (if ti_state ti \<in> {Some DEFERRED, Some UP_FOR_RESCHEDULE} then 1 else 0)\<rparr>)) (db_tis s1)" by auto
  moreover have "altered = map ti_primary (filter ?chosen (db_tis s1))" unfolding r(4) m ..
  moreover have "db_drs s' = db_drs s" using r(3,5) by (simp add: in_step_def)
  ultimately show ?thesis unfolding Let_def using r(1,3) by (intro exI [of _ run_ids] exI [of _ s1] conjI)
qed

lemma marking_exact_witness:
  "\<exists>altered s'. mark_tasks sample_mark_env sample_marked [(dag_op sample_marked ''a'', None)] ''r'' False False False False FAILED True
      (sample_db [sample_ti ''a'' (Some DEFERRED), sample_ti ''b'' None]) = Some (Inr (altered, s')) \<and> db_drs s' = [sample_dr ''r'' 1 DR_RUNNING] \<and>
    map (\<lambda>ti. (ti_state ti, ti__try_number ti)) (db_tis s') = [(Some FAILED, 1), (None, 0)]"
proof -
  let ?s = "sample_db [sample_ti ''a'' (Some DEFERRED), sample_ti ''b'' None]"
  let ?m = "mark_tasks sample_mark_env sample_marked [(dag_op sample_marked ''a'', None)] ''r'' False False False False FAILED True ?s"
  have "case ?m of Some (Inr (k, s')) \<Rightarrow> map (\<lambda>ti. (ti_state ti, ti__try_number ti)) (db_tis s') = [(Some FAILED, 1), (None, 0)] | _ \<Rightarrow> False"
    by code_simp
  then obtain altered s' where r: "?m = Some (Inr (altered, s'))"
    and st: "map (\<lambda>ti. (ti_state ti, ti__try_number ti)) (db_tis s') = [(Some FAILED, 1), (None, 0)]"
    by (rule mark_resultE)
  have op: "\<forall>(op, i) \<in> set [(dag_op sample_marked ''a'', None)]. dict_get (d_task_dict sample_marked) (op_task_id op) = Some op"
    by (simp add: sample_marked_def sample_chain_def dag_op_def sample_defs)
  have sane: "sane ?s" by (simp add: sane_def sample_defs ti_primary_def)
  from marking_exact [OF r _ op sample_mark_env_hook sample_marked_wf sane] have "db_drs s' = db_drs ?s" by auto
  with r st show ?thesis by (intro exI conjI) (simp_all add: sample_defs)
qed

subsection \<open>The run itself is marked\<close>

lemma iter_infos_start:
  assumes "iter_dagrun_infos_between cal now d (Some e) l False = Some (Inr infos)"
  shows "e \<in> ri_logical_date ` set infos"
proof -
  have first: "info_interval e x \<in> set xs \<Longrightarrow> e \<in> ri_logical_date ` set xs" for x xs
    by (rule image_eqI [of _ _ "info_interval e x"]) (simp_all add: ri_logical_date_def info_interval_def)
  have loop: "i \<in> set js" if "info_loop f (Some i) = Some js" for f i js
    using that by (subst (asm) info_loop.simps) (auto simp: bind_eq_Some_conv)
  let ?next = "\<lambda>iv. next_dagrun_info cal now (d_timetable d) iv \<lparr>rs_earliest = Some e, rs_latest = Some l, rs_catchup = True\<rparr>"
  show ?thesis
  proof (cases "case ?next None of Inl _ \<Rightarrow> None | Inr info \<Rightarrow> info")
    case None
    with assms have "infos = [info_interval e l]" by (simp add: iter_dagrun_infos_between_def Let_def)
    then have "info_interval e l \<in> set infos" by simp
    then show ?thesis by (rule first)
  next
    case (Some info)
    with assms obtain js where js: "info_loop (\<lambda>iv. ?next (Some iv)) (Some info) = Some js"
      "infos = (if ri_logical_date info \<noteq> e then [info_interval e (fst (ri_data_interval info))] else []) @ js"
      by (auto simp: iter_dagrun_infos_between_def Let_def bind_eq_Some_conv)
    with loop [OF this(1)] first [of "fst (ri_data_interval info)" infos] show ?thesis by (auto split: if_split_asm)
  qed
qed

lemma run_id_found:
  assumes "get_run_ids env d run_id False False s = Some (Inr ids)" "find_dr s (d_dag_id d) run_id = Some dr"
  shows "run_id \<in> set ids"
proof -
  have dr: "dr \<in> set (db_drs s)" "dr_dag_id dr = d_dag_id d" "dr_run_id dr = run_id"
    using assms(2) by (auto simp: find_dr_def find_Some_iff)
  let ?e = "dr_execution_date dr"
  consider "ids = remdups (map dr_run_id (get_dagruns_between d ?e ?e s))" | "ids = [run_id]"
    | infos where "iter_dagrun_infos_between (me_calendar env) (ce_now env) d (Some ?e) ?e False = Some (Inr infos)"
        "ids = map dr_run_id (find_runs (d_dag_id d) None (Some (map ri_logical_date infos)) s)"
    using assms by (auto simp: get_run_ids_def Let_def run_date_def bind_eq_Some_conv split: if_split_asm)
  then show ?thesis
  proof cases
    case 1
    with dr show ?thesis by (auto simp: get_dagruns_between_def intro: rev_image_eqI)
  next
    case 3
    from iter_infos_start [OF 3(1)] dr show ?thesis by (auto simp: 3(2) find_runs_def intro!: rev_image_eqI [of dr])
  qed simp
qed

subsection \<open>Failing a run\<close>

lemma set_dag_run_state_spec:
  assumes "set_dag_run_state now i r st s = Inr s1"
  shows "db_tis s1 = db_tis s" "sane s1 = sane s"
    "\<exists>dr. find_dr s1 i r = Some dr \<and> dr_state dr = st"
proof -
  let ?f = "\<lambda>dr. let dr' = set_dr_state now st dr in
          if st = DR_RUNNING then dr'\<lparr>dr_start_date := Some now, dr_end_date := None\<rparr> else dr'\<lparr>dr_end_date := Some now\<rparr>"
  from assms obtain dr where dr: "find_dr s i r = Some dr" "s1 = update_dr i r ?f s"
    by (auto simp: set_dag_run_state_def split: option.split_asm)
  then show "db_tis s1 = db_tis s" "sane s1 = sane s" by (simp_all add: sane_def)
  have "dr_dag_id (?f x) = dr_dag_id x \<and> dr_run_id (?f x) = dr_run_id x" for x by (simp add: Let_def)
  from find_dr_update_dr [OF this] dr have "find_dr s1 i r = Some (?f dr)" by simp
  then show "\<exists>dr. find_dr s1 i r = Some dr \<and> dr_state dr = st" by (simp add: Let_def)
qed

lemma skip_fold:
  assumes "sane s"
  shows "fold (\<lambda>k s. snd (set_state now k (Some SKIPPED) s)) (map ti_primary (filter P (db_tis s))) s =
    s\<lparr>db_tis := map (\<lambda>ti. if P ti then set_state_row now (Some SKIPPED) ti else ti) (db_tis s)\<rparr>"
  using assms unfolding set_state_db by (intro fold_update_filter) (simp_all add: sane_def)

lemma sane_update_rows:
  "sane s \<Longrightarrow> (\<And>ti. ti_primary (f ti) = ti_primary ti) \<Longrightarrow> sane (s\<lparr>db_tis := map f (db_tis s)\<rparr>)"
  by (simp add: sane_def comp_def)

lemma has_task_op:
  assumes "wf_dag d" "has_task d t"
  obtains op where "op \<in> set (dag_tasks d)" "op_task_id op = t"
proof -
  from assms(2) obtain op where op: "dict_get (d_task_dict d) t = Some op" by (auto simp: has_task_def dict_has_iff)
  from map_of_SomeD [OF op] have "op \<in> set (dag_tasks d)" by (force simp: dag_tasks_def)
  with wf_dag_opD(1) [OF assms(1) op] that show thesis by blast
qed

text \<open>
  The first half of failing a run: what is left to mark are the tasks with a task instance being run,
  every other task instance of the DAG is in a final state or has none.
\<close>

definition settled :: "task_instance \<Rightarrow> bool" where
  "settled ti \<longleftrightarrow> finished (ti_state ti) \<or> ti_state ti = None"

lemma failed_run_steps:
  assumes "set_dag_run_state_to_failed env d run_id True s = Some (Inr (altered, s'))" "run_id \<noteq> []" "wf_dag d" "sane s"
  shows "\<exists>tasks s2 altered'. mark_tasks env d (map (\<lambda>t. (t, None)) tasks) run_id False False False False FAILED True s2 = Some (Inr (altered', s')) \<and>
    sane s2 \<and> set tasks \<subseteq> set (dag_tasks d) \<and> find_dr s2 (d_dag_id d) run_id \<noteq> None \<and>
    (\<forall>x \<in> set (db_tis s2). ti_dag_id x = d_dag_id d \<longrightarrow> ti_run_id x = run_id \<longrightarrow> has_task d (ti_task_id x) \<longrightarrow>
       settled x \<or> (ti_state x \<in> set being_run \<and> ti_task_id x \<in> op_task_id ` set tasks))"
proof -
  let ?now = "ce_now env"
  from assms(1,2) obtain s1 where s1: "set_dag_run_state ?now (d_dag_id d) run_id DR_FAILED s = Inr s1"
    by (auto simp: set_dag_run_state_to_failed_def split: sum.split_asm)
  note s1_spec = set_dag_run_state_spec [OF s1]
  define running where "running = map ti_task_id (filter (\<lambda>ti. ti_dag_id ti = d_dag_id d \<and> ti_run_id ti = run_id \<and>
      ti_task_id ti \<in> set (map op_task_id (dag_tasks d)) \<and> ti_state ti \<in> set being_run) (db_tis s1))"
  define tasks where "tasks = filter (\<lambda>t. op_task_id t \<in> set running) (dag_tasks d)"
  let ?skip = "\<lambda>ti. if not_started d run_id ti then set_state_row ?now (Some SKIPPED) ti else ti"
  define s2 where "s2 = s1\<lparr>db_tis := map ?skip (db_tis s1)\<rparr>"
  have sane: "sane s1" "sane s2" using s1_spec(2) assms(4) unfolding s2_def
    by (auto intro!: sane_update_rows simp: keeps_primary_set_state_row [unfolded keeps_primary_def])
  have "set_dag_run_state_to_failed env d run_id True s = map_option (\<lambda>r. bind_err r (\<lambda>(altered, s3).
      Inr (map ti_primary (filter (not_started d run_id) (db_tis s1)) @ altered, s3)))
      (mark_tasks env d (map (\<lambda>t. (t, None)) tasks) run_id False False False False FAILED True s2)"
    using assms(2) by (simp add: set_dag_run_state_to_failed_def s1 Let_def running_def tasks_def s2_def skip_fold [OF sane(1)])
  with assms(1) obtain altered' where m: "mark_tasks env d (map (\<lambda>t. (t, None)) tasks) run_id False False False False FAILED True s2 = Some (Inr (altered', s'))"
    by auto
  have "settled x \<or> (ti_state x \<in> set being_run \<and> ti_task_id x \<in> op_task_id ` set tasks)"
    if x: "x \<in> set (db_tis s2)" "ti_dag_id x = d_dag_id d" "ti_run_id x = run_id" "has_task d (ti_task_id x)" for x
  proof -
    from x(1) obtain y where y: "y \<in> set (db_tis s1)" "x = ?skip y" by (auto simp: s2_def)
    show ?thesis
    proof (cases "not_started d run_id y")
      case False
      with y have xy: "x = y" by simp
      from has_task_op [OF assms(3) x(4)] obtain op where op: "op \<in> set (dag_tasks d)" "op_task_id op = ti_task_id x" by blast
      have "ti_task_id x \<in> op_task_id ` set tasks" if "ti_state x \<in> set being_run"
      proof -
        have "ti_task_id x \<in> set running" unfolding running_def set_map set_filter
        proof (intro imageI CollectI conjI)
          show "ti_task_id x \<in> op_task_id ` set (dag_tasks d)" unfolding op(2) [symmetric] using op(1) by (rule imageI)
        qed (use y(1) xy x that in simp_all)
        with op show ?thesis unfolding op(2) [symmetric] by (intro imageI) (simp add: tasks_def)
      qed
      with False xy x(2,3) show ?thesis unfolding not_started_def settled_def by blast
    qed (use y in \<open>simp add: settled_def\<close>)
  qed
  moreover have "find_dr s2 (d_dag_id d) run_id \<noteq> None" using s1_spec(3) by (auto simp: find_dr_def s2_def)
  moreover have "set tasks \<subseteq> set (dag_tasks d)" by (simp add: tasks_def)
  ultimately show ?thesis using m sane(2) by (intro exI [of _ tasks] exI [of _ s2] exI [of _ altered']) blast
qed

text \<open>
  C31. When a user fails a run, no task instance of a task of the DAG is left running, waiting or
  queued in it: each is in a final state, or has no state (the query for those that are not finished
  does not find rows without state).
\<close>

theorem failed_run_is_over:
  assumes "set_dag_run_state_to_failed env d run_id True s = Some (Inr (altered, s'))" "run_id \<noteq> []"
    "keeps_identity (me_hook env)" "wf_dag d" "sane s"
    "ti \<in> set (db_tis s')" "ti_dag_id ti = d_dag_id d" "ti_run_id ti = run_id" "has_task d (ti_task_id ti)"
  shows "finished (ti_state ti) \<or> ti_state ti = None"
proof -
  from failed_run_steps [OF assms(1,2,4,5)] obtain tasks s2 altered' where
    m: "mark_tasks env d (map (\<lambda>t. (t, None)) tasks) run_id False False False False FAILED True s2 = Some (Inr (altered', s'))"
    and s2: "sane s2" "set tasks \<subseteq> set (dag_tasks d)" "find_dr s2 (d_dag_id d) run_id \<noteq> None"
    and states: "\<forall>x \<in> set (db_tis s2). ti_dag_id x = d_dag_id d \<longrightarrow> ti_run_id x = run_id \<longrightarrow> has_task d (ti_task_id x) \<longrightarrow>
       settled x \<or> (ti_state x \<in> set being_run \<and> ti_task_id x \<in> op_task_id ` set tasks)"
    by (elim exE conjE) (rule that)
  have "settled ti"
  proof (cases "tasks = []")
    case True
    with m have "s' = s2" by (simp add: mark_tasks_def)
    with states assms(6-9) True show ?thesis by auto
  next
    case False
    then have "map (\<lambda>t. (t, None)) tasks \<noteq> ([] :: (operator \<times> int option) list)" by simp
    from mark_tasks_rows [OF m this assms(3,4) s2(1)] obtain run_ids task_ids s3 where
      r: "get_run_ids env d run_id False False s2 = Some (Inr run_ids)" "find_task_relatives d (map (\<lambda>t. (t, None)) tasks) False False = Inr task_ids" "in_step s2 s3"
      "s' = s3\<lparr>db_tis := map (\<lambda>ti. if marks d FAILED task_ids run_ids ti then mark_row (ce_now env) FAILED ti else ti) (db_tis s3)\<rparr>"
      by (elim exE conjE) (rule that)
    have "\<forall>(op, i) \<in> set (map (\<lambda>t. (t, None :: int option)) tasks). dict_get (d_task_dict d) (op_task_id op) = Some op"
      using wf_dag_tasks(1) [OF assms(4)] s2(2) by auto
    note chosen = find_task_relatives_spec [OF assms(4) r(2) this]
    from s2(3) obtain dr where "find_dr s2 (d_dag_id d) run_id = Some dr" by blast
    from run_id_found [OF r(1) this] have in_runs: "run_id \<in> set run_ids" .
    from assms(6) r(4) obtain x where x: "x \<in> set (db_tis s3)" "ti = (if marks d FAILED task_ids run_ids x then mark_row (ce_now env) FAILED x else x)" by auto
    show ?thesis
    proof (cases "marks d FAILED task_ids run_ids x")
      case False
      with x have ti: "ti = x" by simp
      from in_step_row [OF r(3) x(1)] consider "ti_state ti \<in> {None, Some REMOVED}"
        | y where "y \<in> set (db_tis s2)" "ti_primary y = ti_primary ti" "ti_state y = ti_state ti" unfolding ti by (elim disjE bexE conjE)
      then show ?thesis
      proof cases
        case 2
        then have "ti_dag_id y = ti_dag_id ti" "ti_run_id y = ti_run_id ti" "ti_task_id y = ti_task_id ti" by (auto simp: ti_primary_def)
        with states [rule_format, OF 2(1)] assms(7-9)
        have "settled y \<or> (ti_state y \<in> set being_run \<and> ti_task_id ti \<in> op_task_id ` set tasks)" by simp
        then have "settled ti \<or> (ti_state ti \<in> set being_run \<and> ti_task_id ti \<in> op_task_id ` set tasks)"
          by (simp only: settled_def 2(3))
        then consider "settled ti" | "ti_state ti \<in> set being_run" "ti_task_id ti \<in> op_task_id ` set tasks" by blast
        then show ?thesis
        proof cases
          case 2
          then have "ti_selector_condition task_ids x" by (auto simp: chosen ti marked_with_def)
          moreover have "ti_state x \<noteq> Some FAILED" using 2(1) ti by (auto simp: being_run_def)
          ultimately have "marks d FAILED task_ids run_ids x" using in_runs assms(7,8) ti by (simp add: marks_def)
          with False show ?thesis by simp
        qed
      qed (auto simp: settled_def)
    qed (use x in \<open>simp add: settled_def\<close>)
  qed
  then show ?thesis by (simp add: settled_def)
qed

lemma failed_run_is_over_witness:
  "\<exists>altered s' ti. set_dag_run_state_to_failed sample_mark_env sample_marked ''r'' True
      (sample_db [sample_ti ''a'' (Some RUNNING), sample_ti ''b'' (Some QUEUED)]) = Some (Inr (altered, s')) \<and>
    ti \<in> set (db_tis s') \<and> ti_task_id ti = ''b'' \<and> (finished (ti_state ti) \<or> ti_state ti = None)"
proof -
  let ?s = "sample_db [sample_ti ''a'' (Some RUNNING), sample_ti ''b'' (Some QUEUED)]"
  let ?m = "set_dag_run_state_to_failed sample_mark_env sample_marked ''r'' True ?s"
  have "case ?m of Some (Inr (k, s')) \<Rightarrow> (case db_tis s' of [x, ti] \<Rightarrow> ti_task_id ti = ''b'' \<and> ti_dag_id ti = ''d'' \<and> ti_run_id ti = ''r'' | _ \<Rightarrow> False)
    | _ \<Rightarrow> False" by code_simp
  then obtain altered s' where r: "?m = Some (Inr (altered, s'))" and
    rows: "case db_tis s' of [x, ti] \<Rightarrow> ti_task_id ti = ''b'' \<and> ti_dag_id ti = ''d'' \<and> ti_run_id ti = ''r'' | _ \<Rightarrow> False"
    by (rule mark_resultE)
  from rows obtain x ti where ti: "db_tis s' = [x, ti]" "ti_task_id ti = ''b''" "ti_dag_id ti = ''d''" "ti_run_id ti = ''r''"
    by (elim second_row conjE)
  have "finished (ti_state ti) \<or> ti_state ti = None"
  proof (rule failed_run_is_over [OF r _ sample_mark_env_hook sample_marked_wf])
    show "has_task sample_marked (ti_task_id ti)" unfolding ti(2) by code_simp
    show "ti_dag_id ti = d_dag_id sample_marked" using ti by (simp add: sample_marked_def sample_chain_def sample_defs)
  qed (use ti in \<open>simp_all add: sane_def sample_defs ti_primary_def\<close>)
  moreover have "ti \<in> set (db_tis s')" using ti(1) by simp
  ultimately show ?thesis using r ti(2) by (intro exI [of _ altered] exI [of _ s'] exI [of _ ti] conjI)
qed

text \<open>A task instance that had no state when its run was failed has none afterwards.\<close>

lemma stateless_stays:
  "case set_dag_run_state_to_failed sample_mark_env sample_marked ''r'' True (sample_db [sample_ti ''a'' (Some RUNNING), sample_ti ''b'' None]) of
    Some (Inr (_, s')) \<Rightarrow> map ti_state (db_tis s') = [Some FAILED, None] | _ \<Rightarrow> False"
  by code_simp

subsection \<open>What is cleared\<close>

lemma clear_loop_states:
  "clear_loop g ks s = Inr (tries, jobs, s1) \<Longrightarrow> distinct ks \<Longrightarrow> x \<in> set (db_tis s1) \<Longrightarrow>
   if ti_primary x \<in> set ks then ti_state x \<in> {None, Some RESTARTING, Some RUNNING} else x \<in> set (db_tis s)"
proof (induction g ks s arbitrary: tries jobs s1 rule: clear_loop.induct)
  case (2 g k ks s)
  from "2.prems"(1) obtain ti where ti: "find_ti s k = Some ti" by (auto split: option.split_asm)
  with "2.prems"(1) obtain ti' tries' jobs' where l: "clear_one g ti = Inr ti'"
    "clear_loop g ks (update_ti k (\<lambda>_. ti') s) = Inr (tries', jobs', s1)" by auto
  have row: "ti_primary ti' = k" "ti_state ti' \<in> {None, Some RESTARTING, Some RUNNING}"
    using clear_one_row [OF l(1)] find_ti_Some [OF ti] by (auto split: if_split_asm)
  from "2.IH" [OF ti l] "2.prems"(2,3)
  have ih: "if ti_primary x \<in> set ks then ti_state x \<in> {None, Some RESTARTING, Some RUNNING} else x \<in> set (db_tis (update_ti k (\<lambda>_. ti') s))"
    by simp
  show ?case
  proof (cases "ti_primary x \<in> set ks")
    case False
    with ih have "x \<in> set (db_tis (update_ti k (\<lambda>_. ti') s))" by simp
    then have "x = ti' \<or> (x \<in> set (db_tis s) \<and> ti_primary x \<noteq> k)" by (auto simp: update_ti_def split: if_split_asm)
    with row False show ?thesis by auto
  qed (use ih in simp)
qed simp

lemma cleared_states:
  assumes "clear_task_instances now g st ks s = Inr s'" "distinct ks" "x \<in> set (db_tis s')"
  shows "if ti_primary x \<in> set ks then ti_state x \<in> {None, Some RESTARTING, Some RUNNING} else x \<in> set (db_tis s)"
proof -
  from assms(1) obtain tries jobs s1 where l: "clear_loop g ks s = Inr (tries, jobs, s1)" "db_tis s' = db_tis s1"
    by (auto simp: clear_task_instances_def Let_def split: option.split_asm)
  from assms(3) have "x \<in> set (db_tis s1)" by (simp add: l(2))
  from clear_loop_states [OF l(1) assms(2) this] show ?thesis .
qed

definition excluded :: "(id_str \<times> int option) list option \<Rightarrow> task_instance \<Rightarrow> bool" where
  "excluded exclude ti \<longleftrightarrow> (case exclude of None \<Rightarrow> False
     | Some ex \<Rightarrow> (ti_task_id ti, None) \<in> set ex \<or> (ti_task_id ti, Some (ti_map_index ti)) \<in> set ex)"

lemma without_excluded_key: "ti_primary ti \<in> set (without_excluded ex ks) \<longleftrightarrow> ti_primary ti \<in> set ks \<and> \<not> excluded ex ti"
  by (auto simp: without_excluded_def excluded_def ti_primary_def split: option.split)

text \<open>With one task excluded, all that the query selects is cleared but for that task.\<close>

lemma to_clear_spec:
  assumes "get_task_instances_to_clear env d q s = Inr tis" "tq_exclude_task_ids q = Some [(t, None)]"
  shows "\<And>ti. ti \<in> set (query_rows (ce_now env) d q s) \<Longrightarrow> ti_task_id ti \<noteq> t \<Longrightarrow> ti \<in> set tis"
    and "\<And>ti. ti \<in> set tis \<Longrightarrow> ti_task_id ti \<noteq> t"
    and "sane s \<Longrightarrow> distinct (map ti_primary tis)"
proof -
  let ?rows = "query_rows (ce_now env) d q s"
  have rows: "set ?rows \<subseteq> set (db_tis s)" by (auto simp: query_rows_def)
  have ex: "excluded (Some [(t, None)]) ti \<longleftrightarrow> ti_task_id ti = t" for ti by (simp add: excluded_def)
  from assms obtain found limit visited where
    "visit_markers env s q d 0 (get_task_instance_keys (Suc (length (db_tis s))) env s 1) None [] = Inr (found, limit, visited)" and
    tis: "tis = (let result = (if found = [] then [] else without_excluded (Some [(t, None)]) (set_update found (map ti_primary ?rows))) in
       if result \<noteq> [] then filter (\<lambda>ti. filter_selects (filter_for_tis result) (ti_primary ti)) (db_tis s)
       else filter (\<lambda>ti. (ti_task_id ti, None :: int option) \<notin> {(t, None)}) ?rows)"
    by (auto simp: get_task_instances_to_clear_def Let_def simp del: bind_err_Inr_iff elim!: bind_err_InrE)
  define result where "result = (if found = [] then [] else without_excluded (Some [(t, None)]) (set_update found (map ti_primary ?rows)))"
  have tis: "tis = (if result \<noteq> [] then filter (\<lambda>ti. ti_primary ti \<in> set result) (db_tis s) else filter (\<lambda>ti. ti_task_id ti \<noteq> t) ?rows)"
    unfolding tis result_def [symmetric] Let_def by (simp add: filter_for_tis_selects)
  have result: "ti_primary ti \<in> set result \<longleftrightarrow> found \<noteq> [] \<and> ti_primary ti \<in> set (set_update found (map ti_primary ?rows)) \<and> ti_task_id ti \<noteq> t" for ti
    unfolding result_def by (simp add: without_excluded_key ex)
  show "ti \<in> set tis" if "ti \<in> set ?rows" "ti_task_id ti \<noteq> t" for ti
  proof (cases "result = []")
    case False
    then have "found \<noteq> []" by (auto simp: result_def)
    with that have "ti_primary ti \<in> set result" unfolding result by simp
    with that(1) rows False show ?thesis by (auto simp: tis)
  qed (use that in \<open>simp add: tis\<close>)
  show "ti_task_id ti \<noteq> t" if "ti \<in> set tis" for ti
    using that result [of ti] by (auto simp: tis split: if_split_asm)
  show "distinct (map ti_primary tis)" if "sane s"
    using that unfolding tis by (auto simp: sane_def query_rows_def distinct_map_filter)
qed

text \<open>The DAG that is cleared after a mark: the task and what is downstream of it, of the same name.\<close>

lemma downstream_subset:
  assumes "partial_subset d (\<lambda>u. u = t) True False False = Inr sub" "wf_dag d" "has_task d t"
  shows "d_dag_id sub = d_dag_id d" "(t, u) \<in> (edges d False)\<^sup>+ \<Longrightarrow> has_task sub u"
proof -
  let ?M = "{u. has_task d u \<and> u = t}"
  from partial_subset_tasks [OF assms(2), of "\<lambda>u. u = t" True False False] obtain ids d' where
    p: "partial_subset d (\<lambda>u. u = t) True False False = Inr d'" and
    ids: "\<forall>x \<in> set ids. has_task d x" "set ids = ?M \<union> (\<Union>x \<in> ?M. brought_in d True False ?M x) \<union>
      (if False then {u. \<exists>x \<in> ?M \<union> (\<Union>x \<in> ?M. brought_in d True False ?M x). (x, u) \<in> edges d True} else {})"
    and d': "d' = d\<lparr>d_task_dict := map (\<lambda>(k, t). (k, cut_relatives (dict_keys (task_dict_of (map (dag_op d) ids))) t)) (task_dict_of (map (dag_op d) ids)),
       d_partial := (length (task_dict_of (map (dag_op d) ids)) < length (d_task_dict d) \<or> d_partial d)\<rparr>"
    by (elim exE conjE) (rule that)
  have "d' = sub" using p assms(1) by (simp only: sum.inject)
  note sub = d' [unfolded this]
  show "d_dag_id sub = d_dag_id d" by (simp add: sub)
  have id: "op_task_id (dag_op d x) = x" if "x \<in> set ids" for x
    using ids(1) that wf_dag_opD(1) [OF assms(2)] by (simp add: has_task_iff_dag_op)
  have dict: "d_task_dict sub = map (\<lambda>(k, t). (k, cut_relatives (dict_keys (task_dict_of (map (dag_op d) ids))) t)) (task_dict_of (map (dag_op d) ids))"
    by (simp add: sub)
  note keys = cut_dag_wf(2) [OF assms(2) _ dict task_dict_of_lookup(3) [of ids "dag_op d", OF id]]
  show "has_task sub u" if u: "(t, u) \<in> (edges d False)\<^sup>+"
  proof -
    have "u \<in> brought_in d True False {u. has_task d u \<and> u = t} t" using u by (simp add: brought_in_def)
    with assms(3) have "u \<in> set ids" by (auto simp: ids(2))
    with keys ids(1) show ?thesis by (auto simp: has_task_def dict_has_iff in_dict_keys_iff [symmetric])
  qed
qed

lemma marked_task_rows:
  assumes "mark_tasks env d [(op, None)] run_id False False False False st True s = Some (Inr (altered, s1))"
    "keeps_identity (me_hook env)" "wf_dag d" "sane s" "find_dr s (d_dag_id d) run_id \<noteq> None"
    "dict_get (d_task_dict d) t = Some op"
  shows "sane s1" "\<And>x. x \<in> set (db_tis s1) \<Longrightarrow> ti_dag_id x = d_dag_id d \<Longrightarrow> ti_run_id x = run_id \<Longrightarrow> ti_task_id x = t \<Longrightarrow> ti_state x = Some st"
proof -
  have id: "op_task_id op = t" using wf_dag_opD(1) [OF assms(3,6)] .
  have ne: "[(op, None :: int option)] \<noteq> []" by simp
  from mark_tasks_rows [OF assms(1) ne assms(2-4)] obtain run_ids task_ids s0 where
    r: "get_run_ids env d run_id False False s = Some (Inr run_ids)" "find_task_relatives d [(op, None)] False False = Inr task_ids" "sane s0"
    "s1 = s0\<lparr>db_tis := map (\<lambda>ti. if marks d st task_ids run_ids ti then mark_row (ce_now env) st ti else ti) (db_tis s0)\<rparr>"
    by (elim exE conjE) (rule that)
  from assms(5) run_id_found [OF r(1)] have in_runs: "run_id \<in> set run_ids" by blast
  have rel: "\<forall>(op', i) \<in> set [(op, None :: int option)]. dict_get (d_task_dict d) (op_task_id op') = Some op'" using assms(6) id by simp
  have chosen: "ti_selector_condition task_ids x \<longleftrightarrow> ti_task_id x = t" for x
    unfolding find_task_relatives_spec [OF assms(3) r(2) rel] by (auto simp: marked_with_def id)
  show "ti_state x = Some st" if "x \<in> set (db_tis s1)" "ti_dag_id x = d_dag_id d" "ti_run_id x = run_id" "ti_task_id x = t" for x
  proof -
    from that(1) r(4) have "x \<in> (\<lambda>y. if marks d st task_ids run_ids y then mark_row (ce_now env) st y else y) ` set (db_tis s0)" by simp
    then obtain y where y: "x = (if marks d st task_ids run_ids y then mark_row (ce_now env) st y else y)" by (rule imageE)
    show ?thesis
    proof (cases "marks d st task_ids run_ids y")
      case False
      with y that in_runs show ?thesis by (auto simp: marks_def chosen)
    qed (simp add: y)
  qed
  show "sane s1" unfolding r(4) using r(3) by (intro sane_update_rows) simp_all
qed

text \<open>
  C29. When a user marks a task of a run as successful, its task instances there are successes, and
  no task instance of the run downstream of it is left failed or held back by a failure: those were
  cleared to be run again.
\<close>

theorem success_resumes_downstream:
  assumes "set_task_instance_state env d t None run_id SUCCESS False False False False True s = Some (Inr (altered, s'))"
    "keeps_identity (me_hook env)" "wf_dag d" "sane s" "find_dr s (d_dag_id d) run_id \<noteq> None"
    "ti \<in> set (db_tis s')" "ti_dag_id ti = d_dag_id d" "ti_run_id ti = run_id"
  shows "(ti_task_id ti = t \<longrightarrow> ti_state ti = Some SUCCESS) \<and>
    ((t, ti_task_id ti) \<in> (edges d False)\<^sup>+ \<longrightarrow> ti_state ti \<notin> {Some FAILED, Some UPSTREAM_FAILED})"
proof -
  from assms(1) obtain op s1 sub dr n where op: "get_task d t = Inr op" and run: "run_id \<noteq> []" and
    m: "mark_tasks env d [(op, None)] run_id False False False False SUCCESS True s = Some (Inr (altered, s1))" and
    sub: "partial_subset d (\<lambda>u. u = t) True False False = Inr sub" and dr: "find_dr s1 (d_dag_id d) run_id = Some dr" and
    c: "dag_clear (clear_env.truncate env) sub None (Some (dr_execution_date dr)) (Some (dr_execution_date dr)) True False True
        (Some DR_QUEUED) (Some [(t, None)]) s1 = Inr (n, s')"
    by (auto simp: set_task_instance_state_def simp del: bind_err_Inr_iff elim!: bind_err_InrE split: if_split_asm sum.split_asm option.split_asm prod.split_asm)
  have dict: "dict_get (d_task_dict d) t = Some op" using op by (simp add: get_task_def split: option.split_asm)
  then have has: "has_task d t" by (auto simp: has_task_def dict_has_iff)
  note marked = marked_task_rows [OF m assms(2-5) dict]
  let ?q = "\<lparr>tq_task_ids = None, tq_start_date = Some (dr_execution_date dr), tq_end_date = Some (dr_execution_date dr), tq_run_id = None,
      tq_states = [Some FAILED, Some UPSTREAM_FAILED], tq_include_subdags = True, tq_include_dependent_dags = True,
      tq_exclude_task_ids = Some [(t, None)]\<rparr>"
  from c obtain tis where tis: "get_task_instances_to_clear (clear_env.truncate env) sub ?q s1 = Inr tis"
    by (auto simp: dag_clear_def Let_def)
  note spec = to_clear_spec [OF tis, of t, simplified]
  have state: "if ti_primary ti \<in> ti_primary ` set tis then ti_state ti \<in> {None, Some RESTARTING, Some RUNNING} else ti \<in> set (db_tis s1)"
  proof (cases "tis = []")
    case True
    with c tis assms(6) show ?thesis by (simp add: dag_clear_def Let_def)
  next
    case False
    with c tis obtain g where "clear_task_instances (ce_now env) g (Some DR_QUEUED) (map ti_primary tis) s1 = Inr s'"
      by (auto simp: dag_clear_def Let_def clear_env.truncate_def)
    from cleared_states [OF this spec(3) [OF marked(1)] assms(6)] show ?thesis by simp
  qed
  show ?thesis
  proof (cases "ti_primary ti \<in> ti_primary ` set tis")
    case True
    then obtain x where "x \<in> set tis" "ti_primary x = ti_primary ti" by auto
    with spec(2) [of x] have "ti_task_id ti \<noteq> t" by (auto simp: ti_primary_def)
    with state True show ?thesis by auto
  next
    case False
    with state have ti: "ti \<in> set (db_tis s1)" by simp
    have "ti_state ti \<notin> {Some FAILED, Some UPSTREAM_FAILED}" if down: "(t, ti_task_id ti) \<in> (edges d False)\<^sup>+"
    proof
      assume st: "ti_state ti \<in> {Some FAILED, Some UPSTREAM_FAILED}"
      have "ti_task_id ti \<noteq> t" using marked(2) [OF ti assms(7,8)] st by auto
      moreover have "ti \<in> set (query_rows (ce_now (clear_env.truncate env)) sub ?q s1)"
        using ti assms(7,8) dr st downstream_subset [OF sub assms(3) has] down by (auto simp: query_rows_def)
      ultimately have "ti \<in> set tis" using spec(1) by blast
      with False show False by blast
    qed
    with marked(2) [OF ti assms(7,8)] show ?thesis by blast
  qed
qed

lemma success_resumes_downstream_witness:
  "\<exists>altered s' ti. set_task_instance_state sample_mark_env sample_marked ''a'' None ''r'' SUCCESS False False False False True
      (sample_db [sample_ti ''a'' (Some FAILED), sample_ti ''b'' (Some UPSTREAM_FAILED)]) = Some (Inr (altered, s')) \<and>
    ti \<in> set (db_tis s') \<and> ti_task_id ti = ''b'' \<and> ti_state ti \<noteq> Some UPSTREAM_FAILED"
proof -
  let ?s = "sample_db [sample_ti ''a'' (Some FAILED), sample_ti ''b'' (Some UPSTREAM_FAILED)]"
  let ?m = "set_task_instance_state sample_mark_env sample_marked ''a'' None ''r'' SUCCESS False False False False True ?s"
  have "case ?m of Some (Inr (k, s')) \<Rightarrow> (case db_tis s' of [x, ti] \<Rightarrow> ti_task_id ti = ''b'' \<and> ti_dag_id ti = ''d'' \<and> ti_run_id ti = ''r'' | _ \<Rightarrow> False)
    | _ \<Rightarrow> False" by code_simp
  then obtain altered s' where r: "?m = Some (Inr (altered, s'))" and
    rows: "case db_tis s' of [x, ti] \<Rightarrow> ti_task_id ti = ''b'' \<and> ti_dag_id ti = ''d'' \<and> ti_run_id ti = ''r'' | _ \<Rightarrow> False"
    by (rule mark_resultE)
  from rows obtain x ti where ti: "db_tis s' = [x, ti]" "ti_task_id ti = ''b''" "ti_dag_id ti = ''d''" "ti_run_id ti = ''r''"
    by (elim second_row conjE)
  have "(''a'', ti_task_id ti) \<in> (edges sample_marked False)\<^sup>+" unfolding ti(2) sample_marked_edges sample_chain_edges by blast
  moreover have "(ti_task_id ti = ''a'' \<longrightarrow> ti_state ti = Some SUCCESS) \<and>
    ((''a'', ti_task_id ti) \<in> (edges sample_marked False)\<^sup>+ \<longrightarrow> ti_state ti \<notin> {Some FAILED, Some UPSTREAM_FAILED})"
    by (rule success_resumes_downstream [OF r sample_mark_env_hook sample_marked_wf])
      (use ti in \<open>simp_all add: sane_def sample_defs ti_primary_def sample_marked_def sample_chain_def find_dr_def\<close>)
  ultimately have "ti_state ti \<noteq> Some UPSTREAM_FAILED" by blast
  moreover have "ti \<in> set (db_tis s')" using ti(1) by simp
  ultimately show ?thesis using r ti(2) by (intro exI [of _ altered] exI [of _ s'] exI [of _ ti] conjI)
qed

end
