(* ===== verification/Serde.thy ===== *)
theory Serde
  imports Metadata "HOL-Library.Sublist"
begin

text \<open>
  Values as text: \<open>serialization/serde.py\<close> with the serializers of the built-in collections
  (\<open>serialization/serializers/builtin.py\<close>), and the JSON encoder and decoder of XComs (\<open>utils/json.py\<close>,
  \<open>models/xcom.py\<close>). JSON text is the tree it stands for. Numbers are integers; the serializers of other
  libraries' objects (numpy, pandas, datetime, \<open>Decimal\<close>, kubernetes) and the classes of users are
  parameters; type hints and pickling are not modelled. Neither is the interpreter's own stack limit.
\<close>

subsection \<open>Python values\<close>

text \<open>A set is the list of its elements in the order it iterates over them; an instance has its class and
  fields. Keys of dicts that are neither None, a number nor a string are not modelled.\<close>

datatype pykey = KNone | KBool bool | KInt int | KStr string

datatype pyobj =
    ONone
  | OBool bool
  | OInt int
  | OStr string
  | OList "pyobj list"
  | OTuple "pyobj list"
  | OSet "pyobj list"
  | OFrozenset "pyobj list"
  | ODict "(pykey \<times> pyobj) list"
  | OInstance string "(string \<times> pyobj) list"

fun key_str :: "pykey \<Rightarrow> string" where
  "key_str KNone = ''None''"
| "key_str (KBool b) = (if b then ''True'' else ''False'')"
| "key_str (KInt i) = str_of_int i"
| "key_str (KStr s) = s"

fun key_obj :: "pykey \<Rightarrow> pyobj" where
  "key_obj KNone = ONone"
| "key_obj (KBool b) = OBool b"
| "key_obj (KInt i) = OInt i"
| "key_obj (KStr s) = OStr s"

text \<open>A dict comprehension: a later entry replaces the value of an earlier one with an equal key.\<close>

definition dict_of :: "('k \<times> 'v) list \<Rightarrow> ('k \<times> 'v) list" where
  "dict_of kvs = fold (\<lambda>(k, v). dict_set k v) kvs []"

lemma dict_of_distinct: "distinct (dict_keys kvs) \<Longrightarrow> dict_of kvs = kvs"
proof -
  have "fold (\<lambda>(k, v). dict_set k v) kvs d = d @ kvs" if "distinct (dict_keys (d @ kvs))" for d
    using that
  proof (induction kvs arbitrary: d)
    case (Cons kv kvs)
    have "dict_set (fst kv) (snd kv) d = d @ [kv]" if "fst kv \<notin> set (dict_keys d)"
      using that by (induction d) (auto simp: dict_keys_def)
    with Cons.prems Cons.IH [of "d @ [kv]"] show ?case by (cases kv) (auto simp: dict_keys_def)
  qed simp
  from this [of "[]"] show "distinct (dict_keys kvs) \<Longrightarrow> dict_of kvs = kvs" by (simp add: dict_of_def)
qed

fun qualname :: "pyobj \<Rightarrow> string" where
  "qualname ONone = ''builtins.NoneType''"
| "qualname (OBool b) = ''builtins.bool''"
| "qualname (OInt i) = ''builtins.int''"
| "qualname (OStr s) = ''builtins.str''"
| "qualname (OList xs) = ''builtins.list''"
| "qualname (OTuple xs) = ''builtins.tuple''"
| "qualname (OSet xs) = ''builtins.set''"
| "qualname (OFrozenset xs) = ''builtins.frozenset''"
| "qualname (ODict d) = ''builtins.dict''"
| "qualname (OInstance c fs) = c"

subsection \<open>Classes and registered serializers\<close>

text \<open>A class: its version, whether it is an attr class, a dataclass or a pydantic model with what that
  gives it, and methods \<open>serialize\<close> and \<open>deserialize\<close> of its own.\<close>

record class_info =
  ci_version :: int
  ci_structural :: bool
  ci_asdict :: "pyobj \<Rightarrow> (string \<times> pyobj) list"
  ci_new :: "(string \<times> pyobj) list \<Rightarrow> pyobj result"
  ci_serialize :: "(pyobj \<Rightarrow> pyobj result) option"
  ci_deserialize :: "(pyobj \<Rightarrow> int \<Rightarrow> pyobj result) option"

text \<open>A module of \<open>serialization/serializers\<close>: the data, class name, version and whether it did serialize.\<close>

record serializer_module =
  sm_serialize :: "pyobj \<Rightarrow> (pyobj \<times> string \<times> int \<times> bool) result"
  sm_deserialize :: "string \<Rightarrow> int \<Rightarrow> pyobj \<Rightarrow> pyobj result"
  sm_stringify :: "(string \<Rightarrow> pyobj \<Rightarrow> pyobj \<Rightarrow> string result) option"

text \<open>The configured patterns, importable names, classes, modules other than \<open>builtin.py\<close>, which classes
  are hashable, and \<open>str()\<close> of a value.\<close>

record serde_env =
  se_match :: "string \<Rightarrow> bool"
  se_importable :: "string \<Rightarrow> bool"
  se_class :: "string \<Rightarrow> class_info"
  se_modules :: "string \<Rightarrow> serializer_module option"
  se_hashable :: "string \<Rightarrow> bool"
  se_str :: "pyobj \<Rightarrow> string"

subsection \<open>Sets\<close>

fun hashable :: "serde_env \<Rightarrow> pyobj \<Rightarrow> bool" where
  "hashable env (OList xs) = False"
| "hashable env (OSet xs) = False"
| "hashable env (ODict d) = False"
| "hashable env (OTuple xs) = list_all (hashable env) xs"
| "hashable env (OInstance c fs) = se_hashable env c"
| "hashable env _ = True"

text \<open>Equality of hashable values; True is 1.\<close>

fun as_number :: "pyobj \<Rightarrow> int option" where
  "as_number (OBool b) = Some (if b then 1 else 0)"
| "as_number (OInt i) = Some i"
| "as_number _ = None"

lemma size_member: "x \<in> set xs \<Longrightarrow> size x \<le> size_list size (xs :: 'a::size list)"
  by (rule size_list_estimation' [OF _ order_refl])

lemma size_members:
  "a \<in> set xs \<Longrightarrow> b \<in> set ys \<Longrightarrow> size a + size b < Suc (Suc (size_list size (xs :: 'a::size list) + size_list size (ys :: 'a list)))"
  using size_member [of a xs] size_member [of b ys] by simp

lemma size_zipped:
  "(a, b) \<in> set (zip xs ys) \<Longrightarrow> size a + size b < Suc (Suc (size_list size (xs :: 'a::size list) + size_list size (ys :: 'a list)))"
  by (rule size_members [OF set_zip_leftD set_zip_rightD])

function same :: "pyobj \<Rightarrow> pyobj \<Rightarrow> bool" where
  "same x y =
     (case (x, y) of
        (OTuple xs, OTuple ys) \<Rightarrow> length xs = length ys \<and> list_all (\<lambda>(a, b). same a b) (zip xs ys)
      | (OFrozenset xs, OFrozenset ys) \<Rightarrow>
          list_all (\<lambda>a. list_ex (\<lambda>b. same a b) ys) xs \<and> list_all (\<lambda>b. list_ex (\<lambda>a. same a b) xs) ys
      | _ \<Rightarrow> x = y \<or> (as_number x \<noteq> None \<and> as_number x = as_number y))"
  by pat_completeness auto

termination
  by (relation "measure (\<lambda>(x, y). size x + size y)") (auto simp: add.commute dest: size_members size_zipped)

declare same.simps [simp del]

definition dedupe :: "pyobj list \<Rightarrow> pyobj list" where
  "dedupe xs = fold (\<lambda>x acc. if list_ex (same x) acc then acc else acc @ [x]) xs []"

definition py_elements :: "serde_env \<Rightarrow> pyobj list \<Rightarrow> pyobj list result" where
  "py_elements env xs = (if list_all (hashable env) xs then Inr (dedupe xs) else Inl (TypeError ''unhashable type''))"

subsection \<open>The module for built-in collections\<close>

definition builtin_serialize :: "pyobj \<Rightarrow> (pyobj \<times> string \<times> int \<times> bool) result" where
  "builtin_serialize o' =
     (case o' of
        OTuple xs \<Rightarrow> Inr (OList xs, qualname o', 1, True)
      | OSet xs \<Rightarrow> Inr (OList xs, qualname o', 1, True)
      | OFrozenset xs \<Rightarrow> Inr (OList xs, qualname o', 1, True)
      | _ \<Rightarrow> Inl (TypeError ''not iterable''))"

text \<open>Iterating over a value.\<close>

fun py_iter :: "pyobj \<Rightarrow> pyobj list result" where
  "py_iter (OList xs) = Inr xs"
| "py_iter (OTuple xs) = Inr xs"
| "py_iter (OSet xs) = Inr xs"
| "py_iter (OFrozenset xs) = Inr xs"
| "py_iter (ODict d) = Inr (map (key_obj \<circ> fst) d)"
| "py_iter (OStr s) = Inr (map (\<lambda>c. OStr [c]) s)"
| "py_iter _ = Inl (TypeError ''not iterable'')"

definition builtin_deserialize :: "serde_env \<Rightarrow> string \<Rightarrow> int \<Rightarrow> pyobj \<Rightarrow> pyobj result" where
  "builtin_deserialize env classname version data =
     (if 1 < version then Inl (TypeError ''serialized version is newer than class version'')
      else if classname = ''builtins.tuple'' then bind_err (py_iter data) (\<lambda>xs. Inr (OTuple xs))
      else if classname = ''builtins.set'' then bind_err (bind_err (py_iter data) (py_elements env)) (\<lambda>xs. Inr (OSet xs))
      else if classname = ''builtins.frozenset''
      then bind_err (bind_err (py_iter data) (py_elements env)) (\<lambda>xs. Inr (OFrozenset xs))
      else Inl (TypeError ''do not know how to deserialize''))"

fun commas :: "string list \<Rightarrow> string" where
  "commas [] = []"
| "commas [s] = s"
| "commas (s # t # ss) = s @ '','' @ commas (t # ss)"

definition builtin_names :: "string list" where
  "builtin_names = [''builtins.frozenset'', ''builtins.set'', ''builtins.tuple'']"

definition builtin_stringify :: "serde_env \<Rightarrow> string \<Rightarrow> pyobj \<Rightarrow> pyobj \<Rightarrow> string result" where
  "builtin_stringify env classname version data =
     (if classname \<notin> set builtin_names then Inl (TypeError ''do not know how to stringify'')
      else bind_err (py_iter data) (\<lambda>ds. Inr (''('' @ commas (map (se_str env) ds) @ '')'')))"

definition registered :: "serde_env \<Rightarrow> string \<Rightarrow> serializer_module option" where
  "registered env c =
     (if c \<in> set builtin_names
      then Some \<lparr>sm_serialize = builtin_serialize, sm_deserialize = builtin_deserialize env,
             sm_stringify = Some (builtin_stringify env)\<rparr>
      else se_modules env c)"

definition importable :: "serde_env \<Rightarrow> string \<Rightarrow> bool" where
  "importable env c \<longleftrightarrow> c \<in> set builtin_names \<or> se_importable env c"

subsection \<open>Serializing\<close>

definition CLASSNAME :: string where "CLASSNAME = ''__classname__''"
definition VERSION :: string where "VERSION = ''__version__''"
definition DATA :: string where "DATA = ''__data__''"
definition SCHEMA_ID :: string where "SCHEMA_ID = ''__id__''"
definition OLD_TYPE :: string where "OLD_TYPE = ''__type''"
definition OLD_DATA :: string where "OLD_DATA = ''__var''"
definition OLD_DICT :: string where "OLD_DICT = ''dict''"

lemmas serde_names = CLASSNAME_def VERSION_def DATA_def SCHEMA_ID_def OLD_TYPE_def OLD_DATA_def OLD_DICT_def

definition encode :: "string \<Rightarrow> int \<Rightarrow> pyobj \<Rightarrow> pyobj" where
  "encode cls version data = ODict [(KStr CLASSNAME, OStr cls), (KStr VERSION, OInt version), (KStr DATA, data)]"

definition decode :: "(pykey \<times> pyobj) list \<Rightarrow> (string \<times> pyobj \<times> pyobj) result" where
  "decode d =
     (case (dict_get d (KStr CLASSNAME), dict_get d (KStr VERSION)) of
        (Some (OStr c), Some v) \<Rightarrow>
          if as_number v = None then Inl (ValueError ''cannot decode'')
          else Inr (c, v, dict_get_or d ONone (KStr DATA))
      | (Some _, Some _) \<Rightarrow> Inl (ValueError ''cannot decode'')
      | _ \<Rightarrow> Inl (KeyError ''classname or version''))"

definition reserved :: "(pykey \<times> pyobj) list \<Rightarrow> bool" where
  "reserved d \<longleftrightarrow> dict_has (KStr CLASSNAME) d \<or> dict_has (KStr SCHEMA_ID) d"

definition fields_dict :: "(string \<times> pyobj) list \<Rightarrow> pyobj" where
  "fields_dict fs = ODict (map (\<lambda>(f, v). (KStr f, v)) fs)"

text \<open>
  \<open>serialize\<close>; the first argument is what is left of \<open>MAX_RECURSION_DEPTH\<close>, which the code counts up to.
\<close>

primrec serialize :: "nat \<Rightarrow> serde_env \<Rightarrow> pyobj \<Rightarrow> pyobj result" where
  "serialize 0 env o' = Inl (RecursionError ''maximum recursion depth reached for serialization'')"
| "serialize (Suc n) env o' =
     (case o' of
        ONone \<Rightarrow> Inr o' | OBool b \<Rightarrow> Inr o' | OInt i \<Rightarrow> Inr o' | OStr s \<Rightarrow> Inr o'
      | OList xs \<Rightarrow> bind_err (map_err (serialize n env) xs) (\<lambda>ys. Inr (OList ys))
      | ODict d \<Rightarrow>
          if reserved d then Inl (AttributeError ''reserved key found in dict to serialize'')
          else bind_err (map_err (\<lambda>(k, v). bind_err (serialize n env v) (\<lambda>v'. Inr (KStr (key_str k), v'))) d)
            (\<lambda>kvs. Inr (ODict (dict_of kvs)))
      | _ \<Rightarrow>
          let qn = qualname o'; cls = se_class env qn; wrap = encode qn (ci_version cls) in
          bind_err (case registered env qn of
              None \<Rightarrow> Inr None
            | Some m \<Rightarrow> bind_err (sm_serialize m o')
                (\<lambda>(data, c, v, is_serialized). Inr (if is_serialized then Some (data, c, v) else None))) (\<lambda>r.
            (case r of
               Some (data, c, v) \<Rightarrow> bind_err (serialize n env data) (\<lambda>d. Inr (encode c v d))
             | None \<Rightarrow>
                 (case ci_serialize cls of
                    Some f \<Rightarrow> bind_err (f o') (\<lambda>data.
                      (case data of ODict d \<Rightarrow> bind_err (serialize n env data) (\<lambda>d'. Inr (wrap d')) | _ \<Rightarrow> Inr (wrap data)))
                  | None \<Rightarrow>
                      if ci_structural cls
                      then bind_err (serialize n env (fields_dict (ci_asdict cls o'))) (\<lambda>d. Inr (wrap d))
                      else Inl (TypeError ''cannot serialize object'')))))"

subsection \<open>Deserializing\<close>

text \<open>\<open>_convert\<close>: the encoding of older versions.\<close>

definition convert :: "(pykey \<times> pyobj) list \<Rightarrow> pyobj" where
  "convert old =
     (case (dict_get old (KStr OLD_TYPE), dict_get old (KStr OLD_DATA)) of
        (Some t, Some v) \<Rightarrow>
          if t = OStr OLD_DICT then v
          else ODict [(KStr CLASSNAME, t), (KStr VERSION, OInt 0), (KStr DATA, v)]
      | _ \<Rightarrow> ODict old)"

text \<open>
  What \<open>convert\<close> returns need not be a dict, and nothing else survives the lines that follow: \<open>in\<close> raises
  for what has no members, \<open>items\<close> for what has, unless both names are members and it is subscripted.
\<close>

fun holds_name :: "string \<Rightarrow> pyobj \<Rightarrow> bool option" where
  "holds_name s (OStr t) = Some (sublist s t)"
| "holds_name s (OList xs) = Some (OStr s \<in> set xs)"
| "holds_name s (OTuple xs) = Some (OStr s \<in> set xs)"
| "holds_name s (OSet xs) = Some (OStr s \<in> set xs)"
| "holds_name s (OFrozenset xs) = Some (OStr s \<in> set xs)"
| "holds_name s _ = None"

definition not_a_dict :: "pyobj \<Rightarrow> error" where
  "not_a_dict x =
     (if holds_name CLASSNAME x = None \<or> (holds_name CLASSNAME x = Some True \<and> holds_name VERSION x = Some True)
      then TypeError ''not a dict'' else AttributeError ''items'')"

text \<open>\<open>",".join(str(x))\<close> puts a comma between the characters.\<close>

definition join_chars :: "string \<Rightarrow> string" where
  "join_chars s = commas (map (\<lambda>c. [c]) s)"

fun num_str :: "pyobj \<Rightarrow> string" where
  "num_str (OBool b) = key_str (KBool b)"
| "num_str (OInt i) = str_of_int i"
| "num_str _ = []"

lemma size_dict_value: "(k, v) \<in> set d \<Longrightarrow> size v < size (ODict d)"
  by (induction d) auto

lemma size_dict_get: "dict_get d k = Some v \<Longrightarrow> size v < size (ODict d)"
  by (blast intro: size_dict_value dest: map_of_SomeD)

lemma size_convert:
  assumes "convert d = ODict d'" "(k, v) \<in> set d'"
  shows "size v < size (ODict d)"
proof (cases "dict_get d (KStr OLD_TYPE)")
  case None
  with assms show ?thesis using size_dict_value [of k v d] by (simp add: convert_def)
next
  case t: (Some t)
  show ?thesis
  proof (cases "dict_get d (KStr OLD_DATA)")
    case None
    with assms t show ?thesis using size_dict_value [of k v d] by (simp add: convert_def)
  next
    case w: (Some w)
    have t_less: "size t < size (ODict d)" and w_less: "size w < size (ODict d)"
      using size_dict_get [OF t] size_dict_get [OF w] .
    show ?thesis
    proof (cases "t = OStr OLD_DICT")
      case True
      with assms t w have "w = ODict d'" by (simp add: convert_def)
      with size_dict_value [OF assms(2)] w_less show ?thesis by simp
    next
      case False
      with assms t w have "v = t \<or> v = OInt 0 \<or> v = w" by (auto simp: convert_def)
      moreover have "size (OInt 0) < size (ODict d)" using t by (cases d) simp_all
      ultimately show ?thesis using t_less w_less by blast
    qed
  qed
qed

lemma size_decode:
  assumes "convert d = ODict d'" "decode d' = Inr (c, v, x)"
  shows "size x < size (ODict d)"
proof -
  have "x = ONone \<or> dict_get d' (KStr DATA) = Some x"
    using assms(2) by (auto simp: decode_def dict_get_or_def split: option.split_asm pyobj.split_asm if_split_asm)
  then show ?thesis using size_convert [OF assms(1)] by (auto dest: map_of_SomeD)
qed

lemma size_decode_value:
  assumes "convert d = ODict d'" "decode d' = Inr (c, v, ODict dv)" "(k, x) \<in> set dv"
  shows "size x < size (ODict d)"
  using size_dict_value [OF assms(3)] size_decode [OF assms(1,2)] by simp

lemma size_element:
  "x \<in> set xs \<Longrightarrow> size x < size (OList xs)" "x \<in> set xs \<Longrightarrow> size x < size (OTuple xs)"
  "x \<in> set xs \<Longrightarrow> size x < size (OSet xs)" "x \<in> set xs \<Longrightarrow> size x < size (OFrozenset xs)"
  by (auto dest: size_member)

text \<open>
  \<open>deserialize\<close> without type hint. Only a plain dict hands \<open>full\<close> on; the elements of a collection and
  the data of an object are deserialized in full.
\<close>

function deserialize :: "serde_env \<Rightarrow> bool \<Rightarrow> pyobj \<Rightarrow> pyobj result" where
  "deserialize env full o' =
     (case o' of
        OList xs \<Rightarrow> bind_err (map_err (\<lambda>x. deserialize env True x) xs) (\<lambda>ys. Inr (OList ys))
      | OFrozenset xs \<Rightarrow> bind_err (map_err (\<lambda>x. deserialize env True x) xs) (\<lambda>ys. Inr (OList ys))
      | OTuple xs \<Rightarrow> bind_err (map_err (\<lambda>x. deserialize env True x) xs) (\<lambda>ys. Inr (OTuple ys))
      | OSet xs \<Rightarrow> bind_err (map_err (\<lambda>x. deserialize env True x) xs) (\<lambda>ys.
          bind_err (py_elements env ys) (\<lambda>zs. Inr (OSet zs)))
      | ODict d \<Rightarrow>
          (case convert d of
             ODict d' \<Rightarrow>
               if \<not> dict_has (KStr CLASSNAME) d' \<or> \<not> dict_has (KStr VERSION) d'
               then bind_err (map_err (\<lambda>(k, v). bind_err (deserialize env full v) (\<lambda>v'. Inr (KStr (key_str k), v'))) d')
                 (\<lambda>kvs. Inr (ODict (dict_of kvs)))
               else bind_err (decode d') (\<lambda>(classname, version, value).
                 if classname = [] then Inl (TypeError ''classname cannot be empty'')
                 else if \<not> full
                 then bind_err
                   (case Option.bind (registered env classname) sm_stringify of
                      Some stringify \<Rightarrow> stringify classname version value
                    | None \<Rightarrow>
                        bind_err
                          (case value of
                             OBool b \<Rightarrow> Inr (se_str env value) | OInt i \<Rightarrow> Inr (se_str env value) | OStr s \<Rightarrow> Inr s
                           | OList xs \<Rightarrow> bind_err (deserialize env False value) (\<lambda>x. Inr (join_chars (se_str env x)))
                           | OTuple xs \<Rightarrow> bind_err (deserialize env False value) (\<lambda>x. Inr (join_chars (se_str env x)))
                           | OSet xs \<Rightarrow> bind_err (deserialize env False value) (\<lambda>x. Inr (join_chars (se_str env x)))
                           | OFrozenset xs \<Rightarrow> bind_err (deserialize env False value) (\<lambda>x. Inr (join_chars (se_str env x)))
                           | ODict dv \<Rightarrow> bind_err (map_err (\<lambda>(k, v). bind_err (deserialize env False v)
                                 (\<lambda>x. Inr (key_str k @ ''='' @ se_str env x))) dv) (\<lambda>ss. Inr (commas ss))
                           | _ \<Rightarrow> Inr []) (\<lambda>t.
                        Inr (classname @ ''@version='' @ num_str version @ ''('' @ t @ '')''))) (\<lambda>t. Inr (OStr t))
                 else if \<not> se_match env classname \<and> registered env classname = None
                 then Inl (ImportError ''not found in allow list'')
                 else if \<not> importable env classname then Inl (ImportError classname)
                 else
                   let cls = se_class env classname; number = the (as_number version) in
                   case registered env classname of
                     Some m \<Rightarrow> bind_err (deserialize env True value) (\<lambda>x. sm_deserialize m classname number x)
                   | None \<Rightarrow>
                       (case ci_deserialize cls of
                          Some f \<Rightarrow> bind_err (deserialize env True value) (\<lambda>x. f x number)
                        | None \<Rightarrow>
                            if \<not> ci_structural cls then Inl (TypeError ''No deserializer found'')
                            else if ci_version cls < number then Inl (TypeError ''serialized version is newer'')
                            else bind_err (deserialize env True value) (\<lambda>x.
                              (case x of ODict fs \<Rightarrow> ci_new cls (map (\<lambda>(k, v). (key_str k, v)) fs)
                               | _ \<Rightarrow> Inl (TypeError ''argument after ** must be a mapping'')))))
           | x \<Rightarrow> Inl (not_a_dict x))
      | _ \<Rightarrow> Inr o')"
  by pat_completeness auto

termination
  by (relation "measure (\<lambda>(env, full, x). size x)")
    (auto simp del: pyobj.size intro: size_element size_convert size_decode size_decode_value)

declare deserialize.simps [simp del]

subsection \<open>XComs as JSON\<close>

fun json_key :: "pykey \<Rightarrow> string" where
  "json_key KNone = ''null''"
| "json_key (KBool b) = (if b then ''true'' else ''false'')"
| "json_key (KInt i) = str_of_int i"
| "json_key (KStr s) = s"

text \<open>\<open>XComEncoder.default\<close> and the walk of \<open>JSONEncoder\<close>, which knows lists, tuples and dicts itself and
  walks what \<open>default\<close> returns. The first argument bounds the nesting, as the interpreter does.\<close>

definition encoder_default :: "nat \<Rightarrow> serde_env \<Rightarrow> pyobj \<Rightarrow> pyobj result" where
  "encoder_default depth env o' =
     (case serialize depth env o' of Inl (TypeError m) \<Rightarrow> Inl (TypeError ''not JSON serializable'') | r \<Rightarrow> r)"

primrec json_walk :: "nat \<Rightarrow> nat \<Rightarrow> serde_env \<Rightarrow> pyobj \<Rightarrow> pyobj result" where
  "json_walk 0 depth env o' = Inl (RecursionError ''maximum recursion depth exceeded'')"
| "json_walk (Suc n) depth env o' =
     (case o' of
        ONone \<Rightarrow> Inr o' | OBool b \<Rightarrow> Inr o' | OInt i \<Rightarrow> Inr o' | OStr s \<Rightarrow> Inr o'
      | OList xs \<Rightarrow> bind_err (map_err (json_walk n depth env) xs) (\<lambda>ys. Inr (OList ys))
      | OTuple xs \<Rightarrow> bind_err (map_err (json_walk n depth env) xs) (\<lambda>ys. Inr (OList ys))
      | ODict d \<Rightarrow> bind_err (map_err (\<lambda>(k, v). bind_err (json_walk n depth env v) (\<lambda>v'. Inr (KStr (json_key k), v'))) d)
          (\<lambda>kvs. Inr (ODict (dict_of kvs)))
      | _ \<Rightarrow> bind_err (encoder_default depth env o') (json_walk n depth env))"

definition encoder_encode :: "nat \<Rightarrow> nat \<Rightarrow> serde_env \<Rightarrow> pyobj \<Rightarrow> pyobj result" where
  "encoder_encode n depth env o' =
     (case o' of
        ODict d \<Rightarrow> if reserved d then Inl (AttributeError ''reserved key found in dict to serialize'') else json_walk n depth env o'
      | OTuple xs \<Rightarrow> bind_err (encoder_default depth env o') (json_walk n depth env)
      | _ \<Rightarrow> json_walk n depth env o')"

text \<open>\<open>XComDecoder\<close>: the hook is called for every object of the text, inner ones first.\<close>

function json_load :: "serde_env \<Rightarrow> bool \<Rightarrow> pyobj \<Rightarrow> pyobj result" where
  "json_load env full o' =
     (case o' of
        OList xs \<Rightarrow> bind_err (map_err (\<lambda>x. json_load env full x) xs) (\<lambda>ys. Inr (OList ys))
      | ODict d \<Rightarrow> bind_err (map_err (\<lambda>(k, v). bind_err (json_load env full v) (\<lambda>v'. Inr (k, v'))) d)
          (\<lambda>kvs. deserialize env full (ODict kvs))
      | _ \<Rightarrow> Inr o')"
  by pat_completeness auto

termination
  by (relation "measure (\<lambda>(env, full, x). size x)") (auto simp del: pyobj.size intro: size_element size_dict_value)

declare json_load.simps [simp del]

definition serialize_value :: "nat \<Rightarrow> nat \<Rightarrow> serde_env \<Rightarrow> pyobj \<Rightarrow> pyobj result" where
  "serialize_value n depth env val = encoder_encode n depth env val"

definition deserialize_value :: "serde_env \<Rightarrow> bool \<Rightarrow> pyobj option \<Rightarrow> pyobj result" where
  "deserialize_value env orm stored = (case stored of None \<Rightarrow> Inr ONone | Some t \<Rightarrow> json_load env (\<not> orm) t)"

end
