(* ===== verification/Serde_Laws.thy ===== *)
theory Serde_Laws
  imports Serde
begin

text \<open>
  Laws of \<open>Serde\<close>: what is serialized is read back, directly and through the JSON text of an XCom.
\<close>

subsection \<open>Values that can be read back\<close>

text \<open>
  The values for which reading back is promised: dicts with strings as keys, none of them reserved and
  not both names of the old encoding among them; instances of attr classes, dataclasses and pydantic
  models that the configuration allows and that are built again from their fields. \<open>frozen\<close> is whether
  frozen sets may occur.
\<close>

inductive travels :: "serde_env \<Rightarrow> bool \<Rightarrow> pyobj \<Rightarrow> bool" for env frozen where
  "travels env frozen ONone"
| "travels env frozen (OBool b)"
| "travels env frozen (OInt i)"
| "travels env frozen (OStr s)"
| "(\<And>x. x \<in> set xs \<Longrightarrow> travels env frozen x) \<Longrightarrow> travels env frozen (OList xs)"
| "(\<And>x. x \<in> set xs \<Longrightarrow> travels env frozen x) \<Longrightarrow> travels env frozen (OTuple xs)"
| "(\<And>x. x \<in> set xs \<Longrightarrow> travels env frozen x) \<Longrightarrow> py_elements env xs = Inr xs \<Longrightarrow> travels env frozen (OSet xs)"
| "frozen \<Longrightarrow> (\<And>x. x \<in> set xs \<Longrightarrow> travels env frozen x) \<Longrightarrow> py_elements env xs = Inr xs \<Longrightarrow>
     travels env frozen (OFrozenset xs)"
| "(\<And>k v. (k, v) \<in> set d \<Longrightarrow> travels env frozen v) \<Longrightarrow> distinct (dict_keys d) \<Longrightarrow> set (dict_keys d) \<subseteq> range KStr \<Longrightarrow>
     \<not> reserved d \<Longrightarrow> \<not> (dict_has (KStr OLD_TYPE) d \<and> dict_has (KStr OLD_DATA) d) \<Longrightarrow> travels env frozen (ODict d)"
| "c \<noteq> [] \<Longrightarrow> registered env c = None \<Longrightarrow> se_match env c \<Longrightarrow> se_importable env c \<Longrightarrow>
     ci_serialize (se_class env c) = None \<Longrightarrow> ci_deserialize (se_class env c) = None \<Longrightarrow> ci_structural (se_class env c) \<Longrightarrow>
     ci_new (se_class env c) (ci_asdict (se_class env c) (OInstance c fs)) = Inr (OInstance c fs) \<Longrightarrow>
     travels env frozen (fields_dict (ci_asdict (se_class env c) (OInstance c fs))) \<Longrightarrow> travels env frozen (OInstance c fs)"

subsection \<open>Lists of values\<close>

lemma enough_levels:
  assumes "\<And>x. x \<in> set xs \<Longrightarrow> \<exists>n::nat. \<forall>m\<ge>n. P m x"
  shows "\<exists>n. \<forall>m\<ge>n. \<forall>x\<in>set xs. P m x"
  using assms
proof (induction xs)
  case (Cons x xs)
  from Cons.prems [of x] obtain a where a: "\<forall>m\<ge>a. P m x" by auto
  from Cons.IH Cons.prems obtain b where b: "\<forall>m\<ge>b. \<forall>y\<in>set xs. P m y" by auto
  show ?case by (rule exI [of _ "max a b"]) (use a b in auto)
qed simp

lemma map_err_inverse:
  assumes "\<And>x. x \<in> set xs \<Longrightarrow> \<exists>y. f x = Inr y \<and> g y = Inr x"
  shows "\<exists>ys. map_err f xs = Inr ys \<and> map_err g ys = Inr xs"
  using assms
proof (induction xs)
  case (Cons x xs)
  from Cons.prems [of x] obtain y where y: "f x = Inr y" "g y = Inr x" by auto
  from Cons.IH Cons.prems obtain ys where ys: "map_err f xs = Inr ys" "map_err g ys = Inr xs" by auto
  show ?case by (rule exI [of _ "y # ys"]) (simp add: y ys)
qed simp

lemma map_err_id:
  "(\<And>x. x \<in> set xs \<Longrightarrow> f x = Inr x) \<Longrightarrow> map_err f xs = Inr xs"
  by (induction xs) simp_all

text \<open>The entries of a dict whose keys are strings.\<close>

lemma map_err_entries:
  assumes "set (dict_keys d) \<subseteq> range KStr" "\<forall>v \<in> snd ` set d. \<exists>y. f v = Inr y \<and> g y = Inr v"
  shows "\<exists>d'. map_err (\<lambda>(k, v). bind_err (f v) (\<lambda>v'. Inr (KStr (key_str k), v'))) d = Inr d' \<and> dict_keys d' = dict_keys d \<and>
    map_err (\<lambda>(k, v). bind_err (g v) (\<lambda>v'. Inr (KStr (key_str k), v'))) d' = Inr d \<and>
    map_err (\<lambda>(k, v). bind_err (g v) (\<lambda>v'. Inr (k, v'))) d' = Inr d"
  using assms
proof (induction d)
  case (Cons kv d)
  obtain k v where kv: "kv = (k, v)" by (cases kv)
  from Cons.prems(1) kv obtain s where k: "k = KStr s" by (auto simp: dict_keys_def)
  from Cons.prems(2) kv obtain y where y: "f v = Inr y" "g y = Inr v" by auto
  from Cons.IH Cons.prems obtain d' where d': "map_err (\<lambda>(k, v). bind_err (f v) (\<lambda>v'. Inr (KStr (key_str k), v'))) d = Inr d'"
    "dict_keys d' = dict_keys d" "map_err (\<lambda>(k, v). bind_err (g v) (\<lambda>v'. Inr (KStr (key_str k), v'))) d' = Inr d"
    "map_err (\<lambda>(k, v). bind_err (g v) (\<lambda>v'. Inr (k, v'))) d' = Inr d"
    by (auto simp: dict_keys_def)
  show ?case by (rule exI [of _ "(k, y) # d'"]) (use d' y in \<open>simp add: kv k dict_keys_def\<close>)
qed (simp add: dict_keys_def)

subsection \<open>Reading one value back\<close>

lemma deserialize_atom [simp]:
  "deserialize env full ONone = Inr ONone" "deserialize env full (OBool b) = Inr (OBool b)"
  "deserialize env full (OInt i) = Inr (OInt i)" "deserialize env full (OStr s) = Inr (OStr s)"
  "deserialize env full (OInstance c fs) = Inr (OInstance c fs)"
  by (subst deserialize.simps, simp)+

lemma deserialize_collection:
  "deserialize env full (OList xs) = bind_err (map_err (deserialize env True) xs) (\<lambda>ys. Inr (OList ys))"
  "deserialize env full (OTuple xs) = bind_err (map_err (deserialize env True) xs) (\<lambda>ys. Inr (OTuple ys))"
  "deserialize env full (OFrozenset xs) = bind_err (map_err (deserialize env True) xs) (\<lambda>ys. Inr (OList ys))"
  "deserialize env full (OSet xs) = bind_err (map_err (deserialize env True) xs) (\<lambda>ys.
     bind_err (py_elements env ys) (\<lambda>zs. Inr (OSet zs)))"
  by (subst deserialize.simps, simp)+

lemma convert_new: "\<not> (dict_has (KStr OLD_TYPE) d \<and> dict_has (KStr OLD_DATA) d) \<Longrightarrow> convert d = ODict d"
  by (auto simp: convert_def dict_has_iff split: option.split)

lemma deserialize_plain:
  assumes "\<not> (dict_has (KStr OLD_TYPE) d \<and> dict_has (KStr OLD_DATA) d)" "\<not> dict_has (KStr CLASSNAME) d"
  shows "deserialize env full (ODict d) =
    bind_err (map_err (\<lambda>(k, v). bind_err (deserialize env full v) (\<lambda>v'. Inr (KStr (key_str k), v'))) d) (\<lambda>kvs. Inr (ODict (dict_of kvs)))"
  by (subst deserialize.simps) (simp add: convert_new [OF assms(1)] assms(2))

lemma deserialize_encode:
  assumes "c \<noteq> []" "se_match env c \<or> registered env c \<noteq> None" "importable env c"
  shows "deserialize env True (encode c v x) =
    (case registered env c of
       Some m \<Rightarrow> bind_err (deserialize env True x) (\<lambda>x. sm_deserialize m c v x)
     | None \<Rightarrow>
         (case ci_deserialize (se_class env c) of
            Some f \<Rightarrow> bind_err (deserialize env True x) (\<lambda>x. f x v)
          | None \<Rightarrow>
              if \<not> ci_structural (se_class env c) then Inl (TypeError ''No deserializer found'')
              else if ci_version (se_class env c) < v then Inl (TypeError ''serialized version is newer'')
              else bind_err (deserialize env True x) (\<lambda>x.
                case x of ODict fs \<Rightarrow> ci_new (se_class env c) (map (\<lambda>(k, v). (key_str k, v)) fs)
                | _ \<Rightarrow> Inl (TypeError ''argument after ** must be a mapping''))))"
proof -
  let ?d = "[(KStr CLASSNAME, OStr c), (KStr VERSION, OInt v), (KStr DATA, x)]"
  have "convert ?d = ODict ?d" by (rule convert_new) (simp add: serde_names dict_has_def)
  moreover have "dict_has (KStr CLASSNAME) ?d" "dict_has (KStr VERSION) ?d" by (simp_all add: dict_has_def)
  moreover have "decode ?d = Inr (c, OInt v, x)" by (simp add: decode_def dict_get_or_def serde_names)
  ultimately show ?thesis using assms
    by (cases "registered env c"; cases "ci_deserialize (se_class env c)"; subst deserialize.simps)
      (simp_all add: encode_def del: bind_err_Inr_iff)
qed

lemma registered_builtin:
  "c \<in> set builtin_names \<Longrightarrow> registered env c = Some \<lparr>sm_serialize = builtin_serialize, sm_deserialize = builtin_deserialize env,
     sm_stringify = Some (builtin_stringify env)\<rparr>"
  by (simp add: registered_def)

text \<open>A collection is read back from the list of its elements, which is a value already read back.\<close>

lemma deserialize_builtin:
  assumes "map_err (deserialize env True) ys = Inr xs"
  shows "deserialize env True (encode ''builtins.tuple'' 1 (OList ys)) = Inr (OTuple xs)"
    "py_elements env xs = Inr xs \<Longrightarrow> deserialize env True (encode ''builtins.set'' 1 (OList ys)) = Inr (OSet xs)"
    "py_elements env xs = Inr xs \<Longrightarrow> deserialize env True (encode ''builtins.frozenset'' 1 (OList ys)) = Inr (OFrozenset xs)"
  using assms
  by (simp_all add: deserialize_encode registered_builtin importable_def builtin_names_def builtin_deserialize_def deserialize_collection)

lemma serialize_collection:
  assumes "map_err (serialize n env) xs = Inr ys"
  shows "serialize (Suc n) env (OList xs) = Inr (OList ys)"
    "serialize (Suc (Suc n)) env (OTuple xs) = Inr (encode ''builtins.tuple'' 1 (OList ys))"
    "serialize (Suc (Suc n)) env (OSet xs) = Inr (encode ''builtins.set'' 1 (OList ys))"
    "serialize (Suc (Suc n)) env (OFrozenset xs) = Inr (encode ''builtins.frozenset'' 1 (OList ys))"
  using assms by (simp_all add: registered_builtin builtin_names_def builtin_serialize_def)

lemma serialize_instance:
  assumes "registered env c = None" "ci_serialize (se_class env c) = None" "ci_structural (se_class env c)"
    "serialize n env (fields_dict (ci_asdict (se_class env c) (OInstance c fs))) = Inr y"
  shows "serialize (Suc n) env (OInstance c fs) = Inr (encode c (ci_version (se_class env c)) y)"
  using assms by simp

lemma deserialize_instance:
  assumes "c \<noteq> []" "registered env c = None" "se_match env c" "se_importable env c" "ci_deserialize (se_class env c) = None"
    "ci_structural (se_class env c)" "deserialize env True y = Inr (fields_dict fs')" "ci_new (se_class env c) fs' = Inr x"
  shows "deserialize env True (encode c (ci_version (se_class env c)) y) = Inr x"
proof -
  have "map (\<lambda>(k, v). (key_str k, v)) (map (\<lambda>(f, v). (KStr f, v)) fs') = fs'" by (induction fs') auto
  then show ?thesis using assms by (simp add: deserialize_encode importable_def fields_dict_def)
qed

subsection \<open>The round trip\<close>

text \<open>With enough levels left, a value is written, and read back as it was.\<close>

definition comes_back :: "serde_env \<Rightarrow> nat \<Rightarrow> pyobj \<Rightarrow> bool" where
  "comes_back env m x \<longleftrightarrow> (\<exists>y. serialize m env x = Inr y \<and> deserialize env True y = Inr x)"

lemma comes_back_elements:
  assumes "\<And>x. x \<in> set xs \<Longrightarrow> \<exists>n. \<forall>m\<ge>n. comes_back env m x"
  shows "\<exists>n. \<forall>m\<ge>n. \<exists>ys. map_err (serialize m env) xs = Inr ys \<and> map_err (deserialize env True) ys = Inr xs"
proof -
  from enough_levels [of xs "comes_back env", OF assms] obtain n where n: "\<forall>m\<ge>n. \<forall>x\<in>set xs. comes_back env m x" by blast
  have "\<exists>ys. map_err (serialize m env) xs = Inr ys \<and> map_err (deserialize env True) ys = Inr xs" if "n \<le> m" for m
    by (rule map_err_inverse) (use n that in \<open>auto simp: comes_back_def\<close>)
  then show ?thesis by blast
qed

lemma comes_back_two_levels:
  assumes "\<exists>n. \<forall>m\<ge>n. \<exists>ys. P m ys" "\<And>m ys. P m ys \<Longrightarrow> comes_back env (Suc (Suc m)) x"
  shows "\<exists>n. \<forall>m\<ge>n. comes_back env m x"
proof -
  from assms(1) obtain n where n: "\<forall>m\<ge>n. \<exists>ys. P m ys" ..
  have "comes_back env m x" if m: "Suc (Suc n) \<le> m" for m
  proof -
    from m obtain k where k: "m = Suc (Suc k)" "n \<le> k" by (metis Suc_le_D Suc_le_mono)
    with n obtain ys where "P k ys" by blast
    with assms(2) k(1) show ?thesis by blast
  qed
  then show ?thesis by blast
qed

lemma comes_back_one_level:
  assumes "\<exists>n. \<forall>m\<ge>n. \<exists>ys. P m ys" "\<And>m ys. P m ys \<Longrightarrow> comes_back env (Suc m) x"
  shows "\<exists>n. \<forall>m\<ge>n. comes_back env m x"
proof -
  from assms(1) obtain n where n: "\<forall>m\<ge>n. \<exists>ys. P m ys" ..
  have "comes_back env m x" if m: "Suc n \<le> m" for m
  proof -
    from m obtain k where k: "m = Suc k" "n \<le> k" by (metis Suc_le_D Suc_le_mono)
    with n obtain ys where "P k ys" by blast
    with assms(2) k(1) show ?thesis by blast
  qed
  then show ?thesis by blast
qed

text \<open>A plain dict on both sides.\<close>

lemma serialize_dict:
  assumes "\<not> reserved d" "map_err (\<lambda>(k, v). bind_err (serialize n env v) (\<lambda>v'. Inr (KStr (key_str k), v'))) d = Inr d'" "distinct (dict_keys d')"
  shows "serialize (Suc n) env (ODict d) = Inr (ODict d')"
  using assms by (simp add: dict_of_distinct)

lemma deserialize_dict:
  assumes "\<not> reserved d" "\<not> (dict_has (KStr OLD_TYPE) d \<and> dict_has (KStr OLD_DATA) d)" "dict_keys d' = dict_keys d" "distinct (dict_keys d)"
    "map_err (\<lambda>(k, v). bind_err (deserialize env full v) (\<lambda>v'. Inr (KStr (key_str k), v'))) d' = Inr d"
  shows "deserialize env full (ODict d') = Inr (ODict d)"
proof -
  have has: "dict_has k d' \<longleftrightarrow> dict_has k d" for k using assms(3) by (metis dict_has_def dict_keys_def set_map)
  with assms show ?thesis by (simp add: deserialize_plain reserved_def dict_of_distinct del: bind_err_Inr_iff)
qed

lemma travels_comes_back:
  assumes "travels env frozen x"
  shows "\<exists>n. \<forall>m\<ge>n. comes_back env m x"
  using assms
proof (induction rule: travels.induct)
  case (5 xs)
  show ?case using comes_back_elements [of xs env, OF 5(2)]
    by (rule comes_back_one_level) (auto simp: comes_back_def deserialize_collection serialize_collection)
next
  case (6 xs)
  show ?case using comes_back_elements [of xs env, OF 6(2)]
    by (rule comes_back_two_levels) (use serialize_collection deserialize_builtin in \<open>auto simp: comes_back_def simp del: serialize.simps\<close>)
next
  case (7 xs)
  show ?case using comes_back_elements [of xs env, OF 7(3)]
    by (rule comes_back_two_levels)
      (use 7(2) serialize_collection deserialize_builtin in \<open>auto simp: comes_back_def simp del: serialize.simps\<close>)
next
  case (8 xs)
  show ?case using comes_back_elements [of xs env, OF 8(4)]
    by (rule comes_back_two_levels)
      (use 8(3) serialize_collection deserialize_builtin in \<open>auto simp: comes_back_def simp del: serialize.simps\<close>)
next
  case (9 d)
  have "\<exists>n. \<forall>m\<ge>n. \<forall>v\<in>set (map snd d). comes_back env m v" by (rule enough_levels) (use 9(6) in auto)
  then obtain n where n: "\<forall>m\<ge>n. \<forall>v\<in>set (map snd d). comes_back env m v" ..
  have again: "comes_back env (Suc m) (ODict d)" if m: "n \<le> m" for m
  proof -
    have "\<forall>v \<in> snd ` set d. \<exists>y. serialize m env v = Inr y \<and> deserialize env True y = Inr v"
      using n m by (simp add: comes_back_def)
    from map_err_entries [OF 9(3), of "serialize m env" "deserialize env True", OF this] obtain d' where
      d': "map_err (\<lambda>(k, v). bind_err (serialize m env v) (\<lambda>v'. Inr (KStr (key_str k), v'))) d = Inr d'" "dict_keys d' = dict_keys d"
      "map_err (\<lambda>(k, v). bind_err (deserialize env True v) (\<lambda>v'. Inr (KStr (key_str k), v'))) d' = Inr d" by (elim exE conjE) (rule that)
    have "serialize (Suc m) env (ODict d) = Inr (ODict d')" by (rule serialize_dict [OF 9(4) d'(1)]) (simp add: d'(2) 9(2))
    moreover have "deserialize env True (ODict d') = Inr (ODict d)" by (rule deserialize_dict [OF 9(4,5) d'(2) 9(2) d'(3)])
    ultimately show ?thesis unfolding comes_back_def by blast
  qed
  show ?case by (rule comes_back_one_level [where P = "\<lambda>m _. n \<le> m"]) (use again in auto)
next
  case (10 c fs)
  show ?case
  proof (rule comes_back_one_level)
    show "\<exists>n. \<forall>m\<ge>n. \<exists>ys::unit. comes_back env m (fields_dict (ci_asdict (se_class env c) (OInstance c fs)))" using 10(10) by simp
    fix m and ys :: unit assume "comes_back env m (fields_dict (ci_asdict (se_class env c) (OInstance c fs)))"
    then obtain y where y: "serialize m env (fields_dict (ci_asdict (se_class env c) (OInstance c fs))) = Inr y"
      "deserialize env True y = Inr (fields_dict (ci_asdict (se_class env c) (OInstance c fs)))" by (auto simp: comes_back_def)
    from serialize_instance [OF 10(2,5,7) y(1)] deserialize_instance [OF 10(1-4,6,7) y(2) 10(8)]
    show "comes_back env (Suc m) (OInstance c fs)" unfolding comes_back_def by blast
  qed
qed (auto simp: comes_back_def intro!: exI [of _ 1] dest!: Suc_le_D)

text \<open>
  C35. What \<open>serialize\<close> writes, \<open>deserialize\<close> reads back: with enough of the recursion depth left, a value
  of collections, dicts, allowed instances and primitive values is written without error and read back
  as it was, with the types of its collections and objects.
\<close>

theorem serde_roundtrip:
  assumes "travels env frozen x"
  shows "\<exists>n. \<forall>m\<ge>n. \<exists>y. serialize m env x = Inr y \<and> deserialize env True y = Inr x"
  using travels_comes_back [OF assms] by (simp add: comes_back_def)

text \<open>An environment with one dataclass, a point with a coordinate.\<close>

definition sample_class :: class_info where
  "sample_class = \<lparr>ci_version = 1, ci_structural = True, ci_asdict = (\<lambda>x. case x of OInstance c fs \<Rightarrow> fs | _ \<Rightarrow> []),
     ci_new = (\<lambda>fs. Inr (OInstance ''m.Point'' fs)), ci_serialize = None, ci_deserialize = None\<rparr>"

definition sample_serde :: serde_env where
  "sample_serde = \<lparr>se_match = (\<lambda>c. c = ''m.Point''), se_importable = (\<lambda>c. c = ''m.Point''), se_class = (\<lambda>_. sample_class),
     se_modules = (\<lambda>_. None), se_hashable = (\<lambda>_. False), se_str = (\<lambda>_. ''...'')\<rparr>"

definition sample_point :: pyobj where
  "sample_point = OInstance ''m.Point'' [(''x'', OInt 3)]"

lemma sample_point_travels: "travels sample_serde frozen sample_point"
  unfolding sample_point_def
proof (rule travels.intros)
  show "travels sample_serde frozen (fields_dict (ci_asdict (se_class sample_serde ''m.Point'') (OInstance ''m.Point'' [(''x'', OInt 3)])))"
    unfolding fields_dict_def
    by (rule travels.intros)
      (auto simp: sample_serde_def sample_class_def dict_keys_def dict_has_def reserved_def serde_names intro: travels.intros)
qed (simp_all add: sample_serde_def sample_class_def registered_def builtin_names_def)

lemma serde_roundtrip_witness:
  "\<exists>n. \<forall>m\<ge>n. \<exists>y. serialize m sample_serde (OTuple [OFrozenset [OInt 1], sample_point]) = Inr y \<and>
    deserialize sample_serde True y = Inr (OTuple [OFrozenset [OInt 1], sample_point])"
proof (rule serde_roundtrip)
  have "py_elements sample_serde [OInt 1] = Inr [OInt 1]" by code_simp
  then have "travels sample_serde True (OFrozenset [OInt 1])" by (intro travels.intros) (auto intro: travels.intros)
  then show "travels sample_serde True (OTuple [OFrozenset [OInt 1], sample_point])"
    by (intro travels.intros) (auto simp: sample_point_travels)
qed

subsection \<open>Through the text of an XCom\<close>

text \<open>What was read back is left alone when it is read again, as it is inside a dict.\<close>

lemma entries_id:
  assumes "set (dict_keys d) \<subseteq> range KStr" "\<forall>v \<in> snd ` set d. f v = Inr v"
  shows "map_err (\<lambda>(k, v). bind_err (f v) (\<lambda>v'. Inr (KStr (key_str k), v'))) d = Inr d"
proof (rule map_err_id)
  fix x assume x: "x \<in> set d"
  obtain k v where kv: "x = (k, v)" by (cases x)
  from assms(1) x kv obtain t where "k = KStr t" by (auto simp: dict_keys_def)
  moreover have "f v = Inr v" using assms(2) x kv by force
  ultimately show "(case x of (k, v) \<Rightarrow> bind_err (f v) (\<lambda>v'. Inr (KStr (key_str k), v'))) = Inr x" by (simp add: kv)
qed

lemma travels_stable:
  assumes "travels env False x"
  shows "deserialize env True x = Inr x"
  using assms
proof (induction x rule: travels.induct)
  case (9 d)
  have "map_err (\<lambda>(k, v). bind_err (deserialize env True v) (\<lambda>v'. Inr (KStr (key_str k), v'))) d = Inr d"
    by (rule entries_id [OF 9(3)]) (use 9(6) in auto)
  from deserialize_dict [OF 9(4,5) refl 9(2) this] show ?case .
qed (simp_all add: deserialize_collection map_err_id)

text \<open>JSON values, which the encoder leaves alone.\<close>

inductive plain_json :: "pyobj \<Rightarrow> bool" where
  "plain_json ONone"
| "plain_json (OBool b)"
| "plain_json (OInt i)"
| "plain_json (OStr s)"
| "(\<And>x. x \<in> set xs \<Longrightarrow> plain_json x) \<Longrightarrow> plain_json (OList xs)"
| "(\<And>k v. (k, v) \<in> set d \<Longrightarrow> plain_json v) \<Longrightarrow> distinct (dict_keys d) \<Longrightarrow> set (dict_keys d) \<subseteq> range KStr \<Longrightarrow> plain_json (ODict d)"

lemma entries_json_id:
  assumes "set (dict_keys d) \<subseteq> range KStr" "\<forall>v \<in> snd ` set d. f v = Inr v"
  shows "map_err (\<lambda>(k, v). bind_err (f v) (\<lambda>v'. Inr (KStr (json_key k), v'))) d = Inr d"
proof (rule map_err_id)
  fix x assume x: "x \<in> set d"
  obtain k v where kv: "x = (k, v)" by (cases x)
  from assms(1) x kv obtain t where "k = KStr t" by (auto simp: dict_keys_def)
  moreover have "f v = Inr v" using assms(2) x kv by force
  ultimately show "(case x of (k, v) \<Rightarrow> bind_err (f v) (\<lambda>v'. Inr (KStr (json_key k), v'))) = Inr x" by (simp add: kv)
qed

lemma json_walk_plain:
  assumes "plain_json y" "size y < n"
  shows "json_walk n depth env y = Inr y"
  using assms
proof (induction n arbitrary: y)
  case (Suc n)
  from Suc.prems(1) show ?case
  proof (cases rule: plain_json.cases)
    case (5 xs)
    have "json_walk n depth env x = Inr x" if "x \<in> set xs" for x
      by (rule Suc.IH) (use 5 that size_element(1) [OF that] Suc.prems(2) in auto)
    with 5 show ?thesis by (simp add: map_err_id)
  next
    case (6 d)
    have "json_walk n depth env v = Inr v" if "(k, v) \<in> set d" for k v
      by (rule Suc.IH) (use 6 that size_dict_value [OF that] Suc.prems(2) in auto)
    then have "map_err (\<lambda>(k, v). bind_err (json_walk n depth env v) (\<lambda>v'. Inr (KStr (json_key k), v'))) d = Inr d"
      by (intro entries_json_id 6) auto
    with 6 show ?thesis by (simp add: dict_of_distinct)
  qed simp_all
qed simp

lemma plain_json_encode: "plain_json x \<Longrightarrow> plain_json (encode c v x)"
  unfolding encode_def by (rule plain_json.intros) (auto simp: dict_keys_def serde_names intro: plain_json.intros)

lemma json_load_simps [simp]:
  "json_load env full ONone = Inr ONone" "json_load env full (OBool b) = Inr (OBool b)"
  "json_load env full (OInt i) = Inr (OInt i)" "json_load env full (OStr s) = Inr (OStr s)"
  by (subst json_load.simps, simp)+

lemma json_load_list: "json_load env full (OList xs) = bind_err (map_err (json_load env full) xs) (\<lambda>ys. Inr (OList ys))"
  by (subst json_load.simps) simp

lemma json_load_dict:
  "json_load env full (ODict d) = bind_err (map_err (\<lambda>(k, v). bind_err (json_load env full v) (\<lambda>v'. Inr (k, v'))) d)
     (\<lambda>kvs. deserialize env full (ODict kvs))"
  by (subst json_load.simps) simp

lemma json_load_encode:
  "json_load env True x = Inr x' \<Longrightarrow> json_load env True (encode c v x) = deserialize env True (encode c v x')"
  by (simp add: encode_def json_load_dict)

text \<open>Its text does not depend on the levels that are left.\<close>

definition written :: "serde_env \<Rightarrow> pyobj \<Rightarrow> pyobj \<Rightarrow> bool" where
  "written env x y \<longleftrightarrow> (\<exists>n. \<forall>m\<ge>n. serialize m env x = Inr y) \<and> plain_json y \<and> json_load env True y = Inr x"

lemma choose_each:
  assumes "\<And>x. x \<in> set xs \<Longrightarrow> \<exists>y. P x y"
  shows "\<exists>ys. list_all2 P xs ys"
  using assms
proof (induction xs)
  case (Cons x xs)
  from Cons.prems [of x] obtain y where "P x y" by auto
  moreover from Cons.IH Cons.prems obtain ys where "list_all2 P xs ys" by auto
  ultimately have "list_all2 P (x # xs) (y # ys)" by simp
  then show ?case ..
qed (auto intro: exI [of _ "[]"])

text \<open>\<open>lo i\<close> is how many levels are left at \<open>i\<close>.\<close>

lemma eventually_each:
  assumes "list_all2 (\<lambda>x y. \<exists>n::nat. \<forall>i. n \<le> lo i \<longrightarrow> f i x = Inr y) xs ys"
  shows "\<exists>n. \<forall>i. n \<le> lo i \<longrightarrow> map_err (f i) xs = Inr ys"
  using assms
proof (induction rule: list_all2_induct)
  case (Cons x xs y ys)
  then obtain a b where "\<forall>i. a \<le> lo i \<longrightarrow> f i x = Inr y" "\<forall>i. b \<le> lo i \<longrightarrow> map_err (f i) xs = Inr ys" by auto
  then show ?case by (intro exI [of _ "max a b"]) auto
qed simp

lemma written_elements:
  assumes "\<And>x. x \<in> set xs \<Longrightarrow> \<exists>y. written env x y"
  shows "\<exists>ys. (\<exists>n. \<forall>m\<ge>n. map_err (serialize m env) xs = Inr ys) \<and> plain_json (OList ys) \<and> json_load env True (OList ys) = Inr (OList xs)"
proof -
  from choose_each [of xs "written env", OF assms] obtain ys where ys: "list_all2 (written env) xs ys" ..
  have "\<exists>n. \<forall>m\<ge>n. map_err (serialize m env) xs = Inr ys"
    by (rule eventually_each [where lo = "\<lambda>m. m"]) (rule list_all2_mono [OF ys], simp add: written_def)
  moreover have "plain_json (OList ys)"
    by (rule plain_json.intros) (use ys in \<open>auto simp: list_all2_conv_all_nth in_set_conv_nth written_def\<close>)
  moreover have "map_err (json_load env True) ys = Inr xs"
    unfolding map_err_Inr_iff list_all2_conv_all_nth using ys by (auto simp: list_all2_conv_all_nth written_def)
  ultimately show ?thesis by (auto simp: json_load_list)
qed

lemma later_levels:
  assumes "\<exists>n::nat. \<forall>m\<ge>n. P m" "\<And>m. P m \<Longrightarrow> Q (m + k)"
  shows "\<exists>n. \<forall>m\<ge>n. Q m"
proof -
  from assms(1) obtain n where n: "\<forall>m\<ge>n. P m" ..
  have "Q m" if "n + k \<le> m" for m
    using assms(2) [of "m - k"] n that by simp
  then show ?thesis by blast
qed

text \<open>The entries of a dict, of which both the text and what is read keep the keys.\<close>

definition entry :: "('a \<Rightarrow> 'b \<Rightarrow> bool) \<Rightarrow> pykey \<times> 'a \<Rightarrow> pykey \<times> 'b \<Rightarrow> bool" where
  "entry R kv ky \<longleftrightarrow> fst ky = fst kv \<and> fst kv \<in> range KStr \<and> R (snd kv) (snd ky)"

lemma entries_exist:
  assumes "set (dict_keys d) \<subseteq> range KStr" "\<And>k v. (k, v) \<in> set d \<Longrightarrow> \<exists>y. R v y"
  shows "\<exists>d'. list_all2 (entry R) d d'"
proof (rule choose_each)
  fix kv assume kv: "kv \<in> set d"
  with assms(2) obtain y where "R (snd kv) y" by (metis prod.collapse)
  then have "entry R kv (fst kv, y)" using kv assms(1) by (auto simp: entry_def dict_keys_def)
  then show "\<exists>ky. entry R kv ky" by (rule exI)
qed

lemma entries_keys: "list_all2 (entry R) d d' \<Longrightarrow> dict_keys d' = dict_keys d"
  by (induction rule: list_all2_induct) (auto simp: dict_keys_def entry_def)

lemma entries_values: "list_all2 (entry R) d d' \<Longrightarrow> ky \<in> set d' \<Longrightarrow> \<exists>v. R v (snd ky)"
  by (induction rule: list_all2_induct) (auto simp: entry_def)

lemma entries_plain_json:
  assumes "list_all2 (entry R) d d'" "distinct (dict_keys d)" "set (dict_keys d) \<subseteq> range KStr" "\<And>v y. R v y \<Longrightarrow> plain_json y"
  shows "plain_json (ODict d')"
proof (rule plain_json.intros)
  show "plain_json v" if "(k, v) \<in> set d'" for k v using entries_values [OF assms(1) that] assms(4) by auto
qed (simp_all add: entries_keys [OF assms(1)] assms)

lemma entries_loaded:
  assumes "list_all2 (entry R) d d'" "\<And>v y. R v y \<Longrightarrow> json_load env True y = Inr v"
  shows "map_err (\<lambda>(k, v). bind_err (json_load env True v) (\<lambda>v'. Inr (k, v'))) d' = Inr d"
  using assms by (induction rule: list_all2_induct) (auto simp: entry_def)

lemma entries_serialized:
  assumes "list_all2 (entry R) d d'" "\<And>v y. R v y \<Longrightarrow> \<exists>n::nat. \<forall>i. n \<le> lo i \<longrightarrow> f i v = Inr y" "\<And>s. g (KStr s) = s"
  shows "\<exists>n. \<forall>i. n \<le> lo i \<longrightarrow> map_err (\<lambda>(k, v). bind_err (f i v) (\<lambda>v'. Inr (KStr (g k), v'))) d = Inr d'"
proof (rule eventually_each [where f = "\<lambda>i (k, v). bind_err (f i v) (\<lambda>v'. Inr (KStr (g k), v'))"], rule list_all2_mono [OF assms(1)])
  fix kv and ky
  assume "entry R kv ky"
  then obtain s v y where e: "kv = (KStr s, v)" "ky = (KStr s, y)" "R v y" by (cases kv; cases ky) (auto simp: entry_def)
  from assms(2) [OF e(3)] obtain n where "\<forall>i. n \<le> lo i \<longrightarrow> f i v = Inr y" ..
  then show "\<exists>n. \<forall>i. n \<le> lo i \<longrightarrow> (case kv of (k, v) \<Rightarrow> bind_err (f i v) (\<lambda>v'. Inr (KStr (g k), v'))) = Inr ky"
    by (intro exI [of _ n]) (simp add: e assms(3))
qed

text \<open>Every value without frozen sets has a text that is read back.\<close>

lemma written_builtin:
  assumes "(\<exists>n. \<forall>m\<ge>n. map_err (serialize m env) xs = Inr ys) \<and> plain_json (OList ys) \<and> json_load env True (OList ys) = Inr (OList xs)"
    "map_err (deserialize env True) xs = Inr xs"
  shows "written env (OTuple xs) (encode ''builtins.tuple'' 1 (OList ys))"
    "py_elements env xs = Inr xs \<Longrightarrow> written env (OSet xs) (encode ''builtins.set'' 1 (OList ys))"
proof -
  have ser: "\<exists>n. \<forall>m\<ge>n. map_err (serialize m env) xs = Inr ys" using assms(1) by blast
  have load: "json_load env True (encode c 1 (OList ys)) = deserialize env True (encode c 1 (OList xs))" for c
    using assms(1) by (intro json_load_encode) blast
  have "\<exists>n. \<forall>m\<ge>n. serialize m env (OTuple xs) = Inr (encode ''builtins.tuple'' 1 (OList ys))"
    "\<exists>n. \<forall>m\<ge>n. serialize m env (OSet xs) = Inr (encode ''builtins.set'' 1 (OList ys))"
    by (rule later_levels [OF ser, where k = 2], simp only: add_2_eq_Suc' serialize_collection)+
  with assms(1) load deserialize_builtin [OF assms(2)]
  show "written env (OTuple xs) (encode ''builtins.tuple'' 1 (OList ys))"
    "py_elements env xs = Inr xs \<Longrightarrow> written env (OSet xs) (encode ''builtins.set'' 1 (OList ys))"
    by (auto simp: written_def intro: plain_json_encode)
qed

lemma written_atom:
  assumes "\<And>m. serialize (Suc m) env x = Inr x" "plain_json x" "json_load env True x = Inr x"
  shows "\<exists>y. written env x y"
proof -
  have "\<forall>m\<ge>1. serialize m env x = Inr x" using assms(1) by (metis Suc_le_D One_nat_def)
  with assms(2,3) show ?thesis unfolding written_def by blast
qed

lemma travels_written:
  assumes "travels env False x"
  shows "\<exists>y. written env x y"
  using assms
proof (induction x rule: travels.induct)
  case (5 xs)
  from written_elements [of xs env, OF 5(2)] obtain ys where ys: "\<exists>n. \<forall>m\<ge>n. map_err (serialize m env) xs = Inr ys"
    "plain_json (OList ys)" "json_load env True (OList ys) = Inr (OList xs)" by blast
  have "\<exists>n. \<forall>m\<ge>n. serialize m env (OList xs) = Inr (OList ys)"
    by (rule later_levels [OF ys(1), where k = 1]) (simp add: serialize_collection del: serialize.simps)
  with ys show ?case unfolding written_def by blast
next
  case (6 xs)
  have "map_err (deserialize env True) xs = Inr xs" by (rule map_err_id) (use 6(1) travels_stable in blast)
  with written_elements [of xs env, OF 6(2)] written_builtin(1) show ?case by blast
next
  case (7 xs)
  have "map_err (deserialize env True) xs = Inr xs" by (rule map_err_id) (use 7(1) travels_stable in blast)
  with written_elements [of xs env, OF 7(3)] written_builtin(2) 7(2) show ?case by blast
next
  case (9 d)
  from entries_exist [OF 9(3), of "written env"] 9(6) obtain d' where d': "list_all2 (entry (written env)) d d'" by blast
  have "\<exists>n. \<forall>m\<ge>n. map_err (\<lambda>(k, v). bind_err (serialize m env v) (\<lambda>v'. Inr (KStr (key_str k), v'))) d = Inr d'"
    by (rule entries_serialized [OF d', where lo = "\<lambda>m. m"]) (simp_all add: written_def)
  then have "\<exists>n. \<forall>m\<ge>n. serialize m env (ODict d) = Inr (ODict d')"
    by (rule later_levels [where k = 1]) (use 9(2,4) entries_keys [OF d'] in \<open>simp add: dict_of_distinct\<close>)
  moreover have "plain_json (ODict d')" by (rule entries_plain_json [OF d' 9(2,3)]) (simp add: written_def)
  moreover have "json_load env True (ODict d') = deserialize env True (ODict d)"
    using entries_loaded [OF d', of env] by (simp add: json_load_dict written_def)
  moreover have "travels env False (ODict d)" using 9(1-5) by (intro travels.intros)
  ultimately show ?case using travels_stable unfolding written_def by metis
next
  case (10 c fs)
  let ?f = "fields_dict (ci_asdict (se_class env c) (OInstance c fs))"
  from 10(10) obtain y where y: "\<exists>n. \<forall>m\<ge>n. serialize m env ?f = Inr y" "plain_json y" "json_load env True y = Inr ?f"
    unfolding written_def by blast
  have "\<exists>n. \<forall>m\<ge>n. serialize m env (OInstance c fs) = Inr (encode c (ci_version (se_class env c)) y)"
    by (rule later_levels [OF y(1), where k = 1]) (use serialize_instance [OF 10(2,5,7)] in simp)
  moreover have "json_load env True (encode c (ci_version (se_class env c)) y) = Inr (OInstance c fs)"
    unfolding json_load_encode [OF y(3)] by (rule deserialize_instance [OF 10(1-4,6,7) travels_stable [OF 10(9)] 10(8)])
  ultimately show ?case using plain_json_encode [OF y(2)] unfolding written_def by blast
qed (rule written_atom, simp_all add: plain_json.intros)+

subsection \<open>The round trip of an XCom\<close>

text \<open>Values that the encoder of JSON does not take apart itself: a tuple inside a list or dict is written
  as a list.\<close>

inductive json_safe :: "serde_env \<Rightarrow> pyobj \<Rightarrow> bool" for env where
  "json_safe env ONone"
| "json_safe env (OBool b)"
| "json_safe env (OInt i)"
| "json_safe env (OStr s)"
| "(\<And>x. x \<in> set xs \<Longrightarrow> json_safe env x) \<Longrightarrow> json_safe env (OList xs)"
| "(\<And>k v. (k, v) \<in> set d \<Longrightarrow> json_safe env v) \<Longrightarrow> distinct (dict_keys d) \<Longrightarrow> set (dict_keys d) \<subseteq> range KStr \<Longrightarrow>
     \<not> reserved d \<Longrightarrow> \<not> (dict_has (KStr OLD_TYPE) d \<and> dict_has (KStr OLD_DATA) d) \<Longrightarrow> json_safe env (ODict d)"
| "travels env False (OSet xs) \<Longrightarrow> json_safe env (OSet xs)"
| "travels env False (OInstance c fs) \<Longrightarrow> json_safe env (OInstance c fs)"

lemma json_safe_travels: "json_safe env v \<Longrightarrow> travels env False v"
  by (induction rule: json_safe.induct) (simp_all add: travels.intros)

definition stored :: "serde_env \<Rightarrow> pyobj \<Rightarrow> pyobj \<Rightarrow> bool" where
  "stored env v y \<longleftrightarrow> (\<exists>n. \<forall>i. n \<le> min (fst i) (snd i) \<longrightarrow> json_walk (fst i) (snd i) env v = Inr y) \<and> json_load env True y = Inr v"

lemma later_pairs:
  assumes "\<exists>n::nat. \<forall>i. n \<le> min (fst i) (snd i) \<longrightarrow> P (fst i) (snd i)" "\<And>m k. P m k \<Longrightarrow> Q (Suc m) k"
  shows "\<exists>n. \<forall>i. n \<le> min (fst i) (snd i) \<longrightarrow> Q (fst i) (snd i)"
proof -
  from assms(1) obtain n where n: "\<forall>i. n \<le> min (fst i) (snd i) \<longrightarrow> P (fst i) (snd i)" ..
  have "Q m k" if m: "Suc n \<le> m" "Suc n \<le> k" for m k
  proof -
    from m(1) obtain m' where m': "m = Suc m'" "n \<le> m'" by (metis Suc_le_D Suc_le_mono)
    with n [rule_format, of "(m', k)"] m(2) assms(2) show ?thesis by simp
  qed
  then show ?thesis by (intro exI [of _ "Suc n"]) simp
qed

text \<open>What \<open>default\<close> returns is walked and stays.\<close>

lemma default_walked:
  assumes "travels env False v"
  shows "\<exists>y. (\<exists>n. \<forall>i. n \<le> min (fst i) (snd i) \<longrightarrow> bind_err (encoder_default (snd i) env v) (json_walk (fst i) (snd i) env) = Inr y) \<and>
    json_load env True y = Inr v"
proof -
  from travels_written [OF assms] obtain y n where y: "\<forall>m\<ge>n. serialize m env v = Inr y" "plain_json y" "json_load env True y = Inr v"
    by (auto simp: written_def)
  have "bind_err (encoder_default k env v) (json_walk m k env) = Inr y" if "max n (Suc (size y)) \<le> min m k" for m k
    using y(1) json_walk_plain [OF y(2), of m k env] that by (simp add: encoder_default_def)
  then have "\<forall>i. max n (Suc (size y)) \<le> min (fst i) (snd i) \<longrightarrow>
      bind_err (encoder_default (snd i) env v) (json_walk (fst i) (snd i) env) = Inr y" by simp
  with y(3) show ?thesis by blast
qed

lemma stored_atom:
  assumes "\<And>m k. json_walk (Suc m) k env v = Inr v" "json_load env True v = Inr v"
  shows "\<exists>y. stored env v y"
proof -
  have "\<exists>n. \<forall>i. n \<le> min (fst i) (snd i) \<longrightarrow> json_walk (fst i) (snd i) env v = Inr v"
    by (rule later_pairs [where P = "\<lambda>_ _. True"]) (simp_all only: assms(1) simp_thms)
  with assms(2) show ?thesis unfolding stored_def by blast
qed

lemma json_safe_stored:
  assumes "json_safe env v"
  shows "\<exists>y. stored env v y"
  using assms
proof (induction rule: json_safe.induct)
  case (5 xs)
  from choose_each [of xs "stored env", OF 5(2)] obtain ys where ys: "list_all2 (stored env) xs ys" ..
  have "\<exists>n. \<forall>i. n \<le> min (fst i) (snd i) \<longrightarrow> map_err (json_walk (fst i) (snd i) env) xs = Inr ys"
    by (rule eventually_each [where lo = "\<lambda>i. min (fst i) (snd i)"]) (rule list_all2_mono [OF ys], simp add: stored_def)
  then have "\<exists>n. \<forall>i. n \<le> min (fst i) (snd i) \<longrightarrow> json_walk (fst i) (snd i) env (OList xs) = Inr (OList ys)"
    by (rule later_pairs) simp
  moreover have "map_err (json_load env True) ys = Inr xs"
    unfolding map_err_Inr_iff list_all2_conv_all_nth using ys by (auto simp: list_all2_conv_all_nth stored_def)
  then have "json_load env True (OList ys) = Inr (OList xs)" by (simp add: json_load_list)
  ultimately show ?case unfolding stored_def by blast
next
  case (6 d)
  from entries_exist [OF 6(3), of "stored env"] 6(6) obtain d' where d': "list_all2 (entry (stored env)) d d'" by blast
  have "\<exists>n. \<forall>i. n \<le> min (fst i) (snd i) \<longrightarrow>
      map_err (\<lambda>(k, v). bind_err (json_walk (fst i) (snd i) env v) (\<lambda>v'. Inr (KStr (json_key k), v'))) d = Inr d'"
    by (rule entries_serialized [OF d', where lo = "\<lambda>i. min (fst i) (snd i)" and f = "\<lambda>i. json_walk (fst i) (snd i) env"])
      (simp_all add: stored_def)
  then have "\<exists>n. \<forall>i. n \<le> min (fst i) (snd i) \<longrightarrow> json_walk (fst i) (snd i) env (ODict d) = Inr (ODict d')"
    by (rule later_pairs) (use 6(2) entries_keys [OF d'] in \<open>simp add: dict_of_distinct\<close>)
  moreover have "json_load env True (ODict d') = deserialize env True (ODict d)"
    using entries_loaded [OF d', of env] by (simp add: json_load_dict stored_def)
  moreover have "json_safe env (ODict d)" using 6(1-5) by (intro json_safe.intros)
  ultimately show ?case using travels_stable [OF json_safe_travels] unfolding stored_def by metis
next
  case (7 xs)
  from default_walked [OF 7] obtain y where y: "\<exists>n. \<forall>i. n \<le> min (fst i) (snd i) \<longrightarrow>
      bind_err (encoder_default (snd i) env (OSet xs)) (json_walk (fst i) (snd i) env) = Inr y" "json_load env True y = Inr (OSet xs)" by blast
  from y(1) have "\<exists>n. \<forall>i. n \<le> min (fst i) (snd i) \<longrightarrow> json_walk (fst i) (snd i) env (OSet xs) = Inr y" by (rule later_pairs) simp
  with y(2) show ?case unfolding stored_def by blast
next
  case (8 c fs)
  from default_walked [OF 8] obtain y where y: "\<exists>n. \<forall>i. n \<le> min (fst i) (snd i) \<longrightarrow>
      bind_err (encoder_default (snd i) env (OInstance c fs)) (json_walk (fst i) (snd i) env) = Inr y"
      "json_load env True y = Inr (OInstance c fs)" by blast
  from y(1) have "\<exists>n. \<forall>i. n \<le> min (fst i) (snd i) \<longrightarrow> json_walk (fst i) (snd i) env (OInstance c fs) = Inr y" by (rule later_pairs) simp
  with y(2) show ?case unfolding stored_def by blast
qed (rule stored_atom, simp_all)+

text \<open>
  C34. What is pushed as an XCom is what is pulled: with enough levels of nesting left, a value of lists,
  dicts, sets, allowed instances and primitive values, or a tuple, is written as JSON without error and
  read back as it was, although the decoder reads inner values again with the dicts around them.
\<close>

theorem xcom_value_roundtrip:
  assumes "json_safe env v \<or> (\<exists>xs. v = OTuple xs \<and> travels env False v)"
  shows "\<exists>n. \<forall>m\<ge>n. \<forall>depth\<ge>n. \<exists>y. serialize_value m depth env v = Inr y \<and> deserialize_value env False (Some y) = Inr v"
proof -
  have "\<exists>y. (\<exists>n. \<forall>i. n \<le> min (fst i) (snd i) \<longrightarrow> encoder_encode (fst i) (snd i) env v = Inr y) \<and> json_load env True y = Inr v"
  proof (cases "\<exists>xs. v = OTuple xs")
    case True
    with assms have "travels env False v" by (auto dest: json_safe_travels)
    moreover have "encoder_encode m k env v = bind_err (encoder_default k env v) (json_walk m k env)" for m k
      using True by (auto simp: encoder_encode_def)
    ultimately show ?thesis using default_walked by (simp del: bind_err_Inr_iff)
  next
    case False
    with assms have safe: "json_safe env v" by blast
    then have "encoder_encode m k env v = json_walk m k env v" for m k
      by (cases rule: json_safe.cases) (simp_all add: encoder_encode_def)
    with json_safe_stored [OF safe] show ?thesis by (simp add: stored_def)
  qed
  then obtain y n where y: "json_load env True y = Inr v"
    and n: "\<forall>i. n \<le> min (fst i) (snd i) \<longrightarrow> encoder_encode (fst i) (snd i) env v = Inr y" by (elim exE conjE) (rule that)
  have "serialize_value m depth env v = Inr y \<and> deserialize_value env False (Some y) = Inr v" if "n \<le> m" "n \<le> depth" for m depth
    using n [rule_format, of "(m, depth)"] that y by (simp add: serialize_value_def deserialize_value_def)
  then show ?thesis by blast
qed

lemma xcom_value_roundtrip_witness:
  "\<exists>n. \<forall>m\<ge>n. \<forall>depth\<ge>n. \<exists>y. serialize_value m depth sample_serde (ODict [(KStr ''p'', OList [sample_point, ONone])]) = Inr y \<and>
    deserialize_value sample_serde False (Some y) = Inr (ODict [(KStr ''p'', OList [sample_point, ONone])])"
proof (rule xcom_value_roundtrip, rule disjI1)
  have "json_safe sample_serde (OList [sample_point, ONone])"
    by (rule json_safe.intros)
      (use sample_point_travels in \<open>auto simp: sample_point_def intro: json_safe.intros\<close>)
  then show "json_safe sample_serde (ODict [(KStr ''p'', OList [sample_point, ONone])])"
    by (intro json_safe.intros) (auto simp: dict_keys_def dict_has_def reserved_def serde_names)
qed

subsection \<open>What is not read back\<close>

text \<open>A frozen set inside a dict of an XCom is read back as a list: it is read when it is met, and again with
  the dict, and the branch for built-in collections gives a list for what is neither a tuple nor a set.\<close>

lemma frozen_set_becomes_list:
  "bind_err (serialize_value 9 9 sample_serde (ODict [(KStr ''a'', OFrozenset [OInt 1])])) (\<lambda>y. deserialize_value sample_serde False (Some y)) =
    Inr (ODict [(KStr ''a'', OList [OInt 1])])"
  by code_simp

text \<open>A dict that happens to have the two keys of the old encoding is taken for it.\<close>

lemma old_names_are_taken:
  "bind_err (serialize 9 sample_serde (ODict [(KStr ''__type'', OStr ''dict''), (KStr ''__var'', ODict [])])) (deserialize sample_serde True) =
    Inr (ODict [])"
  by code_simp

text \<open>The check for reserved keys does not see a dict inside another one: it is written, and cannot be read.\<close>

lemma reserved_key_inside:
  "bind_err (serialize_value 9 9 sample_serde (ODict [(KStr ''a'', ODict [(KStr ''__classname__'', OStr ''c''), (KStr ''__version__'', OInt 1)])]))
    (\<lambda>y. deserialize_value sample_serde False (Some y)) = Inl (ImportError ''not found in allow list'')"
  by code_simp

text \<open>Asked for text only, \<open>deserialize\<close> still builds the objects of a list.\<close>

lemma builds_objects_of_list:
  "bind_err (serialize 9 sample_serde (OList [sample_point])) (deserialize sample_serde False) = Inr (OList [sample_point])"
  by code_simp

end
