(* ===== verification/Base_Serialization.thy ===== *)
theory Base_Serialization
  imports Serde_Laws "HOL-Library.Multiset"
begin

text \<open>
  \<open>BaseSerialization\<close> (\<open>serialization/serialized_objects.py\<close>), which writes DAGs as JSON: primitive values,
  collections, parameters of a DAG (\<open>models/param.py\<close>), datasets (\<open>datasets/__init__.py\<close>) and NOTSET. Values
  of other types it knows (DAGs, operators, dates, pods, connections) are not modelled; reading their
  type names is a parameter. So are the scheme \<open>urlsplit\<close> finds and the subclasses of \<open>Param\<close>.
\<close>

subsection \<open>Datasets and parameters\<close>

record base_env = serde_env +
  be_scheme :: "string \<Rightarrow> string"
  be_param_class :: "string \<Rightarrow> ((string \<times> pyobj) list \<Rightarrow> pyobj result) option"
  be_other :: "string \<Rightarrow> (pyobj \<Rightarrow> pyobj result) option"

definition DATASET :: string where "DATASET = ''airflow.datasets.Dataset''"
definition PARAM :: string where "PARAM = ''airflow.models.param.Param''"
definition ARG_NOT_SET :: string where "ARG_NOT_SET = ''airflow.utils.types.ArgNotSet''"

lemmas class_names = DATASET_def PARAM_def ARG_NOT_SET_def

definition NOTSET :: pyobj where "NOTSET = OInstance ARG_NOT_SET []"

definition is_space :: "char \<Rightarrow> bool" where
  "is_space c \<longleftrightarrow> of_char c \<in> {9, 10, 11, 12, 13, 28, 29, 30, 31, 32 :: nat}"

definition lower :: "char \<Rightarrow> char" where
  "lower c = (if (65::nat) \<le> of_char c \<and> of_char c \<le> (90::nat) then char_of (of_char c + 32 :: nat) else c)"

definition new_dataset :: "base_env \<Rightarrow> string \<Rightarrow> pyobj \<Rightarrow> pyobj result" where
  "new_dataset env uri extra =
     (if uri = [] \<or> 3000 < length uri then Inl (ValueError ''length of uri'')
      else if list_all is_space uri then Inl (ValueError ''uri cannot be just whitespace'')
      else if \<not> list_all (\<lambda>c. of_char c < (128::nat)) uri then Inl (ValueError ''uri must be ascii'')
      else if map lower (be_scheme env uri) = ''airflow'' then Inl (ValueError ''uri scheme `airflow` is reserved'')
      else Inr (OInstance DATASET [(''uri'', OStr uri), (''extra'', extra)]))"

text \<open>\<open>Dataset(**var)\<close> and \<open>Param(**kwargs)\<close>.\<close>

definition dataset_of :: "base_env \<Rightarrow> pyobj \<Rightarrow> pyobj result" where
  "dataset_of env var =
     (case var of
        ODict d \<Rightarrow>
          if \<not> set (dict_keys d) \<subseteq> {KStr ''uri'', KStr ''extra''} then Inl (TypeError ''unexpected keyword argument'')
          else (case dict_get d (KStr ''uri'') of
              Some (OStr uri) \<Rightarrow> new_dataset env uri (dict_get_or d ONone (KStr ''extra''))
            | Some _ \<Rightarrow> Inl (TypeError ''uri'')
            | None \<Rightarrow> Inl (TypeError ''missing argument''))
      | _ \<Rightarrow> Inl (TypeError ''argument after ** must be a mapping''))"

definition param_object :: "pyobj \<Rightarrow> pyobj \<Rightarrow> pyobj \<Rightarrow> pyobj" where
  "param_object val description schema = OInstance PARAM [(''value'', val), (''description'', description), (''schema'', schema)]"

definition new_param :: "(string \<times> pyobj) list \<Rightarrow> pyobj" where
  "new_param kwargs =
     param_object (dict_get_or kwargs NOTSET ''default'') (dict_get_or kwargs ONone ''description'')
       (dict_get_or kwargs (ODict []) ''schema'')"

subsection \<open>Serializing\<close>

definition encode_as :: "string \<Rightarrow> pyobj \<Rightarrow> pyobj" where
  "encode_as type x = ODict [(KStr ''__var'', x), (KStr ''__type'', OStr type)]"

fun str_le :: "string \<Rightarrow> string \<Rightarrow> bool" where
  "str_le [] t = True"
| "str_le (c # s) [] = False"
| "str_le (c # s) (d # t) = (of_char c < (of_char d :: nat) \<or> (c = d \<and> str_le s t))"

fun insert_str :: "string \<Rightarrow> string list \<Rightarrow> string list" where
  "insert_str s [] = [s]"
| "insert_str s (t # ts) = (if str_le s t then s # t # ts else t # insert_str s ts)"

fun is_str :: "pyobj \<Rightarrow> bool" where
  "is_str (OStr s) = True" | "is_str _ = False"

fun the_str :: "pyobj \<Rightarrow> string" where
  "the_str (OStr s) = s" | "the_str _ = []"

text \<open>\<open>sorted\<close>, or the list as it is when values do not compare.\<close>

definition py_sorted :: "pyobj list \<Rightarrow> pyobj list" where
  "py_sorted ys =
     (if list_all (\<lambda>y. as_number y \<noteq> None) ys then sort_key (the \<circ> as_number) ys
      else if list_all is_str ys then map OStr (foldr insert_str (map the_str ys) [])
      else ys)"

definition default_serialization :: "base_env \<Rightarrow> bool \<Rightarrow> pyobj \<Rightarrow> pyobj result" where
  "default_serialization env strict var =
     (if strict then Inl (SerializationError ''Encountered unexpected type'') else Inr (OStr (se_str env var)))"

text \<open>The fields of a parameter.\<close>

definition param_fields :: "pyobj \<Rightarrow> (string \<times> pyobj \<times> pyobj \<times> pyobj) option" where
  "param_fields x =
     (case x of
        OInstance c [(a, v), (b, d), (e, s)] \<Rightarrow>
          if c = PARAM \<and> a = ''value'' \<and> b = ''description'' \<and> e = ''schema'' then Some (c, v, d, s) else None
      | _ \<Rightarrow> None)"

lemma size_param_fields:
  assumes "param_fields (OInstance c0 fs) = Some (c, v, d, s)"
  shows "size v < size (OInstance c0 fs)" "size d < size (OInstance c0 fs)" "size s < size (OInstance c0 fs)"
  using assms by (auto simp: param_fields_def split: list.split_asm if_split_asm)

function bs_serialize :: "base_env \<Rightarrow> bool \<Rightarrow> pyobj \<Rightarrow> pyobj result" where
  "bs_serialize env strict var =
     (case var of
        ODict d \<Rightarrow> bind_err (map_err (\<lambda>(k, v). bind_err (bs_serialize env strict v) (\<lambda>v'. Inr (KStr (key_str k), v'))) d)
          (\<lambda>kvs. Inr (encode_as ''dict'' (ODict (dict_of kvs))))
      | OList xs \<Rightarrow> bind_err (map_err (\<lambda>x. bs_serialize env strict x) xs) (\<lambda>ys. Inr (OList ys))
      | OSet xs \<Rightarrow> bind_err (map_err (\<lambda>x. bs_serialize env strict x) xs) (\<lambda>ys. Inr (encode_as ''set'' (OList (py_sorted ys))))
      | OTuple xs \<Rightarrow> bind_err (map_err (\<lambda>x. bs_serialize env strict x) xs) (\<lambda>ys. Inr (encode_as ''tuple'' (OList ys)))
      | OFrozenset xs \<Rightarrow> default_serialization env strict var
      | OInstance c fs \<Rightarrow>
          (case param_fields var of
             Some (c, v, d, s) \<Rightarrow>
               bind_err (bs_serialize env False v) (\<lambda>v'.
               bind_err (bs_serialize env False d) (\<lambda>d'.
               bind_err (bs_serialize env False s) (\<lambda>s'.
                 Inr (encode_as ''param'' (ODict [(KStr ''__class'', OStr c), (KStr ''default'', v'),
                   (KStr ''description'', d'), (KStr ''schema'', s')])))))
           | None \<Rightarrow>
               if c = DATASET \<and> map fst fs = [''uri'', ''extra'']
               then Inr (encode_as ''dataset'' (ODict (map (\<lambda>(f, v). (KStr f, v)) fs)))
               else if var = NOTSET then Inr (encode_as ''arg_not_set'' ONone)
               else default_serialization env strict var)
      | _ \<Rightarrow> Inr var)"
  by pat_completeness auto

termination
  by (relation "measure (\<lambda>(env, strict, x). size x)")
    (auto simp del: pyobj.size intro: size_element size_dict_value size_param_fields)

declare bs_serialize.simps [simp del]

subsection \<open>Deserializing\<close>

fun is_encoded :: "pyobj \<Rightarrow> bool" where
  "is_encoded (ODict d) = dict_has (KStr ''__type'') d"
| "is_encoded _ = False"

text \<open>\<open>is_serialized\<close> of \<open>_deserialize_param\<close>.\<close>

fun is_serialized :: "pyobj \<Rightarrow> bool" where
  "is_serialized (ODict d) = dict_has (KStr ''__type'') d"
| "is_serialized (OList xs) = list_all is_encoded xs"
| "is_serialized _ = False"

lemma size_var:
  "Some (OList xs) = dict_get e k \<Longrightarrow> x \<in> set xs \<Longrightarrow> size x < size (ODict e)"
  "Some (OTuple xs) = dict_get e k \<Longrightarrow> x \<in> set xs \<Longrightarrow> size x < size (ODict e)"
  "Some (OSet xs) = dict_get e k \<Longrightarrow> x \<in> set xs \<Longrightarrow> size x < size (ODict e)"
  "Some (OFrozenset xs) = dict_get e k \<Longrightarrow> x \<in> set xs \<Longrightarrow> size x < size (ODict e)"
  "Some (ODict d) = dict_get e k \<Longrightarrow> (k', x) \<in> set d \<Longrightarrow> size x < size (ODict e)"
  by (rule less_trans [OF _ size_dict_get [OF sym]], erule size_element size_dict_value, assumption)+

function bs_deserialize :: "base_env \<Rightarrow> pyobj \<Rightarrow> pyobj result" where
  "bs_deserialize env encoded =
     (case encoded of
        ONone \<Rightarrow> Inr encoded | OBool b \<Rightarrow> Inr encoded | OInt i \<Rightarrow> Inr encoded | OStr s \<Rightarrow> Inr encoded
      | OList xs \<Rightarrow> bind_err (map_err (\<lambda>x. bs_deserialize env x) xs) (\<lambda>ys. Inr (OList ys))
      | ODict e \<Rightarrow>
          (case (dict_get e (KStr ''__var''), dict_get e (KStr ''__type'')) of
             (Some var, Some t) \<Rightarrow>
               if t = OStr ''dict'' then
                 (case var of
                    ODict d \<Rightarrow> bind_err (map_err (\<lambda>(k, v). bind_err (bs_deserialize env v) (\<lambda>v'. Inr (k, v'))) d) (\<lambda>kvs. Inr (ODict kvs))
                  | _ \<Rightarrow> Inl (AttributeError ''items''))
               else if t = OStr ''set'' \<or> t = OStr ''tuple'' then
                 bind_err
                   (case var of
                      OList xs \<Rightarrow> map_err (\<lambda>x. bs_deserialize env x) xs
                    | OTuple xs \<Rightarrow> map_err (\<lambda>x. bs_deserialize env x) xs
                    | OSet xs \<Rightarrow> map_err (\<lambda>x. bs_deserialize env x) xs
                    | OFrozenset xs \<Rightarrow> map_err (\<lambda>x. bs_deserialize env x) xs
                    | _ \<Rightarrow> py_iter var) (\<lambda>ys.
                 if t = OStr ''tuple'' then Inr (OTuple ys)
                 else bind_err (py_elements (serde_env.truncate env) ys) (\<lambda>zs. Inr (OSet zs)))
               else if t = OStr ''param'' then
                 (case var of
                    ODict d \<Rightarrow>
                      (case dict_get d (KStr ''__class'') of
                         Some (OStr c) \<Rightarrow>
                           bind_err (if c = PARAM then Inr (\<lambda>kwargs. Inr (new_param kwargs))
                                     else case be_param_class env c of None \<Rightarrow> Inl (ImportError c) | Some f \<Rightarrow> Inr f) (\<lambda>f.
                           bind_err (map_err (\<lambda>(k, v). bind_err (if is_serialized v then bs_deserialize env v else Inr v)
                               (\<lambda>v'. Inr (key_str k, v')))
                             (filter (\<lambda>(k, v). k \<in> {KStr ''default'', KStr ''description'', KStr ''schema''}) d)) (\<lambda>kwargs. f kwargs))
                       | Some _ \<Rightarrow> Inl (AttributeError ''rsplit'')
                       | None \<Rightarrow> Inl (KeyError ''__class''))
                  | _ \<Rightarrow> Inl (TypeError ''indices''))
               else if t = OStr ''dataset'' then dataset_of env var
               else if t = OStr ''arg_not_set'' then Inr NOTSET
               else
                 (case t of
                    OStr s \<Rightarrow> (case be_other env s of Some f \<Rightarrow> f var | None \<Rightarrow> Inl (TypeError ''Invalid type in deserialization.''))
                  | _ \<Rightarrow> Inl (TypeError ''Invalid type in deserialization.''))
           | _ \<Rightarrow> Inl (KeyError ''__var or __type''))
      | _ \<Rightarrow> Inl (ValueError ''The encoded_var should be dict''))"
  by pat_completeness auto

termination
  by (relation "measure (\<lambda>(env, x). size x)") (auto simp del: pyobj.size intro: size_element size_var)

declare bs_deserialize.simps [simp del]

subsection \<open>One value\<close>

fun is_atom :: "pyobj \<Rightarrow> bool" where
  "is_atom ONone = True" | "is_atom (OBool b) = True" | "is_atom (OInt i) = True" | "is_atom (OStr s) = True"
| "is_atom _ = False"

lemma bs_atom:
  assumes "is_atom x"
  shows "bs_serialize env strict x = Inr x" "bs_deserialize env x = Inr x"
  using assms by (subst bs_serialize.simps bs_deserialize.simps, cases x, simp_all)+

lemma bs_serialize_collection:
  "bs_serialize env strict (OList xs) = bind_err (map_err (bs_serialize env strict) xs) (\<lambda>ys. Inr (OList ys))"
  "bs_serialize env strict (OTuple xs) = bind_err (map_err (bs_serialize env strict) xs) (\<lambda>ys. Inr (encode_as ''tuple'' (OList ys)))"
  "bs_serialize env strict (OSet xs) = bind_err (map_err (bs_serialize env strict) xs) (\<lambda>ys. Inr (encode_as ''set'' (OList (py_sorted ys))))"
  by (subst bs_serialize.simps, simp)+

lemma bs_serialize_dict:
  "bs_serialize env strict (ODict d) =
    bind_err (map_err (\<lambda>(k, v). bind_err (bs_serialize env strict v) (\<lambda>v'. Inr (KStr (key_str k), v'))) d)
      (\<lambda>kvs. Inr (encode_as ''dict'' (ODict (dict_of kvs))))"
  by (subst bs_serialize.simps) simp

lemma bs_deserialize_list: "bs_deserialize env (OList xs) = bind_err (map_err (bs_deserialize env) xs) (\<lambda>ys. Inr (OList ys))"
  by (subst bs_deserialize.simps) simp

lemma bs_deserialize_tuple:
  "bs_deserialize env (encode_as ''tuple'' (OList xs)) = bind_err (map_err (bs_deserialize env) xs) (\<lambda>ys. Inr (OTuple ys))"
  by (subst bs_deserialize.simps) (simp add: encode_as_def)

lemma bs_deserialize_set:
  "bs_deserialize env (encode_as ''set'' (OList xs)) = bind_err (map_err (bs_deserialize env) xs) (\<lambda>ys.
     bind_err (py_elements (serde_env.truncate env) ys) (\<lambda>zs. Inr (OSet zs)))"
  by (subst bs_deserialize.simps) (simp add: encode_as_def)

lemma bs_deserialize_dict:
  "bs_deserialize env (encode_as ''dict'' (ODict d)) =
    bind_err (map_err (\<lambda>(k, v). bind_err (bs_deserialize env v) (\<lambda>v'. Inr (k, v'))) d) (\<lambda>kvs. Inr (ODict kvs))"
  by (subst bs_deserialize.simps) (simp add: encode_as_def)

lemma bs_notset: "bs_serialize env strict NOTSET = Inr (encode_as ''arg_not_set'' ONone)"
  "bs_deserialize env (encode_as ''arg_not_set'' x) = Inr NOTSET"
  by (subst bs_serialize.simps bs_deserialize.simps, simp add: encode_as_def NOTSET_def param_fields_def class_names)+

lemma bs_dataset:
  assumes "new_dataset env uri extra = Inr x"
  shows "bs_serialize env strict x = Inr (encode_as ''dataset'' (ODict [(KStr ''uri'', OStr uri), (KStr ''extra'', extra)]))"
    "bs_deserialize env (encode_as ''dataset'' (ODict [(KStr ''uri'', OStr uri), (KStr ''extra'', extra)])) = Inr x"
proof -
  have x: "x = OInstance DATASET [(''uri'', OStr uri), (''extra'', extra)]" using assms by (auto simp: new_dataset_def split: if_split_asm)
  show "bs_serialize env strict x = Inr (encode_as ''dataset'' (ODict [(KStr ''uri'', OStr uri), (KStr ''extra'', extra)]))"
    by (subst bs_serialize.simps) (simp add: x param_fields_def)
  show "bs_deserialize env (encode_as ''dataset'' (ODict [(KStr ''uri'', OStr uri), (KStr ''extra'', extra)])) = Inr x"
    using assms by (subst bs_deserialize.simps) (simp add: encode_as_def dataset_of_def dict_keys_def dict_get_or_def)
qed

definition read_field :: "base_env \<Rightarrow> pyobj \<Rightarrow> pyobj result" where
  "read_field env v = (if is_serialized v then bs_deserialize env v else Inr v)"

lemma bs_serialize_param:
  "bs_serialize env strict (param_object v d s) =
    bind_err (bs_serialize env False v) (\<lambda>v'. bind_err (bs_serialize env False d) (\<lambda>d'. bind_err (bs_serialize env False s) (\<lambda>s'.
      Inr (encode_as ''param'' (ODict [(KStr ''__class'', OStr PARAM), (KStr ''default'', v'), (KStr ''description'', d'), (KStr ''schema'', s')])))))"
  by (subst bs_serialize.simps) (simp add: param_object_def param_fields_def)

lemma bs_deserialize_param:
  assumes "read_field env v' = Inr v" "read_field env d' = Inr d" "read_field env s' = Inr s"
  shows "bs_deserialize env (encode_as ''param'' (ODict [(KStr ''__class'', OStr PARAM), (KStr ''default'', v'), (KStr ''description'', d'),
      (KStr ''schema'', s')])) = Inr (param_object v d s)"
  using assms by (subst bs_deserialize.simps) (simp add: encode_as_def read_field_def new_param_def dict_get_or_def)

subsection \<open>Sets are written in order\<close>

lemma dedupe_id: "dedupe xs = xs \<longleftrightarrow> sorted_wrt (\<lambda>x y. \<not> same y x) xs"
proof -
  let ?f = "\<lambda>x acc. if list_ex (same x) acc then acc else acc @ [x]"
  have len: "length (fold ?f ys acc) \<le> length acc + length ys" for ys acc
  proof (induction ys arbitrary: acc)
    case (Cons y ys)
    from Cons [of acc] Cons [of "acc @ [y]"] show ?case by simp
  qed simp
  have "fold ?f ys acc = acc @ ys \<longleftrightarrow> sorted_wrt (\<lambda>x y. \<not> same y x) ys \<and> (\<forall>y \<in> set ys. \<forall>x \<in> set acc. \<not> same y x)" for ys acc
  proof (induction ys arbitrary: acc)
    case (Cons y ys)
    show ?case
    proof (cases "list_ex (same y) acc")
      case True
      then have "length (fold ?f (y # ys) acc) < length (acc @ y # ys)" using len [of ys acc] by simp
      then have "fold ?f (y # ys) acc \<noteq> acc @ y # ys" by (metis less_irrefl_nat)
      with True show ?thesis by (auto simp: list_ex_iff)
    next
      case False
      then show ?thesis using Cons.IH [of "acc @ [y]"] by (auto simp: list_ex_iff)
    qed
  qed simp
  from this [of xs "[]"] show ?thesis by (simp add: dedupe_def)
qed

lemma dedupe_by_key:
  assumes "\<And>x y. x \<in> set xs \<Longrightarrow> y \<in> set xs \<Longrightarrow> same y x \<longleftrightarrow> f y = f x"
  shows "dedupe xs = xs \<longleftrightarrow> distinct (map f xs)"
  unfolding dedupe_id using assms
proof (induction xs)
  case (Cons x xs)
  have "sorted_wrt (\<lambda>x y. \<not> same y x) xs \<longleftrightarrow> distinct (map f xs)"
    by (rule Cons.IH) (rule Cons.prems, simp_all only: list.set_intros)
  moreover have "same y x \<longleftrightarrow> f y = f x" if "y \<in> set xs" for y
    by (rule Cons.prems) (simp_all only: list.set_intros that)
  then have "(\<forall>y \<in> set xs. \<not> same y x) \<longleftrightarrow> f x \<notin> f ` set xs" by (metis imageE imageI)
  ultimately show ?case by (simp only: sorted_wrt.simps list.map distinct.simps list.set_map)
qed simp

lemma same_numbers:
  assumes "as_number x \<noteq> None" "as_number y \<noteq> None"
  shows "same y x \<longleftrightarrow> as_number y = as_number x"
proof -
  have number: "(\<exists>b. z = OBool b) \<or> (\<exists>i. z = OInt i)" if "as_number z \<noteq> None" for z
    using that by (cases z) simp_all
  from number [OF assms(1)] number [OF assms(2)]
  show ?thesis by (elim disjE exE; hypsubst; subst same.simps; simp)
qed

lemma same_strings:
  assumes "is_str x" "is_str y"
  shows "same y x \<longleftrightarrow> y = x"
proof -
  from assms obtain s t where "x = OStr s" "y = OStr t" by (auto elim!: is_str.elims)
  then show ?thesis by (subst same.simps) simp
qed

lemma mset_insert_str: "mset (insert_str s ts) = add_mset s (mset ts)"
  by (induction ts) auto

lemma mset_sort_str: "mset (foldr insert_str ss []) = mset ss"
  by (induction ss) (simp_all add: mset_insert_str)

lemma py_sorted_mset: "mset (py_sorted ys) = mset ys"
proof (cases "list_all is_str ys")
  case True
  then have "map (OStr \<circ> the_str) ys = ys" by (induction ys) (auto elim: is_str.elims)
  then have "mset (map OStr (foldr insert_str (map the_str ys) [])) = mset ys"
    by (metis (no_types, lifting) map_map mset_map mset_sort_str)
  then show ?thesis by (simp add: py_sorted_def)
qed (simp add: py_sorted_def)

text \<open>A set is read back from its elements in order.\<close>

lemma map_err_atoms: "list_all is_atom ys \<Longrightarrow> map_err (bs_deserialize env) ys = Inr ys"
  by (rule map_err_id) (auto simp: list_all_iff bs_atom)

lemma dedupe_permuted:
  assumes "dedupe xs = xs" "mset zs = mset xs" "\<And>x y. x \<in> set xs \<Longrightarrow> y \<in> set xs \<Longrightarrow> same y x \<longleftrightarrow> f y = f x"
  shows "dedupe zs = zs"
proof -
  have "distinct (map f xs)" using assms(1) dedupe_by_key [of xs f, OF assms(3)] by blast
  moreover have "mset (map f zs) = mset (map f xs)" using assms(2) by simp
  ultimately have "distinct (map f zs)" using mset_eq_imp_distinct_iff by blast
  then show ?thesis using dedupe_by_key [of zs f] assms(3) mset_eq_setD [OF assms(2)] by blast
qed

lemma set_in_order:
  assumes "map_err (bs_deserialize env) ys = Inr xs" "py_elements e xs = Inr xs"
  shows "\<exists>zs. map_err (bs_deserialize env) (py_sorted ys) = Inr zs \<and> mset zs = mset xs \<and> py_elements e zs = Inr zs"
proof (cases "list_all (\<lambda>y. as_number y \<noteq> None) ys \<or> list_all is_str ys")
  case False
  then have "py_sorted ys = ys" by (auto simp: py_sorted_def)
  with assms show ?thesis by auto
next
  case True
  have atom: "is_atom y" if "as_number y \<noteq> None \<or> is_str y" for y using that by (cases y) auto
  have atoms: "list_all is_atom ys" using True atom by (auto simp: list_all_iff)
  with assms(1) map_err_atoms have "xs = ys" by auto
  have sorted: "mset (py_sorted ys) = mset ys" by (rule py_sorted_mset)
  have "list_all is_atom (py_sorted ys)" using atoms mset_eq_setD [OF sorted] by (simp add: list_all_iff)
  then have "map_err (bs_deserialize env) (py_sorted ys) = Inr (py_sorted ys)" by (rule map_err_atoms)
  moreover have ys: "list_all (hashable e) ys" "dedupe ys = ys"
    using assms(2) by (auto simp: py_elements_def \<open>xs = ys\<close> split: if_split_asm)
  have "dedupe (py_sorted ys) = py_sorted ys"
  proof (rule disjE [OF True])
    assume n: "list_all (\<lambda>y. as_number y \<noteq> None) ys"
    show ?thesis
      by (rule dedupe_permuted [OF ys(2) sorted, of as_number]) (rule same_numbers; use n in \<open>simp add: list_all_iff\<close>)
  next
    assume n: "list_all is_str ys"
    show ?thesis
      by (rule dedupe_permuted [OF ys(2) sorted, of "\<lambda>y. y"]) (rule same_strings; use n in \<open>simp add: list_all_iff\<close>)
  qed
  moreover have "list_all (hashable e) (py_sorted ys)" using ys(1) mset_eq_setD [OF sorted] by (simp add: list_all_iff)
  ultimately show ?thesis using sorted by (auto simp: py_elements_def \<open>xs = ys\<close>)
qed

subsection \<open>The round trip\<close>

text \<open>Equal but for the order in which sets iterate over their elements.\<close>

inductive reordered :: "pyobj \<Rightarrow> pyobj \<Rightarrow> bool" where
  "reordered x x"
| "list_all2 reordered xs ys \<Longrightarrow> reordered (OList xs) (OList ys)"
| "list_all2 reordered xs ys \<Longrightarrow> reordered (OTuple xs) (OTuple ys)"
| "mset ys = mset xs \<Longrightarrow> reordered (OSet xs) (OSet ys)"
| "list_all2 (rel_prod (=) reordered) d d' \<Longrightarrow> reordered (ODict d) (ODict d')"
| "reordered v v' \<Longrightarrow> reordered d d' \<Longrightarrow> reordered s s' \<Longrightarrow> reordered (param_object v d s) (param_object v' d' s')"

text \<open>
  The values for which reading back is promised, \<open>sets\<close> is whether sets may occur (no set is inside one).
  A list in a field of a parameter must hold either values that are not encoded, or only values that are.
\<close>

fun plain_value :: "pyobj \<Rightarrow> bool" where
  "plain_value (OList xs) = list_all plain_value xs"
| "plain_value x = is_atom x"

fun bare :: "pyobj \<Rightarrow> bool" where
  "bare (OList xs) = True"
| "bare x = is_atom x"

fun field_ok :: "pyobj \<Rightarrow> bool" where
  "field_ok (OList xs) \<longleftrightarrow> plain_value (OList xs) \<or> list_all (\<lambda>x. \<not> bare x) xs"
| "field_ok x = True"

inductive bs_travels :: "base_env \<Rightarrow> bool \<Rightarrow> pyobj \<Rightarrow> bool" for env where
  "is_atom x \<Longrightarrow> bs_travels env sets x"
| "(\<And>x. x \<in> set xs \<Longrightarrow> bs_travels env sets x) \<Longrightarrow> bs_travels env sets (OList xs)"
| "(\<And>x. x \<in> set xs \<Longrightarrow> bs_travels env sets x) \<Longrightarrow> bs_travels env sets (OTuple xs)"
| "sets \<Longrightarrow> (\<And>x. x \<in> set xs \<Longrightarrow> bs_travels env False x) \<Longrightarrow> py_elements (serde_env.truncate env) xs = Inr xs \<Longrightarrow>
     bs_travels env sets (OSet xs)"
| "(\<And>k v. (k, v) \<in> set d \<Longrightarrow> bs_travels env sets v) \<Longrightarrow> distinct (dict_keys d) \<Longrightarrow> set (dict_keys d) \<subseteq> range KStr \<Longrightarrow>
     bs_travels env sets (ODict d)"
| "bs_travels env sets NOTSET"
| "new_dataset env uri extra = Inr x \<Longrightarrow> bs_travels env sets x"
| "bs_travels env sets v \<Longrightarrow> bs_travels env sets d \<Longrightarrow> bs_travels env sets s \<Longrightarrow> field_ok v \<Longrightarrow> field_ok d \<Longrightarrow> field_ok s \<Longrightarrow>
     bs_travels env sets (param_object v d s)"

lemma plain_value_bs:
  assumes "plain_value x"
  shows "bs_serialize env strict x = Inr x \<and> bs_deserialize env x = Inr x"
  using assms
proof (induction x rule: plain_value.induct)
  case (1 xs)
  then have "map_err (bs_serialize env strict) xs = Inr xs" "map_err (bs_deserialize env) xs = Inr xs"
    by (intro map_err_id; simp add: list_all_iff)+
  then show ?case by (simp add: bs_serialize_collection bs_deserialize_list)
qed (simp_all add: bs_atom)

text \<open>What is known of a value \<open>x\<close>, its encoding \<open>y\<close> and what is read \<open>x'\<close>.\<close>

definition goes :: "base_env \<Rightarrow> bool \<Rightarrow> pyobj \<Rightarrow> pyobj \<times> pyobj \<Rightarrow> bool" where
  "goes env sets x p \<longleftrightarrow> (\<forall>strict. bs_serialize env strict x = Inr (fst p)) \<and> bs_deserialize env (fst p) = Inr (snd p) \<and>
     reordered x (snd p) \<and> (sets \<or> snd p = x) \<and> (bare x \<or> is_encoded (fst p)) \<and> (field_ok x \<longrightarrow> read_field env (fst p) = Inr (snd p))"

lemma goes_encoded:
  assumes "\<And>strict. bs_serialize env strict x = Inr (encode_as t z)" "bs_deserialize env (encode_as t z) = Inr x'" "reordered x x'" "sets \<or> x' = x"
  shows "\<exists>p. goes env sets x p"
  using assms by (intro exI [of _ "(encode_as t z, x')"]) (auto simp: goes_def encode_as_def read_field_def dict_has_def)

lemma goes_elements:
  assumes "list_all2 (goes env sets) xs ps"
  shows "map_err (bs_serialize env strict) xs = Inr (map fst ps)" "map_err (bs_deserialize env) (map fst ps) = Inr (map snd ps)"
    "list_all2 reordered xs (map snd ps)" "sets \<or> map snd ps = xs" "list_all (\<lambda>x. \<not> bare x) xs \<Longrightarrow> list_all is_encoded (map fst ps)"
  using assms by (induction rule: list_all2_induct) (auto simp: goes_def)

lemma goes_list:
  assumes "list_all2 (goes env sets) xs ps"
  shows "goes env sets (OList xs) (OList (map fst ps), OList (map snd ps))"
proof -
  note e = goes_elements [OF assms]
  have "read_field env (OList (map fst ps)) = Inr (OList (map snd ps))" if ok: "field_ok (OList xs)"
  proof (cases "list_all (\<lambda>x. \<not> bare x) xs")
    case True
    with e show ?thesis by (simp add: read_field_def bs_deserialize_list)
  next
    case False
    with ok have plain: "plain_value (OList xs)" by simp
    from plain_value_bs [OF plain, of env True] e(1) [of True] have y: "map fst ps = xs" by (simp add: bs_serialize_collection)
    with plain_value_bs [OF plain, of env True] e(2) have x': "map snd ps = xs" by (simp add: bs_deserialize_list)
    show ?thesis unfolding y x' using plain_value_bs [OF plain, of env True] by (simp add: read_field_def)
  qed
  with e show ?thesis by (auto simp: goes_def bs_serialize_collection bs_deserialize_list intro: reordered.intros)
qed

lemma goes_tuple:
  assumes "list_all2 (goes env sets) xs ps"
  shows "\<exists>p. goes env sets (OTuple xs) p"
proof (rule goes_encoded)
  note e = goes_elements [OF assms]
  show "bs_serialize env strict (OTuple xs) = Inr (encode_as ''tuple'' (OList (map fst ps)))" for strict by (simp add: bs_serialize_collection e)
  show "bs_deserialize env (encode_as ''tuple'' (OList (map fst ps))) = Inr (OTuple (map snd ps))" by (simp add: bs_deserialize_tuple e)
  show "reordered (OTuple xs) (OTuple (map snd ps))" using e(3) by (rule reordered.intros)
  show "sets \<or> OTuple (map snd ps) = OTuple xs" using e(4) by simp
qed

lemma goes_set:
  assumes "list_all2 (goes env False) xs ps" "py_elements (serde_env.truncate env) xs = Inr xs" "sets"
  shows "\<exists>p. goes env sets (OSet xs) p"
proof -
  note e = goes_elements [OF assms(1)]
  from e(4) have "map snd ps = xs" by simp
  with e(2) have read: "map_err (bs_deserialize env) (map fst ps) = Inr xs" by simp
  from set_in_order [OF read assms(2)] obtain zs where zs: "map_err (bs_deserialize env) (py_sorted (map fst ps)) = Inr zs"
    "mset zs = mset xs" "py_elements (serde_env.truncate env) zs = Inr zs" by blast
  show ?thesis
  proof (rule goes_encoded)
    show "bs_serialize env strict (OSet xs) = Inr (encode_as ''set'' (OList (py_sorted (map fst ps))))" for strict
      by (simp add: bs_serialize_collection e)
    show "bs_deserialize env (encode_as ''set'' (OList (py_sorted (map fst ps)))) = Inr (OSet zs)" by (simp add: bs_deserialize_set zs)
  qed (use zs(2) assms(3) in \<open>auto intro: reordered.intros\<close>)
qed

text \<open>The entries of a dict: \<open>d'\<close> has their encodings and what is read.\<close>

lemma goes_entries:
  assumes "list_all2 (entry (goes env sets)) d d'"
  shows "map_err (\<lambda>(k, v). bind_err (bs_serialize env strict v) (\<lambda>v'. Inr (KStr (key_str k), v'))) d = Inr (map (map_prod id fst) d')"
    "map_err (\<lambda>(k, v). bind_err (bs_deserialize env v) (\<lambda>v'. Inr (k, v'))) (map (map_prod id fst) d') = Inr (map (map_prod id snd) d')"
    "list_all2 (rel_prod (=) reordered) d (map (map_prod id snd) d')" "sets \<or> map (map_prod id snd) d' = d"
  using assms by (induction rule: list_all2_induct) (auto simp: goes_def entry_def)

lemma goes_dict:
  assumes "list_all2 (entry (goes env sets)) d d'" "distinct (dict_keys d)"
  shows "\<exists>p. goes env sets (ODict d) p"
proof (rule goes_encoded)
  note e = goes_entries [OF assms(1)]
  have "dict_keys (map (map_prod id fst) d') = dict_keys d" using entries_keys [OF assms(1)] by (simp add: dict_keys_def)
  with assms(2) have "dict_of (map (map_prod id fst) d') = map (map_prod id fst) d'" by (simp add: dict_of_distinct)
  then show "bs_serialize env strict (ODict d) = Inr (encode_as ''dict'' (ODict (map (map_prod id fst) d')))" for strict
    by (simp add: bs_serialize_dict e)
  show "bs_deserialize env (encode_as ''dict'' (ODict (map (map_prod id fst) d'))) = Inr (ODict (map (map_prod id snd) d'))"
    by (simp add: bs_deserialize_dict e)
  show "reordered (ODict d) (ODict (map (map_prod id snd) d'))" using e(3) by (rule reordered.intros)
  show "sets \<or> ODict (map (map_prod id snd) d') = ODict d" using e(4) by simp
qed

lemma goes_param:
  assumes "goes env sets v p" "goes env sets d q" "goes env sets s r" "field_ok v" "field_ok d" "field_ok s"
  shows "\<exists>p. goes env sets (param_object v d s) p"
proof (rule goes_encoded)
  show "bs_serialize env strict (param_object v d s) = Inr (encode_as ''param'' (ODict [(KStr ''__class'', OStr PARAM), (KStr ''default'', fst p),
      (KStr ''description'', fst q), (KStr ''schema'', fst r)]))" for strict
    using assms by (simp add: bs_serialize_param goes_def)
  show "bs_deserialize env (encode_as ''param'' (ODict [(KStr ''__class'', OStr PARAM), (KStr ''default'', fst p),
      (KStr ''description'', fst q), (KStr ''schema'', fst r)])) = Inr (param_object (snd p) (snd q) (snd r))"
    using assms by (intro bs_deserialize_param) (simp_all add: goes_def)
  show "reordered (param_object v d s) (param_object (snd p) (snd q) (snd r))"
    using assms by (intro reordered.intros) (simp_all add: goes_def)
  show "sets \<or> param_object (snd p) (snd q) (snd r) = param_object v d s" using assms by (auto simp: goes_def)
qed

lemma bs_travels_goes:
  assumes "bs_travels env sets x"
  shows "\<exists>p. goes env sets x p"
  using assms
proof (induction rule: bs_travels.induct)
  case (1 x sets)
  then have "bare x" "\<not> is_serialized x" by (cases x; simp)+
  with 1 show ?case by (intro exI [of _ "(x, x)"]) (simp add: goes_def bs_atom read_field_def reordered.intros)
next
  case (2 xs sets)
  from choose_each [of xs "goes env sets", OF 2(2)] goes_list show ?case by blast
next
  case (3 xs sets)
  from choose_each [of xs "goes env sets", OF 3(2)] goes_tuple show ?case by blast
next
  case (4 sets xs)
  from choose_each [of xs "goes env False", OF 4(4)] goes_set 4(1,3) show ?case by blast
next
  case (5 d sets)
  from entries_exist [OF 5(3), of "goes env sets"] 5(4) goes_dict [OF _ 5(2)] show ?case by blast
next
  case (6 sets)
  show ?case by (rule goes_encoded [OF bs_notset]) (simp_all add: reordered.intros)
next
  case (7 uri extra x sets)
  show ?case by (rule goes_encoded [OF bs_dataset [OF 7]]) (simp_all add: reordered.intros)
next
  case (8 sets v d s)
  then show ?case using goes_param by blast
qed

text \<open>
  C36. The encoding that DAGs are stored in is read back: whether or not unknown types are refused, a
  value is encoded without error and decoded as it was, but for the order of its sets; without sets,
  exactly.
\<close>

theorem base_serialization_roundtrip:
  assumes "bs_travels env sets x"
  shows "\<exists>y x'. (\<forall>strict. bs_serialize env strict x = Inr y) \<and> bs_deserialize env y = Inr x' \<and> reordered x x' \<and> (sets \<or> x' = x)"
  using bs_travels_goes [OF assms] by (auto simp: goes_def)

definition sample_base :: base_env where
  "sample_base = \<lparr>se_match = (\<lambda>_. False), se_importable = (\<lambda>_. False), se_class = (\<lambda>_. sample_class), se_modules = (\<lambda>_. None),
     se_hashable = (\<lambda>_. False), se_str = (\<lambda>_. ''...''), be_scheme = (\<lambda>_. ''s3''), be_param_class = (\<lambda>_. None), be_other = (\<lambda>_. None)\<rparr>"

definition sample_default :: pyobj where
  "sample_default = param_object (OTuple [OInt 1, ODict [(KStr ''__type'', OInt 2)]]) (OStr ''text'') (ODict [])"

lemma base_serialization_roundtrip_witness:
  "\<exists>y x'. (\<forall>strict. bs_serialize sample_base strict sample_default = Inr y) \<and> bs_deserialize sample_base y = Inr x' \<and>
    reordered sample_default x' \<and> (False \<or> x' = sample_default)"
proof (rule base_serialization_roundtrip)
  have "bs_travels sample_base False (ODict [(KStr ''__type'', OInt 2)])" "bs_travels sample_base False (ODict [])"
    by (rule bs_travels.intros; auto simp: dict_keys_def intro: bs_travels.intros)+
  moreover from calculation have "bs_travels sample_base False (OTuple [OInt 1, ODict [(KStr ''__type'', OInt 2)]])"
    by (intro bs_travels.intros(3)) (auto intro: bs_travels.intros(1))
  ultimately show "bs_travels sample_base False sample_default"
    unfolding sample_default_def by (intro bs_travels.intros(8)) (auto intro: bs_travels.intros(1))
qed

text \<open>A list in a parameter that holds both a number and a dict is not decoded: the dict keeps its encoding.\<close>

lemma mixed_list_stays_encoded:
  "bind_err (bs_serialize sample_base True (param_object (OList [OInt 1, ODict []]) ONone (ODict []))) (bs_deserialize sample_base) =
    Inr (param_object (OList [OInt 1, encode_as ''dict'' (ODict [])]) ONone (ODict []))"
  by code_simp

end
