(* ===== verification/Spec2Isabelle.thy ===== *)
theory Spec2Isabelle
  imports Loop_Laws Skipping Building_Laws Marking_Laws Base_Serialization
begin

text \<open>
  The scheduling core of Apache Airflow as a functional model, with the theorems that make it correct.

  \<^bold>\<open>The program.\<close> A DAG file defines operators and their order. The scheduler
  (\<open>jobs/scheduler_job_runner.py\<close>) creates dag runs when the timetable of a DAG says so, creates the task
  instances of a run, moves a task instance to SCHEDULED when its dependencies are met, queues it when
  its pool and the concurrency limits have room, and hands it to an executor; the task process moves
  the task instance through its life (\<open>models/taskinstance.py\<close>), and when all task instances of a run are
  finished the run is decided. All processes share one database and nothing else.

  \<^bold>\<open>The model.\<close> A database session is the record \<open>db\<close> of its tables (\<open>Metadata\<close>); a row is a record
  with the columns of the class; an object of the session is its row, found by primary key. An operation
  is a function from the database to the database, an exception the \<open>Inl\<close> side of a sum with the
  exception classes of the code as constructors of \<open>error\<close>, and a loop whose end depends on user code is
  a \<open>partial_function\<close> into \<open>option\<close>. Python integers are \<open>int\<close>, instants and durations count
  microseconds. Every definition computes, given its parameters.

  \<^bold>\<open>Theories\<close>, in the order they build on each other, with the files under \<open>airflow/\<close> they model:
  \<^item> \<open>Prelude\<close>: dictionaries, counters, results, generic lemmas. \<open>States\<close>: \<open>utils/state.py\<close>,
    \<open>utils/trigger_rule.py\<close>, \<open>utils/weight_rule.py\<close>, \<open>utils/types.py\<close>, task instance keys. \<open>Metadata\<close>: errors,
    operators, DAGs, the tables.
  \<^item> \<open>Dag_Graph\<close>, \<open>Dag_Cycles\<close>: \<open>models/taskmixin.py\<close>, \<open>models/abstractoperator.py\<close>, \<open>models/dag.py\<close>,
    \<open>utils/task_group.py\<close>, \<open>utils/dag_cycle_tester.py\<close>: edges, setup and teardown tasks, transitive
    relatives, the cycle check (its walk terminates by a measure on the colours of the nodes), the
    topological order, priority weights.
  \<^item> \<open>Dag_Building\<close>, \<open>Building_Laws\<close>: how a DAG file makes tasks and groups and relates them
    (\<open>models/taskmixin.py\<close>, \<open>utils/task_group.py\<close>, \<open>models/baseoperator.py\<close>, \<open>models/dag.py\<close>), over a store of
    objects, with an inductive set of the stores a file can build. Walks over nested groups take as
    many steps as there are groups, which is enough (\<open>group_tasks_fuel\<close>), since a group is created after
    its parent.
  \<^item> \<open>Pools\<close>: \<open>models/pool.py\<close>. \<open>Executor\<close>: \<open>executors/base_executor.py\<close>, \<open>local_executor.py\<close>,
    \<open>sequential_executor.py\<close>; the contract of a backend is the locale \<open>executor_backend\<close>, interpreted for
    both; the interleavings of scheduler and workers are an inductive step relation.
  \<^item> \<open>Task_State\<close>, \<open>Ti_Filter\<close>: retry delays, XComs, lookups of \<open>models/taskinstance.py\<close> and \<open>models/xcom.py\<close>.
    \<open>Task_Mapping\<close>: dynamic mapping (\<open>models/expandinput.py\<close>, \<open>xcom_arg.py\<close>, \<open>taskmap.py\<close>,
    \<open>mappedoperator.py\<close>).
  \<^item> \<open>Ti_Deps\<close>, \<open>Trigger_Rule_Dep\<close>, \<open>Dep_Laws\<close>: \<open>ti_deps/\<close>, all dependency checks of the scheduler and the
    trigger rules.
  \<^item> \<open>Scheduler\<close>, \<open>Scheduler_Events\<close>: the critical section and the executor's events in
    \<open>jobs/scheduler_job_runner.py\<close>.
  \<^item> \<open>Ti_Lifecycle\<close>, \<open>Triggers\<close>, \<open>Ti_Laws\<close>: starting, finishing, deferring, rescheduling, failing, retrying
    and clearing task instances, datasets (\<open>datasets/manager.py\<close>) and triggers (\<open>models/trigger.py\<close>).
  \<^item> \<open>Task_Expansion\<close>, \<open>Dag_Runs\<close>, \<open>Run_Laws\<close>, \<open>Run_Integrity\<close>: \<open>models/dagrun.py\<close>: expanding mapped tasks, which
    task instances are ready, the state of a run, keeping its task instances in step with the DAG.
  \<^item> \<open>Timetables\<close>, \<open>Timetable_Laws\<close>: \<open>timetables/\<close>; the contract of a timetable of data intervals is the
    locale \<open>interval_schedule\<close>, interpreted for cron expressions and for deltas.
  \<^item> \<open>Skipping\<close>: \<open>models/skipmixin.py\<close>, \<open>operators/branch.py\<close>, \<open>operators/latest_only.py\<close> and the short
    circuit operator of \<open>operators/python.py\<close>: branching and the decision kept for cleared tasks.
  \<^item> \<open>Dag_Schedule\<close>, \<open>Scheduler_Loop\<close>, \<open>Schedule_Laws\<close>, \<open>Loop_Laws\<close>: creating, starting and timing out runs
    (\<open>models/dag.py\<close>, \<open>jobs/scheduler_job_runner.py\<close>), the body of the scheduling loop, which composes
    the theories above, and the periodic clean-ups.
  \<^item> \<open>Dag_Subset\<close>, \<open>Marking\<close>, \<open>Marking_Laws\<close>: what a user does to task instances and runs: the part of a DAG
    that matched tasks need, clearing with the task instances of other DAGs that markers point to
    (\<open>models/dag.py\<close>), setting the state of tasks and of runs (\<open>api/common/mark_tasks.py\<close>). A call for
    another DAG is made for a marker not visited before, so a depth of one more than there are task
    instances is enough (\<open>Marking_Laws\<close>).
  \<^item> \<open>Serde\<close>, \<open>Serde_Laws\<close>: values as text: \<open>serialization/serde.py\<close>, \<open>serialization/serializers/builtin.py\<close>, the
    JSON encoder and decoder of XComs (\<open>utils/json.py\<close>, \<open>models/xcom.py\<close>). The recursion depth the code
    counts is the fuel; the round trips hold from some depth on, whatever it is configured to. \<open>Base_Serialization\<close>: the encoding of values in stored
    DAGs (\<open>serialization/serialized_objects.py\<close>, \<open>models/param.py\<close>, \<open>datasets/__init__.py\<close>).

  \<^bold>\<open>What is shown.\<close> Limits: pools, \<open>max_active_tasks\<close>, \<open>max_active_tis_per_dag(run)\<close>, \<open>max_active_runs\<close>,
  the executor's parallelism and the capacity of a triggerer are never exceeded by the operation that
  takes from them. Nothing is lost: a heartbeat conserves tasks, the critical section hands over what it
  queued, an orphan of a dead scheduler is adopted or reset, and \<open>verify_integrity\<close> leaves every task of
  a DAG with a task instance. Nothing happens twice: runs, map indexes and task instances keep unique
  keys. Decisions follow the rules: trigger rules refine their documentation, a run is decided by its
  task instances, retries are bounded, priorities are respected. Loops end: the cycle check, the search
  for ready task instances although it visits what it creates, the listing of the runs of a schedule,
  one turn of the scheduling loop, the search across DAGs for what to clear. Schedules cut time without
  gap or overlap. What a DAG file builds is well-formed, which the theorems on graphs assume, so is
  every subset of it, and a branch skips exactly what it does not follow. A user's mark changes exactly the chosen task instances, a task marked as
  successful leaves nothing downstream held back, and a failed run has nothing left that runs or waits. What is written as text
  is read back as it was, and the values that are not are shown by example.

  \<^bold>\<open>Parameters\<close> are what the repository does not hold: SHA-1 (any integer function), \<open>croniter\<close>, the
  timezone database and \<open>relativedelta\<close> (a record of functions; the laws assumed of \<open>croniter\<close> are its
  documentation: the nearest match in either direction; timezones are assumed to have a fixed offset),
  the policy hook for task instances (assumed to keep their identity where a theorem needs it), the
  rows other sessions hold locked, row ids, clocks (one instant per call), the outcome of running an
  operator, regular expressions for run ids, and configuration values.

  \<^bold>\<open>Not modelled\<close>: the web interface, the REST API and the command line; the providers; processes,
  heartbeats and asyncio (the triggerer, the DAG file processor, the job classes), of which the
  database operations are modelled where the scheduler shares them; serialisation of whole DAGs, pickling; logs, metrics,
  listeners, e-mails, SLAs; database migrations and the state of a session after a failed statement;
  backfill and the debug executor; labels on edges, constructors of mapped operators, suffixes for
  group ids that collide; DAGs made by \<open>SubDagOperator\<close>, deprecated arguments, marking a whole task
  group; templates (what those of a marker render to is a parameter) and the execution of user code.
\<close>

end
